(* ===== verification/Prelude.thy ===== *)
theory Prelude
  imports Main "HOL-Library.Word"
begin

text \<open>
  Shared foundation of the development: what the Go language and its standard library mean in
  the model. A Go function that returns \<^verbatim>\<open>(value, error)\<close> or may panic has an \<open>outcome\<close>: the
  value, the error it returns, or the message it panics with. Arbitrary-precision integers
  (\<^verbatim>\<open>math/big.Int\<close>) are HOL integers; the operations of that package the sources call are defined
  here with Go's meaning (truncated division, Euclidean modulus, bit length of the absolute
  value). \<^verbatim>\<open>int64\<close> and \<^verbatim>\<open>uint64\<close> are 64-bit words.
\<close>

named_theorems go_simps \<open>unfolding rules of the embedding of Go's control flow\<close>
named_theorems big_simps \<open>what the operations of math/big compute\<close>

section \<open>Outcomes: values, errors and panics\<close>

datatype 'a outcome = Ok 'a | Err string | Panic string

primrec obind :: "'a outcome \<Rightarrow> ('a \<Rightarrow> 'b outcome) \<Rightarrow> 'b outcome" where
  "obind (Ok a) f = f a"
| "obind (Err e) f = Err e"
| "obind (Panic p) f = Panic p"

primrec is_Ok :: "'a outcome \<Rightarrow> bool" where
  "is_Ok (Ok a) = True"
| "is_Ok (Err e) = False"
| "is_Ok (Panic p) = False"

text \<open>A deferred \<^verbatim>\<open>recover\<close> turns a panic into an error.\<close>

primrec recovered :: "string \<Rightarrow> 'a outcome \<Rightarrow> 'a outcome" where
  "recovered msg (Ok a) = Ok a"
| "recovered msg (Err e) = Err e"
| "recovered msg (Panic p) = Err msg"

text \<open>\<^verbatim>\<open>if err != nil { panic(err) }\<close> turns an error into a panic.\<close>

primrec panic_on_err :: "'a outcome \<Rightarrow> 'a outcome" where
  "panic_on_err (Ok a) = Ok a"
| "panic_on_err (Err e) = Panic e"
| "panic_on_err (Panic p) = Panic p"

lemma obind_eq_Ok [go_simps]: "obind m f = Ok b \<longleftrightarrow> (\<exists>a. m = Ok a \<and> f a = Ok b)"
  by (cases m) auto

lemma obind_cong [fundef_cong]:
  "m = m' \<Longrightarrow> (\<And>a. m' = Ok a \<Longrightarrow> f a = f' a) \<Longrightarrow> obind m f = obind m' f'"
  by (cases m') auto

lemma obind_assoc: "obind (obind m f) g = obind m (\<lambda>a. obind (f a) g)"
  by (cases m) auto

lemma obind_Ok_right [simp]: "obind m Ok = m"
  by (cases m) auto

lemma panic_on_err_eq_Ok [simp]: "panic_on_err m = Ok a \<longleftrightarrow> m = Ok a"
  by (cases m) auto

lemma panic_on_err_not_Err [simp]: "panic_on_err m \<noteq> Err e"
  by (cases m) auto

lemma recovered_eq_Ok [simp]: "recovered msg m = Ok a \<longleftrightarrow> m = Ok a"
  by (cases m) auto

lemma recovered_not_Panic [simp]: "recovered msg m \<noteq> Panic p"
  by (cases m) auto

lemma is_Ok_iff: "is_Ok m \<longleftrightarrow> (\<exists>a. m = Ok a)"
  by (cases m) auto

text \<open>A loop over a slice whose body may fail: the first failure ends it.\<close>

fun ofold :: "('b \<Rightarrow> 'a \<Rightarrow> 'a outcome) \<Rightarrow> 'b list \<Rightarrow> 'a \<Rightarrow> 'a outcome" where
  "ofold f [] s = Ok s"
| "ofold f (x # xs) s = obind (f x s) (ofold f xs)"

text \<open>An invariant of the body is an invariant of the loop.\<close>

lemma ofold_invariant:
  assumes "ofold f xs s = Ok s'" and "I s"
    and "\<And>x s s'. x \<in> set xs \<Longrightarrow> I s \<Longrightarrow> f x s = Ok s' \<Longrightarrow> I s'"
  shows "I s'"
  using assms
proof (induction xs arbitrary: s)
  case Nil
  then show ?case by simp
next
  case (Cons x xs)
  then obtain t where "f x s = Ok t" and "ofold f xs t = Ok s'"
    by (auto simp: go_simps)
  with Cons show ?case by (metis list.set_intros)
qed

lemma ofold_append: "ofold f (xs @ ys) s = obind (ofold f xs s) (ofold f ys)"
proof (induction xs arbitrary: s)
  case (Cons x xs)
  then show ?case by (cases "f x s") simp_all
qed simp

text \<open>A loop whose body always succeeds is a fold.\<close>

lemma ofold_Ok: "(\<And>x s. x \<in> set xs \<Longrightarrow> f x s = Ok (g x s)) \<Longrightarrow> ofold f xs s = Ok (fold g xs s)"
  by (induction xs arbitrary: s) simp_all

text \<open>A loop that collects results.\<close>

fun omap :: "('a \<Rightarrow> 'b outcome) \<Rightarrow> 'a list \<Rightarrow> 'b list outcome" where
  "omap f [] = Ok []"
| "omap f (x # xs) = obind (f x) (\<lambda>y. obind (omap f xs) (\<lambda>ys. Ok (y # ys)))"

lemma omap_Ok_iff: "omap f xs = Ok ys \<longleftrightarrow> list_all2 (\<lambda>x y. f x = Ok y) xs ys"
  by (induction xs arbitrary: ys) (auto simp: go_simps list_all2_Cons1)

section \<open>Integers of \<^verbatim>\<open>math/big\<close> and machine integers\<close>

type_synonym int64 = "64 word"
type_synonym uint64 = "64 word"

text \<open>\<^verbatim>\<open>Quo\<close> and \<^verbatim>\<open>Rem\<close> truncate towards zero, \<^verbatim>\<open>Mod\<close> is Euclidean.\<close>

definition quo :: "int \<Rightarrow> int \<Rightarrow> int" where
  "quo a b = sgn a * sgn b * (\<bar>a\<bar> div \<bar>b\<bar>)"

definition rem :: "int \<Rightarrow> int \<Rightarrow> int" where
  "rem a b = a - b * quo a b"

definition emod :: "int \<Rightarrow> int \<Rightarrow> int" where
  "emod a b = a mod \<bar>b\<bar>"

fun bit_len_nat :: "nat \<Rightarrow> nat" where
  "bit_len_nat n = (if n = 0 then 0 else Suc (bit_len_nat (n div 2)))"

declare bit_len_nat.simps [simp del]

definition BitLen :: "int \<Rightarrow> nat" where
  "BitLen i = bit_len_nat (nat \<bar>i\<bar>)"

lemma bit_len_nat_le_iff: "bit_len_nat n \<le> k \<longleftrightarrow> n < 2 ^ k"
proof (induction n arbitrary: k rule: bit_len_nat.induct)
  case (1 n)
  show ?case
  proof (cases "n = 0")
    case True
    then show ?thesis by (simp add: bit_len_nat.simps)
  next
    case False
    show ?thesis
    proof (cases k)
      case 0
      with False show ?thesis by (simp add: bit_len_nat.simps)
    next
      case (Suc j)
      have "bit_len_nat n \<le> k \<longleftrightarrow> n div 2 < 2 ^ j"
        using False "1.IH"[of j] Suc by (simp add: bit_len_nat.simps[of n])
      also have "\<dots> \<longleftrightarrow> n < 2 ^ k"
        using Suc by (simp add: div_less_iff_less_mult mult.commute)
      finally show ?thesis .
    qed
  qed
qed

lemma BitLen_le_iff [big_simps]: "BitLen i \<le> k \<longleftrightarrow> \<bar>i\<bar> < 2 ^ k"
proof -
  have "nat \<bar>i\<bar> < 2 ^ k \<longleftrightarrow> \<bar>i\<bar> < 2 ^ k"
    by (metis abs_ge_zero nat_less_iff of_nat_numeral of_nat_power)
  then show ?thesis by (simp add: BitLen_def bit_len_nat_le_iff)
qed

lemma BitLen_gt_iff [big_simps]: "k < BitLen i \<longleftrightarrow> 2 ^ k \<le> \<bar>i\<bar>"
  using BitLen_le_iff[of i k] by linarith

lemma BitLen_minus [simp]: "BitLen (- i) = BitLen i"
  by (simp add: BitLen_def)

lemma BitLen_abs [simp]: "BitLen \<bar>i\<bar> = BitLen i"
  by (simp add: BitLen_def)

lemma BitLen_0 [simp]: "BitLen 0 = 0"
  by (simp add: BitLen_def bit_len_nat.simps)

lemma BitLen_eq_0_iff: "BitLen i = 0 \<longleftrightarrow> i = 0"
  using BitLen_le_iff[of i 0] by auto

lemma quo_0_right [simp]: "quo a 0 = 0"
  by (simp add: quo_def)

lemma quo_0_left [simp]: "quo 0 b = 0"
  by (simp add: quo_def)

lemma quo_nonneg_eq: "0 \<le> a \<Longrightarrow> 0 < b \<Longrightarrow> quo a b = a div b"
  by (cases "a = 0") (auto simp: quo_def)

lemma quo_minus_left: "quo (- a) b = - quo a b"
  by (simp add: quo_def)

lemma quo_minus_right: "quo a (- b) = - quo a b"
  by (simp add: quo_def)

lemma rem_minus_left: "rem (- a) b = - rem a b"
  by (simp add: rem_def quo_minus_left)

lemma rem_nonneg_eq: "0 \<le> a \<Longrightarrow> 0 < b \<Longrightarrow> rem a b = a mod b"
  by (simp add: rem_def quo_nonneg_eq minus_mult_div_eq_mod)

lemma quo_mult_cancel [simp]: "b \<noteq> 0 \<Longrightarrow> quo (a * b) b = a"
  by (simp add: quo_def abs_mult sgn_mult mult.assoc) (simp add: mult.commute sgn_if abs_if)

lemma abs_quo_le: "\<bar>quo a b\<bar> \<le> \<bar>a\<bar>"
proof (cases "b = 0")
  case False
  have "0 \<le> \<bar>a\<bar> div \<bar>b\<bar>"
    using False by (simp add: pos_imp_zdiv_nonneg_iff)
  then have "\<bar>quo a b\<bar> \<le> \<bar>a\<bar> div \<bar>b\<bar>"
    by (auto simp: quo_def abs_mult sgn_if)
  also have "\<dots> \<le> \<bar>a\<bar>"
    using False zdiv_mono2[of "\<bar>a\<bar>" 1 "\<bar>b\<bar>"] by simp
  finally show ?thesis .
qed simp

lemma BitLen_mono: "\<bar>a\<bar> \<le> \<bar>b\<bar> \<Longrightarrow> BitLen a \<le> BitLen b"
  using BitLen_le_iff[of a "BitLen b"] BitLen_le_iff[of b "BitLen b"] by auto

text \<open>Truncation: the quotient is within one of the exact ratio, towards zero.\<close>

lemma quo_lower: "0 < b \<Longrightarrow> 0 \<le> a \<Longrightarrow> b * quo a b \<le> a \<and> a < b * quo a b + b"
  by (simp add: quo_nonneg_eq)
     (metis add.commute mult_div_mod_eq pos_mod_bound pos_mod_sign add_le_cancel_left add_less_cancel_left
       add.right_neutral)

lemma quo_mono: "0 < b \<Longrightarrow> a \<le> a' \<Longrightarrow> quo a b \<le> quo a' b"
proof -
  assume b: "0 < b" and le: "a \<le> a'"
  consider "0 \<le> a" | "a < 0" "0 \<le> a'" | "a' < 0" by linarith
  then show ?thesis
  proof cases
    case 1
    with b le show ?thesis by (simp add: quo_nonneg_eq zdiv_mono1)
  next
    case 2
    have "quo a b = - ((- a) div b)"
      using 2 b quo_minus_left[of "-a" b] by (simp add: quo_nonneg_eq)
    moreover have "0 \<le> (- a) div b" using 2 b by (simp add: pos_imp_zdiv_nonneg_iff)
    moreover have "0 \<le> quo a' b" using 2 b by (simp add: quo_nonneg_eq pos_imp_zdiv_nonneg_iff)
    ultimately show ?thesis by simp
  next
    case 3
    have "quo a b = - ((- a) div b)" and "quo a' b = - ((- a') div b)"
      using 3 le b quo_minus_left[of "-a" b] quo_minus_left[of "-a'" b]
      by (simp_all add: quo_nonneg_eq)
    with le b show ?thesis by (simp add: zdiv_mono1)
  qed
qed

lemma quo_exact [simp]: "b \<noteq> 0 \<Longrightarrow> quo (b * a) b = a"
  by (simp add: mult.commute)

text \<open>Floor and ceiling of a ratio with a positive denominator.\<close>

lemma floor_div_bounds:
  assumes "0 < (P::int)"
  shows "x div P * P \<le> x" and "x < (x div P + 1) * P"
proof -
  have "x div P * P + x mod P = x" "0 \<le> x mod P" "x mod P < P" using assms by simp_all
  moreover have "(x div P + 1) * P = x div P * P + P" by (simp add: distrib_right)
  ultimately show "x div P * P \<le> x" "x < (x div P + 1) * P" by linarith+
qed

lemma ceil_div_bounds:
  assumes "0 < (P::int)"
  shows "(- ((- x) div P) - 1) * P < x" and "x \<le> - ((- x) div P) * P"
proof -
  have "(- ((- x) div P) - 1) * P = - (((- x) div P + 1) * P)" by (simp add: left_diff_distrib distrib_right)
  moreover have "- ((- x) div P) * P = - ((- x) div P * P)" by simp
  ultimately show "(- ((- x) div P) - 1) * P < x" and "x \<le> - ((- x) div P) * P"
    using floor_div_bounds[OF assms, of "- x"] by linarith+
qed

lemma ceil_div_nonneg:
  assumes "0 < (P::int)"
  shows "- ((- x) div P) = (if x mod P = 0 then x div P else x div P + 1)"
  using assms zdiv_zminus1_eq_if[of P x] by auto

text \<open>Signed 64-bit sums and differences that do not overflow are exact.\<close>

lemma sint_of_int_64: "- (2 ^ 63) \<le> k \<Longrightarrow> k < 2 ^ 63 \<Longrightarrow> sint (word_of_int k :: 64 word) = k"
  unfolding sint_sbintrunc' by (simp add: signed_take_bit_int_eq_self)

lemma sint_range_64: "- (2 ^ 63) \<le> sint (x :: 64 word)" "sint (x :: 64 word) < 2 ^ 63"
  using sint_ge[of x] sint_lt[of x] by simp_all

lemma sint_add_64:
  fixes x y :: "64 word"
  assumes "- (2 ^ 63) \<le> sint x + sint y" "sint x + sint y < 2 ^ 63"
  shows "sint (x + y) = sint x + sint y"
proof -
  have "x + y = word_of_int (sint x + sint y)" by simp
  then show ?thesis using sint_of_int_64[OF assms] by metis
qed

lemma sint_diff_64:
  fixes x y :: "64 word"
  assumes "- (2 ^ 63) \<le> sint x - sint y" "sint x - sint y < 2 ^ 63"
  shows "sint (x - y) = sint x - sint y"
proof -
  have "x - y = word_of_int (sint x - sint y)" by simp
  then show ?thesis using sint_of_int_64[OF assms] by metis
qed

end
