(* ===== verification/Checked_Arith.thy ===== *)
theory Checked_Arith
  imports Prelude
begin

text \<open>
  The interface of the overflow-checked number types: \<open>add\<close> and \<open>sub\<close> are exact and panic exactly
  when the result needs more than \<open>bits\<close> bits. The lemmas a client needs are proved here once;
  \<^verbatim>\<open>osmomath.BigInt\<close> and \<^verbatim>\<open>osmomath.BigDec\<close> are instances (theories \<open>Big_Int\<close> and \<open>Big_Dec\<close>).
\<close>

definition in_bits :: "nat \<Rightarrow> int \<Rightarrow> bool" where
  "in_bits n i \<longleftrightarrow> \<bar>i\<bar> < 2 ^ n"

text \<open>The overflow check that ends the arithmetic methods of both types.\<close>

definition checked :: "nat \<Rightarrow> string \<Rightarrow> int \<Rightarrow> int outcome" where
  "checked n msg i = (if n < BitLen i then Panic msg else Ok i)"

lemma checked_eq_Ok [simp]: "checked n msg i = Ok j \<longleftrightarrow> in_bits n i \<and> j = i"
  by (auto simp: checked_def in_bits_def big_simps)

lemma checked_eq_Panic: "checked n msg i = Panic p \<longleftrightarrow> \<not> in_bits n i \<and> p = msg"
  by (auto simp: checked_def in_bits_def big_simps)

lemma checked_not_Err [simp]: "checked n msg i \<noteq> Err e"
  by (simp add: checked_def)

lemma checked_in_bits: "in_bits n i \<Longrightarrow> checked n msg i = Ok i"
  by simp

lemma in_bits_0 [simp]: "in_bits n 0"
  by (simp add: in_bits_def)

lemma in_bits_minus [simp]: "in_bits n (- i) \<longleftrightarrow> in_bits n i"
  by (simp add: in_bits_def)

lemma in_bits_abs [simp]: "in_bits n \<bar>i\<bar> \<longleftrightarrow> in_bits n i"
  by (simp add: in_bits_def)

lemma in_bits_mono: "in_bits n i \<Longrightarrow> \<bar>j\<bar> \<le> \<bar>i\<bar> \<Longrightarrow> in_bits n j"
  by (simp add: in_bits_def)

lemma in_bits_weaken: "in_bits n i \<Longrightarrow> n \<le> m \<Longrightarrow> in_bits m i"
  by (simp add: in_bits_def) (metis one_le_numeral order_less_le_trans power_increasing)

lemma in_bits_BitLen: "in_bits n i \<longleftrightarrow> BitLen i \<le> n"
  by (simp add: in_bits_def big_simps)

locale checked_arith =
  fixes bits :: nat
    and add :: "int \<Rightarrow> int \<Rightarrow> int outcome"
    and sub :: "int \<Rightarrow> int \<Rightarrow> int outcome"
    and neg :: "int \<Rightarrow> int"
  assumes add_law: "add a b = checked bits ''Int overflow'' (a + b)"
    and sub_law: "sub a b = checked bits ''Int overflow'' (a - b)"
    and neg_law: "neg a = - a"
begin

lemma add_Ok_iff: "add a b = Ok c \<longleftrightarrow> in_bits bits (a + b) \<and> c = a + b"
  by (simp add: add_law)

lemma sub_Ok_iff: "sub a b = Ok c \<longleftrightarrow> in_bits bits (a - b) \<and> c = a - b"
  by (simp add: sub_law)

lemma add_commute: "add a b = add b a"
  by (simp add: add_law add.commute)

lemma sub_is_add_neg: "sub a b = add a (neg b)"
  by (simp add: add_law sub_law neg_law)

lemma add_range: "add a b = Ok c \<Longrightarrow> in_bits bits c"
  by (auto simp: add_Ok_iff)

lemma sub_range: "sub a b = Ok c \<Longrightarrow> in_bits bits c"
  by (auto simp: sub_Ok_iff)

lemma add_sub_cancel: "in_bits bits a \<Longrightarrow> add a b = Ok c \<Longrightarrow> sub c b = Ok a"
  by (simp add: add_Ok_iff sub_Ok_iff)

lemma sub_add_cancel: "in_bits bits a \<Longrightarrow> sub a b = Ok c \<Longrightarrow> add c b = Ok a"
  by (simp add: add_Ok_iff sub_Ok_iff)

lemma add_no_overflow:
  assumes "in_bits k a" and "in_bits k b" and "k < bits"
  shows "add a b = Ok (a + b)"
proof -
  have "\<bar>a + b\<bar> < 2 ^ Suc k" using assms by (auto simp: in_bits_def)
  also have "(2::int) ^ Suc k \<le> 2 ^ bits" using assms(3) by (intro power_increasing) auto
  finally show ?thesis by (simp add: add_Ok_iff in_bits_def)
qed

lemma sum_loop_exact: "ofold (\<lambda>x s. add s x) xs s = Ok t \<Longrightarrow> t = s + sum_list xs"
proof (induction xs arbitrary: s)
  case (Cons x xs)
  then have "ofold (\<lambda>x s. add s x) xs (s + x) = Ok t" by (auto simp: go_simps add_Ok_iff)
  then have "t = s + x + sum_list xs" by (rule Cons.IH)
  then show ?case by simp
qed simp

end

end
