(* ===== verification/Big_Int.thy ===== *)
theory Big_Int
  imports Checked_Arith
begin

text \<open>
  \<^verbatim>\<open>src/osmomath/int.go\<close>: the integer type \<^verbatim>\<open>BigInt\<close>, a \<^verbatim>\<open>big.Int\<close> whose operations panic when the
  result needs more than 1024 bits. A \<^verbatim>\<open>BigInt\<close> with a non-nil pointer is the integer it points
  to; the methods that look at the pointer itself take an \<open>int option\<close>, \<open>None\<close> being nil.
\<close>

section \<open>Helpers on big.Int\<close>

definition maxBitLen :: nat where
  "maxBitLen = 1024"

text \<open>\<^verbatim>\<open>Cmp\<close> of \<^verbatim>\<open>math/big\<close>: -1, 0 or 1.\<close>

definition Cmp :: "int \<Rightarrow> int \<Rightarrow> int" where
  "Cmp i i2 = (if i < i2 then - 1 else if i = i2 then 0 else 1)"

definition int_equal :: "int \<Rightarrow> int \<Rightarrow> bool" where
  "int_equal i i2 \<longleftrightarrow> Cmp i i2 = 0"

definition int_gt :: "int \<Rightarrow> int \<Rightarrow> bool" where
  "int_gt i i2 \<longleftrightarrow> Cmp i i2 = 1"

definition int_gte :: "int \<Rightarrow> int \<Rightarrow> bool" where
  "int_gte i i2 \<longleftrightarrow> Cmp i i2 \<ge> 0"

definition int_lt :: "int \<Rightarrow> int \<Rightarrow> bool" where
  "int_lt i i2 \<longleftrightarrow> Cmp i i2 = - 1"

definition int_lte :: "int \<Rightarrow> int \<Rightarrow> bool" where
  "int_lte i i2 \<longleftrightarrow> Cmp i i2 \<le> 0"

definition int_add :: "int \<Rightarrow> int \<Rightarrow> int" where
  "int_add i i2 = i + i2"

definition int_sub :: "int \<Rightarrow> int \<Rightarrow> int" where
  "int_sub i i2 = i - i2"

definition int_mul :: "int \<Rightarrow> int \<Rightarrow> int" where
  "int_mul i i2 = i * i2"

definition int_div :: "int \<Rightarrow> int \<Rightarrow> int" where
  "int_div i i2 = quo i i2"

definition int_mod :: "int \<Rightarrow> int \<Rightarrow> int" where
  "int_mod i i2 = emod i i2"

definition int_neg :: "int \<Rightarrow> int" where
  "int_neg i = - i"

definition int_abs :: "int \<Rightarrow> int" where
  "int_abs i = \<bar>i\<bar>"

definition int_min :: "int \<Rightarrow> int \<Rightarrow> int" where
  "int_min i i2 = (if Cmp i i2 = 1 then i2 else i)"

definition int_max :: "int \<Rightarrow> int \<Rightarrow> int" where
  "int_max i i2 = (if Cmp i i2 = - 1 then i2 else i)"

section \<open>Construction and conversion\<close>

type_synonym BigInt = int

definition BigInt_IsNil :: "BigInt option \<Rightarrow> bool" where
  "BigInt_IsNil i \<longleftrightarrow> i = None"

definition BigInt_BigInt :: "BigInt option \<Rightarrow> int option" where
  "BigInt_BigInt i = (if BigInt_IsNil i then None else i)"

definition NewInt :: "int64 \<Rightarrow> BigInt" where
  "NewInt n = sint n"

definition NewIntFromUint64 :: "uint64 \<Rightarrow> BigInt" where
  "NewIntFromUint64 n = uint n"

definition NewIntFromBigInt :: "int option \<Rightarrow> BigInt option outcome" where
  "NewIntFromBigInt i =
     (case i of
        None \<Rightarrow> Ok None
      | Some v \<Rightarrow> if BitLen v > maxBitLen then Panic ''NewIntFromBigInt() out of bound'' else Ok (Some v))"

definition NewIntWithDecimal :: "int64 \<Rightarrow> int64 \<Rightarrow> BigInt outcome" where
  "NewIntWithDecimal n dec =
     (if sint dec < 0 then Panic ''NewIntWithDecimal() decimal is negative''
      else let e = (10::int) ^ nat (sint dec); i = sint n * e
           in if BitLen i > maxBitLen then Panic ''NewIntWithDecimal() out of bound'' else Ok i)"

definition ZeroInt :: BigInt where "ZeroInt = 0"

definition OneInt :: BigInt where "OneInt = 1"

definition BigInt_IsInt64 :: "BigInt \<Rightarrow> bool" where
  "BigInt_IsInt64 i \<longleftrightarrow> - (2 ^ 63) \<le> i \<and> i < 2 ^ 63"

definition BigInt_Int64 :: "BigInt \<Rightarrow> int64 outcome" where
  "BigInt_Int64 i = (if \<not> BigInt_IsInt64 i then Panic ''Int64() out of bound'' else Ok (word_of_int i))"

definition BigInt_IsUint64 :: "BigInt \<Rightarrow> bool" where
  "BigInt_IsUint64 i \<longleftrightarrow> 0 \<le> i \<and> i < 2 ^ 64"

definition BigInt_Uint64 :: "BigInt \<Rightarrow> uint64 outcome" where
  "BigInt_Uint64 i = (if \<not> BigInt_IsUint64 i then Panic ''Uint64() out of bounds'' else Ok (word_of_int i))"

section \<open>Predicates and comparison\<close>

definition BigInt_Sign :: "BigInt \<Rightarrow> int" where
  "BigInt_Sign i = sgn i"

definition BigInt_IsZero :: "BigInt \<Rightarrow> bool" where
  "BigInt_IsZero i \<longleftrightarrow> sgn i = 0"

definition BigInt_IsNegative :: "BigInt \<Rightarrow> bool" where
  "BigInt_IsNegative i \<longleftrightarrow> sgn i = - 1"

definition BigInt_IsPositive :: "BigInt \<Rightarrow> bool" where
  "BigInt_IsPositive i \<longleftrightarrow> sgn i = 1"

definition BigInt_Equal :: "BigInt \<Rightarrow> BigInt \<Rightarrow> bool" where
  "BigInt_Equal i i2 = int_equal i i2"

definition BigInt_GT :: "BigInt \<Rightarrow> BigInt \<Rightarrow> bool" where
  "BigInt_GT i i2 = int_gt i i2"

definition BigInt_GTE :: "BigInt \<Rightarrow> BigInt \<Rightarrow> bool" where
  "BigInt_GTE i i2 = int_gte i i2"

definition BigInt_LT :: "BigInt \<Rightarrow> BigInt \<Rightarrow> bool" where
  "BigInt_LT i i2 = int_lt i i2"

definition BigInt_LTE :: "BigInt \<Rightarrow> BigInt \<Rightarrow> bool" where
  "BigInt_LTE i i2 = int_lte i i2"

section \<open>Arithmetic\<close>

definition BigInt_Add :: "BigInt \<Rightarrow> BigInt \<Rightarrow> BigInt outcome" where
  "BigInt_Add i i2 =
     (let res = int_add i i2
      in if BitLen res > maxBitLen then Panic ''Int overflow'' else Ok res)"

definition BigInt_AddRaw :: "BigInt \<Rightarrow> int64 \<Rightarrow> BigInt outcome" where
  "BigInt_AddRaw i i2 = BigInt_Add i (NewInt i2)"

definition BigInt_Sub :: "BigInt \<Rightarrow> BigInt \<Rightarrow> BigInt outcome" where
  "BigInt_Sub i i2 =
     (let res = int_sub i i2
      in if BitLen res > maxBitLen then Panic ''Int overflow'' else Ok res)"

definition BigInt_SubRaw :: "BigInt \<Rightarrow> int64 \<Rightarrow> BigInt outcome" where
  "BigInt_SubRaw i i2 = BigInt_Sub i (NewInt i2)"

definition BigInt_Mul :: "BigInt \<Rightarrow> BigInt \<Rightarrow> BigInt outcome" where
  "BigInt_Mul i i2 =
     (if int (BitLen i) + int (BitLen i2) - 1 > int maxBitLen then Panic ''Int overflow''
      else let res = int_mul i i2
           in if BitLen res > maxBitLen then Panic ''Int overflow'' else Ok res)"

definition BigInt_MulRaw :: "BigInt \<Rightarrow> int64 \<Rightarrow> BigInt outcome" where
  "BigInt_MulRaw i i2 = BigInt_Mul i (NewInt i2)"

definition BigInt_Quo :: "BigInt \<Rightarrow> BigInt \<Rightarrow> BigInt outcome" where
  "BigInt_Quo i i2 = (if sgn i2 = 0 then Panic ''Division by zero'' else Ok (int_div i i2))"

definition BigInt_QuoRaw :: "BigInt \<Rightarrow> int64 \<Rightarrow> BigInt outcome" where
  "BigInt_QuoRaw i i2 = BigInt_Quo i (NewInt i2)"

definition BigInt_Mod :: "BigInt \<Rightarrow> BigInt \<Rightarrow> BigInt outcome" where
  "BigInt_Mod i i2 = (if BigInt_Sign i2 = 0 then Panic ''division-by-zero'' else Ok (int_mod i i2))"

definition BigInt_ModRaw :: "BigInt \<Rightarrow> int64 \<Rightarrow> BigInt outcome" where
  "BigInt_ModRaw i i2 = BigInt_Mod i (NewInt i2)"

definition BigInt_Neg :: "BigInt \<Rightarrow> BigInt" where
  "BigInt_Neg i = int_neg i"

definition BigInt_Abs :: "BigInt \<Rightarrow> BigInt" where
  "BigInt_Abs i = int_abs i"

definition MinInt :: "BigInt \<Rightarrow> BigInt \<Rightarrow> BigInt" where
  "MinInt i1 i2 = int_min i1 i2"

definition MaxInt :: "BigInt \<Rightarrow> BigInt \<Rightarrow> BigInt" where
  "MaxInt i i2 = int_max i i2"

section \<open>What the comparisons and the arithmetic compute\<close>

lemma Cmp_cases: "Cmp i j = - 1 \<longleftrightarrow> i < j" "Cmp i j = 0 \<longleftrightarrow> i = j" "Cmp i j = 1 \<longleftrightarrow> j < i"
  "Cmp i j \<ge> 0 \<longleftrightarrow> j \<le> i" "Cmp i j \<le> 0 \<longleftrightarrow> i \<le> j" "Cmp i j > 0 \<longleftrightarrow> j < i" "Cmp i j < 0 \<longleftrightarrow> i < j"
  by (auto simp: Cmp_def)

lemmas int_cmp_defs = int_equal_def int_gt_def int_gte_def int_lt_def int_lte_def

lemma BigInt_comparisons [big_simps]:
  "BigInt_Equal i j \<longleftrightarrow> i = j" "BigInt_GT i j \<longleftrightarrow> i > j" "BigInt_GTE i j \<longleftrightarrow> i \<ge> j"
  "BigInt_LT i j \<longleftrightarrow> i < j" "BigInt_LTE i j \<longleftrightarrow> i \<le> j"
  by (auto simp: BigInt_Equal_def BigInt_GT_def BigInt_GTE_def BigInt_LT_def BigInt_LTE_def
      int_cmp_defs Cmp_cases)

lemma BigInt_signs [big_simps]:
  "BigInt_IsZero i \<longleftrightarrow> i = 0" "BigInt_IsNegative i \<longleftrightarrow> i < 0" "BigInt_IsPositive i \<longleftrightarrow> i > 0"
  by (auto simp: BigInt_IsZero_def BigInt_IsNegative_def BigInt_IsPositive_def sgn_if split: if_splits)

lemma MinInt_eq [big_simps]: "MinInt i j = min i j" and MaxInt_eq [big_simps]: "MaxInt i j = max i j"
  by (auto simp: MinInt_def MaxInt_def int_min_def int_max_def Cmp_def)

lemma BigInt_Neg_eq [big_simps]: "BigInt_Neg i = - i" and BigInt_Abs_eq [big_simps]: "BigInt_Abs i = \<bar>i\<bar>"
  by (simp_all add: BigInt_Neg_def int_neg_def BigInt_Abs_def int_abs_def)

interpretation big_int: checked_arith maxBitLen BigInt_Add BigInt_Sub BigInt_Neg
  by unfold_locales
    (simp_all add: BigInt_Add_def BigInt_Sub_def int_add_def int_sub_def checked_def Let_def big_simps)

text \<open>The bit lengths of the factors decide the bit length of the product up to one.\<close>

lemma BitLen_mult_ge:
  assumes "a \<noteq> 0" "b \<noteq> 0"
  shows "BitLen a + BitLen b \<le> Suc (BitLen (a * b))"
proof -
  obtain m n where m: "BitLen a = Suc m" and n: "BitLen b = Suc n"
    using assms BitLen_eq_0_iff by (metis not0_implies_Suc)
  have "2 ^ m \<le> \<bar>a\<bar>" "2 ^ n \<le> \<bar>b\<bar>"
    using BitLen_gt_iff[of m a] BitLen_gt_iff[of n b] m n by auto
  then have "(2::int) ^ (m + n) \<le> \<bar>a * b\<bar>"
    by (simp add: power_add abs_mult mult_mono)
  then have "m + n < BitLen (a * b)" by (simp add: big_simps)
  with m n show ?thesis by simp
qed

lemma BigInt_Mul_checked:
  assumes "in_bits maxBitLen a" "in_bits maxBitLen b"
  shows "BigInt_Mul a b = checked maxBitLen ''Int overflow'' (a * b)"
proof (cases "a = 0 \<or> b = 0")
  case True
  with assms show ?thesis
    by (auto simp: BigInt_Mul_def int_mul_def checked_def in_bits_BitLen)
next
  case False
  then have "BitLen a + BitLen b \<le> Suc (BitLen (a * b))" by (simp add: BitLen_mult_ge)
  then show ?thesis
    by (auto simp: BigInt_Mul_def int_mul_def checked_def Let_def)
qed

text \<open>
  Multiplication of two in-range integers is exact or panics, and it panics exactly when the
  product needs more than 1024 bits: the early bit-length test never rejects a representable product.
\<close>

theorem BigInt_Mul_exact_or_panic:
  assumes "in_bits maxBitLen a" "in_bits maxBitLen b"
  shows "BigInt_Mul a b = (if \<bar>a * b\<bar> < 2 ^ 1024 then Ok (a * b) else Panic ''Int overflow'')"
  using assms by (simp add: BigInt_Mul_checked checked_def big_simps maxBitLen_def)

theorem BigInt_Mul_exact_or_panic_witness:
  "BigInt_Mul (2 ^ 600) (2 ^ 423) = Ok (2 ^ 1023) \<and> BigInt_Mul (2 ^ 600) (2 ^ 424) = Panic ''Int overflow''"
  using BigInt_Mul_exact_or_panic[of "2 ^ 600" "2 ^ 423"] BigInt_Mul_exact_or_panic[of "2 ^ 600" "2 ^ 424"]
  by (simp add: in_bits_def maxBitLen_def)

text \<open>Division and modulus agree with the definition of truncated and Euclidean division.\<close>

lemma int_div_rem: "a = b * int_div a b + rem a b"
  by (simp add: int_div_def rem_def)

lemma BigInt_Quo_range: "in_bits n a \<Longrightarrow> BigInt_Quo a b = Ok c \<Longrightarrow> in_bits n c"
  using abs_quo_le[of a b] by (auto simp: BigInt_Quo_def int_div_def in_bits_def split: if_splits)

lemma BigInt_Mod_range: "BigInt_Mod a b = Ok c \<Longrightarrow> 0 \<le> c \<and> c < \<bar>b\<bar>"
  by (auto simp: BigInt_Mod_def BigInt_Sign_def int_mod_def emod_def sgn_if split: if_splits)

lemma NewInt_in_bits: "in_bits 64 (NewInt n)"
proof -
  have "- (2 ^ 63) \<le> sint n" "sint n < 2 ^ 63"
    using sint_ge[of n] sint_lt[of n] by auto
  then show ?thesis by (simp add: NewInt_def in_bits_def abs_if)
qed

lemma BigInt_Int64_NewInt: "BigInt_Int64 (NewInt n) = Ok n"
  using sint_ge[of n] sint_lt[of n] by (simp add: BigInt_Int64_def BigInt_IsInt64_def NewInt_def)

lemma BigInt_Uint64_NewInt: "BigInt_Uint64 (NewIntFromUint64 n) = Ok n"
  using uint_lt2p[of n] by (simp add: BigInt_Uint64_def BigInt_IsUint64_def NewIntFromUint64_def)

end
