(* ===== verification/Fixed_Point.thy ===== *)
theory Fixed_Point
  imports Checked_Arith
begin

text \<open>
  The interface of fixed-point rounding. A \<open>rounding\<close> chops an integer by a unit, is monotone and exact
  on multiples of the unit; a \<open>fixed_mul\<close> is a multiplication built from one, a \<open>fixed_quo\<close> a
  division built from one (the dividend scaled by the unit twice, the quotient truncated, then
  chopped). Bankers' rounding, truncation and rounding up of \<^verbatim>\<open>BigDec\<close> are the instances.
\<close>

locale rounding =
  fixes chop :: "int \<Rightarrow> int" and unit :: int
  assumes unit_pos: "0 < unit"
    and chop_exact: "chop (k * unit) = k"
    and chop_mono: "a \<le> b \<Longrightarrow> chop a \<le> chop b"
begin

lemma chop_ge_div: "d div unit \<le> chop d"
proof -
  have "d div unit * unit \<le> d" using unit_pos by (metis div_mult_mod_eq le_add_same_cancel1 pos_mod_sign)
  then show ?thesis using chop_mono chop_exact by metis
qed

lemma chop_le_div: "chop d \<le> d div unit + 1"
proof -
  have "d \<le> (d div unit + 1) * unit"
    using unit_pos by (metis add.commute add_left_mono div_mult_mod_eq distrib_right less_imp_le
        mult_1 pos_mod_bound)
  then show ?thesis using chop_mono chop_exact by metis
qed

lemma chop_error: "\<bar>chop d * unit - d\<bar> < unit"
proof (cases "d mod unit = 0")
  case True
  then obtain k where "d = k * unit" by (metis dvd_div_mult_self mod_0_imp_dvd)
  then show ?thesis using unit_pos by (simp add: chop_exact)
next
  case False
  then have m: "0 < d mod unit" "d mod unit < unit"
    using unit_pos pos_mod_sign[of unit d] pos_mod_bound[of unit d] by linarith+
  have d: "d = d div unit * unit + d mod unit" by simp
  consider "chop d = d div unit" | "chop d = d div unit + 1"
    using chop_ge_div[of d] chop_le_div[of d] by linarith
  then show ?thesis
  proof cases
    case 1
    then have "chop d * unit = d div unit * unit" by simp
    then have "chop d * unit - d = - (d mod unit)" using d by linarith
    with m show ?thesis by simp
  next
    case 2
    then have "chop d * unit = d div unit * unit + unit" by (simp add: distrib_right)
    then have "chop d * unit - d = unit - d mod unit" using d by linarith
    with m show ?thesis by simp
  qed
qed

lemma chop_0 [simp]: "chop 0 = 0"
  using chop_exact[of 0] by simp

lemma chop_nonneg: "0 \<le> d \<Longrightarrow> 0 \<le> chop d"
  using chop_mono[of 0 d] by simp

lemma chop_nonpos: "d \<le> 0 \<Longrightarrow> chop d \<le> 0"
  using chop_mono[of d 0] by simp

end

locale fixed_mul = rounding +
  fixes bits :: nat and mul :: "int \<Rightarrow> int \<Rightarrow> int outcome"
  assumes mul_law: "mul a b = checked bits ''Int overflow'' (chop (a * b))"
begin

lemma mul_Ok_iff: "mul a b = Ok c \<longleftrightarrow> in_bits bits (chop (a * b)) \<and> c = chop (a * b)"
  by (simp add: mul_law)

lemma mul_commute: "mul a b = mul b a"
  by (simp add: mul_law mult.commute)

lemma mul_one: "in_bits bits a \<Longrightarrow> mul a unit = Ok a"
  by (simp add: mul_law chop_exact)

lemma mul_whole: "mul (a * unit) b = checked bits ''Int overflow'' (a * b)"
proof -
  have "chop (a * unit * b) = a * b" using chop_exact[of "a * b"] by (simp add: ac_simps)
  then show ?thesis by (simp add: mul_law)
qed

lemma mul_error: "mul a b = Ok c \<Longrightarrow> \<bar>c * unit - a * b\<bar> < unit"
  using chop_error[of "a * b"] by (auto simp: mul_Ok_iff)

lemma mul_nonneg: "0 \<le> a \<Longrightarrow> 0 \<le> b \<Longrightarrow> mul a b = Ok c \<Longrightarrow> 0 \<le> c"
  by (auto simp: mul_Ok_iff intro!: chop_nonneg)

lemma mul_mono:
  "0 \<le> a \<Longrightarrow> a \<le> a' \<Longrightarrow> 0 \<le> b \<Longrightarrow> b \<le> b' \<Longrightarrow> mul a b = Ok c \<Longrightarrow> mul a' b' = Ok c' \<Longrightarrow> c \<le> c'"
  by (auto simp: mul_Ok_iff intro!: chop_mono mult_mono)

text \<open>Rounding does not cross a multiple of the unit.\<close>

lemma mul_ge: "mul a b = Ok c \<Longrightarrow> m * unit \<le> a * b \<Longrightarrow> m \<le> c"
  using chop_mono[of "m * unit" "a * b"] by (simp add: mul_Ok_iff chop_exact)

lemma mul_le: "mul a b = Ok c \<Longrightarrow> a * b \<le> m * unit \<Longrightarrow> c \<le> m"
  using chop_mono[of "a * b" "m * unit"] by (simp add: mul_Ok_iff chop_exact)

lemma mul_at: "a * b = k * unit \<Longrightarrow> in_bits bits k \<Longrightarrow> mul a b = Ok k"
  by (simp add: mul_Ok_iff chop_exact)

lemma mul_exists: "0 \<le> a * b \<Longrightarrow> a * b \<le> m * unit \<Longrightarrow> in_bits bits m \<Longrightarrow> \<exists>c. mul a b = Ok c \<and> 0 \<le> c \<and> c \<le> m"
  using chop_mono[of "a * b" "m * unit"] chop_nonneg[of "a * b"] by (simp add: mul_Ok_iff chop_exact in_bits_def)

lemma mul_range: "mul a b = Ok c \<Longrightarrow> in_bits bits c"
  by (auto simp: mul_Ok_iff)

end

locale fixed_quo = rounding +
  fixes bits :: nat and quot :: "int \<Rightarrow> int \<Rightarrow> int outcome"
  assumes quot_law: "b \<noteq> 0 \<Longrightarrow> quot a b = checked bits ''Int overflow'' (chop (quo (a * unit * unit) b))"
    and quot_zero: "quot a 0 = Panic ''division by zero''"
begin

lemma quot_Ok_iff:
  "quot a b = Ok c \<longleftrightarrow> b \<noteq> 0 \<and> in_bits bits (chop (quo (a * unit * unit) b)) \<and> c = chop (quo (a * unit * unit) b)"
  by (cases "b = 0") (auto simp: quot_law quot_zero)

lemma quot_one: "in_bits bits a \<Longrightarrow> quot a unit = Ok a"
  using unit_pos by (simp add: quot_Ok_iff chop_exact)

lemma quot_range: "quot a b = Ok c \<Longrightarrow> in_bits bits c"
  by (auto simp: quot_Ok_iff)

lemma quot_self:
  assumes "a \<noteq> 0" and "in_bits bits unit"
  shows "quot a a = Ok unit"
proof -
  have "quo (a * unit * unit) a = unit * unit"
    using assms(1) quo_exact[of a "unit * unit"] by (simp add: mult.assoc)
  then show ?thesis using assms chop_exact[of unit] by (simp add: quot_Ok_iff)
qed

lemma quot_mono:
  assumes "0 < b" "a \<le> a'" "quot a b = Ok c" "quot a' b = Ok c'"
  shows "c \<le> c'"
proof -
  have "a * unit * unit \<le> a' * unit * unit"
    using assms(2) unit_pos by (simp add: mult_right_mono)
  then have "quo (a * unit * unit) b \<le> quo (a' * unit * unit) b"
    using assms(1) by (rule quo_mono[rotated])
  then show ?thesis using assms(3,4) by (auto simp: quot_Ok_iff intro: chop_mono)
qed

lemma quot_ge:
  assumes "quot a b = Ok c" "0 < b" "m * b \<le> a * unit"
  shows "m \<le> c"
proof -
  have "m * unit * b \<le> a * unit * unit"
    using mult_right_mono[OF assms(3), of unit] unit_pos by (simp add: ac_simps)
  then have "quo (m * unit * b) b \<le> quo (a * unit * unit) b" using assms(2) by (rule quo_mono[rotated])
  then have "chop (m * unit) \<le> c" using assms(1,2) chop_mono by (simp add: quot_Ok_iff)
  then show ?thesis by (simp add: chop_exact)
qed

lemma quot_le:
  assumes "quot a b = Ok c" "0 < b" "a * unit \<le> m * b"
  shows "c \<le> m"
proof -
  have "a * unit * unit \<le> m * unit * b"
    using mult_right_mono[OF assms(3), of unit] unit_pos by (simp add: ac_simps)
  then have "quo (a * unit * unit) b \<le> quo (m * unit * b) b" using assms(2) by (rule quo_mono[rotated])
  then have "c \<le> chop (m * unit)" using assms(1,2) chop_mono by (simp add: quot_Ok_iff)
  then show ?thesis by (simp add: chop_exact)
qed

lemma quot_at:
  assumes "b \<noteq> 0" "a * unit = k * b" "in_bits bits k"
  shows "quot a b = Ok k"
proof -
  have "a * unit * unit = (k * unit) * b" by (simp add: assms(2) ac_simps)
  then have "quo (a * unit * unit) b = k * unit" using quo_mult_cancel[OF assms(1), of "k * unit"] by (simp only:)
  then show ?thesis using assms(1,3) by (simp add: quot_Ok_iff chop_exact)
qed

lemma quot_exists:
  assumes "0 \<le> a" "0 < b" "a * unit \<le> m * b" "in_bits bits m"
  shows "\<exists>c. quot a b = Ok c \<and> 0 \<le> c \<and> c \<le> m"
proof -
  let ?c = "chop (quo (a * unit * unit) b)"
  have "a * unit * unit \<le> m * unit * b"
    using mult_right_mono[OF assms(3), of unit] unit_pos by (simp add: ac_simps)
  then have "quo (a * unit * unit) b \<le> quo (m * unit * b) b" using assms(2) by (rule quo_mono[rotated])
  then have "?c \<le> m" using assms(2) chop_mono[of "quo (a * unit * unit) b" "m * unit"] by (simp add: chop_exact)
  moreover have "0 \<le> ?c" using assms(1,2) unit_pos by (intro chop_nonneg) (simp add: quo_nonneg_eq pos_imp_zdiv_nonneg_iff)
  ultimately show ?thesis using assms(2,4) by (simp add: quot_Ok_iff in_bits_def)
qed

text \<open>
  The two roundings together: for a non-negative dividend and a positive divisor the result is less
  than one unit above the exact ratio, and more than one unit and one part in \<open>unit\<close> below it.
\<close>

lemma quot_error:
  assumes "0 \<le> a" "0 < b" "quot a b = Ok c"
  shows "(c - 1) * b < a * unit" and "a * unit * unit < ((c + 1) * unit) * b"
proof -
  let ?q = "quo (a * unit * unit) b"
  have n: "0 \<le> a * unit * unit" using assms(1) unit_pos by simp
  have q: "b * ?q \<le> a * unit * unit" "a * unit * unit < b * ?q + b"
    using quo_lower[OF assms(2) n] by auto
  have c: "c = chop ?q" using assms(3) by (simp add: quot_Ok_iff)
  have e: "c * unit - ?q < unit" "?q - c * unit < unit"
    using chop_error[of ?q] c by auto
  have "(c - 1) * unit < ?q" using e(1) by (simp add: left_diff_distrib)
  then have "b * ((c - 1) * unit) < b * ?q" using assms(2) by (rule mult_strict_left_mono)
  also note q(1)
  finally have "((c - 1) * b) * unit < (a * unit) * unit" by (simp add: ac_simps)
  then show "(c - 1) * b < a * unit" using unit_pos by (simp add: mult_less_cancel_right)
  have "?q + 1 \<le> (c + 1) * unit" using e(2) by (simp add: distrib_right)
  then have "b * (?q + 1) \<le> b * ((c + 1) * unit)" using assms(2) by (simp add: mult_left_mono)
  with q(2) show "a * unit * unit < ((c + 1) * unit) * b" by (simp add: distrib_left ac_simps)
qed

end

end
