(* ===== verification/Big_Dec.thy ===== *)
theory Big_Dec
  imports Big_Int Fixed_Point
begin

text \<open>
  \<^verbatim>\<open>src/osmomath/decimal.go\<close>, the arithmetic of \<^verbatim>\<open>BigDec\<close>: decimals with 36 places held as the integer
  \<open>d * 10^36\<close>, at most 1144 bits long. A \<^verbatim>\<open>BigDec\<close> is the integer its pointer points to. A mutating
  method (\<^verbatim>\<open>AddMut\<close>, \<^verbatim>\<open>MulMut\<close>, \<^verbatim>\<open>QuoMut\<close>) is a function to the value the receiver holds
  afterwards, which is also the value it returns; a function that changes its argument and returns
  another integer gives the pair of both. What the code takes from \<^verbatim>\<open>cosmos-sdk\<close> (\<^verbatim>\<open>sdk.Precision\<close>,
  \<^verbatim>\<open>sdk.NewDecFromBigIntWithPrec\<close>, \<^verbatim>\<open>sdk.Dec.BigInt\<close>) is an argument of the conversions.
\<close>

section \<open>Constants and construction\<close>

type_synonym BigDec = int

definition Precision :: nat where "Precision = 36"

definition DecimalPrecisionBits :: nat where "DecimalPrecisionBits = 120"

definition maxDecBitLen :: nat where "maxDecBitLen = maxBitLen + DecimalPrecisionBits"

definition maxApproxRootIterations :: nat where "maxApproxRootIterations = 100"

definition maxLog2Iterations :: nat where "maxLog2Iterations = 300"

text \<open>\<^verbatim>\<open>Exp(x, y, nil)\<close> of \<^verbatim>\<open>math/big\<close>: 1 for an exponent that is not positive.\<close>

definition Exp :: "int \<Rightarrow> int \<Rightarrow> int" where
  "Exp x y = (if y \<le> 0 then 1 else x ^ nat y)"

definition precisionReuse :: int where "precisionReuse = Exp 10 (int Precision)"

definition precisionReuseSDK :: "nat \<Rightarrow> int" where
  "precisionReuseSDK sdkPrecision = Exp 10 (int sdkPrecision)"

definition fivePrecision :: int where "fivePrecision = quo precisionReuse 2"

definition precisionInt :: int where "precisionInt = precisionReuse"

definition ZeroDec :: BigDec where "ZeroDec = 0"

definition OneDec :: BigDec where "OneDec = precisionInt"

definition SmallestDec :: BigDec where "SmallestDec = 1"

definition calcPrecisionMultiplier :: "int64 \<Rightarrow> int outcome" where
  "calcPrecisionMultiplier prec =
     (if sint prec > int Precision then Panic ''too much precision''
      else let zerosToAdd = of_nat Precision - prec in Ok (Exp 10 (sint zerosToAdd)))"

text \<open>The table the package's \<^verbatim>\<open>init\<close> fills.\<close>

definition precisionMultipliers :: "int outcome list" where
  "precisionMultipliers = map (\<lambda>i. calcPrecisionMultiplier (of_nat i)) [0..<Suc Precision]"

definition precisionMultiplier :: "int64 \<Rightarrow> int outcome" where
  "precisionMultiplier prec =
     (if sint prec > int Precision then Panic ''too much precision''
      else if sint prec < 0 then Panic ''index out of range''
      else precisionMultipliers ! nat (sint prec))"

definition NewDecWithPrec :: "int64 \<Rightarrow> int64 \<Rightarrow> BigDec outcome" where
  "NewDecWithPrec i prec = obind (precisionMultiplier prec) (\<lambda>m. Ok (sint i * m))"

definition NewBigDec :: "int64 \<Rightarrow> BigDec outcome" where
  "NewBigDec i = NewDecWithPrec i 0"

definition NewDecFromBigIntWithPrec :: "int \<Rightarrow> int64 \<Rightarrow> BigDec outcome" where
  "NewDecFromBigIntWithPrec i prec = obind (precisionMultiplier prec) (\<lambda>m. Ok (i * m))"

definition NewDecFromBigInt :: "int \<Rightarrow> BigDec outcome" where
  "NewDecFromBigInt i = NewDecFromBigIntWithPrec i 0"

definition NewDecFromIntWithPrec :: "BigInt \<Rightarrow> int64 \<Rightarrow> BigDec outcome" where
  "NewDecFromIntWithPrec i prec = obind (precisionMultiplier prec) (\<lambda>m. Ok (i * m))"

definition NewDecFromInt :: "BigInt \<Rightarrow> BigDec outcome" where
  "NewDecFromInt i = NewDecFromIntWithPrec i 0"

definition BigInt_ToDec :: "BigInt \<Rightarrow> BigDec outcome" where
  "BigInt_ToDec i = NewDecFromInt i"

section \<open>Predicates\<close>

definition BigDec_IsNil :: "BigDec option \<Rightarrow> bool" where
  "BigDec_IsNil d \<longleftrightarrow> d = None"

definition BigDec_IsZero :: "BigDec \<Rightarrow> bool" where "BigDec_IsZero d \<longleftrightarrow> sgn d = 0"

definition BigDec_IsNegative :: "BigDec \<Rightarrow> bool" where "BigDec_IsNegative d \<longleftrightarrow> sgn d = - 1"

definition BigDec_IsPositive :: "BigDec \<Rightarrow> bool" where "BigDec_IsPositive d \<longleftrightarrow> sgn d = 1"

definition BigDec_Equal :: "BigDec \<Rightarrow> BigDec \<Rightarrow> bool" where "BigDec_Equal d d2 \<longleftrightarrow> Cmp d d2 = 0"

definition BigDec_GT :: "BigDec \<Rightarrow> BigDec \<Rightarrow> bool" where "BigDec_GT d d2 \<longleftrightarrow> Cmp d d2 > 0"

definition BigDec_GTE :: "BigDec \<Rightarrow> BigDec \<Rightarrow> bool" where "BigDec_GTE d d2 \<longleftrightarrow> Cmp d d2 \<ge> 0"

definition BigDec_LT :: "BigDec \<Rightarrow> BigDec \<Rightarrow> bool" where "BigDec_LT d d2 \<longleftrightarrow> Cmp d d2 < 0"

definition BigDec_LTE :: "BigDec \<Rightarrow> BigDec \<Rightarrow> bool" where "BigDec_LTE d d2 \<longleftrightarrow> Cmp d d2 \<le> 0"

definition BigDec_Neg :: "BigDec \<Rightarrow> BigDec" where "BigDec_Neg d = - d"

definition BigDec_Abs :: "BigDec \<Rightarrow> BigDec" where "BigDec_Abs d = \<bar>d\<bar>"

definition BigDec_BigInt :: "BigDec option \<Rightarrow> int option" where
  "BigDec_BigInt d = (if BigDec_IsNil d then None else d)"

definition BigDec_Clone :: "BigDec \<Rightarrow> BigDec" where "BigDec_Clone d = d"

section \<open>Rounding: the chop functions\<close>

text \<open>
  \<^verbatim>\<open>chopPrecisionAndRound\<close> works in place on its argument in every branch; its value is both what
  it returns and what the argument holds afterwards.
\<close>

function chopPrecisionAndRound :: "int \<Rightarrow> int" where
  "chopPrecisionAndRound d =
     (if sgn d = - 1 then - chopPrecisionAndRound (- d)
      else let q = quo d precisionReuse; r = rem d precisionReuse
           in if sgn r = 0 then q
              else if Cmp r fivePrecision = - 1 then q
              else if Cmp r fivePrecision = 1 then q + 1
              else if even q then q else q + 1)"
  by pat_completeness auto
termination
  by (relation "measure (\<lambda>d. if d < 0 then 1 else 0)") (auto simp: sgn_if split: if_splits)

declare chopPrecisionAndRound.simps [simp del]

definition chopPrecisionAndTruncate :: "int \<Rightarrow> int" where
  "chopPrecisionAndTruncate d = quo d precisionReuse"

text \<open>
  \<^verbatim>\<open>chopPrecisionAndRoundUp\<close>: what it returns and what its argument holds afterwards. For a negative
  argument it negates the argument in place and calls \<^verbatim>\<open>chopPrecisionAndTruncate\<close>, which divides by the
  package's own \<open>precisionReuse\<close> whatever the second argument is, and gives a new integer.
\<close>

definition chopPrecisionAndRoundUp :: "int \<Rightarrow> int \<Rightarrow> int \<times> int" where
  "chopPrecisionAndRoundUp d precision =
     (if sgn d = - 1 then (- chopPrecisionAndTruncate (- d), - d)
      else let q = quo d precision; r = rem d precision
           in if sgn r = 0 then (q, q) else (q + 1, q + 1))"

definition chopPrecisionAndRoundUpBigDec :: "int \<Rightarrow> int \<times> int" where
  "chopPrecisionAndRoundUpBigDec d = chopPrecisionAndRoundUp d precisionReuse"

definition chopPrecisionAndRoundUpSDKDec :: "nat \<Rightarrow> int \<Rightarrow> int \<times> int" where
  "chopPrecisionAndRoundUpSDKDec sdkPrecision d = chopPrecisionAndRoundUp d (precisionReuseSDK sdkPrecision)"

definition chopPrecisionAndRoundNonMutative :: "int \<Rightarrow> int" where
  "chopPrecisionAndRoundNonMutative d = chopPrecisionAndRound d"

section \<open>Arithmetic\<close>

definition BigDec_AddMut :: "BigDec \<Rightarrow> BigDec \<Rightarrow> BigDec outcome" where
  "BigDec_AddMut d d2 = (let i = d + d2 in if BitLen i > maxDecBitLen then Panic ''Int overflow'' else Ok i)"

definition BigDec_Add :: "BigDec \<Rightarrow> BigDec \<Rightarrow> BigDec outcome" where
  "BigDec_Add d d2 = BigDec_AddMut (BigDec_Clone d) d2"

definition BigDec_Sub :: "BigDec \<Rightarrow> BigDec \<Rightarrow> BigDec outcome" where
  "BigDec_Sub d d2 = (let res = d - d2 in if BitLen res > maxDecBitLen then Panic ''Int overflow'' else Ok res)"

definition BigDec_MulMut :: "BigDec \<Rightarrow> BigDec \<Rightarrow> BigDec outcome" where
  "BigDec_MulMut d d2 =
     (let i = chopPrecisionAndRound (d * d2)
      in if BitLen i > maxDecBitLen then Panic ''Int overflow'' else Ok i)"

definition BigDec_Mul :: "BigDec \<Rightarrow> BigDec \<Rightarrow> BigDec outcome" where
  "BigDec_Mul d d2 = BigDec_MulMut (BigDec_Clone d) d2"

definition BigDec_MulTruncate :: "BigDec \<Rightarrow> BigDec \<Rightarrow> BigDec outcome" where
  "BigDec_MulTruncate d d2 =
     (let mul = d * d2; chopped = chopPrecisionAndTruncate mul
      in if BitLen chopped > maxDecBitLen then Panic ''Int overflow'' else Ok chopped)"

definition BigDec_MulRoundUp :: "BigDec \<Rightarrow> BigDec \<Rightarrow> BigDec outcome" where
  "BigDec_MulRoundUp d d2 =
     (let mul = d * d2; chopped = fst (chopPrecisionAndRoundUpBigDec mul)
      in if BitLen chopped > maxDecBitLen then Panic ''Int overflow'' else Ok chopped)"

definition BigDec_MulInt :: "BigDec \<Rightarrow> BigInt \<Rightarrow> BigDec outcome" where
  "BigDec_MulInt d i = (let mul = d * i in if BitLen mul > maxDecBitLen then Panic ''Int overflow'' else Ok mul)"

definition BigDec_MulInt64 :: "BigDec \<Rightarrow> int64 \<Rightarrow> BigDec outcome" where
  "BigDec_MulInt64 d i =
     (let mul = d * sint i in if BitLen mul > maxDecBitLen then Panic ''Int overflow'' else Ok mul)"

text \<open>\<^verbatim>\<open>big.Int.Quo\<close> panics on a zero divisor.\<close>

definition bigQuo :: "int \<Rightarrow> int \<Rightarrow> int outcome" where
  "bigQuo a b = (if b = 0 then Panic ''division by zero'' else Ok (quo a b))"

definition BigDec_QuoMut :: "BigDec \<Rightarrow> BigDec \<Rightarrow> BigDec outcome" where
  "BigDec_QuoMut d d2 =
     obind (bigQuo (d * precisionReuse * precisionReuse) d2) (\<lambda>q.
       let i = chopPrecisionAndRound q
       in if BitLen i > maxDecBitLen then Panic ''Int overflow'' else Ok i)"

definition BigDec_Quo :: "BigDec \<Rightarrow> BigDec \<Rightarrow> BigDec outcome" where
  "BigDec_Quo d d2 = BigDec_QuoMut (BigDec_Clone d) d2"

definition BigDec_QuoRaw :: "BigDec \<Rightarrow> int64 \<Rightarrow> BigDec outcome" where
  "BigDec_QuoRaw d d2 =
     obind (bigQuo (d * precisionReuse) (sint d2)) (\<lambda>q.
       let chopped = chopPrecisionAndRound q
       in if BitLen chopped > maxDecBitLen then Panic ''Int overflow'' else Ok chopped)"

definition BigDec_QuoTruncate :: "BigDec \<Rightarrow> BigDec \<Rightarrow> BigDec outcome" where
  "BigDec_QuoTruncate d d2 =
     obind (bigQuo (d * precisionReuse * precisionReuse) d2) (\<lambda>q.
       let chopped = chopPrecisionAndTruncate q
       in if BitLen chopped > maxDecBitLen then Panic ''Int overflow'' else Ok chopped)"

definition BigDec_QuoRoundUp :: "BigDec \<Rightarrow> BigDec \<Rightarrow> BigDec outcome" where
  "BigDec_QuoRoundUp d d2 =
     obind (bigQuo (d * precisionReuse * precisionReuse) d2) (\<lambda>q.
       let chopped = fst (chopPrecisionAndRoundUpBigDec q)
       in if BitLen chopped > maxDecBitLen then Panic ''Int overflow'' else Ok chopped)"

definition BigDec_QuoInt :: "BigDec \<Rightarrow> BigInt \<Rightarrow> BigDec outcome" where
  "BigDec_QuoInt d i = bigQuo d i"

definition BigDec_QuoInt64 :: "BigDec \<Rightarrow> int64 \<Rightarrow> BigDec outcome" where
  "BigDec_QuoInt64 d i = bigQuo d (sint i)"

section \<open>Conversion to integers\<close>

definition BigDec_IsInteger :: "BigDec \<Rightarrow> bool" where
  "BigDec_IsInteger d \<longleftrightarrow> sgn (rem d precisionReuse) = 0"

text \<open>A method called on a nil \<^verbatim>\<open>BigInt\<close> dereferences a nil pointer.\<close>

definition deref :: "'a option \<Rightarrow> 'a outcome" where
  "deref p = (case p of None \<Rightarrow> Panic ''nil pointer dereference'' | Some a \<Rightarrow> Ok a)"

definition BigDec_RoundInt64 :: "BigDec \<Rightarrow> int64 outcome" where
  "BigDec_RoundInt64 d = BigInt_Int64 (chopPrecisionAndRoundNonMutative d)"

definition BigDec_RoundInt :: "BigDec \<Rightarrow> BigInt outcome" where
  "BigDec_RoundInt d = obind (NewIntFromBigInt (Some (chopPrecisionAndRoundNonMutative d))) deref"

definition BigDec_TruncateInt64 :: "BigDec \<Rightarrow> int64 outcome" where
  "BigDec_TruncateInt64 d = BigInt_Int64 (chopPrecisionAndTruncate d)"

definition BigDec_TruncateInt :: "BigDec \<Rightarrow> BigInt outcome" where
  "BigDec_TruncateInt d = obind (NewIntFromBigInt (Some (chopPrecisionAndTruncate d))) deref"

definition BigDec_TruncateDec :: "BigDec \<Rightarrow> BigDec outcome" where
  "BigDec_TruncateDec d = NewDecFromBigInt (chopPrecisionAndTruncate d)"

definition BigDec_Ceil :: "BigDec \<Rightarrow> BigDec outcome" where
  "BigDec_Ceil d =
     (let q = quo d precisionReuse; r = rem d precisionReuse
      in if Cmp r 0 = 0 then NewDecFromBigInt q
         else if sgn r = - 1 then NewDecFromBigInt q
         else NewDecFromBigInt (q + 1))"

section \<open>Conversion to and from sdk.Dec\<close>

definition BigDec_SDKDec :: "nat \<Rightarrow> (int \<Rightarrow> nat \<Rightarrow> 'd outcome) \<Rightarrow> BigDec \<Rightarrow> 'd outcome" where
  "BigDec_SDKDec sdkPrecision newDec d =
     (let precisionDiff = int Precision - int sdkPrecision;
          precisionFactor = Exp 10 precisionDiff
      in if precisionDiff < 0 then Panic ''invalid decimal precision''
         else obind (bigQuo d precisionFactor) (\<lambda>i. newDec i sdkPrecision))"

text \<open>The result and what the receiver holds afterwards: the receiver's own integer is chopped.\<close>

definition BigDec_SDKDecRoundUp :: "nat \<Rightarrow> (int \<Rightarrow> nat \<Rightarrow> 'd outcome) \<Rightarrow> BigDec \<Rightarrow> ('d \<times> BigDec) outcome" where
  "BigDec_SDKDecRoundUp sdkPrecision newDec d =
     (case chopPrecisionAndRoundUpSDKDec sdkPrecision d of
        (chopped, receiver) \<Rightarrow> obind (newDec chopped sdkPrecision) (\<lambda>r. Ok (r, receiver)))"

definition BigDecFromSDKDec :: "nat \<Rightarrow> ('d \<Rightarrow> int) \<Rightarrow> 'd \<Rightarrow> BigDec outcome" where
  "BigDecFromSDKDec sdkPrecision bigInt d = NewDecFromBigIntWithPrec (bigInt d) (of_nat sdkPrecision)"

definition BigDecFromSDKDecSlice :: "nat \<Rightarrow> ('d \<Rightarrow> int) \<Rightarrow> 'd list \<Rightarrow> BigDec list outcome" where
  "BigDecFromSDKDecSlice sdkPrecision bigInt ds =
     omap (\<lambda>d. NewDecFromBigIntWithPrec (bigInt d) (of_nat sdkPrecision)) ds"

section \<open>Helpers\<close>

text \<open>The loop over the first slice reads the second at the same index; the lengths are equal there.\<close>

fun DecsEqual_loop :: "BigDec list \<Rightarrow> BigDec list \<Rightarrow> bool" where
  "DecsEqual_loop (d1 # d1s) (d2 # d2s) = (if \<not> BigDec_Equal d1 d2 then False else DecsEqual_loop d1s d2s)"
| "DecsEqual_loop d1s d2s = True"

definition DecsEqual :: "BigDec list \<Rightarrow> BigDec list \<Rightarrow> bool" where
  "DecsEqual d1s d2s = (if length d1s \<noteq> length d2s then False else DecsEqual_loop d1s d2s)"

definition MinDec :: "BigDec \<Rightarrow> BigDec \<Rightarrow> BigDec" where
  "MinDec d1 d2 = (if BigDec_LT d1 d2 then d1 else d2)"

definition MaxDec :: "BigDec \<Rightarrow> BigDec \<Rightarrow> BigDec" where
  "MaxDec d1 d2 = (if BigDec_LT d1 d2 then d2 else d1)"

section \<open>Constants and predicates, evaluated\<close>

lemma Exp_eq [simp]: "Exp x (int n) = x ^ n"
  by (simp add: Exp_def)

lemma precisionReuse_eq [big_simps]: "precisionReuse = 10 ^ 36"
  by (simp add: precisionReuse_def Precision_def Exp_def)

lemma precisionReuse_pos [simp]: "0 < precisionReuse"
  by (simp add: precisionReuse_eq)

lemma precisionReuse_nonneg [simp]: "0 \<le> precisionReuse" and precisionReuse_not_neg [simp]: "\<not> precisionReuse < 0" and abs_precisionReuse [simp]: "\<bar>precisionReuse\<bar> = precisionReuse"
  using precisionReuse_pos by linarith+

lemma precisionReuse_neq_0 [simp]: "precisionReuse \<noteq> 0"
  using precisionReuse_pos by linarith

lemma OneDec_eq: "OneDec = precisionReuse"
  by (simp add: OneDec_def precisionInt_def)

lemma two_fivePrecision: "2 * fivePrecision = precisionReuse"
  by (simp add: fivePrecision_def precisionReuse_eq quo_def)

lemma maxDecBitLen_eq: "maxDecBitLen = 1144"
  by (simp add: maxDecBitLen_def maxBitLen_def DecimalPrecisionBits_def)

lemma in_bits_precisionReuse [simp]: "in_bits maxDecBitLen precisionReuse"
  by (simp add: in_bits_def maxDecBitLen_eq precisionReuse_eq)

lemma BigDec_comparisons [big_simps]:
  "BigDec_Equal a b \<longleftrightarrow> a = b" "BigDec_GT a b \<longleftrightarrow> a > b" "BigDec_GTE a b \<longleftrightarrow> a \<ge> b"
  "BigDec_LT a b \<longleftrightarrow> a < b" "BigDec_LTE a b \<longleftrightarrow> a \<le> b"
  by (auto simp: BigDec_Equal_def BigDec_GT_def BigDec_GTE_def BigDec_LT_def BigDec_LTE_def Cmp_def)

lemma BigDec_signs [big_simps]:
  "BigDec_IsZero d \<longleftrightarrow> d = 0" "BigDec_IsNegative d \<longleftrightarrow> d < 0" "BigDec_IsPositive d \<longleftrightarrow> d > 0"
  by (auto simp: BigDec_IsZero_def BigDec_IsNegative_def BigDec_IsPositive_def sgn_if split: if_splits)

lemma MinMaxDec_eq [big_simps]: "MinDec a b = min a b" "MaxDec a b = max a b"
  by (auto simp: MinDec_def MaxDec_def big_simps)

lemma sint_of_nat_64: "n < 2 ^ 63 \<Longrightarrow> sint (of_nat n :: 64 word) = int n"
  by (simp add: signed_of_nat signed_take_bit_int_eq_self)

lemma calcPrecisionMultiplier_eq:
  assumes "n \<le> Precision"
  shows "calcPrecisionMultiplier (of_nat n) = Ok (10 ^ (Precision - n))"
proof -
  have n: "n < 2 ^ 63" "Precision - n < 2 ^ 63" using assms by (auto simp: Precision_def)
  have "of_nat Precision - (of_nat n :: 64 word) = of_nat (Precision - n)"
    using assms by (simp add: of_nat_diff)
  then show ?thesis
    using assms n by (simp only: calcPrecisionMultiplier_def Let_def sint_of_nat_64 Exp_eq) simp
qed

lemma precisionMultiplier_eq:
  assumes "n \<le> Precision"
  shows "precisionMultiplier (of_nat n) = Ok (10 ^ (Precision - n))"
proof -
  have "n < 2 ^ 63" using assms by (simp add: Precision_def)
  then have "sint (of_nat n :: 64 word) = int n" by (rule sint_of_nat_64)
  then show ?thesis
    using assms calcPrecisionMultiplier_eq[OF assms]
    by (simp add: precisionMultiplier_def precisionMultipliers_def nth_map del: upt_Suc)
qed

lemma NewDecFromBigInt_eq [big_simps]: "NewDecFromBigInt i = Ok (i * precisionReuse)"
  using precisionMultiplier_eq[of 0]
  by (simp add: NewDecFromBigInt_def NewDecFromBigIntWithPrec_def precisionReuse_def)

lemma NewBigDec_eq [big_simps]: "NewBigDec i = Ok (sint i * precisionReuse)"
  using precisionMultiplier_eq[of 0]
  by (simp add: NewBigDec_def NewDecWithPrec_def precisionReuse_def)

lemma NewDecFromInt_eq [big_simps]: "NewDecFromInt i = Ok (i * precisionReuse)"
  using precisionMultiplier_eq[of 0]
  by (simp add: NewDecFromInt_def NewDecFromIntWithPrec_def precisionReuse_def)

section \<open>The three roundings\<close>

lemma chopPrecisionAndRound_nonneg:
  assumes "0 \<le> d"
  shows "chopPrecisionAndRound d =
     (let q = d div precisionReuse; r = d mod precisionReuse
      in if 2 * r < precisionReuse \<or> (2 * r = precisionReuse \<and> even q) then q else q + 1)"
proof -
  have "sgn (d mod precisionReuse) = 0 \<longleftrightarrow> d mod precisionReuse = 0" by (simp add: sgn_if)
  moreover have "2 * (d mod precisionReuse) < precisionReuse \<longleftrightarrow> d mod precisionReuse < fivePrecision"
    and "2 * (d mod precisionReuse) = precisionReuse \<longleftrightarrow> d mod precisionReuse = fivePrecision"
    using two_fivePrecision by linarith+
  ultimately show ?thesis
    using assms precisionReuse_pos two_fivePrecision
    by (subst chopPrecisionAndRound.simps)
       (auto simp: quo_nonneg_eq rem_nonneg_eq Let_def Cmp_def sgn_if)
qed

lemma chopPrecisionAndRound_minus: "chopPrecisionAndRound (- d) = - chopPrecisionAndRound d"
proof (cases d "0::int" rule: linorder_cases)
  case less
  then show ?thesis
    using chopPrecisionAndRound.simps[of d] by simp
next
  case equal
  then show ?thesis using chopPrecisionAndRound_nonneg[of 0] by simp
next
  case greater
  then show ?thesis
    using chopPrecisionAndRound.simps[of "- d"] by simp
qed

text \<open>Bankers' rounding: to the nearest, and to the even neighbour on a tie.\<close>

lemma chop_nearest_nonneg:
  assumes "0 \<le> d"
  shows "2 * \<bar>d - chopPrecisionAndRound d * precisionReuse\<bar> \<le> precisionReuse \<and>
    (2 * \<bar>d - chopPrecisionAndRound d * precisionReuse\<bar> = precisionReuse \<longrightarrow> even (chopPrecisionAndRound d))"
proof -
  let ?q = "d div precisionReuse" and ?r = "d mod precisionReuse"
  have d: "d = ?q * precisionReuse + ?r" by simp
  have r: "0 \<le> ?r" "?r < precisionReuse" by simp_all
  have lo: "\<bar>d - ?q * precisionReuse\<bar> = ?r" using d r by linarith
  have "(?q + 1) * precisionReuse = ?q * precisionReuse + precisionReuse" by (simp add: distrib_right)
  then have "d - (?q + 1) * precisionReuse = ?r - precisionReuse" using d by linarith
  then have hi: "\<bar>d - (?q + 1) * precisionReuse\<bar> = precisionReuse - ?r" using r(2) by linarith
  show ?thesis
    using chopPrecisionAndRound_nonneg[OF assms] lo hi r by (auto simp: Let_def split: if_splits)
qed

lemma chop_nearest:
  "2 * \<bar>d - chopPrecisionAndRound d * precisionReuse\<bar> \<le> precisionReuse"
  "2 * \<bar>d - chopPrecisionAndRound d * precisionReuse\<bar> = precisionReuse \<Longrightarrow> even (chopPrecisionAndRound d)"
proof -
  have "2 * \<bar>d - chopPrecisionAndRound d * precisionReuse\<bar> \<le> precisionReuse \<and>
    (2 * \<bar>d - chopPrecisionAndRound d * precisionReuse\<bar> = precisionReuse \<longrightarrow> even (chopPrecisionAndRound d))"
  proof (cases "0 \<le> d")
    case True
    then show ?thesis by (rule chop_nearest_nonneg)
  next
    case False
    have "\<bar>d - chopPrecisionAndRound d * precisionReuse\<bar>
        = \<bar>- d - chopPrecisionAndRound (- d) * precisionReuse\<bar>"
      by (simp add: chopPrecisionAndRound_minus)
    moreover have "even (chopPrecisionAndRound d) = even (chopPrecisionAndRound (- d))"
      by (simp add: chopPrecisionAndRound_minus)
    ultimately show ?thesis using chop_nearest_nonneg[of "- d"] False by simp
  qed
  then show "2 * \<bar>d - chopPrecisionAndRound d * precisionReuse\<bar> \<le> precisionReuse"
    "2 * \<bar>d - chopPrecisionAndRound d * precisionReuse\<bar> = precisionReuse \<Longrightarrow> even (chopPrecisionAndRound d)"
    by auto
qed

lemma chopPrecisionAndRound_mono:
  assumes "a \<le> b"
  shows "chopPrecisionAndRound a \<le> chopPrecisionAndRound b"
proof (rule ccontr)
  assume "\<not> ?thesis"
  then have "chopPrecisionAndRound b + 1 \<le> chopPrecisionAndRound a" by simp
  then have "(chopPrecisionAndRound b + 1) * precisionReuse \<le> chopPrecisionAndRound a * precisionReuse"
    using precisionReuse_pos by (intro mult_right_mono) auto
  then have "chopPrecisionAndRound b * precisionReuse + precisionReuse \<le> chopPrecisionAndRound a * precisionReuse"
    by (simp add: distrib_right)
  with chop_nearest(1)[of a] chop_nearest(1)[of b] have "b \<le> a" by (simp add: abs_if split: if_splits)
  with assms have "a = b" by simp
  with \<open>\<not> ?thesis\<close> show False by simp
qed

lemma chopPrecisionAndRound_exact: "chopPrecisionAndRound (k * precisionReuse) = k"
proof -
  let ?c = "chopPrecisionAndRound (k * precisionReuse)"
  have "2 * \<bar>(k - ?c) * precisionReuse\<bar> \<le> precisionReuse"
    using chop_nearest(1)[of "k * precisionReuse"] by (simp add: left_diff_distrib)
  then have "2 * \<bar>k - ?c\<bar> * precisionReuse \<le> 1 * precisionReuse"
    by (simp add: abs_mult)
  then have "2 * \<bar>k - ?c\<bar> \<le> 1" using precisionReuse_pos by (metis mult_le_cancel_right not_less)
  then show ?thesis by presburger
qed

text \<open>Rounding up is the ceiling, whatever the sign.\<close>

lemma roundUp_ceiling:
  "fst (chopPrecisionAndRoundUpBigDec d) = - ((- d) div precisionReuse)"
proof (cases "d < 0")
  case True
  then show ?thesis
    by (simp add: chopPrecisionAndRoundUpBigDec_def chopPrecisionAndRoundUp_def
        chopPrecisionAndTruncate_def quo_nonneg_eq)
next
  case False
  then show ?thesis
    using zdiv_zminus1_eq_if[of precisionReuse d]
    by (auto simp: chopPrecisionAndRoundUpBigDec_def chopPrecisionAndRoundUp_def Let_def
        quo_nonneg_eq rem_nonneg_eq sgn_if)
qed

interpretation bankers: rounding chopPrecisionAndRound precisionReuse
  by unfold_locales (simp_all add: chopPrecisionAndRound_exact chopPrecisionAndRound_mono)

interpretation trunc: rounding chopPrecisionAndTruncate precisionReuse
  by unfold_locales (simp_all add: chopPrecisionAndTruncate_def quo_mono)

interpretation roundup: rounding "\<lambda>d. fst (chopPrecisionAndRoundUpBigDec d)" precisionReuse
proof unfold_locales
  fix k a b :: int
  have "(- (k * precisionReuse)) div precisionReuse = - k"
    using nonzero_mult_div_cancel_right[of precisionReuse "- k"] by simp
  then show "fst (chopPrecisionAndRoundUpBigDec (k * precisionReuse)) = k"
    by (simp add: roundUp_ceiling)
  show "fst (chopPrecisionAndRoundUpBigDec a) \<le> fst (chopPrecisionAndRoundUpBigDec b)" if "a \<le> b"
    using that by (simp add: roundUp_ceiling zdiv_mono1)
qed simp

interpretation big_dec: checked_arith maxDecBitLen BigDec_Add BigDec_Sub BigDec_Neg
  by unfold_locales
    (simp_all add: BigDec_Add_def BigDec_AddMut_def BigDec_Clone_def BigDec_Sub_def BigDec_Neg_def
      checked_def Let_def)

interpretation mul: fixed_mul chopPrecisionAndRound precisionReuse maxDecBitLen BigDec_Mul
  by unfold_locales (simp add: BigDec_Mul_def BigDec_MulMut_def BigDec_Clone_def checked_def Let_def)

interpretation mulTruncate: fixed_mul chopPrecisionAndTruncate precisionReuse maxDecBitLen BigDec_MulTruncate
  by unfold_locales (simp add: BigDec_MulTruncate_def checked_def Let_def)

interpretation mulRoundUp: fixed_mul "\<lambda>d. fst (chopPrecisionAndRoundUpBigDec d)" precisionReuse maxDecBitLen
    BigDec_MulRoundUp
  by unfold_locales (simp add: BigDec_MulRoundUp_def checked_def Let_def)

interpretation quot: fixed_quo chopPrecisionAndRound precisionReuse maxDecBitLen BigDec_Quo
  by unfold_locales
    (simp_all add: BigDec_Quo_def BigDec_QuoMut_def bigQuo_def BigDec_Clone_def checked_def Let_def)

interpretation quoTruncate: fixed_quo chopPrecisionAndTruncate precisionReuse maxDecBitLen BigDec_QuoTruncate
  by unfold_locales (simp_all add: BigDec_QuoTruncate_def bigQuo_def checked_def Let_def)

interpretation quoRoundUp: fixed_quo "\<lambda>d. fst (chopPrecisionAndRoundUpBigDec d)" precisionReuse maxDecBitLen
    BigDec_QuoRoundUp
  by unfold_locales (simp_all add: BigDec_QuoRoundUp_def bigQuo_def checked_def Let_def)

lemma BigDec_Ceil_eq: "BigDec_Ceil d = Ok (- ((- d) div precisionReuse) * precisionReuse)"
proof (cases "d < 0")
  case True
  have "quo d precisionReuse = (- ((- d) div precisionReuse))" and "rem d precisionReuse = - ((- d) mod precisionReuse)"
    using True quo_minus_left[of "- d" precisionReuse] rem_minus_left[of "- d" precisionReuse]
    by (simp_all add: quo_nonneg_eq rem_nonneg_eq)
  moreover have "\<not> (- d) mod precisionReuse < 0" using pos_mod_sign[OF precisionReuse_pos, of "- d"] by linarith
  ultimately show ?thesis
    using True by (simp add: BigDec_Ceil_def Let_def Cmp_def NewDecFromBigInt_eq sgn_if)
next
  case False
  then have "quo d precisionReuse = d div precisionReuse" "rem d precisionReuse = d mod precisionReuse" "\<not> d mod precisionReuse < 0"
    using pos_mod_sign[OF precisionReuse_pos, of d] by (simp_all add: quo_nonneg_eq rem_nonneg_eq not_less)
  moreover from this have "d mod precisionReuse \<noteq> 0 \<Longrightarrow> sgn (d mod precisionReuse) \<noteq> - 1" by (simp add: sgn_if)
  ultimately show ?thesis
    using ceil_div_nonneg[of precisionReuse d]
    by (cases "d mod precisionReuse = 0") (simp_all add: BigDec_Ceil_def Let_def Cmp_def NewDecFromBigInt_eq)
qed

text \<open>Rounding up after the truncation of the scaled dividend falls short by less than \<open>10 ^ -36\<close> of a unit.\<close>

lemma quoRoundUp_lower:
  assumes "0 \<le> a" "0 < b" "BigDec_QuoRoundUp a b = Ok c"
  shows "a * precisionReuse * precisionReuse < (c * precisionReuse + 1) * b"
proof -
  let ?P = "precisionReuse" and ?q = "quo (a * precisionReuse * precisionReuse) b"
  have n: "0 \<le> a * ?P * ?P" using assms(1) by simp
  have c: "c = - ((- ?q) div ?P)" using assms(3) by (simp add: quoRoundUp.quot_Ok_iff roundUp_ceiling)
  have "?q \<le> c * ?P" using c ceil_div_bounds(2)[OF precisionReuse_pos, of ?q] by simp
  then have "b * ?q \<le> b * (c * ?P)" using assms(2) by (simp add: mult_left_mono)
  moreover have "(c * ?P + 1) * b = b * (c * ?P) + b" by (metis distrib_right mult.commute mult_1)
  ultimately show ?thesis using quo_lower[OF assms(2) n] by linarith
qed

section \<open>Properties\<close>

text \<open>Two integers whose multiples of \<open>P\<close> are both nearest to \<open>x\<close>, with even ties, are the same.\<close>

lemma nearest_even_le:
  fixes u v P x :: int
  assumes P: "0 < P" and "u \<le> v"
    and u: "2 * \<bar>x - u * P\<bar> \<le> P" "2 * \<bar>x - u * P\<bar> = P \<Longrightarrow> even u"
    and v: "2 * \<bar>x - v * P\<bar> \<le> P" "2 * \<bar>x - v * P\<bar> = P \<Longrightarrow> even v"
  shows "u = v"
proof (rule ccontr)
  assume "u \<noteq> v"
  with assms(2) have uv: "u + 1 \<le> v" by simp
  define A B where "A = u * P" and "B = v * P"
  have "(u + 1) * P \<le> v * P" using uv P by (intro mult_right_mono) auto
  then have AB: "A + P \<le> B" by (simp add: A_def B_def distrib_right)
  have ab: "2 * \<bar>x - A\<bar> \<le> P" "2 * \<bar>x - B\<bar> \<le> P" using u(1) v(1) by (simp_all add: A_def B_def)
  then have eq: "2 * \<bar>x - A\<bar> = P" "2 * \<bar>x - B\<bar> = P" "B = A + P" using AB P by arith+
  then have "even u" "even v" using u(2) v(2) by (simp_all add: A_def B_def)
  have "(v - u - 1) * P = 0" using eq(3) by (simp add: A_def B_def left_diff_distrib)
  with P have "v = u + 1" by simp
  with \<open>even u\<close> \<open>even v\<close> show False by simp
qed

lemma nearest_even_unique:
  fixes c c' P x :: int
  assumes "0 < P"
    and "2 * \<bar>x - c * P\<bar> \<le> P" "2 * \<bar>x - c * P\<bar> = P \<Longrightarrow> even c"
    and "2 * \<bar>x - c' * P\<bar> \<le> P" "2 * \<bar>x - c' * P\<bar> = P \<Longrightarrow> even c'"
  shows "c = c'"
  using nearest_even_le[of P c c' x] nearest_even_le[of P c' c x] assms by (cases "c \<le> c'") auto

text \<open>
  C10 Multiplication is correctly rounded: it returns \<open>c\<close> exactly when \<open>c\<close> is the decimal nearest to the
  exact product (the even one of two that are equally near) and needs at most 1144 bits; and it
  commutes.
\<close>

theorem BigDec_Mul_correctly_rounded:
  "(BigDec_Mul a b = Ok c \<longleftrightarrow>
      2 * \<bar>a * b - c * 10 ^ 36\<bar> \<le> 10 ^ 36 \<and>
      (2 * \<bar>a * b - c * 10 ^ 36\<bar> = 10 ^ 36 \<longrightarrow> even c) \<and> \<bar>c\<bar> < 2 ^ 1144) \<and>
   BigDec_Mul a b = BigDec_Mul b a"
proof
  show "BigDec_Mul a b = BigDec_Mul b a" by (rule mul.mul_commute)
  have "c = chopPrecisionAndRound (a * b)"
    if "2 * \<bar>a * b - c * precisionReuse\<bar> \<le> precisionReuse"
      "2 * \<bar>a * b - c * precisionReuse\<bar> = precisionReuse \<longrightarrow> even c"
    using that chop_nearest[of "a * b"]
    by (intro nearest_even_unique[of precisionReuse "a * b"]) auto
  moreover have "BigDec_Mul a b = Ok c \<longleftrightarrow> \<bar>c\<bar> < 2 ^ 1144 \<and> c = chopPrecisionAndRound (a * b)"
    by (auto simp: mul.mul_Ok_iff in_bits_def maxDecBitLen_eq)
  ultimately show "BigDec_Mul a b = Ok c \<longleftrightarrow>
      2 * \<bar>a * b - c * 10 ^ 36\<bar> \<le> 10 ^ 36 \<and>
      (2 * \<bar>a * b - c * 10 ^ 36\<bar> = 10 ^ 36 \<longrightarrow> even c) \<and> \<bar>c\<bar> < 2 ^ 1144"
    unfolding precisionReuse_eq[symmetric] using chop_nearest[of "a * b"] by auto
qed

theorem BigDec_Mul_correctly_rounded_witness:
  "BigDec_Mul (15 * 10 ^ 35) (10 ^ 36 + 1) = Ok (15 * 10 ^ 35 + 2)"
  using BigDec_Mul_correctly_rounded[of "15 * 10 ^ 35" "10 ^ 36 + 1" "15 * 10 ^ 35 + 2"] by simp

text \<open>
  The three multiplications of a non-negative product bracket it: truncation is its floor,
  rounding up its ceiling, and the rounded product lies between them, which differ by at most one
  unit in the last place.
\<close>

theorem BigDec_Mul_bracket:
  assumes "0 \<le> a * b" "BigDec_MulTruncate a b = Ok t" "BigDec_Mul a b = Ok c" "BigDec_MulRoundUp a b = Ok u"
  shows "t * 10 ^ 36 \<le> a * b \<and> a * b < (t + 1) * 10 ^ 36 \<and> (u - 1) * 10 ^ 36 < a * b \<and>
    a * b \<le> u * 10 ^ 36 \<and> t \<le> c \<and> c \<le> u \<and> u \<le> t + 1"
proof -
  let ?P = "precisionReuse" and ?x = "a * b"
  have t: "t = ?x div ?P" using assms(1,2)
    by (simp add: mulTruncate.mul_Ok_iff chopPrecisionAndTruncate_def quo_nonneg_eq)
  have u: "u = - ((- ?x) div ?P)" using assms(4) by (simp add: mulRoundUp.mul_Ok_iff roundUp_ceiling)
  have "t * ?P \<le> ?x \<and> ?x < (t + 1) * ?P"
    using t floor_div_bounds[OF precisionReuse_pos, of ?x] by simp
  moreover have "(u - 1) * ?P < ?x \<and> ?x \<le> u * ?P"
    using u ceil_div_bounds[OF precisionReuse_pos, of ?x] by simp
  moreover have "t \<le> c" "c \<le> u"
  proof -
    have c: "c = chopPrecisionAndRound ?x" using assms(3) by (simp add: mul.mul_Ok_iff)
    show "t \<le> c" using bankers.chop_ge_div[of ?x] c t by simp
    have "?x \<le> u * ?P" using calculation by simp
    then show "c \<le> u" using chopPrecisionAndRound_mono chopPrecisionAndRound_exact c by metis
  qed
  moreover have "u \<le> t + 1" using roundup.chop_le_div[of ?x] u t roundUp_ceiling by simp
  ultimately show ?thesis by (simp add: precisionReuse_eq)
qed

theorem BigDec_Mul_bracket_witness:
  "BigDec_MulTruncate 7 (10 ^ 35) = Ok 0 \<and> BigDec_Mul 7 (10 ^ 35) = Ok 1 \<and>
   BigDec_MulRoundUp 7 (10 ^ 35) = Ok 1 \<and> (0::int) \<le> 1 \<and> (1::int) \<le> 1"
proof -
  have t: "BigDec_MulTruncate 7 (10 ^ 35) = Ok 0" "BigDec_MulRoundUp 7 (10 ^ 35) = Ok 1"
    by (simp_all add: mulTruncate.mul_Ok_iff mulRoundUp.mul_Ok_iff roundUp_ceiling
        chopPrecisionAndTruncate_def precisionReuse_eq quo_def in_bits_def maxDecBitLen_eq)
  have c: "BigDec_Mul 7 (10 ^ 35) = Ok 1"
    by (simp add: mul.mul_Ok_iff chopPrecisionAndRound_nonneg precisionReuse_eq in_bits_def maxDecBitLen_eq)
  show ?thesis using t c BigDec_Mul_bracket[OF _ t(1) c t(2)] by simp
qed

text \<open>
  Dividing with rounding up: for a non-negative dividend and a positive divisor the result is less
  than one unit above the exact quotient, and never falls short of it by \<open>10^-36\<close> of a unit.
\<close>

theorem BigDec_QuoRoundUp_bounds:
  assumes "0 \<le> a" "0 < b" "BigDec_QuoRoundUp a b = Ok c"
  shows "(c - 1) * b < a * 10 ^ 36 \<and> a * 10 ^ 36 * 10 ^ 36 < (c * 10 ^ 36 + 1) * b"
proof -
  let ?P = "precisionReuse"
  have "a * ?P * ?P < (c * ?P + 1) * b" using assms by (rule quoRoundUp_lower)
  moreover have "(c - 1) * b < a * ?P" using quoRoundUp.quot_error(1)[OF assms] .
  ultimately show ?thesis by (simp add: precisionReuse_eq)
qed

theorem BigDec_QuoRoundUp_bounds_witness:
  "BigDec_QuoRoundUp 7 (2 * 10 ^ 36) = Ok 4 \<and> (4 - 1) * (2 * 10 ^ 36) < 7 * (10::int) ^ 36"
proof -
  have "quo (7 * precisionReuse * precisionReuse) (2 * precisionReuse) = 3 * precisionReuse + fivePrecision"
    by (simp add: quo_nonneg_eq) (rule int_div_pos_eq[where r = 0]; simp add: two_fivePrecision precisionReuse_eq fivePrecision_def quo_def)
  moreover have "(- (3 * precisionReuse + fivePrecision)) div precisionReuse = - 4"
    by (rule int_div_pos_eq[where r = fivePrecision]) (use two_fivePrecision precisionReuse_pos in linarith)+
  ultimately have q: "BigDec_QuoRoundUp 7 (2 * 10 ^ 36) = Ok 4"
    unfolding precisionReuse_eq[symmetric]
    by (simp only: quoRoundUp.quot_Ok_iff roundUp_ceiling) (simp add: in_bits_def maxDecBitLen_eq)
  show ?thesis using q BigDec_QuoRoundUp_bounds[OF _ _ q] by simp
qed

text \<open>
  The quotient that rounds up can round down: 1 divided by \<open>1 + 10^-36\<close> gives a decimal below the
  exact quotient, because the scaled dividend is truncated before the result is rounded.
\<close>

theorem BigDec_QuoRoundUp_can_round_down:
  "BigDec_QuoRoundUp (10 ^ 36) (10 ^ 36 + 1) = Ok (10 ^ 36 - 1) \<and>
   (10 ^ 36 - 1) * (10 ^ 36 + 1) < 10 ^ 36 * (10 ^ 36 :: int)"
proof
  have "quo (precisionReuse * precisionReuse * precisionReuse) (precisionReuse + 1)
      = (precisionReuse - 1) * precisionReuse"
    by (simp add: quo_nonneg_eq) (rule int_div_pos_eq[where r = precisionReuse]; simp add: precisionReuse_eq)
  then have "BigDec_QuoRoundUp precisionReuse (precisionReuse + 1) = Ok (precisionReuse - 1)"
    using roundup.chop_exact[of "precisionReuse - 1"]
    by (simp add: quoRoundUp.quot_Ok_iff) (simp add: in_bits_def maxDecBitLen_eq precisionReuse_eq)
  then show "BigDec_QuoRoundUp (10 ^ 36) (10 ^ 36 + 1) = Ok (10 ^ 36 - 1)"
    by (simp only: precisionReuse_eq)
qed simp

text \<open>
  What \<^verbatim>\<open>SDKDecRoundUp\<close> does with 18 decimal places of \<^verbatim>\<open>sdk.Dec\<close>: a non-negative decimal is rounded
  up to 18 places, a negative one is divided by \<open>10^36\<close> instead of \<open>10^18\<close>; in both cases the receiver is
  overwritten, with the chopped value or with its absolute value.
\<close>

theorem BigDec_SDKDecRoundUp_effect:
  "BigDec_SDKDecRoundUp 18 newDec d =
    (if d < 0 then obind (newDec (- ((- d) div 10 ^ 36)) 18) (\<lambda>r. Ok (r, - d))
     else obind (newDec (- ((- d) div 10 ^ 18)) 18) (\<lambda>r. Ok (r, - ((- d) div 10 ^ 18))))"
proof (cases "d < 0")
  case True
  then show ?thesis
    by (simp add: BigDec_SDKDecRoundUp_def chopPrecisionAndRoundUpSDKDec_def chopPrecisionAndRoundUp_def
        chopPrecisionAndTruncate_def quo_nonneg_eq precisionReuse_eq)
next
  case False
  moreover have "precisionReuseSDK 18 = 10 ^ 18" by (simp add: precisionReuseSDK_def Exp_def)
  ultimately show ?thesis
    using ceil_div_nonneg[of "10 ^ 18" d]
    by (auto simp: BigDec_SDKDecRoundUp_def chopPrecisionAndRoundUpSDKDec_def chopPrecisionAndRoundUp_def
        quo_nonneg_eq rem_nonneg_eq Let_def sgn_if split: if_splits)
qed

text \<open>
  A decimal taken from \<^verbatim>\<open>sdk.Dec\<close> and converted back is rebuilt from the same integer, for any
  \<^verbatim>\<open>sdk.Precision\<close> up to 36.
\<close>

theorem BigDec_SDKDec_roundtrip:
  assumes "p \<le> Precision"
  shows "obind (BigDecFromSDKDec p bigInt x) (BigDec_SDKDec p newDec) = newDec (bigInt x) p"
proof -
  have e: "Exp 10 (int Precision - int p) = 10 ^ (Precision - p)"
    using assms Exp_eq[of 10 "Precision - p"] by (simp add: of_nat_diff)
  have "quo (bigInt x * 10 ^ (Precision - p)) (10 ^ (Precision - p)) = bigInt x" by simp
  then show ?thesis
    using assms precisionMultiplier_eq[OF assms] e
    by (simp add: BigDecFromSDKDec_def NewDecFromBigIntWithPrec_def BigDec_SDKDec_def bigQuo_def)
qed

theorem BigDec_SDKDec_roundtrip_witness:
  "(18::nat) \<le> Precision \<and>
   obind (BigDecFromSDKDec 18 id (5::int)) (BigDec_SDKDec 18 (\<lambda>i p. Ok i)) = Ok 5"
  using BigDec_SDKDec_roundtrip[of 18 "id :: int \<Rightarrow> int" 5 "\<lambda>i p. Ok i"] by (simp add: Precision_def)

text \<open>
  \<^verbatim>\<open>Ceil\<close> is the least integer not below the decimal and \<^verbatim>\<open>TruncateDec\<close> the integer part towards
  zero; both leave integers alone, and neither panics.
\<close>

theorem BigDec_Ceil_Truncate:
  "\<exists>c t. BigDec_Ceil d = Ok (c * 10 ^ 36) \<and> (c - 1) * 10 ^ 36 < d \<and> d \<le> c * 10 ^ 36 \<and>
     BigDec_TruncateDec d = Ok (t * 10 ^ 36) \<and> \<bar>t * 10 ^ 36\<bar> \<le> \<bar>d\<bar> \<and> \<bar>d\<bar> < \<bar>t * 10 ^ 36\<bar> + 10 ^ 36 \<and>
     (BigDec_IsInteger d = (c = t \<and> d = c * 10 ^ 36))"
proof -
  let ?P = "precisionReuse"
  let ?t = "quo d ?P" and ?c = "- ((- d) div ?P)"
  have ceil: "BigDec_Ceil d = Ok (?c * ?P)" by (rule BigDec_Ceil_eq)
  have c: "(?c - 1) * ?P < d" "d \<le> ?c * ?P"
    using ceil_div_bounds[OF precisionReuse_pos, of d] by simp_all
  have t: "\<bar>?t * ?P\<bar> = \<bar>d\<bar> div ?P * ?P"
    by (cases "d < 0") (auto simp: quo_def abs_mult pos_imp_zdiv_nonneg_iff sgn_if)
  have t2: "\<bar>?t * ?P\<bar> \<le> \<bar>d\<bar>" "\<bar>d\<bar> < \<bar>?t * ?P\<bar> + ?P"
    using t floor_div_bounds[OF precisionReuse_pos, of "\<bar>d\<bar>"] by (simp_all add: distrib_right)
  have i: "BigDec_IsInteger d = (?c = ?t \<and> d = ?c * ?P)"
  proof
    assume "BigDec_IsInteger d"
    then have d: "d = ?P * ?t" by (simp add: BigDec_IsInteger_def rem_def sgn_if split: if_splits)
    then have "- d = - ?t * ?P" by (metis mult.commute mult_minus_left)
    then have "(- d) div ?P = - ?t" by (metis nonzero_mult_div_cancel_right precisionReuse_neq_0)
    then have "?c = ?t" by simp
    moreover from this have "d = ?c * ?P" using d by (metis mult.commute)
    ultimately show "?c = ?t \<and> d = ?c * ?P" ..
  next
    assume "?c = ?t \<and> d = ?c * ?P"
    then have "d = ?t * ?P" by metis
    then show "BigDec_IsInteger d" by (simp add: BigDec_IsInteger_def rem_def mult.commute sgn_if)
  qed
  have tr: "BigDec_TruncateDec d = Ok (?t * ?P)"
    by (simp add: BigDec_TruncateDec_def chopPrecisionAndTruncate_def NewDecFromBigInt_eq)
  show ?thesis
    using ceil c tr t2 i unfolding precisionReuse_eq by blast
qed

end
