(* ===== verification/Go_Text.thy ===== *)
theory Go_Text
  imports Prelude "HOL-Library.Char_ord" "HOL-Library.List_Lexorder"
begin

text \<open>
  The parts of Go's standard library that turn integers into text and back, as the sources use
  them: \<^verbatim>\<open>big.Int.String\<close> and \<^verbatim>\<open>MarshalText\<close> (decimal, no leading zero), \<^verbatim>\<open>SetString\<close> with base 10,
  \<^verbatim>\<open>UnmarshalText\<close> (base 0: an optional sign, a base prefix, \<^verbatim>\<open>_\<close> between digits), \<^verbatim>\<open>strings.Split\<close> on one
  character, \<^verbatim>\<open>copy\<close> and zero padding of a string by \<^verbatim>\<open>fmt.Sprintf\<close>. Strings are lists of bytes.
\<close>

section \<open>Definitions\<close>

definition digit_char :: "nat \<Rightarrow> char" where
  "digit_char d = char_of (48 + d)"

definition is_digit :: "char \<Rightarrow> bool" where
  "is_digit c \<longleftrightarrow> 48 \<le> (of_char c :: nat) \<and> (of_char c :: nat) \<le> 57"

definition digit_val :: "char \<Rightarrow> nat" where
  "digit_val c = of_char c - 48"

fun nat_text :: "nat \<Rightarrow> string" where
  "nat_text n = (if n < 10 then [digit_char n] else nat_text (n div 10) @ [digit_char (n mod 10)])"

declare nat_text.simps [simp del]

definition int_text :: "int \<Rightarrow> string" where
  "int_text i = (if i < 0 then CHR ''-'' # nat_text (nat (- i)) else nat_text (nat i))"

fun read_digits :: "nat \<Rightarrow> string \<Rightarrow> nat option" where
  "read_digits acc [] = Some acc"
| "read_digits acc (c # cs) = (if is_digit c then read_digits (acc * 10 + digit_val c) cs else None)"

text \<open>\<^verbatim>\<open>SetString(s, 10)\<close>: an optional sign and at least one digit.\<close>

definition SetString10 :: "string \<Rightarrow> int option" where
  "SetString10 s =
     (let neg = (s \<noteq> [] \<and> hd s = CHR ''-'');
          body = (if s \<noteq> [] \<and> (hd s = CHR ''-'' \<or> hd s = CHR ''+'') then tl s else s)
      in if body = [] then None
         else case read_digits 0 body of None \<Rightarrow> None | Some n \<Rightarrow> Some (if neg then - int n else int n))"

fun Split :: "string \<Rightarrow> char \<Rightarrow> string list" where
  "Split [] sep = [[]]"
| "Split (c # cs) sep =
     (if c = sep then [] # Split cs sep
      else case Split cs sep of [] \<Rightarrow> [[c]] | w # ws \<Rightarrow> (c # w) # ws)"

definition zero_pad :: "nat \<Rightarrow> string \<Rightarrow> string" where
  "zero_pad width s = replicate (width - length s) (CHR ''0'') @ s"

definition go_copy :: "'a list \<Rightarrow> 'a list \<Rightarrow> 'a list" where
  "go_copy dst src = take (length dst) src @ drop (length src) dst"

text \<open>The digit value of a character in bases up to 36; 63 for a character that is no digit.\<close>

definition scan_value :: "char \<Rightarrow> nat" where
  "scan_value c =
     (let n = of_char c :: nat
      in if 48 \<le> n \<and> n \<le> 57 then n - 48
         else if 97 \<le> n \<and> n \<le> 122 then n - 97 + 10
         else if 65 \<le> n \<and> n \<le> 90 then n - 65 + 10 else 63)"

datatype scan_prev = PrevStart | PrevDigit | PrevSep

text \<open>
  The digit loop of \<^verbatim>\<open>nat.scan\<close> with base 0: the kind of the last character, whether a separator was
  misplaced, the number of digits, the value and the unread rest.
\<close>

fun scan_loop :: "nat \<Rightarrow> scan_prev \<Rightarrow> bool \<Rightarrow> nat \<Rightarrow> nat \<Rightarrow> string \<Rightarrow> scan_prev \<times> bool \<times> nat \<times> nat \<times> string" where
  "scan_loop b prev inval cnt acc [] = (prev, inval, cnt, acc, [])"
| "scan_loop b prev inval cnt acc (c # cs) =
     (if c = CHR ''_'' then scan_loop b PrevSep (inval \<or> prev \<noteq> PrevDigit) cnt acc cs
      else if scan_value c \<ge> b then (prev, inval, cnt, acc, c # cs)
      else scan_loop b PrevDigit inval (Suc cnt) (acc * b + scan_value c) cs)"

definition scan_finish :: "bool \<Rightarrow> scan_prev \<times> bool \<times> nat \<times> nat \<times> string \<Rightarrow> nat option" where
  "scan_finish octal r =
     (case r of (prev, inval, cnt, acc, rest) \<Rightarrow>
        if inval \<or> prev = PrevSep then None
        else if cnt = 0 \<and> \<not> octal then None
        else if rest \<noteq> [] then None
        else Some acc)"

fun scan_nat :: "string \<Rightarrow> nat option" where
  "scan_nat s =
     (case s of
        c # cs \<Rightarrow>
          if c = CHR ''0'' then
            (case cs of
               [] \<Rightarrow> Some 0
             | p # ps \<Rightarrow>
                 if p \<in> {CHR ''b'', CHR ''B''} then scan_finish False (scan_loop 2 PrevDigit False 0 0 ps)
                 else if p \<in> {CHR ''o'', CHR ''O''} then scan_finish False (scan_loop 8 PrevDigit False 0 0 ps)
                 else if p \<in> {CHR ''x'', CHR ''X''} then scan_finish False (scan_loop 16 PrevDigit False 0 0 ps)
                 else scan_finish True (scan_loop 8 PrevDigit False 0 0 cs))
          else scan_finish False (scan_loop 10 PrevStart False 0 0 s)
      | [] \<Rightarrow> None)"

definition UnmarshalText :: "string \<Rightarrow> int option" where
  "UnmarshalText s =
     (let neg = (s \<noteq> [] \<and> hd s = CHR ''-'');
          body = (if s \<noteq> [] \<and> (hd s = CHR ''-'' \<or> hd s = CHR ''+'') then tl s else s)
      in case scan_nat body of None \<Rightarrow> None | Some n \<Rightarrow> Some (if neg then - int n else int n))"

section \<open>Digits\<close>

lemma of_char_digit [simp]: "d < 10 \<Longrightarrow> (of_char (digit_char d) :: nat) = 48 + d"
  by (simp add: digit_char_def of_char_of)

lemma is_digit_digit_char [simp]: "d < 10 \<Longrightarrow> is_digit (digit_char d)"
  by (simp add: is_digit_def)

lemma digit_val_digit_char [simp]: "d < 10 \<Longrightarrow> digit_val (digit_char d) = d"
  by (simp add: digit_val_def)

lemma digit_char_0 [simp]: "digit_char 0 = CHR ''0''"
  by code_simp

lemma is_digit_0 [simp]: "is_digit (CHR ''0'')" and digit_val_0 [simp]: "digit_val (CHR ''0'') = 0"
  by (simp_all add: is_digit_def digit_val_def)

lemma digit_neq:
  assumes "is_digit c"
  shows "c \<noteq> CHR ''-''" "c \<noteq> CHR ''+''" "c \<noteq> CHR ''.''" "c \<noteq> CHR ''_''"
  using assms by (auto simp: is_digit_def)

lemma digit_val_less: "is_digit c \<Longrightarrow> digit_val c < 10"
  unfolding is_digit_def digit_val_def by linarith

lemma digit_char_val: "is_digit c \<Longrightarrow> digit_char (digit_val c) = c"
  by (simp add: is_digit_def digit_val_def digit_char_def)

lemma nat_text_digits: "list_all is_digit (nat_text n)"
proof (induction n rule: nat_text.induct)
  case (1 n)
  then show ?case by (subst nat_text.simps) (auto simp: list_all_iff)
qed

lemma nat_text_neq_Nil [simp]: "nat_text n \<noteq> []"
  by (subst nat_text.simps) simp

lemma nat_text_hd_digit: "is_digit (hd (nat_text n))"
  using nat_text_digits[of n] by (simp add: list_all_iff)

lemma nat_text_hd: "0 < n \<Longrightarrow> hd (nat_text n) \<noteq> CHR ''0''"
proof (induction n rule: nat_text.induct)
  case (1 n)
  show ?case
  proof (cases "n < 10")
    case True
    have "digit_val (digit_char n) \<noteq> digit_val (CHR ''0'')"
      using True "1.prems" by simp
    then have "digit_char n \<noteq> CHR ''0''" by metis
    then show ?thesis using True by (subst nat_text.simps) simp
  next
    case False
    then show ?thesis using "1.IH" by (subst nat_text.simps) simp
  qed
qed

lemma read_digits_append:
  "read_digits acc (xs @ ys) = (case read_digits acc xs of None \<Rightarrow> None | Some a \<Rightarrow> read_digits a ys)"
  by (induction xs arbitrary: acc) auto

lemma read_digits_acc:
  "read_digits 0 xs = Some n \<Longrightarrow> read_digits acc xs = Some (acc * 10 ^ length xs + n)"
proof (induction xs arbitrary: acc n rule: rev_induct)
  case (snoc x xs)
  then obtain m where m: "read_digits 0 xs = Some m" "is_digit x" "n = m * 10 + digit_val x"
    by (auto simp: read_digits_append split: option.splits if_splits)
  then show ?case using snoc.IH[OF m(1), of acc] by (simp add: read_digits_append distrib_right)
qed simp

lemma read_digits_defined: "list_all is_digit xs \<Longrightarrow> \<exists>n. read_digits acc xs = Some n"
  by (induction xs arbitrary: acc) auto

lemma read_digits_digits: "read_digits acc xs = Some n \<Longrightarrow> list_all is_digit xs"
  by (induction xs arbitrary: acc) (auto split: if_splits)

lemma read_nat_text: "read_digits 0 (nat_text n) = Some n"
proof (induction n rule: nat_text.induct)
  case (1 n)
  then show ?case by (subst nat_text.simps) (auto simp: read_digits_append)
qed

lemma read_zeros [simp]: "read_digits 0 (replicate k (CHR ''0'') @ xs) = read_digits 0 xs"
  by (induction k) auto

lemma read_zeros_acc: "read_digits acc (replicate k (CHR ''0'')) = Some (acc * 10 ^ k)"
  by (induction k arbitrary: acc) auto

lemma length_nat_text_le_iff: "0 < k \<Longrightarrow> length (nat_text n) \<le> k \<longleftrightarrow> n < 10 ^ k"
proof (induction n arbitrary: k rule: nat_text.induct)
  case (1 n)
  show ?case
  proof (cases "n < 10")
    case True
    moreover have "(10::nat) \<le> 10 ^ k" using "1.prems" by (cases k) auto
    ultimately show ?thesis using "1.prems" by (subst nat_text.simps) auto
  next
    case False
    obtain j where j: "k = Suc j" using "1.prems" by (cases k) auto
    have "length (nat_text n) \<le> k \<longleftrightarrow> length (nat_text (n div 10)) \<le> j"
      using False j by (subst nat_text.simps) simp
    also have "\<dots> \<longleftrightarrow> n < 10 ^ k"
    proof (cases "j = 0")
      case True
      with False j show ?thesis by simp
    next
      case False2: False
      then have "length (nat_text (n div 10)) \<le> j \<longleftrightarrow> n div 10 < 10 ^ j" using "1.IH" False by simp
      also have "\<dots> \<longleftrightarrow> n < 10 ^ k" using j by (simp add: div_less_iff_less_mult mult.commute)
      finally show ?thesis .
    qed
    finally show ?thesis .
  qed
qed

lemma SetString10_digits:
  "list_all is_digit xs \<Longrightarrow> xs \<noteq> [] \<Longrightarrow> SetString10 xs = map_option int (read_digits 0 xs)"
  using digit_neq[of "hd xs"] by (cases xs) (auto simp: SetString10_def split: option.splits)

lemma SetString10_int_text: "SetString10 (int_text i) = Some i"
proof (cases "i < 0")
  case True
  then show ?thesis by (simp add: int_text_def SetString10_def read_nat_text)
next
  case False
  then show ?thesis
    by (simp add: int_text_def SetString10_digits nat_text_digits read_nat_text)
qed

section \<open>Split and copy\<close>

lemma Split_no_sep: "sep \<notin> set xs \<Longrightarrow> Split xs sep = [xs]"
  by (induction xs) auto

lemma Split_one_sep: "sep \<notin> set xs \<Longrightarrow> Split (xs @ sep # ys) sep = xs # Split ys sep"
  by (induction xs) auto

lemma go_copy_same [simp]: "length dst = length src \<Longrightarrow> go_copy dst src = src"
  by (simp add: go_copy_def)

lemma length_go_copy [simp]: "length (go_copy dst src) = length dst"
  by (simp add: go_copy_def)

section \<open>UnmarshalText reads what MarshalText writes\<close>

lemma scan_value_digit: "is_digit c \<Longrightarrow> scan_value c = digit_val c"
  by (simp add: is_digit_def scan_value_def digit_val_def Let_def)

lemma scan_loop_digits:
  "list_all is_digit xs \<Longrightarrow> read_digits acc xs = Some n \<Longrightarrow>
     scan_loop 10 prev False cnt acc xs = (if xs = [] then prev else PrevDigit, False, cnt + length xs, n, [])"
proof (induction xs arbitrary: prev cnt acc)
  case (Cons x xs)
  then show ?case
    using digit_neq(4)[of x] digit_val_less[of x] by (auto simp: scan_value_digit)
qed simp

lemma scan_nat_text: "scan_nat (nat_text n) = Some n"
proof (cases "n = 0")
  case True
  then show ?thesis by (simp add: nat_text.simps)
next
  case False
  obtain c cs where c: "nat_text n = c # cs" by (cases "nat_text n") auto
  with False nat_text_hd[of n] have "c \<noteq> CHR ''0''" by simp
  then show ?thesis
    using c scan_loop_digits[OF nat_text_digits read_nat_text, of PrevStart 0 n]
    by (simp add: scan_finish_def)
qed

lemma UnmarshalText_int_text: "UnmarshalText (int_text i) = Some i"
  using digit_neq(1,2)[OF nat_text_hd_digit[of "nat i"]]
  by (simp add: UnmarshalText_def int_text_def scan_nat_text del: scan_nat.simps)

section \<open>Lexicographic order of digit strings\<close>

lemma char_less_digit: "is_digit c \<Longrightarrow> is_digit d \<Longrightarrow> c < d \<longleftrightarrow> digit_val c < digit_val d"
  by (auto simp: less_char_def is_digit_def digit_val_def)

lemma read_digits_bound: "read_digits 0 xs = Some n \<Longrightarrow> n < 10 ^ length xs"
proof (induction xs arbitrary: n)
  case (Cons x xs)
  then have d: "list_all is_digit (x # xs)" using read_digits_digits by blast
  then obtain m where m: "read_digits 0 xs = Some m" using read_digits_defined[of xs 0] by auto
  have n: "n = digit_val x * 10 ^ length xs + m"
    using Cons.prems d m read_digits_acc[OF m, of "digit_val x"] by simp
  have "m < 10 ^ length xs" using Cons.IH m by blast
  moreover have "digit_val x \<le> 9" using d digit_val_less[of x] by simp
  then have "digit_val x * 10 ^ length xs \<le> 9 * 10 ^ length xs" by (rule mult_right_mono) simp
  ultimately have "n < 9 * 10 ^ length xs + 10 ^ length xs" using n by linarith
  then show ?case by simp
qed simp

lemma digits_lex:
  "length xs = length ys \<Longrightarrow> read_digits 0 xs = Some m \<Longrightarrow> read_digits 0 ys = Some n \<Longrightarrow> m < n \<Longrightarrow> xs < ys"
proof (induction xs ys arbitrary: m n rule: list_induct2)
  case (Cons x xs y ys)
  have d: "list_all is_digit (x # xs)" "list_all is_digit (y # ys)"
    by (rule read_digits_digits[OF Cons.prems(1)], rule read_digits_digits[OF Cons.prems(2)])
  obtain m' where m': "read_digits 0 xs = Some m'" using read_digits_defined[of xs 0] d by auto
  obtain n' where n': "read_digits 0 ys = Some n'" using read_digits_defined[of ys 0] d by auto
  have m: "m = digit_val x * 10 ^ length xs + m'"
    using Cons.prems(1) d(1) read_digits_acc[OF m', of "digit_val x"] by simp
  have n: "n = digit_val y * 10 ^ length xs + n'"
    using Cons.prems(2) Cons.hyps d(2) read_digits_acc[OF n', of "digit_val y"] by simp
  have b: "n' < 10 ^ length xs" using read_digits_bound[OF n'] Cons.hyps by simp
  show ?case
  proof (cases "digit_val x" "digit_val y" rule: linorder_cases)
    case less
    then have "x < y" using d by (simp add: char_less_digit)
    then show ?thesis by simp
  next
    case equal
    moreover have "is_digit x" "is_digit y" using d by simp_all
    ultimately have "x = y" using digit_char_val by metis
    moreover have "m' < n'" using m n Cons.prems(3) unfolding equal by linarith
    then have "xs < ys" by (rule Cons.IH[OF m' n'])
    ultimately show ?thesis by simp
  next
    case greater
    then have "(digit_val y + 1) * 10 ^ length xs \<le> digit_val x * 10 ^ length xs"
      by (intro mult_right_mono) auto
    then have "digit_val y * 10 ^ length xs + 10 ^ length xs \<le> digit_val x * 10 ^ length xs" by simp
    then have False using m n b Cons.prems(3) by linarith
    then show ?thesis ..
  qed
qed simp

lemma lex_insert: "length u = length v \<Longrightarrow> (u @ xs :: 'a::order list) < v @ ys \<Longrightarrow> u @ c # xs < v @ c # ys"
  by (induction u v rule: list_induct2) auto

end
