(* ===== verification/Big_Dec_Text.thy ===== *)
theory Big_Dec_Text
  imports Big_Dec Go_Text
begin

text \<open>
  The text forms of \<^verbatim>\<open>BigDec\<close> and \<^verbatim>\<open>BigInt\<close> (\<^verbatim>\<open>src/osmomath/decimal.go\<close>, \<^verbatim>\<open>int.go\<close>): parsing a decimal
  string, printing one, the encoding stored in protobuf messages, and the sortable form. A method
  with a pointer receiver takes what the pointer's field holds (\<open>None\<close> for nil) and gives what it
  holds afterwards; \<^verbatim>\<open>MarshalTo\<close> also gives the buffer it wrote to.
\<close>

section \<open>Parsing and printing\<close>

definition ErrEmptyDecimalStr :: string where
  "ErrEmptyDecimalStr = ''decimal string cannot be empty''"

definition ErrInvalidDecimalLength :: string where
  "ErrInvalidDecimalLength = ''invalid decimal length''"

definition ErrInvalidDecimalStr :: string where
  "ErrInvalidDecimalStr = ''invalid decimal string''"

definition NewDecFromStr :: "string \<Rightarrow> BigDec outcome" where
  "NewDecFromStr str0 =
     (if length str0 = 0 then Err ErrEmptyDecimalStr
      else let neg = (hd str0 = CHR ''-''); str = (if neg then tl str0 else str0)
      in if length str = 0 then Err ErrEmptyDecimalStr
      else let strs = Split str (CHR ''.'')
      in if length strs = 2 \<and> (length (strs ! 1) = 0 \<or> length (strs ! 0) = 0)
         then Err ErrInvalidDecimalLength
      else if length strs > 2 then Err ErrInvalidDecimalStr
      else let lenDecs = (if length strs = 2 then length (strs ! 1) else 0);
               combinedStr = (if length strs = 2 then strs ! 0 @ strs ! 1 else strs ! 0)
      in if lenDecs > Precision then Err ''invalid precision''
      else let zerosToAdd = Precision - lenDecs
      in case SetString10 (combinedStr @ zero_pad zerosToAdd []) of
           None \<Rightarrow> Err ''failed to set decimal string''
         | Some combined \<Rightarrow>
             if BitLen combined > maxBitLen then Err ''decimal out of range''
             else Ok (if neg then - combined else combined))"

definition MustNewDecFromStr :: "string \<Rightarrow> BigDec outcome" where
  "MustNewDecFromStr s = panic_on_err (NewDecFromStr s)"

definition BigDec_String :: "BigDec option \<Rightarrow> string" where
  "BigDec_String p =
     (case p of
        None \<Rightarrow> ''<nil>''
      | Some d0 \<Rightarrow>
          let isNeg = BigDec_IsNegative d0;
              d = (if isNeg then BigDec_Neg d0 else d0);
              bzInt = int_text d;
              inputSize = length bzInt;
              bzStr = (if inputSize \<le> Precision
                       then [CHR ''0'', CHR ''.''] @ replicate (Precision - inputSize) (CHR ''0'') @ bzInt
                       else let decPointPlace = inputSize - Precision
                            in take decPointPlace bzInt @ [CHR ''.''] @ drop decPointPlace bzInt)
          in if isNeg then CHR ''-'' # bzStr else bzStr)"

definition BigInt_String :: "BigInt \<Rightarrow> string" where
  "BigInt_String i = int_text i"

definition newIntegerFromString :: "string \<Rightarrow> int option" where
  "newIntegerFromString s = UnmarshalText s"

definition NewIntFromString :: "string \<Rightarrow> BigInt option \<times> bool" where
  "NewIntFromString s =
     (case newIntegerFromString s of
        None \<Rightarrow> (None, False)
      | Some i \<Rightarrow> if BitLen i > maxBitLen then (None, False) else (Some i, True))"

section \<open>Sortable bytes\<close>

definition MaxSortableDec :: "BigDec outcome" where
  "MaxSortableDec = BigDec_Quo OneDec SmallestDec"

definition ValidSortableDec :: "BigDec \<Rightarrow> bool outcome" where
  "ValidSortableDec dec = obind MaxSortableDec (\<lambda>m. Ok (BigDec_LTE (BigDec_Abs dec) m))"

definition SortableDecBytes :: "BigDec \<Rightarrow> string outcome" where
  "SortableDecBytes dec =
     obind (ValidSortableDec dec) (\<lambda>valid.
     obind MaxSortableDec (\<lambda>m.
       if \<not> valid then Panic ''dec must be within bounds''
       else if BigDec_Equal dec m then Ok ''max''
       else if BigDec_Equal dec (BigDec_Neg m) then Ok ''--''
       else if BigDec_IsNegative dec
            then Ok (CHR ''-'' # zero_pad (Precision * 2 + 1) (BigDec_String (Some (BigDec_Abs dec))))
       else Ok (zero_pad (Precision * 2 + 1) (BigDec_String (Some dec)))))"

section \<open>Protobuf custom type\<close>

definition BigDec_Marshal :: "BigDec option \<Rightarrow> string" where
  "BigDec_Marshal d = int_text (case d of None \<Rightarrow> 0 | Some i \<Rightarrow> i)"

text \<open>\<^verbatim>\<open>MarshalTo\<close>: the count it returns, the buffer and the receiver afterwards.\<close>

definition BigDec_MarshalTo :: "BigDec option \<Rightarrow> string \<Rightarrow> nat \<times> string \<times> BigDec option" where
  "BigDec_MarshalTo d data =
     (let i = (case d of None \<Rightarrow> 0 | Some i \<Rightarrow> i)
      in if Cmp i 0 = 0 then (1, go_copy data [CHR ''0''], Some i)
         else let bz = BigDec_Marshal (Some i) in (length bz, go_copy data bz, Some i))"

text \<open>\<^verbatim>\<open>Unmarshal\<close>: an empty input leaves the receiver alone (the assignment to it is to a copy).\<close>

definition BigDec_Unmarshal :: "BigDec option \<Rightarrow> string \<Rightarrow> BigDec option outcome" where
  "BigDec_Unmarshal d data =
     (if length data = 0 then Ok d
      else case UnmarshalText data of
             None \<Rightarrow> Err ''cannot unmarshal''
           | Some i \<Rightarrow> if BitLen i > maxBitLen then Err ''decimal out of range'' else Ok (Some i))"

definition BigDec_Size :: "BigDec option \<Rightarrow> nat" where
  "BigDec_Size d = length (BigDec_Marshal d)"

definition BigDec_MarshalAmino :: "BigDec option \<Rightarrow> string" where
  "BigDec_MarshalAmino d = BigDec_Marshal d"

definition BigDec_UnmarshalAmino :: "BigDec option \<Rightarrow> string \<Rightarrow> BigDec option outcome" where
  "BigDec_UnmarshalAmino d bz = BigDec_Unmarshal d bz"

definition BigInt_Marshal :: "BigInt option \<Rightarrow> string" where
  "BigInt_Marshal d = int_text (case d of None \<Rightarrow> 0 | Some i \<Rightarrow> i)"

definition BigInt_MarshalTo :: "BigInt option \<Rightarrow> string \<Rightarrow> nat \<times> string \<times> BigInt option" where
  "BigInt_MarshalTo d data =
     (let i = (case d of None \<Rightarrow> 0 | Some i \<Rightarrow> i)
      in if BitLen i = 0 then (1, go_copy data [CHR ''0''], Some i)
         else let bz = BigInt_Marshal (Some i) in (length bz, go_copy data bz, Some i))"

definition BigInt_Unmarshal :: "BigInt option \<Rightarrow> string \<Rightarrow> BigInt option outcome" where
  "BigInt_Unmarshal d data =
     (if length data = 0 then Ok d
      else case UnmarshalText data of
             None \<Rightarrow> Err ''cannot unmarshal''
           | Some i \<Rightarrow> if BitLen i > maxBitLen then Err ''integer out of range'' else Ok (Some i))"

definition unmarshalText :: "string \<Rightarrow> int outcome" where
  "unmarshalText data =
     (case UnmarshalText data of
        None \<Rightarrow> Err ''cannot unmarshal''
      | Some i \<Rightarrow> if BitLen i > maxBitLen then Err ''integer out of range'' else Ok i)"

definition BigInt_Size :: "BigInt option \<Rightarrow> nat" where
  "BigInt_Size d = length (BigInt_Marshal d)"

section \<open>Lemmas\<close>

text \<open>A printed non-negative decimal: whole digits, a point, 36 digits.\<close>

lemma BigDec_String_nonneg:
  assumes "0 \<le> d"
  obtains w f where "BigDec_String (Some d) = w @ CHR ''.'' # f" "list_all is_digit w" "list_all is_digit f"
    "w \<noteq> []" "length f = Precision" "read_digits 0 (w @ f) = Some (nat d)"
    "length w = max 1 (length (nat_text (nat d)) - Precision)"
proof -
  let ?bz = "nat_text (nat d)"
  have bz: "int_text d = ?bz" using assms by (simp add: int_text_def)
  have dg: "list_all is_digit ?bz" by (rule nat_text_digits)
  show ?thesis
  proof (cases "length ?bz \<le> Precision")
    case True
    show ?thesis
    proof
      show "BigDec_String (Some d)
          = [CHR ''0''] @ CHR ''.'' # (replicate (Precision - length ?bz) (CHR ''0'') @ ?bz)"
        using True assms by (simp add: BigDec_String_def Let_def bz BigDec_signs)
      show "length [CHR ''0''] = max 1 (length ?bz - Precision)" using True by simp
      show "read_digits 0 ([CHR ''0''] @ replicate (Precision - length ?bz) (CHR ''0'') @ ?bz) = Some (nat d)"
        using read_zeros[of "Suc (Precision - length ?bz)" ?bz] by (simp add: read_nat_text)
    qed (use True dg in \<open>auto simp: list_all_iff\<close>)
  next
    case False
    let ?k = "length ?bz - Precision"
    have k: "0 < ?k" "?k \<le> length ?bz" using False by auto
    show ?thesis
    proof
      show "BigDec_String (Some d) = take ?k ?bz @ CHR ''.'' # drop ?k ?bz"
        using False assms by (simp add: BigDec_String_def Let_def bz BigDec_signs)
      show "list_all is_digit (take ?k ?bz)" "list_all is_digit (drop ?k ?bz)"
        using dg by (auto simp: list_all_iff dest: in_set_takeD in_set_dropD)
      show "read_digits 0 (take ?k ?bz @ drop ?k ?bz) = Some (nat d)" by (simp add: read_nat_text)
    qed (use False k in \<open>auto simp: max_def\<close>)
  qed
qed

lemma digits_no_point: "list_all is_digit xs \<Longrightarrow> CHR ''.'' \<notin> set xs"
  using digit_neq(3) by (auto simp: list_all_iff)

lemma NewDecFromStr_point:
  assumes "list_all is_digit w" "w \<noteq> []" "list_all is_digit f" "f \<noteq> []" "length f \<le> Precision"
    and "read_digits 0 (w @ f @ replicate (Precision - length f) (CHR ''0'')) = Some n"
  shows "NewDecFromStr (w @ CHR ''.'' # f) =
      (if BitLen (int n) > maxBitLen then Err ''decimal out of range'' else Ok (int n))"
    and "NewDecFromStr (CHR ''-'' # w @ CHR ''.'' # f) =
      (if BitLen (int n) > maxBitLen then Err ''decimal out of range'' else Ok (- int n))"
proof -
  have sp: "Split (w @ CHR ''.'' # f) (CHR ''.'') = [w, f]"
    using assms digits_no_point[of w] digits_no_point[of f] by (simp add: Split_one_sep Split_no_sep)
  have "list_all is_digit (w @ f @ replicate (Precision - length f) (CHR ''0''))"
    using assms by (auto simp: list_all_iff)
  then have ss: "SetString10 (w @ f @ replicate (Precision - length f) (CHR ''0'')) = Some (int n)"
    using assms by (simp add: SetString10_digits)
  have hd: "hd (w @ CHR ''.'' # f) \<noteq> CHR ''-''"
    using assms(1,2) digit_neq(1)[of "hd w"] by (cases w) auto
  show "NewDecFromStr (w @ CHR ''.'' # f) =
      (if BitLen (int n) > maxBitLen then Err ''decimal out of range'' else Ok (int n))"
    using assms(2,4,5) sp ss hd by (simp add: NewDecFromStr_def Let_def zero_pad_def)
  show "NewDecFromStr (CHR ''-'' # w @ CHR ''.'' # f) =
      (if BitLen (int n) > maxBitLen then Err ''decimal out of range'' else Ok (- int n))"
    using assms(2,4,5) sp ss by (simp add: NewDecFromStr_def Let_def zero_pad_def)
qed

lemma BigDec_String_neg: "d < 0 \<Longrightarrow> BigDec_String (Some d) = CHR ''-'' # BigDec_String (Some (- d))"
  by (simp add: BigDec_String_def Let_def BigDec_signs BigDec_Neg_def)

section \<open>Properties\<close>

text \<open>
  C29 Printing and parsing: every decimal printed by \<^verbatim>\<open>String\<close> is read back by \<^verbatim>\<open>NewDecFromStr\<close> as the same
  decimal, if its integer has at most 1024 bits; a decimal between 1025 and the 1144 bits that
  arithmetic allows is printed but refused as out of range.
\<close>

theorem NewDecFromStr_String_roundtrip:
  "NewDecFromStr (BigDec_String (Some d)) =
     (if \<bar>d\<bar> < 2 ^ 1024 then Ok d else Err ''decimal out of range'')"
proof -
  have a: "0 \<le> \<bar>d\<bar>" by simp
  from BigDec_String_nonneg[OF a] obtain w f where
    s: "BigDec_String (Some \<bar>d\<bar>) = w @ CHR ''.'' # f" and w: "list_all is_digit w" "w \<noteq> []"
    and f: "list_all is_digit f" "length f = Precision" and r: "read_digits 0 (w @ f) = Some (nat \<bar>d\<bar>)"
    by metis
  have f': "f \<noteq> []" "length f \<le> Precision" using f by (auto simp: Precision_def)
  have r': "read_digits 0 (w @ f @ replicate (Precision - length f) (CHR ''0'')) = Some (nat \<bar>d\<bar>)"
    using r f by simp
  have b: "maxBitLen < BitLen (int (nat \<bar>d\<bar>)) \<longleftrightarrow> \<not> \<bar>d\<bar> < 2 ^ 1024"
    by (simp add: big_simps maxBitLen_def not_less)
  show ?thesis
    using NewDecFromStr_point[OF w f(1) f' r'] s b BigDec_String_neg[of d]
    by (cases "d < 0") auto
qed

text \<open>
  The stored form: unmarshalling what \<^verbatim>\<open>Marshal\<close> wrote gives the decimal back, whatever the receiver
  held, exactly for the integers of at most 1024 bits; \<^verbatim>\<open>Size\<close> is the length of the encoding and
  \<^verbatim>\<open>MarshalTo\<close> into a buffer of that size writes exactly the encoding.
\<close>

theorem BigDec_Marshal_roundtrip:
  "BigDec_Unmarshal recv (BigDec_Marshal (Some d)) =
     (if \<bar>d\<bar> < 2 ^ 1024 then Ok (Some d) else Err ''decimal out of range'') \<and>
   (length buf = BigDec_Size (Some d) \<longrightarrow>
      BigDec_MarshalTo (Some d) buf = (BigDec_Size (Some d), BigDec_Marshal (Some d), Some d))"
proof -
  have z: "int_text 0 = [CHR ''0'']" by (simp add: int_text_def nat_text.simps)
  have "int_text d \<noteq> []" by (simp add: int_text_def)
  then have "BigDec_Unmarshal recv (BigDec_Marshal (Some d)) =
     (if \<bar>d\<bar> < 2 ^ 1024 then Ok (Some d) else Err ''decimal out of range'')"
    by (simp add: BigDec_Unmarshal_def BigDec_Marshal_def UnmarshalText_int_text big_simps maxBitLen_def not_less)
  moreover have "BigDec_MarshalTo (Some d) buf = (BigDec_Size (Some d), BigDec_Marshal (Some d), Some d)"
    if "length buf = BigDec_Size (Some d)"
    using that z by (auto simp: BigDec_MarshalTo_def BigDec_Size_def BigDec_Marshal_def Cmp_def Let_def)
  ultimately show ?thesis by blast
qed

theorem BigDec_Marshal_roundtrip_witness:
  "BigDec_Unmarshal None (BigDec_Marshal (Some (- 15))) = Ok (Some (- 15)) \<and>
   BigDec_MarshalTo (Some (- 15)) ''xxx'' = (3, ''-15'', Some (- 15))"
proof -
  have m: "BigDec_Marshal (Some (- 15)) = ''-15''" by code_simp
  have "length ''xxx'' = BigDec_Size (Some (- 15))" by (simp add: BigDec_Size_def m)
  with BigDec_Marshal_roundtrip[of None "- 15" "''xxx''"] show ?thesis
    by (simp add: BigDec_Size_def m)
qed

lemma MaxSortableDec_eq: "MaxSortableDec = Ok (precisionReuse * precisionReuse)"
proof -
  have "quo (OneDec * precisionReuse * precisionReuse) SmallestDec = precisionReuse * precisionReuse * precisionReuse"
    by (simp add: quo_nonneg_eq SmallestDec_def OneDec_eq)
  moreover have "in_bits maxDecBitLen (precisionReuse * precisionReuse)"
    by (simp add: in_bits_def maxDecBitLen_eq precisionReuse_eq)
  ultimately show ?thesis
    by (simp add: MaxSortableDec_def quot.quot_Ok_iff SmallestDec_def chopPrecisionAndRound_exact)
qed

lemma sortable_nonneg:
  assumes "0 \<le> a" "a < precisionReuse * precisionReuse"
  obtains u f where "SortableDecBytes a = Ok (u @ CHR ''.'' # f)" "length u = Precision" "length f = Precision"
    "read_digits 0 (u @ f) = Some (nat a)"
proof -
  from BigDec_String_nonneg[OF assms(1)] obtain w f where
    s: "BigDec_String (Some a) = w @ CHR ''.'' # f" and f: "length f = Precision"
    and r: "read_digits 0 (w @ f) = Some (nat a)"
    and l: "length w = max 1 (length (nat_text (nat a)) - Precision)" by metis
  have "a < 10 ^ 72" using assms(2) by (simp add: precisionReuse_eq)
  then have "nat a < 10 ^ 72" using assms(1) by (simp add: nat_less_iff)
  then have "length (nat_text (nat a)) \<le> 72" by (subst length_nat_text_le_iff) simp_all
  then have w: "length w \<le> Precision" using l by (simp add: Precision_def)
  show ?thesis
  proof
    show "SortableDecBytes a = Ok ((replicate (Precision - length w) (CHR ''0'') @ w) @ CHR ''.'' # f)"
    proof -
      have "a \<noteq> - (precisionReuse * precisionReuse)"
        using assms mult_pos_pos[OF precisionReuse_pos precisionReuse_pos] by linarith
      moreover have "Precision * 2 + 1 - length (w @ CHR ''.'' # f) = Precision - length w" using f by simp
      ultimately show ?thesis
        using assms s
        by (simp add: SortableDecBytes_def ValidSortableDec_def MaxSortableDec_eq BigDec_comparisons
            BigDec_signs BigDec_Neg_def BigDec_Abs_def zero_pad_def)
    qed
    show "read_digits 0 ((replicate (Precision - length w) (CHR ''0'') @ w) @ f) = Some (nat a)" using r by simp
  qed (use w f in auto)
qed

lemma sortable_less:
  assumes "0 \<le> a" "a < b" "b \<le> 10 ^ 72"
  shows "\<exists>s t. SortableDecBytes a = Ok s \<and> SortableDecBytes b = Ok t \<and> s < t"
proof -
  have P: "precisionReuse * precisionReuse = 10 ^ 72" by (simp add: precisionReuse_eq)
  from sortable_nonneg[of a] assms P obtain u f where
    a: "SortableDecBytes a = Ok (u @ CHR ''.'' # f)" "length u = Precision" "length f = Precision"
    "read_digits 0 (u @ f) = Some (nat a)" by auto
  show ?thesis
  proof (cases "b = 10 ^ 72")
    case True
    then have "SortableDecBytes b = Ok ''max''"
      by (simp add: SortableDecBytes_def ValidSortableDec_def MaxSortableDec_eq P BigDec_comparisons BigDec_Abs_def)
    moreover have "u @ CHR ''.'' # f < ''max''"
    proof -
      obtain c cs where c: "u = c # cs" using a(2) by (cases u) (auto simp: Precision_def)
      then have "is_digit c" using read_digits_digits[OF a(4)] by simp
      then have "c < CHR ''m''" by (simp add: less_char_def is_digit_def)
      then show ?thesis using c by simp
    qed
    ultimately show ?thesis using a(1) by blast
  next
    case False
    with sortable_nonneg[of b] assms P obtain v g where
      b: "SortableDecBytes b = Ok (v @ CHR ''.'' # g)" "length v = Precision" "length g = Precision"
      "read_digits 0 (v @ g) = Some (nat b)" by auto
    have "u @ f < v @ g"
      using digits_lex[OF _ a(4) b(4)] a b assms by simp
    then have "u @ CHR ''.'' # f < v @ CHR ''.'' # g" using a(2) b(2) by (intro lex_insert) auto
    with a(1) b(1) show ?thesis by blast
  qed
qed

text \<open>
  The sortable form of non-negative decimals sorts like the decimals: up to the maximum, a smaller
  decimal has lexicographically smaller bytes.
\<close>

theorem SortableDecBytes_mono:
  assumes "0 \<le> a" "a < b" "b \<le> 10 ^ 72"
  shows "\<exists>s t. SortableDecBytes a = Ok s \<and> SortableDecBytes b = Ok t \<and> s < t"
  using assms by (rule sortable_less)

theorem SortableDecBytes_mono_witness:
  "\<exists>s t. SortableDecBytes 5 = Ok s \<and> SortableDecBytes (10 ^ 72) = Ok t \<and> s < t"
  using SortableDecBytes_mono[of 5 "10 ^ 72"] by simp

text \<open>
  Negative decimals do not sort: the bytes of the smaller of two negative decimals are
  lexicographically greater, because the digits of the absolute value follow the sign.
\<close>

theorem SortableDecBytes_negative_reversed:
  assumes "- (10 ^ 72) < a" "a < b" "b < 0"
  shows "\<exists>s t. SortableDecBytes a = Ok s \<and> SortableDecBytes b = Ok t \<and> t < s"
proof -
  have P: "precisionReuse * precisionReuse = 10 ^ 72" by (simp add: precisionReuse_eq)
  have neg: "SortableDecBytes x = obind (SortableDecBytes (- x)) (\<lambda>s. Ok (CHR ''-'' # s))"
    if "- (10 ^ 72) < x" "x < 0" for x
    using that P
    by (auto simp: SortableDecBytes_def ValidSortableDec_def MaxSortableDec_eq BigDec_comparisons
        BigDec_signs BigDec_Neg_def BigDec_Abs_def)
  obtain s t where "SortableDecBytes (- b) = Ok s" "SortableDecBytes (- a) = Ok t" "s < t"
    using sortable_less[of "- b" "- a"] assms by auto
  then show ?thesis using neg[of a] neg[of b] assms by simp
qed

theorem SortableDecBytes_negative_reversed_witness:
  "\<exists>s t. SortableDecBytes (- 2) = Ok s \<and> SortableDecBytes (- 1) = Ok t \<and> t < s"
  using SortableDecBytes_negative_reversed[of "- 2" "- 1"] by simp

text \<open>A second sign after the first is accepted and undoes it.\<close>

lemma NewDecFromStr_two_signs: "NewDecFromStr ''--5'' = Ok (5 * 10 ^ 36)"
proof -
  have "SetString10 (''-5'' @ replicate 36 (CHR ''0'')) = Some (- (5 * 10 ^ 36))"
    by (simp add: SetString10_def read_zeros_acc is_digit_def digit_val_def)
  then show ?thesis
    by (simp add: NewDecFromStr_def Let_def Precision_def zero_pad_def maxBitLen_def big_simps
       )
qed

end
