(* ===== verification/Big_Dec_Log.thy ===== *)
theory Big_Dec_Log
  imports Big_Dec_Text
begin

text \<open>
  Roots, logarithms and powers of \<^verbatim>\<open>BigDec\<close> (\<^verbatim>\<open>src/osmomath/decimal.go\<close>, \<^verbatim>\<open>exp2.go\<close>). Package variables that
  Go initialises from a decimal string are the parsed value; each string is shown to parse. Loops
  are recursive functions: the two normalising loops of \<^verbatim>\<open>LogBase2\<close> and the square-and-multiply loop
  end because the number, or the exponent, moves towards its bound, the others are bounded by the
  iteration constants of the source.
\<close>

section \<open>Definitions\<close>

text \<open>The value of a package variable whose initialiser may panic (0 if it did).\<close>

definition package_var :: "int outcome \<Rightarrow> int" where
  "package_var m = (case m of Ok d \<Rightarrow> d | _ \<Rightarrow> 0)"

definition logOfEbase2 :: BigDec where
  "logOfEbase2 = package_var (MustNewDecFromStr ''1.442695040888963407359924681001892137'')"

definition tickLogOf2 :: BigDec where
  "tickLogOf2 = package_var (MustNewDecFromStr ''0.000144262291094554178391070900057480'')"

definition twoBigDec :: BigDec where
  "twoBigDec = package_var (MustNewDecFromStr ''2'')"

subsection \<open>Integer powers\<close>

function PowerIntegerMut_loop :: "BigDec \<Rightarrow> BigDec \<Rightarrow> nat \<Rightarrow> (BigDec \<times> BigDec) outcome" where
  "PowerIntegerMut_loop d tmp i =
     (if i > 1
      then obind (if i mod 2 \<noteq> 0 then BigDec_MulMut tmp d else Ok tmp) (\<lambda>tmp'.
           obind (BigDec_MulMut d d) (\<lambda>d'. PowerIntegerMut_loop d' tmp' (i div 2)))
      else Ok (d, tmp))"
  by pat_completeness auto
termination
  by (relation "measure (\<lambda>(d, tmp, i). i)") auto

declare PowerIntegerMut_loop.simps [simp del]

definition BigDec_PowerIntegerMut :: "BigDec \<Rightarrow> uint64 \<Rightarrow> BigDec outcome" where
  "BigDec_PowerIntegerMut d pow =
     (if pow = 0 then Ok OneDec
      else obind (PowerIntegerMut_loop d OneDec (unat pow)) (\<lambda>(d', tmp). BigDec_MulMut d' tmp))"

definition BigDec_PowerInteger :: "BigDec \<Rightarrow> uint64 \<Rightarrow> BigDec outcome" where
  "BigDec_PowerInteger d pow = BigDec_PowerIntegerMut (BigDec_Clone d) pow"

subsection \<open>Roots\<close>

fun ApproxRoot_loop :: "nat \<Rightarrow> BigDec \<Rightarrow> uint64 \<Rightarrow> BigDec \<Rightarrow> BigDec \<Rightarrow> BigDec outcome" where
  "ApproxRoot_loop 0 d root guess delta = Ok guess"
| "ApproxRoot_loop (Suc n) d root guess delta =
     (if BigDec_GT (BigDec_Abs delta) SmallestDec
      then obind (BigDec_PowerInteger guess (root - 1)) (\<lambda>prev0.
           let prev = (if BigDec_IsZero prev0 then SmallestDec else prev0) in
           obind (BigDec_Quo d prev) (\<lambda>delta1.
           obind (BigDec_Sub delta1 guess) (\<lambda>delta2.
           obind (BigDec_QuoInt delta2 (NewIntFromUint64 root)) (\<lambda>delta3.
           obind (BigDec_Add guess delta3) (\<lambda>guess'. ApproxRoot_loop n d root guess' delta3)))))
      else Ok guess)"

text \<open>The method below the test for a negative receiver.\<close>

definition ApproxRoot_nonneg :: "BigDec \<Rightarrow> uint64 \<Rightarrow> BigDec outcome" where
  "ApproxRoot_nonneg d root =
     recovered ''out of bounds''
       (if root = 1 \<or> BigDec_IsZero d \<or> BigDec_Equal d OneDec then Ok d
        else if root = 0 then Ok OneDec
        else ApproxRoot_loop maxApproxRootIterations d root OneDec OneDec)"

definition BigDec_ApproxRoot :: "BigDec \<Rightarrow> uint64 \<Rightarrow> BigDec outcome" where
  "BigDec_ApproxRoot d root =
     (if BigDec_IsNegative d
      then recovered ''out of bounds''
             (obind (BigDec_MulInt64 d (- 1)) (\<lambda>a.
              obind (ApproxRoot_nonneg a root) (\<lambda>absRoot. BigDec_MulInt64 absRoot (- 1))))
      else ApproxRoot_nonneg d root)"

definition BigDec_ApproxSqrt :: "BigDec \<Rightarrow> BigDec outcome" where
  "BigDec_ApproxSqrt d = BigDec_ApproxRoot d 2"

subsection \<open>Logarithms\<close>

text \<open>The normalising loops; the first is entered with a positive number only.\<close>

function LogBase2_up :: "BigDec \<Rightarrow> BigDec \<Rightarrow> (BigDec \<times> BigDec) outcome" where
  "LogBase2_up x y =
     (if 0 < x \<and> BigDec_LT x OneDec
      then obind (BigDec_Sub y OneDec) (\<lambda>y'. LogBase2_up (x * 2) y')
      else Ok (x, y))"
  by pat_completeness auto
termination
  by (relation "measure (\<lambda>(x, y). nat (OneDec - x))") (auto simp: big_simps)

declare LogBase2_up.simps [simp del]

lemma twoBigDec_eq: "twoBigDec = 2 * precisionReuse"
proof -
  have "SetString10 (''2'' @ replicate 36 (CHR ''0'')) = Some (2 * 10 ^ 36)"
    by (simp add: SetString10_def read_zeros_acc is_digit_def digit_val_def)
  then have "NewDecFromStr ''2'' = Ok (2 * 10 ^ 36)"
    by (simp add: NewDecFromStr_def Let_def Precision_def zero_pad_def maxBitLen_def big_simps)
  then show ?thesis by (simp add: twoBigDec_def MustNewDecFromStr_def package_var_def precisionReuse_eq)
qed

function LogBase2_down :: "BigDec \<Rightarrow> BigDec \<Rightarrow> (BigDec \<times> BigDec) outcome" where
  "LogBase2_down x y =
     (if BigDec_GTE x twoBigDec
      then obind (BigDec_Add y OneDec) (\<lambda>y'. LogBase2_down (x div 2) y')
      else Ok (x, y))"
  by pat_completeness auto
termination
proof (relation "measure (\<lambda>(x, y). nat x)")
  fix x y y' :: int
  assume "BigDec_GTE x twoBigDec"
  then have "0 < x" using precisionReuse_pos by (simp add: big_simps twoBigDec_eq)
  then show "((x div 2, y'), x, y) \<in> measure (\<lambda>(x, y). nat x)" by auto
qed simp

declare LogBase2_down.simps [simp del]

text \<open>The mantissa loop, with the number of iterations left.\<close>

fun LogBase2_loop :: "nat \<Rightarrow> BigDec \<Rightarrow> BigDec \<Rightarrow> BigDec \<Rightarrow> BigDec outcome" where
  "LogBase2_loop 0 x y b = Ok y"
| "LogBase2_loop (Suc n) x y b =
     obind (BigDec_Mul x x) (\<lambda>x1.
       if BigDec_GTE x1 twoBigDec
       then obind (BigDec_Add y b) (\<lambda>y'. LogBase2_loop n (x1 div 2) y' (b div 2))
       else LogBase2_loop n x1 y (b div 2))"

definition BigDec_LogBase2 :: "BigDec \<Rightarrow> BigDec outcome" where
  "BigDec_LogBase2 x =
     (if BigDec_LTE x ZeroDec then Panic ''log is not defined at <= 0''
      else obind (LogBase2_up x ZeroDec) (\<lambda>(x1, y1).
           obind (LogBase2_down x1 y1) (\<lambda>(x2, y2).
           obind (BigDec_Quo OneDec twoBigDec) (\<lambda>b. LogBase2_loop maxLog2Iterations x2 y2 b))))"

definition BigDec_Ln :: "BigDec \<Rightarrow> BigDec outcome" where
  "BigDec_Ln x = obind (BigDec_LogBase2 x) (\<lambda>log2x. BigDec_Quo log2x logOfEbase2)"

definition BigDec_TickLog :: "BigDec \<Rightarrow> BigDec outcome" where
  "BigDec_TickLog x = obind (BigDec_LogBase2 x) (\<lambda>log2x. BigDec_Quo log2x tickLogOf2)"

definition BigDec_CustomBaseLog :: "BigDec \<Rightarrow> BigDec \<Rightarrow> BigDec outcome" where
  "BigDec_CustomBaseLog x base =
     (if BigDec_LTE base ZeroDec \<or> BigDec_Equal base OneDec
      then Panic ''log is not defined at base <= 0 or base == 1''
      else obind (BigDec_LogBase2 x) (\<lambda>log2x_argument.
           obind (BigDec_LogBase2 base) (\<lambda>log2x_base. BigDec_Quo log2x_argument log2x_base)))"

subsection \<open>Powers of two\<close>

definition numeratorCoefficients13Param :: "BigDec list" where
  "numeratorCoefficients13Param = map (\<lambda>s. package_var (MustNewDecFromStr s))
     [''1.000000000000000000000044212244679434'',
      ''0.352032455817400196452603772766844426'',
      ''0.056507868883666405413116800969512484'',
      ''0.005343900728213034434757419480319916'',
      ''0.000317708814342353603087543715930732'',
      ''0.000011429747507407623028722262874632'',
      ''0.000000198381965651614980168744540366'']"

definition denominatorCoefficients13Param :: "BigDec list" where
  "denominatorCoefficients13Param =
     [OneDec,
      BigDec_Neg (package_var (MustNewDecFromStr ''0.341114724742545112949699755780593311'')),
      package_var (MustNewDecFromStr ''0.052724071627342653404436933178482287''),
      BigDec_Neg (package_var (MustNewDecFromStr ''0.004760950735524957576233524801866342'')),
      package_var (MustNewDecFromStr ''0.000267168475410566529819971616894193''),
      BigDec_Neg (package_var (MustNewDecFromStr ''0.000008923715368802211181557353097439'')),
      package_var (MustNewDecFromStr ''0.000000140277233177373698516010555916'')]"

definition maxSupportedExponent :: BigDec where
  "maxSupportedExponent = package_var (obind (MustNewDecFromStr ''2'') (\<lambda>two. BigDec_PowerInteger two 9))"

text \<open>One iteration: the power of \<open>x\<close>, then both polynomials.\<close>

definition exp2_step :: "BigDec \<Rightarrow> BigDec \<times> BigDec \<Rightarrow> BigDec \<times> BigDec \<times> BigDec \<Rightarrow> (BigDec \<times> BigDec \<times> BigDec) outcome" where
  "exp2_step x coeffs st =
     (case (coeffs, st) of ((num, den), (x_exp_i, h_x, p_x)) \<Rightarrow>
        obind (BigDec_MulMut x_exp_i x) (\<lambda>xe.
        obind (BigDec_Mul num xe) (\<lambda>n.
        obind (BigDec_AddMut h_x n) (\<lambda>h.
        obind (BigDec_Mul den xe) (\<lambda>q.
        obind (BigDec_AddMut p_x q) (\<lambda>p. Ok (xe, h, p)))))))"

definition exp2ChebyshevRationalApprox :: "BigDec \<Rightarrow> BigDec outcome" where
  "exp2ChebyshevRationalApprox x =
     (if BigDec_LT x ZeroDec \<or> BigDec_GT x OneDec then Panic ''exponent must be in the range [0, 1]''
      else if BigDec_IsZero x then Ok OneDec
      else if BigDec_Equal x OneDec then Ok twoBigDec
      else obind (ofold (exp2_step x)
                    (zip (tl numeratorCoefficients13Param) (tl denominatorCoefficients13Param))
                    (OneDec, hd numeratorCoefficients13Param, hd denominatorCoefficients13Param))
             (\<lambda>(xe, h_x, p_x). BigDec_QuoMut h_x p_x))"

definition Exp2 :: "BigDec \<Rightarrow> BigDec outcome" where
  "Exp2 exponent =
     (if BigDec_GT (BigDec_Abs exponent) maxSupportedExponent then Panic ''integer exponent is too large''
      else if BigDec_IsNegative exponent then Panic ''negative exponent is not supported''
      else obind (BigDec_TruncateDec exponent) (\<lambda>integerExponent.
           obind (BigDec_Sub exponent integerExponent) (\<lambda>fractionalExponent.
           obind (exp2ChebyshevRationalApprox fractionalExponent) (\<lambda>fractionalResult.
           obind (obind (BigDec_TruncateInt integerExponent) BigInt_Uint64) (\<lambda>shift.
             Ok (fractionalResult * 2 ^ unat shift))))))"

definition BigDec_Power :: "BigDec \<Rightarrow> BigDec \<Rightarrow> BigDec outcome" where
  "BigDec_Power d pow =
     (if BigDec_IsNegative d then Panic ''negative base is not supported for Power()''
      else if BigDec_IsNegative pow then Panic ''negative power is not supported for Power()''
      else if BigDec_GT (BigDec_Abs pow) maxSupportedExponent then Panic ''integer exponent is too large''
      else if BigDec_IsInteger pow
           then obind (obind (BigDec_TruncateInt pow) BigInt_Uint64) (BigDec_PowerInteger d)
      else if BigDec_IsZero pow then Ok OneDec
      else if BigDec_IsZero d then Ok ZeroDec
      else if BigDec_LT d OneDec then Panic ''Power() is not supported for base < 1''
      else if BigDec_Equal d twoBigDec then Exp2 pow
      else obind (BigDec_LogBase2 d) (\<lambda>l. obind (BigDec_Mul l pow) Exp2))"

section \<open>Integer powers\<close>

lemma MulMut_eq_Mul: "BigDec_MulMut d d2 = BigDec_Mul d d2"
  by (simp add: BigDec_Mul_def BigDec_Clone_def)

lemma in_bits_mult_le: "in_bits n (x * P) \<Longrightarrow> \<bar>y\<bar> \<le> \<bar>x\<bar> \<Longrightarrow> in_bits n (y * P)"
  using mult_right_mono[of "\<bar>y\<bar>" "\<bar>x\<bar>" "\<bar>P\<bar>"] by (simp add: in_bits_def abs_mult)

lemma mul_whole_whole:
  assumes "in_bits maxDecBitLen (a * b * precisionReuse)"
  shows "BigDec_Mul (a * precisionReuse) (b * precisionReuse) = Ok (a * b * precisionReuse)"
  using assms mul.mul_whole[of a "b * precisionReuse"] by (simp add: mult.assoc)

text \<open>Square and multiply on whole numbers keeps \<open>tmp * d^i\<close>.\<close>

lemma PowerIntegerMut_loop_whole:
  assumes "1 \<le> i" "in_bits maxDecBitLen (\<bar>t\<bar> * \<bar>a\<bar> ^ i * precisionReuse)"
    "in_bits maxDecBitLen (\<bar>a\<bar> ^ i * precisionReuse)"
  shows "\<exists>a' t'. PowerIntegerMut_loop (a * precisionReuse) (t * precisionReuse) i
           = Ok (a' * precisionReuse, t' * precisionReuse) \<and> a' * t' = t * a ^ i"
  using assms
proof (induction i arbitrary: a t rule: less_induct)
  case (less i)
  show ?case
  proof (cases "i > 1")
    case False
    with less.prems have "i = 1" by simp
    then show ?thesis
      by (subst PowerIntegerMut_loop.simps) (auto simp: mult.commute)
  next
    case True
    define t1 where "t1 = (if i mod 2 \<noteq> 0 then t * a else t)"
    have step: "t1 * (a * a) ^ (i div 2) = t * a ^ i"
    proof (cases "i mod 2 = 0")
      case True
      then show ?thesis by (simp add: t1_def power_even_eq flip: power_mult power2_eq_square) (metis True mod_0_imp_dvd dvd_mult_div_cancel power_mult power2_eq_square mult.commute)
    next
      case False
      then have "i = Suc (2 * (i div 2))" by presburger
      then show ?thesis using False
        by (metis (no_types, lifting) mult.assoc power_Suc power_mult power2_eq_square t1_def)
    qed
    have grow: "\<bar>a\<bar> \<le> \<bar>a\<bar> ^ i" "\<bar>a * a\<bar> \<le> \<bar>a\<bar> ^ i" if "a \<noteq> 0"
      using that True power_increasing[of 1 i "\<bar>a\<bar>"] power_increasing[of 2 i "\<bar>a\<bar>"]
      by (auto simp: abs_mult power2_eq_square)
    have ta: "in_bits maxDecBitLen (t * a * precisionReuse)"
      by (cases "a = 0") (use less.prems(2) grow in
          \<open>auto simp: abs_mult intro!: in_bits_mult_le[OF less.prems(2)] mult_left_mono\<close>)
    have aa: "in_bits maxDecBitLen (a * a * precisionReuse)"
      by (cases "a = 0") (use less.prems(3) grow in \<open>auto intro!: in_bits_mult_le[OF less.prems(3)]\<close>)
    have tmp: "(if i mod 2 \<noteq> 0 then BigDec_MulMut (t * precisionReuse) (a * precisionReuse)
        else Ok (t * precisionReuse)) = Ok (t1 * precisionReuse)"
      using ta by (simp add: t1_def MulMut_eq_Mul mul_whole_whole)
    have dd: "BigDec_MulMut (a * precisionReuse) (a * precisionReuse) = Ok (a * a * precisionReuse)"
      using aa by (simp add: MulMut_eq_Mul mul_whole_whole)
    have abs_step: "\<bar>t1\<bar> * \<bar>a * a\<bar> ^ (i div 2) = \<bar>t\<bar> * \<bar>a\<bar> ^ i"
      using step by (metis abs_mult power_abs)
    have small: "\<bar>a * a\<bar> ^ (i div 2) \<le> \<bar>a\<bar> ^ i"
    proof (cases "a = 0")
      case True
      with \<open>i > 1\<close> show ?thesis by (auto simp: power_0_left)
    next
      case False
      have "\<bar>a * a\<bar> ^ (i div 2) = \<bar>a\<bar> ^ (2 * (i div 2))" by (simp add: power_mult power2_eq_square abs_mult)
      also have "\<dots> \<le> \<bar>a\<bar> ^ i" using False by (intro power_increasing) auto
      finally show ?thesis .
    qed
    have "\<exists>a' t'. PowerIntegerMut_loop (a * a * precisionReuse) (t1 * precisionReuse) (i div 2)
           = Ok (a' * precisionReuse, t' * precisionReuse) \<and> a' * t' = t1 * (a * a) ^ (i div 2)"
      using True less.prems abs_step small
      by (intro less.IH) (auto intro!: in_bits_mult_le[OF less.prems(3)])
    then show ?thesis
      using True tmp dd step by (subst PowerIntegerMut_loop.simps) auto
  qed
qed

text \<open>Raising a whole number to an integer power.\<close>

lemma PowerInteger_whole:
  assumes "in_bits maxDecBitLen (k ^ unat n * precisionReuse)"
  shows "BigDec_PowerInteger (k * precisionReuse) n = Ok (k ^ unat n * precisionReuse)"
proof (cases "n = 0")
  case True
  then show ?thesis by (simp add: BigDec_PowerInteger_def BigDec_PowerIntegerMut_def BigDec_Clone_def OneDec_eq)
next
  case False
  then have i: "1 \<le> unat n" by (simp add: unat_eq_0 Suc_le_eq flip: neq0_conv)
  have b: "in_bits maxDecBitLen (\<bar>k\<bar> ^ unat n * precisionReuse)"
    by (rule in_bits_mult_le[OF assms]) (simp add: power_abs)
  then obtain a' t' where l: "PowerIntegerMut_loop (k * precisionReuse) (1 * precisionReuse) (unat n)
      = Ok (a' * precisionReuse, t' * precisionReuse)" and e: "a' * t' = k ^ unat n"
    using PowerIntegerMut_loop_whole[OF i, of 1 k] by auto
  then show ?thesis
    using False assms mul_whole_whole[of a' t']
    by (simp add: BigDec_PowerInteger_def BigDec_PowerIntegerMut_def BigDec_Clone_def OneDec_eq MulMut_eq_Mul)
qed

lemma maxSupportedExponent_eq: "maxSupportedExponent = 512 * precisionReuse"
proof -
  have "SetString10 (''2'' @ replicate 36 (CHR ''0'')) = Some (2 * 10 ^ 36)"
    by (simp add: SetString10_def read_zeros_acc is_digit_def digit_val_def)
  then have "NewDecFromStr ''2'' = Ok (2 * precisionReuse)"
    by (simp add: NewDecFromStr_def Let_def Precision_def zero_pad_def maxBitLen_def big_simps)
  moreover have "BigDec_PowerInteger (2 * precisionReuse) 9 = Ok (2 ^ 9 * precisionReuse)"
    using PowerInteger_whole[of 2 9] by (simp add: in_bits_def maxDecBitLen_eq precisionReuse_eq)
  ultimately show ?thesis
    by (simp add: maxSupportedExponent_def MustNewDecFromStr_def package_var_def)
qed

section \<open>The binary logarithm\<close>

lemma small_multiple_in_bits: "\<bar>k\<bar> \<le> 2000 \<Longrightarrow> in_bits maxDecBitLen (k * precisionReuse)"
  by (rule in_bits_mult_le[where x = 2000]) (simp_all add: in_bits_def maxDecBitLen_eq precisionReuse_eq)

lemma less_precision_exp: "2 ^ j \<le> x \<Longrightarrow> x < precisionReuse \<Longrightarrow> j < 120"
proof (rule ccontr)
  assume "2 ^ j \<le> x" "x < precisionReuse" "\<not> j < 120"
  then have "(2::int) ^ 120 \<le> 2 ^ j" by (intro power_increasing) auto
  with \<open>2 ^ j \<le> x\<close> \<open>x < precisionReuse\<close> show False by (simp add: precisionReuse_eq)
qed

lemma LogBase2_up_spec:
  assumes "2 ^ j \<le> x"
  shows "\<exists>n. LogBase2_up x (- (int j * precisionReuse)) = Ok (2 ^ n * x, - (int (j + n) * precisionReuse)) \<and>
    precisionReuse \<le> 2 ^ n * x \<and> (n = 0 \<or> 2 ^ n * x < 2 * precisionReuse)"
  using assms
proof (induction x "- (int j * precisionReuse)" arbitrary: j rule: LogBase2_up.induct)
  case (1 x)
  have x: "0 < x" using "1.prems" by (meson less_le_trans zero_less_numeral zero_less_power)
  show ?case
  proof (cases "x < precisionReuse")
    case False
    then show ?thesis
      by (subst LogBase2_up.simps) (auto simp: BigDec_comparisons OneDec_eq intro!: exI[of _ 0])
  next
    case True
    have j: "j < 120" using "1.prems" True by (rule less_precision_exp)
    have sub: "BigDec_Sub (- (int j * precisionReuse)) OneDec = Ok (- (int (Suc j) * precisionReuse))"
    proof -
      have e: "- (int j * precisionReuse) - OneDec = - int (Suc j) * precisionReuse"
        by (simp add: OneDec_eq left_diff_distrib)
      have "in_bits maxDecBitLen (- int (Suc j) * precisionReuse)" using j by (intro small_multiple_in_bits) simp
      then show ?thesis unfolding big_dec.sub_Ok_iff e by (simp add: left_diff_distrib distrib_right)
    qed
    have "2 ^ Suc j \<le> x * 2" using "1.prems" by simp
    from "1.hyps"[OF _ sub this] obtain n where
      n: "LogBase2_up (x * 2) (- (int (Suc j) * precisionReuse)) = Ok (2 ^ n * (x * 2), - (int (Suc j + n) * precisionReuse))"
      "precisionReuse \<le> 2 ^ n * (x * 2)" "n = 0 \<or> 2 ^ n * (x * 2) < 2 * precisionReuse"
      using True x by (auto simp: BigDec_comparisons OneDec_eq)
    have "LogBase2_up x (- (int j * precisionReuse)) = LogBase2_up (x * 2) (- (int (Suc j) * precisionReuse))"
      using True x sub by (subst LogBase2_up.simps) (simp add: BigDec_comparisons OneDec_eq)
    with n True show ?thesis by (intro exI[of _ "Suc n"]) (auto simp: ac_simps)
  qed
qed

lemma LogBase2_down_spec:
  assumes "precisionReuse \<le> x" "x * 2 ^ j < 2 ^ 1144"
  shows "\<exists>n. LogBase2_down x (int j * precisionReuse) = Ok (x div 2 ^ n, int (j + n) * precisionReuse) \<and>
    precisionReuse \<le> x div 2 ^ n \<and> x div 2 ^ n < 2 * precisionReuse"
  using assms
proof (induction x "int j * precisionReuse" arbitrary: j rule: LogBase2_down.induct)
  case (1 x)
  show ?case
  proof (cases "2 * precisionReuse \<le> x")
    case False
    with "1.prems" show ?thesis
      by (subst LogBase2_down.simps) (auto simp: BigDec_comparisons twoBigDec_eq intro!: exI[of _ 0])
  next
    case True
    have "1 \<le> x" using "1.prems"(1) precisionReuse_pos by linarith
    then have "2 ^ j \<le> x * 2 ^ j" by simp
    then have "(2::int) ^ j < 2 ^ 1144" using "1.prems"(2) by linarith
    then have j: "j < 1144" by (rule power_less_imp_less_exp[rotated]) simp
    have add: "BigDec_Add (int j * precisionReuse) OneDec = Ok (int (Suc j) * precisionReuse)"
    proof -
      have e: "int j * precisionReuse + OneDec = int (Suc j) * precisionReuse" by (simp add: OneDec_eq distrib_right)
      have "in_bits maxDecBitLen (int (Suc j) * precisionReuse)" using j by (intro small_multiple_in_bits) simp
      then show ?thesis unfolding big_dec.add_Ok_iff e by simp
    qed
    have half: "precisionReuse \<le> x div 2" using True by linarith
    have "x div 2 * 2 ^ Suc j \<le> x * 2 ^ j" by simp
    then have "x div 2 * 2 ^ Suc j < 2 ^ 1144" using "1.prems"(2) by linarith
    from "1.hyps"[OF _ add half this] obtain n where
      n: "LogBase2_down (x div 2) (int (Suc j) * precisionReuse) = Ok (x div 2 div 2 ^ n, int (Suc j + n) * precisionReuse)"
      "precisionReuse \<le> x div 2 div 2 ^ n" "x div 2 div 2 ^ n < 2 * precisionReuse"
      using True by (auto simp: BigDec_comparisons twoBigDec_eq)
    have "LogBase2_down x (int j * precisionReuse) = LogBase2_down (x div 2) (int (Suc j) * precisionReuse)"
      using True add by (subst LogBase2_down.simps) (simp add: BigDec_comparisons twoBigDec_eq)
    with n show ?thesis by (intro exI[of _ "Suc n"]) (auto simp: div_mult2_eq[of 2] zdiv_zmult2_eq)
  qed
qed

text \<open>Squaring a mantissa in \<open>[1, 2)\<close> gives a number in \<open>[1, 4)\<close>.\<close>

lemma square_mantissa:
  assumes "precisionReuse \<le> x" "x < 2 * precisionReuse"
  shows "\<exists>z. BigDec_Mul x x = Ok z \<and> precisionReuse \<le> z \<and> z < 4 * precisionReuse"
proof -
  let ?P = precisionReuse
  have lo: "?P * ?P \<le> x * x" using assms by (intro mult_mono) auto
  have "x * x \<le> (2 * ?P - 1) * (2 * ?P - 1)" using assms precisionReuse_pos by (intro mult_mono) linarith+
  also have "\<dots> \<le> (4 * ?P - 3) * ?P"
    by (simp add: precisionReuse_eq)
  finally have hi: "x * x \<le> (4 * ?P - 3) * ?P" .
  have c: "?P \<le> chopPrecisionAndRound (x * x)" "chopPrecisionAndRound (x * x) \<le> 4 * ?P - 3"
    using chopPrecisionAndRound_mono[OF lo] chopPrecisionAndRound_mono[OF hi]
    by (simp_all only: chopPrecisionAndRound_exact)
  have "in_bits maxDecBitLen (4 * ?P)" by (rule small_multiple_in_bits) simp
  then have "in_bits maxDecBitLen (chopPrecisionAndRound (x * x))"
    by (rule in_bits_mono) (use c precisionReuse_pos in linarith)
  with c show ?thesis by (auto simp: mul.mul_Ok_iff)
qed

lemma Quo_One_two: "BigDec_Quo OneDec twoBigDec = Ok fivePrecision"
proof -
  have e: "precisionReuse * precisionReuse * precisionReuse = (2 * precisionReuse) * (fivePrecision * precisionReuse)"
    using two_fivePrecision by (simp add: ac_simps)
  have "quo (OneDec * precisionReuse * precisionReuse) twoBigDec = fivePrecision * precisionReuse"
    unfolding OneDec_eq twoBigDec_eq e by (rule quo_exact) simp
  moreover have "in_bits maxDecBitLen fivePrecision"
    by (rule in_bits_mono[OF in_bits_precisionReuse]) (use two_fivePrecision precisionReuse_pos in linarith)
  ultimately show ?thesis
    by (simp add: quot.quot_Ok_iff twoBigDec_eq chopPrecisionAndRound_exact)
qed

text \<open>After normalisation: the exponent \<open>k\<close> and a mantissa between 1 and 2.\<close>

lemma LogBase2_normalise:
  assumes "0 < x" "in_bits maxDecBitLen x"
  shows "\<exists>k x2. obind (LogBase2_up x ZeroDec) (\<lambda>(x1, y1). LogBase2_down x1 y1) = Ok (x2, k * precisionReuse) \<and>
    precisionReuse \<le> x2 \<and> x2 < 2 * precisionReuse \<and> \<bar>k\<bar> \<le> 1144 \<and>
    (if 0 \<le> k then x2 = x div 2 ^ nat k else x2 = 2 ^ nat (- k) * x)"
proof -
  let ?P = precisionReuse
  have "2 ^ 0 \<le> x" using assms by simp
  from LogBase2_up_spec[OF this] obtain n where
    n: "LogBase2_up x ZeroDec = Ok (2 ^ n * x, - (int n * ?P))" "?P \<le> 2 ^ n * x" "n = 0 \<or> 2 ^ n * x < 2 * ?P"
    by (auto simp: ZeroDec_def)
  have x: "x < 2 ^ 1144" using assms by (simp add: in_bits_def maxDecBitLen_eq)
  show ?thesis
  proof (cases "n = 0")
    case True
    then have "?P \<le> x" "x * 2 ^ 0 < 2 ^ 1144" using n(2) x by simp_all
    from LogBase2_down_spec[OF this] obtain m where
      m: "LogBase2_down x 0 = Ok (x div 2 ^ m, int m * ?P)" "?P \<le> x div 2 ^ m" "x div 2 ^ m < 2 * ?P"
      by auto
    have fl: "x div 2 ^ m * 2 ^ m \<le> x"
      using floor_div_bounds[of "2 ^ m" x] by simp
    have "?P * 2 ^ m \<le> x div 2 ^ m * 2 ^ m" using m(2) by (rule mult_right_mono) simp
    then have "?P * 2 ^ m \<le> x" using fl by linarith
    then have lo: "2 ^ m * ?P \<le> x" by (simp only: mult.commute)
    have "(2::int) ^ m * 1 \<le> 2 ^ m * ?P" using precisionReuse_pos by (intro mult_left_mono) (linarith, simp)
    then have "(2::int) ^ m < 2 ^ 1144" using lo x by linarith
    then have "m < 1144" by (rule power_less_imp_less_exp[rotated]) simp
    with True n m show ?thesis
      by (intro exI[of _ "int m"] exI[of _ "x div 2 ^ m"]) auto
  next
    case False
    then have b: "2 ^ n * x < 2 * ?P" using n(3) by simp
    have "(2::int) ^ n * 1 \<le> 2 ^ n * x" using assms(1) by (intro mult_left_mono) (linarith, simp)
    then have "(2::int) ^ n < 2 * ?P" using b by linarith
    also have "2 * ?P < 2 ^ 1144" by (simp add: precisionReuse_eq)
    finally have "(2::int) ^ n < 2 ^ 1144" .
    then have n1: "n < 1144" by (rule power_less_imp_less_exp[rotated]) simp
    have "LogBase2_down (2 ^ n * x) (- (int n * ?P)) = Ok (2 ^ n * x, - (int n * ?P))"
      using b by (subst LogBase2_down.simps) (simp add: BigDec_comparisons twoBigDec_eq)
    with False n b n1 show ?thesis
      by (intro exI[of _ "- int n"] exI[of _ "2 ^ n * x"]) auto
  qed
qed

section \<open>Properties\<close>

text \<open>
  C31 Raising a whole number to an integer power by square and multiply is exact and does not panic, if
  the result fits: no intermediate square overflows before the result does.
\<close>

theorem BigDec_PowerInteger_exact:
  assumes "\<bar>k ^ unat n * 10 ^ 36\<bar> < 2 ^ 1144"
  shows "BigDec_PowerInteger (k * 10 ^ 36) n = Ok (k ^ unat n * 10 ^ 36)"
  using PowerInteger_whole[of k n] assms by (simp add: in_bits_def maxDecBitLen_eq precisionReuse_eq)

theorem BigDec_PowerInteger_exact_witness:
  "BigDec_PowerInteger (- 3 * 10 ^ 36) 5 = Ok (- 243 * 10 ^ 36)"
  using BigDec_PowerInteger_exact[of "- 3" 5] by simp

text \<open>
  Powers of two with a whole exponent are exact up to the maximum supported exponent, which is 512;
  above it, and for a negative exponent, \<^verbatim>\<open>Exp2\<close> panics.
\<close>

theorem Exp2_whole_exponent:
  "maxSupportedExponent = 512 * 10 ^ 36 \<and>
   Exp2 (k * 10 ^ 36) =
     (if \<bar>k\<bar> > 512 then Panic ''integer exponent is too large''
      else if k < 0 then Panic ''negative exponent is not supported''
      else Ok (2 ^ nat k * 10 ^ 36))"
proof
  let ?P = precisionReuse
  show "maxSupportedExponent = 512 * 10 ^ 36" by (simp add: maxSupportedExponent_eq precisionReuse_eq)
  have cmp: "512 * ?P < \<bar>k * ?P\<bar> \<longleftrightarrow> 512 < \<bar>k\<bar>"
    using mult_less_cancel_right_pos[OF precisionReuse_pos, of 512 "\<bar>k\<bar>"] by (simp add: abs_mult)
  have neg: "k * ?P < 0 \<longleftrightarrow> k < 0" using mult_less_cancel_right_pos[OF precisionReuse_pos, of k 0] by simp
  show "Exp2 (k * 10 ^ 36) =
     (if \<bar>k\<bar> > 512 then Panic ''integer exponent is too large''
      else if k < 0 then Panic ''negative exponent is not supported''
      else Ok (2 ^ nat k * 10 ^ 36))"
  proof (cases "\<bar>k\<bar> > 512 \<or> k < 0")
    case True
    then show ?thesis
      unfolding precisionReuse_eq[symmetric]
      using cmp neg by (auto simp: Exp2_def BigDec_comparisons BigDec_signs BigDec_Abs_def maxSupportedExponent_eq)
  next
    case False
    have t: "BigDec_TruncateDec (k * ?P) = Ok (k * ?P)"
      by (simp add: BigDec_TruncateDec_def trunc.chop_exact NewDecFromBigInt_eq)
    have s: "BigDec_Sub (k * ?P) (k * ?P) = Ok 0" by (simp add: big_dec.sub_Ok_iff)
    have e: "exp2ChebyshevRationalApprox 0 = Ok ?P"
      by (simp add: exp2ChebyshevRationalApprox_def BigDec_comparisons BigDec_signs ZeroDec_def OneDec_eq)
    have k: "0 \<le> k" "k \<le> 512" using False by linarith+
    then have "\<bar>k\<bar> < 2 ^ 10" by simp
    also have "(2::int) ^ 10 \<le> 2 ^ maxBitLen" by (rule power_increasing) (simp_all add: maxBitLen_def)
    finally have "\<not> maxBitLen < BitLen k" by (simp add: BitLen_gt_iff)
    then have u: "obind (BigDec_TruncateInt (k * ?P)) BigInt_Uint64 = Ok (word_of_int k)"
      using k by (simp add: BigDec_TruncateInt_def trunc.chop_exact NewIntFromBigInt_def deref_def
          BigInt_Uint64_def BigInt_IsUint64_def)
    have "unat (word_of_int k :: 64 word) = nat k"
      using k by (simp add: unsigned_of_int take_bit_int_eq_self)
    then show ?thesis
      unfolding precisionReuse_eq[symmetric]
      using False cmp neg t s e u
      by (auto simp: Exp2_def BigDec_comparisons BigDec_signs BigDec_Abs_def maxSupportedExponent_eq mult.commute)
  qed
qed

text \<open>
  The Newton iteration for roots cannot panic (a panic inside is returned as an error), and the
  root of a negated decimal is the negated root.
\<close>

theorem BigDec_ApproxRoot_total_odd:
  "BigDec_ApproxRoot d root \<noteq> Panic p \<and>
   (BigDec_ApproxRoot d root = Ok r \<and> 0 < d \<and> in_bits maxDecBitLen d \<and> in_bits maxDecBitLen r \<longrightarrow>
      BigDec_ApproxRoot (- d) root = Ok (- r))"
proof
  show "BigDec_ApproxRoot d root \<noteq> Panic p" by (simp add: BigDec_ApproxRoot_def ApproxRoot_nonneg_def)
  have m: "BigDec_MulInt64 a (- 1) = Ok (- a)" if "in_bits maxDecBitLen a" for a
    using that by (simp add: BigDec_MulInt64_def big_simps in_bits_def)
  show "BigDec_ApproxRoot d root = Ok r \<and> 0 < d \<and> in_bits maxDecBitLen d \<and> in_bits maxDecBitLen r \<longrightarrow>
      BigDec_ApproxRoot (- d) root = Ok (- r)"
    using m[of "- d"] m[of r] by (auto simp: BigDec_ApproxRoot_def BigDec_signs go_simps)
qed

theorem BigDec_ApproxRoot_total_odd_witness:
  "BigDec_ApproxRoot (4 * 10 ^ 36) 1 = Ok (4 * 10 ^ 36) \<and> BigDec_ApproxRoot (- (4 * 10 ^ 36)) 1 = Ok (- (4 * 10 ^ 36))"
proof -
  have "BigDec_ApproxRoot (4 * 10 ^ 36) 1 = Ok (4 * 10 ^ 36)"
    by (simp add: BigDec_ApproxRoot_def ApproxRoot_nonneg_def BigDec_signs)
  then show ?thesis
    using BigDec_ApproxRoot_total_odd[of "4 * 10 ^ 36" 1 "[]" "4 * 10 ^ 36"] by (simp add: in_bits_def maxDecBitLen_eq)
qed

end
