(* ===== verification/Log_Accuracy.thy ===== *)
theory Log_Accuracy
  imports Big_Dec_Log Complex_Main
begin

text \<open>
  How far \<^verbatim>\<open>LogBase2\<close> of \<^verbatim>\<open>osmomath/decimal.go\<close> is from the real logarithm. Every iteration of its mantissa loop keeps
  \<open>y + 2 b log x\<close> up to the rounding of the square and of the two shifts, so the errors of the iterations add up.
\<close>

text \<open>The real number that a mantissa stands for, and its logarithm.\<close>

definition mantissa_log :: "BigDec \<Rightarrow> real" where
  "mantissa_log x = log 2 (of_int x / of_int precisionReuse)"

lemma log2_near_one:
  assumes "0 < u" "\<bar>v - u\<bar> \<le> e * u" "0 \<le> e" "e \<le> 1 / 2" "0 < v"
  shows "\<bar>log 2 v - log 2 u\<bar> \<le> 4 * (e :: real)"
proof -
  have "ln (1 / 2) \<le> (1 / 2 :: real) - 1" by (intro ln_le_minus_one) simp
  then have l2: "1 / 2 \<le> ln (2::real)" by (simp add: ln_div)
  have r: "1 - e \<le> v / u" "v / u \<le> 1 + e" using assms by (simp_all add: field_simps abs_le_iff)
  have "ln (v / u) \<le> v / u - 1" using assms by (intro ln_le_minus_one) simp
  then have up: "ln (v / u) \<le> e" using r by linarith
  have "ln (u / v) \<le> u / v - 1" using assms by (intro ln_le_minus_one) simp
  moreover have "u / v \<le> 1 / (1 - e)" using r(1) assms by (simp add: field_simps)
  moreover have "1 / (1 - e) \<le> 1 + 2 * e"
  proof -
    have "0 \<le> e * (1 - 2 * e)" using assms by (intro mult_nonneg_nonneg) simp_all
    then show ?thesis using assms by (simp add: field_simps)
  qed
  ultimately have "ln (u / v) \<le> 2 * e" by linarith
  moreover have "ln (v / u) = - ln (u / v)" using assms by (simp add: ln_div)
  ultimately have "\<bar>ln (v / u)\<bar> \<le> 2 * e" using up assms by linarith
  moreover have "log 2 v - log 2 u = ln (v / u) / ln 2" using assms by (simp add: log_def ln_div diff_divide_distrib)
  moreover have "2 * e / ln 2 \<le> 4 * e"
  proof -
    have "e * 2 \<le> e * (4 * ln 2)" using assms l2 by (intro mult_left_mono) simp_all
    then show ?thesis by (simp add: field_simps)
  qed
  moreover have "\<bar>ln (v / u) / ln 2\<bar> \<le> 2 * e / ln 2" using calculation(1) by (simp add: abs_divide divide_right_mono)
  ultimately show ?thesis by linarith
qed

lemma mantissa_log_bounds:
  assumes "precisionReuse \<le> x" "x \<le> 2 * precisionReuse"
  shows "0 \<le> mantissa_log x \<and> mantissa_log x \<le> 1"
proof -
  have P: "(0::real) < of_int precisionReuse" using precisionReuse_pos by simp
  have "(of_int precisionReuse :: real) \<le> of_int x" "of_int x \<le> (of_int (2 * precisionReuse) :: real)"
    using assms by (simp_all only: of_int_le_iff)
  then have "(1::real) \<le> of_int x / of_int precisionReuse" "of_int x / of_int precisionReuse \<le> (2::real)"
    using P by (simp_all add: le_divide_eq divide_le_eq)
  then show ?thesis
    unfolding mantissa_log_def by (intro conjI) (rule zero_le_log_cancel_iff[THEN iffD2] log_le_one_cancel_iff[THEN iffD2]; linarith)+
qed

text \<open>A mantissa at most one and a half units away from a real number.\<close>

lemma mantissa_log_near:
  assumes "precisionReuse \<le> x" "\<bar>of_int x - of_int precisionReuse * t\<bar> \<le> (3::real) / 2" "1 / 2 \<le> t"
  shows "\<bar>mantissa_log x - log 2 t\<bar> \<le> 12 / of_int precisionReuse"
proof -
  let ?P = "of_int precisionReuse :: real"
  have P: "0 < ?P" using precisionReuse_pos by simp
  have p: "6 \<le> ?P" by (simp add: precisionReuse_eq)
  let ?e = "3 / ?P"
  have "\<bar>of_int x / ?P - t\<bar> = \<bar>of_int x - ?P * t\<bar> / ?P" using P by (simp add: field_simps abs_divide)
  also have "\<dots> \<le> ?e * (1 / 2)" using assms(2) P by (simp add: field_simps)
  also have "\<dots> \<le> ?e * t" using assms(3) P by (intro mult_left_mono) simp_all
  finally have "\<bar>of_int x / ?P - t\<bar> \<le> ?e * t" .
  moreover have "0 < of_int x / ?P" using assms(1) precisionReuse_pos by (intro divide_pos_pos) linarith+
  moreover have "?e \<le> 1 / 2" using p by (simp add: field_simps)
  ultimately have "\<bar>log 2 (of_int x / ?P) - log 2 t\<bar> \<le> 4 * ?e" using assms(3) P by (intro log2_near_one) simp_all
  then show ?thesis by (simp add: mantissa_log_def)
qed

text \<open>One iteration: the next mantissa has twice the logarithm, less one when it is halved.\<close>

lemma mantissa_log_square:
  assumes "precisionReuse \<le> x" "x < 2 * precisionReuse" "BigDec_Mul x x = Ok z"
  shows "z < 2 * precisionReuse \<Longrightarrow> \<bar>mantissa_log z - 2 * mantissa_log x\<bar> \<le> 12 / of_int precisionReuse"
    and "2 * precisionReuse \<le> z \<Longrightarrow> \<bar>mantissa_log (z div 2) - (2 * mantissa_log x - 1)\<bar> \<le> 12 / of_int precisionReuse"
proof -
  let ?P = "of_int precisionReuse :: real"
  let ?u = "of_int x / ?P"
  have P: "0 < ?P" using precisionReuse_pos by simp
  have xP: "?P \<le> of_int x" using assms(1) by simp
  then have u: "1 \<le> ?u" using P by (simp add: le_divide_eq)
  have lu: "log 2 (?u * ?u) = 2 * mantissa_log x"
    unfolding mantissa_log_def using u by (subst log_mult) (simp only: mult_2 split: if_splits, linarith)
  have z: "z = chopPrecisionAndRound (x * x)" "precisionReuse \<le> z"
    using assms(3) square_mantissa[OF assms(1,2)] by (auto simp: mul.mul_Ok_iff)
  have "2 * \<bar>x * x - z * precisionReuse\<bar> \<le> precisionReuse" using chop_nearest(1)[of "x * x"] z(1) by simp
  then have "real_of_int (2 * \<bar>x * x - z * precisionReuse\<bar>) \<le> ?P" by (simp only: of_int_le_iff)
  then have "\<bar>of_int z * ?P - of_int x * of_int x\<bar> \<le> ?P / 2" by (simp add: abs_minus_commute)
  moreover have "\<bar>of_int z - ?P * (?u * ?u)\<bar> = \<bar>of_int z * ?P - of_int x * of_int x\<bar> / ?P"
  proof -
    have "of_int z - ?P * (?u * ?u) = (of_int z * ?P - of_int x * of_int x) / ?P" using P by (simp add: field_simps)
    then show ?thesis using P by (simp only: abs_divide abs_of_pos)
  qed
  ultimately have near: "\<bar>of_int z - ?P * (?u * ?u)\<bar> \<le> 1 / 2" using P by (simp add: divide_le_eq)
  have uu: "1 \<le> ?u * ?u" using mult_mono[OF u u] u by simp
  show "\<bar>mantissa_log z - 2 * mantissa_log x\<bar> \<le> 12 / ?P" if "z < 2 * precisionReuse"
    unfolding lu[symmetric] using z(2) near uu by (intro mantissa_log_near) linarith+
  show "\<bar>mantissa_log (z div 2) - (2 * mantissa_log x - 1)\<bar> \<le> 12 / ?P" if z2: "2 * precisionReuse \<le> z"
  proof -
    have h: "real_of_int z / 2 - 1 / 2 \<le> of_int (z div 2)" "real_of_int (z div 2) \<le> of_int z / 2" by linarith+
    define w where "w = ?P * (?u * ?u)"
    have "?P * (?u * ?u / 2) = w / 2" by (simp add: w_def)
    moreover have "\<bar>of_int (z div 2) - w / 2\<bar> \<le> 3 / 2" using near h unfolding w_def[symmetric] by linarith
    ultimately have "\<bar>of_int (z div 2) - ?P * (?u * ?u / 2)\<bar> \<le> 3 / 2" by (simp only:)
    moreover have "precisionReuse \<le> z div 2" using z2 by linarith
    moreover have "log 2 (?u * ?u / 2) = 2 * mantissa_log x - 1"
      unfolding lu[symmetric] using uu by (subst log_divide) (simp only: log_eq_one split: if_splits, linarith)
    ultimately show ?thesis using mantissa_log_near[of "z div 2" "?u * ?u / 2"] uu by simp
  qed
qed

text \<open>
  The loop from \<open>n\<close> iterations before its end: it adds \<open>2 b log x\<close> to the result, except for one unit per
  iteration, the errors of the squares, which count the less the smaller \<open>b\<close> is, and what \<open>n\<close> halvings leave of \<open>b\<close>.
\<close>

lemma halving_step:
  fixes P l l' :: real and b c :: int
  assumes "0 < P" "0 \<le> b" "c = b div 2" "\<bar>l' - l\<bar> \<le> 12 / P" "0 \<le> l'" "l' \<le> 1"
  shows "\<bar>2 * of_int c * l' - of_int b * l\<bar> + 24 * of_int c / P \<le> 1 + 24 * of_int b / P"
proof -
  have "b = 2 * c \<or> b = 2 * c + 1" using assms(3) by linarith
  then have r: "of_int b - 2 * of_int c = (0::real) \<or> of_int b - 2 * of_int c = (1::real)" by auto
  then have "(of_int b - 2 * of_int c) * l' = 0 \<or> (of_int b - 2 * of_int c) * l' = l'" by (metis mult_1 mult_zero_left)
  then have r1: "\<bar>(of_int b - 2 * of_int c) * l'\<bar> \<le> 1" using assms(5,6) by linarith
  have "2 * of_int c * l' - of_int b * l = of_int b * (l' - l) - (of_int b - 2 * of_int c) * l'" by (simp add: algebra_simps)
  then have "\<bar>2 * of_int c * l' - of_int b * l\<bar> \<le> \<bar>of_int b * (l' - l)\<bar> + 1" using r1 by linarith
  also have "\<bar>of_int b * (l' - l)\<bar> \<le> of_int b * (12 / P)"
    unfolding abs_mult using assms(2,4) by (intro mult_mono) auto
  finally have "\<bar>2 * of_int c * l' - of_int b * l\<bar> \<le> 12 * of_int b / P + 1" by (simp add: mult.commute)
  moreover have "24 * of_int c / P \<le> 12 * of_int b / P" using r assms(1) by (intro divide_right_mono) linarith+
  ultimately show ?thesis by simp
qed

lemma LogBase2_loop_accuracy:
  assumes "precisionReuse \<le> x" "x < 2 * precisionReuse" "0 \<le> b" "\<bar>y\<bar> + 2 * b < 2 ^ maxDecBitLen"
  shows "\<exists>z. LogBase2_loop n x y b = Ok z \<and>
    \<bar>of_int z - (of_int y + 2 * of_int b * mantissa_log x)\<bar> \<le> real n + 24 * of_int b / of_int precisionReuse + 2 * of_int (b div 2 ^ n)"
  using assms
proof (induction n arbitrary: x y b)
  case 0
  have "0 \<le> mantissa_log x" "mantissa_log x \<le> 1" using mantissa_log_bounds[of x] "0.prems" by simp_all
  then have "0 \<le> of_int b * mantissa_log x" "of_int b * mantissa_log x \<le> of_int b * 1"
    using "0.prems"(3) by (auto intro!: mult_nonneg_nonneg mult_left_mono simp del: mult_1_right)
  moreover have "(0::real) \<le> 24 * of_int b / of_int precisionReuse" using "0.prems"(3) precisionReuse_nonneg by simp
  ultimately have "\<bar>2 * (of_int b * mantissa_log x)\<bar> \<le> 24 * of_int b / of_int precisionReuse + 2 * of_int b" by linarith
  then show ?case by (simp add: mult.assoc)
next
  case (Suc n)
  let ?P = "of_int precisionReuse :: real" and ?l = "mantissa_log x" and ?b = "of_int b :: real" and ?c = "b div 2"
  have P: "0 < ?P" using precisionReuse_pos by simp
  obtain z where z: "BigDec_Mul x x = Ok z" "precisionReuse \<le> z" "z < 4 * precisionReuse"
    using square_mantissa Suc.prems by blast
  note sq = mantissa_log_square[OF Suc.prems(1,2) z(1)]
  have h: "0 \<le> ?c" "2 * ?c \<le> b" using Suc.prems(3) by linarith+
  have dd: "?c div 2 ^ n = b div 2 ^ Suc n" by (simp add: zdiv_zmult2_eq)
  show ?case
  proof (cases "2 * precisionReuse \<le> z")
    case True
    have "in_bits maxDecBitLen (y + b)" using Suc.prems(3,4) by (simp add: in_bits_def)
    then have a: "BigDec_Add y b = Ok (y + b)" by (simp add: big_dec.add_Ok_iff)
    have "\<exists>w. LogBase2_loop n (z div 2) (y + b) ?c = Ok w \<and>
      \<bar>of_int w - (of_int (y + b) + 2 * of_int ?c * mantissa_log (z div 2))\<bar> \<le> real n + 24 * of_int ?c / ?P + 2 * of_int (?c div 2 ^ n)"
      using True z Suc.prems(3,4) h by (intro Suc.IH) linarith+
    then obtain w where w: "LogBase2_loop n (z div 2) (y + b) ?c = Ok w"
      "\<bar>of_int w - (of_int y + ?b + 2 * of_int ?c * mantissa_log (z div 2))\<bar> \<le> real n + 24 * of_int ?c / ?P + 2 * of_int (b div 2 ^ Suc n)"
      by (auto simp only: of_int_add dd)
    have "\<bar>2 * of_int ?c * mantissa_log (z div 2) - ?b * (2 * ?l - 1)\<bar> + 24 * of_int ?c / ?P \<le> 1 + 24 * ?b / ?P"
      using Suc.prems(3) sq(2)[OF True] mantissa_log_bounds[of "z div 2"] True z(3) P by (intro halving_step) auto
    moreover have "of_int y + 2 * ?b * ?l = of_int y + ?b + ?b * (2 * ?l - 1)" by (simp add: algebra_simps)
    ultimately have "\<bar>of_int w - (of_int y + 2 * ?b * ?l)\<bar> \<le> real (Suc n) + 24 * ?b / ?P + 2 * of_int (b div 2 ^ Suc n)"
      using w(2) by linarith
    moreover have "LogBase2_loop (Suc n) x y b = Ok w" using True z a w(1) by (simp add: BigDec_comparisons twoBigDec_eq)
    ultimately show ?thesis by blast
  next
    case False
    have "\<exists>w. LogBase2_loop n z y ?c = Ok w \<and>
      \<bar>of_int w - (of_int y + 2 * of_int ?c * mantissa_log z)\<bar> \<le> real n + 24 * of_int ?c / ?P + 2 * of_int (?c div 2 ^ n)"
      using False z Suc.prems(3,4) h by (intro Suc.IH) linarith+
    then obtain w where w: "LogBase2_loop n z y ?c = Ok w"
      "\<bar>of_int w - (of_int y + 2 * of_int ?c * mantissa_log z)\<bar> \<le> real n + 24 * of_int ?c / ?P + 2 * of_int (b div 2 ^ Suc n)"
      by (auto simp only: dd)
    have "z < 2 * precisionReuse" using False by simp
    then have "\<bar>2 * of_int ?c * mantissa_log z - ?b * (2 * ?l)\<bar> + 24 * of_int ?c / ?P \<le> 1 + 24 * ?b / ?P"
      using Suc.prems(3) sq(1) mantissa_log_bounds[of z] z(2) P by (intro halving_step) auto
    moreover have "2 * ?b * ?l = ?b * (2 * ?l)" by simp
    ultimately have "\<bar>of_int w - (of_int y + 2 * ?b * ?l)\<bar> \<le> real (Suc n) + 24 * ?b / ?P + 2 * of_int (b div 2 ^ Suc n)"
      using w(2) by linarith
    moreover have "LogBase2_loop (Suc n) x y b = Ok w" using False z w(1) by (simp add: BigDec_comparisons twoBigDec_eq)
    ultimately show ?thesis by blast
  qed
qed

text \<open>Normalising divides by a power of two, and drops less than one unit.\<close>

lemma mantissa_log_normalised:
  assumes "0 < x" "precisionReuse \<le> x2" "x2 < 2 * precisionReuse" "if 0 \<le> k then x2 = x div 2 ^ nat k else x2 = 2 ^ nat (- k) * x"
  shows "\<bar>of_int k + mantissa_log x2 - mantissa_log x\<bar> \<le> 12 / of_int precisionReuse"
proof -
  let ?P = "of_int precisionReuse :: real"
  let ?t = "of_int x / ?P / 2 powr of_int k"
  have P: "0 < ?P" using precisionReuse_pos by simp
  have x: "0 < of_int x / ?P" using assms(1) P by simp
  have lt: "log 2 ?t = mantissa_log x - of_int k"
    unfolding mantissa_log_def using x by (subst log_divide) (auto split: if_splits)
  have pt: "?P * ?t = of_int x / 2 powr of_int k" using P by simp
  have near: "\<bar>of_int x2 - ?P * ?t\<bar> \<le> 1"
  proof (cases "0 \<le> k")
    case True
    then have p: "(2::real) powr of_int k = of_int (2 ^ nat k)" by (simp add: powr_real_of_int)
    have "of_int (x div 2 ^ nat k) \<le> (of_int x / of_int (2 ^ nat k) :: real)"
      "(of_int x / of_int (2 ^ nat k) :: real) \<le> of_int (x div 2 ^ nat k) + 1"
      using floor_divide_of_int_eq[of x "2 ^ nat k", where ?'a = real] by linarith+
    moreover have "x2 = x div 2 ^ nat k" using True assms(4) by simp
    ultimately show ?thesis unfolding pt unfolding p by linarith
  next
    case False
    then have "of_int x / (2::real) powr of_int k = of_int x2" using assms(4) by (simp add: powr_real_of_int field_simps)
    then show ?thesis unfolding pt by simp
  qed
  have "?P \<le> of_int x2" using assms(2) by simp
  then have "?P / 2 \<le> ?P * ?t" using near by (simp add: precisionReuse_eq)
  then have "1 / 2 \<le> ?t" using P by (simp add: field_simps)
  then have "\<bar>mantissa_log x2 - log 2 ?t\<bar> \<le> 12 / ?P" using assms(2) near by (intro mantissa_log_near) linarith+
  then show ?thesis unfolding lt by (simp add: algebra_simps)
qed

lemma scaled_error:
  fixes R z k l m :: real
  assumes "0 < R" "\<bar>z - (k * R + R * l)\<bar> \<le> a" "\<bar>k + l - m\<bar> \<le> c / R"
  shows "\<bar>z / R - m\<bar> \<le> (a + c) / R"
proof -
  have "z - (k * R + R * l) = R * (z / R - (k + l))" using assms(1) by (simp add: field_simps)
  then have "R * \<bar>z / R - (k + l)\<bar> \<le> a" using assms(1,2) by (simp only: abs_mult abs_of_pos)
  then have "\<bar>z / R - (k + l)\<bar> \<le> a / R" by (simp only: pos_le_divide_eq[OF assms(1)] mult.commute)
  moreover have "(a + c) / R = a / R + c / R" by (rule add_divide_distrib)
  ultimately show ?thesis using assms(3) by linarith
qed

lemma LogBase2_units:
  assumes "0 < x" "in_bits maxDecBitLen x"
  shows "\<exists>z. BigDec_LogBase2 x = Ok z \<and> \<bar>of_int z / of_int precisionReuse - mantissa_log x\<bar> \<le> 324 / of_int precisionReuse"
proof -
  let ?P = precisionReuse and ?R = "of_int precisionReuse :: real"
  from LogBase2_normalise[OF assms] obtain k x2 where
    k: "obind (LogBase2_up x ZeroDec) (\<lambda>(x1, y1). LogBase2_down x1 y1) = Ok (x2, k * ?P)"
    "?P \<le> x2" "x2 < 2 * ?P" "\<bar>k\<bar> \<le> 1144" "if 0 \<le> k then x2 = x div 2 ^ nat k else x2 = 2 ^ nat (- k) * x" by blast
  have "in_bits maxDecBitLen ((\<bar>k\<bar> + 1) * ?P)" using k(4) by (intro small_multiple_in_bits) simp
  then have fits: "\<bar>k * ?P\<bar> + 2 * fivePrecision < 2 ^ maxDecBitLen"
    by (simp add: in_bits_def two_fivePrecision abs_mult distrib_right)
  have five: "0 \<le> fivePrecision" using two_fivePrecision precisionReuse_pos by linarith
  obtain z where z: "LogBase2_loop maxLog2Iterations x2 (k * ?P) fivePrecision = Ok z"
    "\<bar>of_int z - (of_int (k * ?P) + 2 * of_int fivePrecision * mantissa_log x2)\<bar>
      \<le> real maxLog2Iterations + 24 * of_int fivePrecision / ?R + 2 * of_int (fivePrecision div 2 ^ maxLog2Iterations)"
    using LogBase2_loop_accuracy[OF k(2,3) five fits] by blast
  have f: "2 * of_int fivePrecision = ?R" using two_fivePrecision by (metis of_int_mult of_int_numeral)
  then have e: "24 * of_int fivePrecision = 12 * ?R" by linarith
  have "24 * of_int fivePrecision / ?R = (12::real)" unfolding e using precisionReuse_pos by simp
  moreover have "fivePrecision div 2 ^ maxLog2Iterations = 0"
    by (rule div_pos_pos_trivial[OF five]) (use two_fivePrecision in \<open>simp add: precisionReuse_eq maxLog2Iterations_def\<close>)
  ultimately have "\<bar>of_int z - (of_int k * ?R + ?R * mantissa_log x2)\<bar> \<le> 312"
    using z(2) unfolding f by (simp add: maxLog2Iterations_def)
  then have "\<bar>of_int z / ?R - mantissa_log x\<bar> \<le> (312 + 12) / ?R"
    using mantissa_log_normalised[OF assms(1) k(2,3,5)] precisionReuse_pos by (intro scaled_error) simp_all
  moreover have "BigDec_LogBase2 x = Ok z"
    using assms(1) k(1) z(1) by (auto simp: BigDec_LogBase2_def BigDec_comparisons ZeroDec_def Quo_One_two go_simps split: prod.splits)
  ultimately show ?thesis by simp
qed

text \<open>
  C30 The binary logarithm of every positive decimal within 1144 bits is computed without a panic, all its loops
  end, and the result differs from the real logarithm by less than \<open>10^-33\<close> (the source promises
  32 digits); for a decimal that is not positive it panics.
\<close>

theorem BigDec_LogBase2_accurate:
  assumes "x < 2 ^ 1144"
  shows "if x \<le> 0 then BigDec_LogBase2 x = Panic ''log is not defined at <= 0''
    else \<exists>y. BigDec_LogBase2 x = Ok y \<and> \<bar>real_of_int y / 10 ^ 36 - log 2 (real_of_int x / 10 ^ 36)\<bar> < 1 / 10 ^ 33"
proof (cases "x \<le> 0")
  case True
  then show ?thesis by (simp add: BigDec_LogBase2_def BigDec_comparisons ZeroDec_def)
next
  case False
  then have "0 < x" "in_bits maxDecBitLen x" using assms by (simp_all add: in_bits_def maxDecBitLen_eq)
  from LogBase2_units[OF this] obtain z where
    z: "BigDec_LogBase2 x = Ok z" "\<bar>of_int z / of_int precisionReuse - mantissa_log x\<bar> \<le> 324 / of_int precisionReuse" by blast
  then show ?thesis using False by (simp add: mantissa_log_def precisionReuse_eq)
qed

theorem BigDec_LogBase2_accurate_witness:
  "\<exists>y. BigDec_LogBase2 (3 * 10 ^ 36) = Ok y \<and> \<bar>real_of_int y / 10 ^ 36 - log 2 3\<bar> < 1 / 10 ^ 33"
  using BigDec_LogBase2_accurate[of "3 * 10 ^ 36"] by simp

end
