(* ===== verification/Dag.thy ===== *)
theory Dag
  imports Prelude "HOL-Library.AList" "HOL-Library.Char_ord" "HOL-Library.List_Lexorder"
begin

text \<open>
  \<^verbatim>\<open>src/osmoutils/partialord/internal/dag/dag.go\<close>: a directed graph over named nodes kept as adjacency
  maps, and Kahn's algorithm. A Go map is an association list with distinct keys (the invariant
  below); the order of its entries is never observed, because the code that iterates over one sorts
  what it collects or only asks for existence. Node numbers index the slice of adjacency maps; the
  invariant keeps them in range. An operation that returns an error gives it as its outcome.
\<close>

section \<open>Definitions\<close>

type_synonym edge_list = "(nat \<times> int) list list"

record DAG =
  directedEdgeList :: edge_list
  nodeNameToId :: "(string \<times> nat) list"
  idToNodeNames :: "(nat \<times> string) list"

definition NewDAG :: "string list \<Rightarrow> DAG outcome" where
  "NewDAG nodes =
     (let nameToId = fold (\<lambda>(i, node) m. AList.update node i m) (enumerate 0 nodes) [];
          idToName = fold (\<lambda>(i, node) m. AList.update i node m) (enumerate 0 nodes) []
      in if length nameToId \<noteq> length nodes then Panic ''provided multiple nodes with the same name''
         else Ok \<lparr>directedEdgeList = replicate (length nodes) [], nodeNameToId = nameToId, idToNodeNames = idToName\<rparr>)"

definition DAG_Copy :: "DAG \<Rightarrow> DAG" where
  "DAG_Copy dag = dag\<lparr>directedEdgeList := map (\<lambda>i. directedEdgeList dag ! i) [0..<length (nodeNameToId dag)]\<rparr>"

definition hasDirectedEdge :: "edge_list \<Rightarrow> nat \<Rightarrow> nat \<Rightarrow> bool" where
  "hasDirectedEdge E u v \<longleftrightarrow> map_of (E ! u) v \<noteq> None"

text \<open>The two assignments that \<^verbatim>\<open>addEdge\<close> and \<^verbatim>\<open>replaceEdge\<close> share.\<close>

definition set_edge :: "edge_list \<Rightarrow> nat \<Rightarrow> nat \<Rightarrow> edge_list" where
  "set_edge E u v =
     (let E1 = E[u := AList.update v 1 (E ! u)] in E1[v := AList.update u (- 1) (E1 ! v)])"

definition addEdge :: "edge_list \<Rightarrow> nat \<Rightarrow> nat \<Rightarrow> edge_list outcome" where
  "addEdge E u v =
     (if u = v then Err ''can't make self-edge''
      else if hasDirectedEdge E v u then Err ''dag has conflicting edge''
      else Ok (set_edge E u v))"

definition replaceEdge :: "edge_list \<Rightarrow> nat \<Rightarrow> nat \<Rightarrow> edge_list outcome" where
  "replaceEdge E u v = (if u = v then Err ''can't make self-edge'' else Ok (set_edge E u v))"

definition resetEdges :: "edge_list \<Rightarrow> nat \<Rightarrow> edge_list" where
  "resetEdges E u = (fold (\<lambda>v F. F[v := AList.delete u (F ! v)]) (map fst (E ! u)) E)[u := []]"

definition deleteEdge :: "edge_list \<Rightarrow> nat \<Rightarrow> nat \<Rightarrow> edge_list" where
  "deleteEdge E u v =
     (let E1 = E[u := AList.delete v (E ! u)] in E1[v := AList.delete u (E1 ! v)])"

definition AddEdge :: "DAG \<Rightarrow> string \<Rightarrow> string \<Rightarrow> DAG outcome" where
  "AddEdge dag u v =
     (case (map_of (nodeNameToId dag) u, map_of (nodeNameToId dag) v) of
        (Some uIndex, Some vIndex) \<Rightarrow>
          obind (addEdge (directedEdgeList dag) uIndex vIndex) (\<lambda>E. Ok (dag\<lparr>directedEdgeList := E\<rparr>))
      | _ \<Rightarrow> Err ''does not exist in dag'')"

definition ReplaceEdge :: "DAG \<Rightarrow> string \<Rightarrow> string \<Rightarrow> DAG outcome" where
  "ReplaceEdge dag u v =
     (case (map_of (nodeNameToId dag) u, map_of (nodeNameToId dag) v) of
        (Some uIndex, Some vIndex) \<Rightarrow>
          obind (replaceEdge (directedEdgeList dag) uIndex vIndex) (\<lambda>E. Ok (dag\<lparr>directedEdgeList := E\<rparr>))
      | _ \<Rightarrow> Err ''does not exist in dag'')"

fun namesToIds :: "DAG \<Rightarrow> string list \<Rightarrow> nat list outcome" where
  "namesToIds dag [] = Ok []"
| "namesToIds dag (name # names) =
     (case map_of (nodeNameToId dag) name of
        None \<Rightarrow> Err ''does not exist in dag''
      | Some nodeIndex \<Rightarrow> obind (namesToIds dag names) (\<lambda>ids. Ok (nodeIndex # ids)))"

text \<open>The chain loops: each node but the end of the chain is cleared and linked to its neighbour.\<close>

fun addFirst_chain :: "nat list \<Rightarrow> edge_list \<Rightarrow> edge_list outcome" where
  "addFirst_chain (a # b # nodes) E =
     obind (addFirst_chain (b # nodes) E) (\<lambda>E1. replaceEdge (resetEdges E1 a) a b)"
| "addFirst_chain _ E = Ok E"

definition addFirst :: "edge_list \<Rightarrow> nat \<Rightarrow> nat list \<Rightarrow> edge_list outcome" where
  "addFirst E n nodes =
     (if nodes = [] then Panic ''index out of range''
      else obind (ofold (\<lambda>i F. if i \<in> set nodes then Ok F else replaceEdge F (last nodes) i) [0..<n] E)
             (addFirst_chain nodes))"

definition AddFirstElements :: "DAG \<Rightarrow> string list \<Rightarrow> DAG outcome" where
  "AddFirstElements dag nodes =
     obind (namesToIds dag nodes) (\<lambda>nodeIds.
     obind (addFirst (directedEdgeList dag) (length (nodeNameToId dag)) nodeIds) (\<lambda>E.
       Ok (dag\<lparr>directedEdgeList := E\<rparr>)))"

fun addLast_chain :: "nat list \<Rightarrow> edge_list \<Rightarrow> edge_list outcome" where
  "addLast_chain (a # b # nodes) E =
     obind (replaceEdge (resetEdges E b) a b) (addLast_chain (b # nodes))"
| "addLast_chain _ E = Ok E"

definition addLast :: "edge_list \<Rightarrow> nat \<Rightarrow> nat list \<Rightarrow> edge_list outcome" where
  "addLast E n nodes =
     (if nodes = [] then Panic ''index out of range''
      else obind (ofold (\<lambda>i F. if i \<in> set nodes then Ok F else replaceEdge F i (hd nodes)) [0..<n] E)
             (addLast_chain nodes))"

definition AddLastElements :: "DAG \<Rightarrow> string list \<Rightarrow> DAG outcome" where
  "AddLastElements dag nodes =
     obind (namesToIds dag nodes) (\<lambda>nodeIds.
     obind (addLast (directedEdgeList dag) (length (nodeNameToId dag)) nodeIds) (\<lambda>E.
       Ok (dag\<lparr>directedEdgeList := E\<rparr>)))"

definition hasEdges :: "edge_list \<Rightarrow> bool" where
  "hasEdges E \<longleftrightarrow> (\<exists>m \<in> set E. length m > 0)"

definition idsToNames :: "DAG \<Rightarrow> nat list \<Rightarrow> string list outcome" where
  "idsToNames dag ids =
     omap (\<lambda>i. if i < length ids
               then Ok (case map_of (idToNodeNames dag) (ids ! i) of Some s \<Rightarrow> s | None \<Rightarrow> [])
               else Panic ''index out of range'')
       [0..<length (nodeNameToId dag)]"

definition hasIncomingEdge :: "edge_list \<Rightarrow> nat \<Rightarrow> bool" where
  "hasIncomingEdge E u \<longleftrightarrow> (\<exists>e \<in> set (E ! u). snd e = - 1)"

definition topologicalTopLevelNodes :: "edge_list \<Rightarrow> nat \<Rightarrow> nat list" where
  "topologicalTopLevelNodes E n = filter (\<lambda>i. \<not> hasIncomingEdge E i) [0..<n]"

text \<open>The inner loop: delete the edges from \<open>n\<close> and collect the nodes that lose their last incoming edge.\<close>

fun relax :: "nat \<Rightarrow> nat list \<Rightarrow> edge_list \<Rightarrow> nat list \<Rightarrow> edge_list \<times> nat list" where
  "relax n [] G topLevel = (G, topLevel)"
| "relax n (m # ms) G topLevel =
     (let G1 = deleteEdge G n m
      in relax n ms G1 (if \<not> hasIncomingEdge G1 m then topLevel @ [m] else topLevel))"

text \<open>
  The outer loop with a bound on its iterations. Every node enters the work list at most once, so one
  more than the number of nodes is enough (\<open>kahn_enough\<close>).
\<close>

fun kahn :: "nat \<Rightarrow> edge_list \<Rightarrow> nat list \<Rightarrow> nat list \<Rightarrow> (edge_list \<times> nat list) outcome" where
  "kahn 0 G sortedIDs topLevel = Panic ''iteration bound exceeded''"
| "kahn (Suc k) G sortedIDs [] = Ok (G, sortedIDs)"
| "kahn (Suc k) G sortedIDs (n # topLevel) =
     (if \<exists>e \<in> set (G ! n). snd e \<noteq> 1 then Panic ''dag: topological sort correctness error''
      else case relax n (sort (map fst (G ! n))) G topLevel of
             (G1, topLevel1) \<Rightarrow> kahn k G1 (sortedIDs @ [n]) topLevel1)"

definition TopologicalSort :: "DAG \<Rightarrow> string list outcome" where
  "TopologicalSort dag =
     (let G = directedEdgeList (DAG_Copy dag); n = length (nodeNameToId dag)
      in obind (kahn (Suc n) G [] (topologicalTopLevelNodes (directedEdgeList dag) n)) (\<lambda>(G1, sortedIDs).
           if hasEdges G1 then Panic ''dag: invalid construction, a cycle exists''
           else idsToNames dag sortedIDs))"

section \<open>Adjacency and its invariant\<close>

definition adj :: "edge_list \<Rightarrow> nat \<Rightarrow> nat \<Rightarrow> int option" where
  "adj E u v = (if u < length E then map_of (E ! u) v else None)"

text \<open>The edges of the graph, and the invariant of its representation.\<close>

definition edges :: "edge_list \<Rightarrow> (nat \<times> nat) set" where
  "edges E = {(u, v). adj E u v = Some 1}"

definition edge_inv :: "edge_list \<Rightarrow> bool" where
  "edge_inv E \<longleftrightarrow>
     (\<forall>u < length E. distinct (map fst (E ! u))) \<and>
     (\<forall>u v x. adj E u v = Some x \<longrightarrow> v < length E \<and> (x = 1 \<or> x = - 1)) \<and>
     (\<forall>u v. adj E u v = Some 1 \<longleftrightarrow> adj E v u = Some (- 1))"

definition dag_names :: "DAG \<Rightarrow> string list" where
  "dag_names dag = map fst (nodeNameToId dag)"

definition dag_inv :: "DAG \<Rightarrow> bool" where
  "dag_inv dag \<longleftrightarrow>
     edge_inv (directedEdgeList dag) \<and>
     distinct (dag_names dag) \<and> length (dag_names dag) = length (directedEdgeList dag) \<and>
     nodeNameToId dag = zip (dag_names dag) [0..<length (dag_names dag)] \<and>
     idToNodeNames dag = zip [0..<length (dag_names dag)] (dag_names dag)"

text \<open>The graph in terms of names.\<close>

definition dag_edges :: "DAG \<Rightarrow> (string \<times> string) set" where
  "dag_edges dag = map_prod ((!) (dag_names dag)) ((!) (dag_names dag)) ` edges (directedEdgeList dag)"

lemma adj_set_edge:
  assumes "u < length E" "v < length E" "u \<noteq> v"
  shows "adj (set_edge E u v) a b =
    (if a = u \<and> b = v then Some 1 else if a = v \<and> b = u then Some (- 1) else adj E a b)"
  using assms by (auto simp: adj_def set_edge_def Let_def update_conv' nth_list_update)

lemma adj_deleteEdge:
  assumes "u < length E" "v < length E"
  shows "adj (deleteEdge E u v) a b = (if (a = u \<and> b = v) \<or> (a = v \<and> b = u) then None else adj E a b)"
  using assms by (auto simp: adj_def deleteEdge_def Let_def delete_conv' nth_list_update)

lemma length_edge_ops [simp]:
  "length (set_edge E u v) = length E" "length (deleteEdge E u v) = length E"
  by (simp_all add: set_edge_def deleteEdge_def Let_def)

lemma length_fold_delete [simp]:
  "length (fold (\<lambda>v F. F[v := AList.delete u (F ! v)]) vs E) = length E"
  by (induction vs arbitrary: E) auto

lemma length_resetEdges [simp]: "length (resetEdges E u) = length E"
  by (simp add: resetEdges_def)

lemma adj_list_update:
  "u < length E \<Longrightarrow> adj (E[u := m]) a b = (if a = u then map_of m b else adj E a b)"
  by (auto simp: adj_def)

lemma adj_fold_delete:
  assumes "\<forall>v \<in> set vs. v < length E"
  shows "adj (fold (\<lambda>v F. F[v := AList.delete u (F ! v)]) vs E) a b =
     (if b = u \<and> a \<in> set vs then None else adj E a b)"
  using assms
proof (induction vs arbitrary: E)
  case (Cons v vs)
  have "adj (E[v := AList.delete u (E ! v)]) a b = (if a = v \<and> b = u then None else adj E a b)"
    using Cons.prems by (simp add: adj_list_update delete_conv') (simp add: adj_def)
  with Cons show ?case by auto
qed simp

lemma edge_inv_in_range: "edge_inv E \<Longrightarrow> adj E u v = Some x \<Longrightarrow> u < length E \<and> v < length E"
proof -
  assume "edge_inv E" and a: "adj E u v = Some x"
  then have "v < length E" unfolding edge_inv_def by blast
  with a show ?thesis by (auto simp: adj_def split: if_splits)
qed

lemma edge_inv_cases:
  assumes "edge_inv E" "adj E u v = Some x"
  shows "(x = 1 \<and> adj E v u = Some (- 1)) \<or> (x = - 1 \<and> adj E v u = Some 1)"
proof -
  have x: "x = 1 \<or> x = - 1" and s: "adj E a b = Some 1 \<longleftrightarrow> adj E b a = Some (- 1)" for a b
    using assms unfolding edge_inv_def by blast+
  from x show ?thesis using s[of u v] s[of v u] assms(2) by auto
qed

lemma edge_inv_sym: "edge_inv E \<Longrightarrow> adj E u v = None \<longleftrightarrow> adj E v u = None"
  using edge_inv_cases[of E u v] edge_inv_cases[of E v u]
  by (cases "adj E u v"; cases "adj E v u") auto

lemma adj_resetEdges:
  assumes "edge_inv E" "u < length E"
  shows "adj (resetEdges E u) a b = (if a = u \<or> b = u then None else adj E a b)"
proof -
  have k: "a \<in> set (map fst (E ! u)) \<longleftrightarrow> adj E u a \<noteq> None" for a
    using assms(2) by (simp add: adj_def map_of_eq_None_iff)
  then have r: "\<forall>v \<in> set (map fst (E ! u)). v < length E"
    using edge_inv_in_range[OF assms(1)] by blast
  have "adj (resetEdges E u) a b
      = (if a = u then None else adj (fold (\<lambda>v F. F[v := AList.delete u (F ! v)]) (map fst (E ! u)) E) a b)"
    using assms(2) by (simp add: resetEdges_def adj_list_update)
  also have "\<dots> = (if a = u \<or> b = u then None else adj E a b)"
    using k[of a] edge_inv_sym[OF assms(1), of u a] by (simp add: adj_fold_delete[OF r])
  finally show ?thesis .
qed

text \<open>The adjacency maps keep their keys distinct.\<close>

definition keys_ok :: "edge_list \<Rightarrow> bool" where
  "keys_ok E \<longleftrightarrow> (\<forall>m \<in> set E. distinct (map fst m))"

lemma keys_ok_nth: "keys_ok E \<longleftrightarrow> (\<forall>u < length E. distinct (map fst (E ! u)))"
  unfolding keys_ok_def all_set_conv_all_nth ..

lemma keys_ok_list_update: "keys_ok E \<Longrightarrow> distinct (map fst m) \<Longrightarrow> keys_ok (E[u := m])"
  using set_update_subset_insert[of E u m] by (auto simp: keys_ok_def)

lemma keys_ok_update: "keys_ok E \<Longrightarrow> u < length E \<Longrightarrow> keys_ok (E[u := AList.update v x (E ! u)])"
  by (intro keys_ok_list_update distinct_update) (simp_all add: keys_ok_nth)

lemma keys_ok_delete: "keys_ok E \<Longrightarrow> u < length E \<Longrightarrow> keys_ok (E[u := AList.delete v (E ! u)])"
  by (intro keys_ok_list_update distinct_delete) (simp_all add: keys_ok_nth)

lemma keys_ok_fold_delete:
  "keys_ok E \<Longrightarrow> \<forall>v \<in> set vs. v < length E \<Longrightarrow> keys_ok (fold (\<lambda>v F. F[v := AList.delete u (F ! v)]) vs E)"
  by (induction vs arbitrary: E) (auto simp: keys_ok_delete)

lemma edge_inv_alt:
  "edge_inv E \<longleftrightarrow> keys_ok E \<and> (\<forall>u v x. adj E u v = Some x \<longrightarrow> v < length E \<and> (x = 1 \<or> x = - 1)) \<and>
     (\<forall>u v. adj E u v = Some 1 \<longleftrightarrow> adj E v u = Some (- 1))"
  by (simp add: edge_inv_def keys_ok_nth)

lemma edge_invI:
  assumes "keys_ok E" and "\<And>u v x. adj E u v = Some x \<Longrightarrow> v < length E \<and> (x = 1 \<or> x = - 1)"
    and "\<And>u v. adj E u v = Some 1 \<longleftrightarrow> adj E v u = Some (- 1)"
  shows "edge_inv E"
  using assms by (simp add: edge_inv_alt)

lemma edge_inv_set_edge:
  assumes "edge_inv E" "u < length E" "v < length E" "u \<noteq> v"
  shows "edge_inv (set_edge E u v)"
proof (rule edge_invI)
  show "keys_ok (set_edge E u v)"
    using assms keys_ok_update[of "E[u := AList.update v 1 (E ! u)]" v u "- 1"]
    by (simp add: set_edge_def Let_def keys_ok_update edge_inv_alt)
next
  fix a b x
  assume "adj (set_edge E u v) a b = Some x"
  then show "b < length (set_edge E u v) \<and> (x = 1 \<or> x = - 1)"
    using assms by (auto simp: adj_set_edge edge_inv_alt split: if_splits)
next
  fix a b
  have "adj E a b = Some 1 \<longleftrightarrow> adj E b a = Some (- 1)" using assms(1) by (simp add: edge_inv_alt)
  then show "adj (set_edge E u v) a b = Some 1 \<longleftrightarrow> adj (set_edge E u v) b a = Some (- 1)"
    using assms(2-4) by (simp add: adj_set_edge)
qed

lemma edge_inv_deleteEdge:
  assumes "edge_inv E" "u < length E" "v < length E"
  shows "edge_inv (deleteEdge E u v)"
proof (rule edge_invI)
  show "keys_ok (deleteEdge E u v)"
    using assms by (simp add: deleteEdge_def Let_def keys_ok_delete edge_inv_alt)
next
  fix a b x
  assume "adj (deleteEdge E u v) a b = Some x"
  then show "b < length (deleteEdge E u v) \<and> (x = 1 \<or> x = - 1)"
    using assms by (auto simp: adj_deleteEdge edge_inv_alt split: if_splits)
next
  fix a b
  have "adj E a b = Some 1 \<longleftrightarrow> adj E b a = Some (- 1)" using assms(1) by (simp add: edge_inv_alt)
  then show "adj (deleteEdge E u v) a b = Some 1 \<longleftrightarrow> adj (deleteEdge E u v) b a = Some (- 1)"
    using assms(2,3) by (auto simp: adj_deleteEdge)
qed

lemma edge_inv_resetEdges:
  assumes "edge_inv E" "u < length E"
  shows "edge_inv (resetEdges E u)"
proof (rule edge_invI)
  have "\<forall>v \<in> set (map fst (E ! u)). v < length E"
    using edge_inv_in_range[OF assms(1), of u] assms(2)
    by (metis adj_def list.set_map map_of_eq_None_iff option.exhaust)
  then show "keys_ok (resetEdges E u)"
    unfolding resetEdges_def using assms(1)
    by (intro keys_ok_list_update keys_ok_fold_delete) (simp_all add: edge_inv_alt)
next
  fix a b x
  assume "adj (resetEdges E u) a b = Some x"
  then show "b < length (resetEdges E u) \<and> (x = 1 \<or> x = - 1)"
    using assms by (auto simp: adj_resetEdges edge_inv_alt split: if_splits)
next
  fix a b
  have "adj E a b = Some 1 \<longleftrightarrow> adj E b a = Some (- 1)" using assms(1) by (simp add: edge_inv_alt)
  then show "adj (resetEdges E u) a b = Some 1 \<longleftrightarrow> adj (resetEdges E u) b a = Some (- 1)"
    by (auto simp: adj_resetEdges[OF assms])
qed

lemma edges_set_edge:
  assumes "u < length E" "v < length E" "u \<noteq> v"
  shows "edges (set_edge E u v) = insert (u, v) (edges E - {(v, u)})"
  using assms by (auto simp: edges_def adj_set_edge split: if_splits)

lemma edges_deleteEdge:
  assumes "u < length E" "v < length E"
  shows "edges (deleteEdge E u v) = edges E - {(u, v), (v, u)}"
  by (auto simp: edges_def adj_deleteEdge[OF assms])

lemma edges_resetEdges:
  assumes "edge_inv E" "u < length E"
  shows "edges (resetEdges E u) = {(a, b) \<in> edges E. a \<noteq> u \<and> b \<noteq> u}"
  by (auto simp: edges_def adj_resetEdges[OF assms])

lemma edges_in_range: "edge_inv E \<Longrightarrow> (u, v) \<in> edges E \<Longrightarrow> u < length E \<and> v < length E"
  unfolding edges_def using edge_inv_in_range by blast

lemma edges_antisym: "edge_inv E \<Longrightarrow> (u, v) \<in> edges E \<Longrightarrow> (v, u) \<notin> edges E"
  unfolding edges_def using edge_inv_cases[of E u v 1] by auto

lemma in_adjacency:
  assumes "edge_inv E" "u < length E"
  shows "(v, x) \<in> set (E ! u) \<longleftrightarrow> adj E u v = Some x"
proof -
  have "distinct (map fst (E ! u))" using assms unfolding edge_inv_def by blast
  with assms(2) show ?thesis by (simp add: adj_def)
qed

lemma hasIncomingEdge_iff:
  assumes "edge_inv E" "v < length E"
  shows "hasIncomingEdge E v \<longleftrightarrow> (\<exists>u. (u, v) \<in> edges E)"
proof -
  have "hasIncomingEdge E v \<longleftrightarrow> (\<exists>u. adj E v u = Some (- 1))"
    unfolding hasIncomingEdge_def using in_adjacency[OF assms] by (metis prod.collapse snd_conv)
  moreover have "adj E u v = Some 1 \<longleftrightarrow> adj E v u = Some (- 1)" for u
    using assms(1) unfolding edge_inv_def by blast
  ultimately show ?thesis by (simp add: edges_def)
qed

lemma edge_inv_linked:
  assumes "edge_inv E"
  shows "adj E b a \<noteq> None \<longleftrightarrow> (b, a) \<in> edges E \<or> (a, b) \<in> edges E"
proof (cases "adj E b a")
  case None
  then have "adj E a b = None" using edge_inv_sym[OF assms] by blast
  with None show ?thesis by (simp add: edges_def)
next
  case (Some x)
  with edge_inv_cases[OF assms Some] show ?thesis by (auto simp: edges_def)
qed

lemma hasEdges_iff:
  assumes "edge_inv E"
  shows "hasEdges E \<longleftrightarrow> edges E \<noteq> {}"
proof
  assume "hasEdges E"
  then obtain u where u: "u < length E" "E ! u \<noteq> []"
    unfolding hasEdges_def by (metis in_set_conv_nth list.size(3) less_irrefl)
  then obtain v x where "(v, x) \<in> set (E ! u)" by (cases "E ! u") auto
  then have "adj E u v = Some x" using in_adjacency[OF assms u(1)] by simp
  from edge_inv_cases[OF assms this] this have "(u, v) \<in> edges E \<or> (v, u) \<in> edges E" by (auto simp: edges_def)
  then show "edges E \<noteq> {}" by auto
next
  assume "edges E \<noteq> {}"
  then obtain u v where "adj E u v = Some 1" by (auto simp: edges_def)
  moreover from this have "u < length E" using edge_inv_in_range[OF assms] by blast
  ultimately have "(v, 1) \<in> set (E ! u)" using in_adjacency[OF assms] by simp
  then have "length (E ! u) > 0" by (cases "E ! u") simp_all
  moreover have "E ! u \<in> set E" using \<open>u < length E\<close> by simp
  ultimately show "hasEdges E" unfolding hasEdges_def by blast
qed

section \<open>Kahn's algorithm\<close>

text \<open>A list is topologically closed when the predecessors of each element stand before it.\<close>

definition topo :: "('a \<times> 'a) set \<Rightarrow> 'a list \<Rightarrow> bool" where
  "topo R l \<longleftrightarrow> (\<forall>xs v ys u. l = xs @ v # ys \<longrightarrow> (u, v) \<in> R \<longrightarrow> u \<in> set xs)"

lemma topo_Nil [simp]: "topo R []"
  by (simp add: topo_def)

lemma topo_snoc: "topo R l \<Longrightarrow> (\<And>u. (u, v) \<in> R \<Longrightarrow> u \<in> set l) \<Longrightarrow> topo R (l @ [v])"
  unfolding topo_def
  by (metis (no_types, lifting) append_eq_append_conv2 append_eq_Cons_conv append_is_Nil_conv butlast.simps(2)
      butlast_append butlast_snoc last.simps last_appendR list.distinct(1) append_assoc append_Nil2 list.inject)

lemma topo_acyclic:
  assumes "topo R l" and "snd ` R \<subseteq> set l" and "distinct l"
  shows "acyclic R"
proof -
  define pos where "pos v = (LEAST i. i < length l \<and> l ! i = v)" for v
  have pos: "pos (l ! i) = i" if "i < length l" for i
    unfolding pos_def using that assms(3) by (intro Least_equality) (auto simp: nth_eq_iff_index_eq)
  have "R \<subseteq> measure pos"
  proof clarify
    fix u v
    assume r: "(u, v) \<in> R"
    then obtain i where i: "i < length l" "v = l ! i"
      using assms(2) by (metis image_subset_iff in_set_conv_nth snd_conv)
    then have "l = take i l @ v # drop (Suc i) l" by (simp add: id_take_nth_drop)
    with assms(1) r have "u \<in> set (take i l)" unfolding topo_def by blast
    then obtain j where "j < i" "u = l ! j" using i by (auto simp: in_set_conv_nth)
    with i pos show "(u, v) \<in> measure pos" by simp
  qed
  then show ?thesis using acyclic_subset wf_acyclic wf_measure by blast
qed

text \<open>The invariant of the outer loop over the graph \<open>R\<close> on \<open>n\<close> nodes.\<close>

definition kahn_inv :: "(nat \<times> nat) set \<Rightarrow> nat \<Rightarrow> edge_list \<Rightarrow> nat list \<Rightarrow> nat list \<Rightarrow> bool" where
  "kahn_inv R n G L T \<longleftrightarrow>
     edge_inv G \<and> length G = n \<and> edges G = {(u, v) \<in> R. u \<notin> set L} \<and> distinct (L @ T) \<and>
     set (L @ T) = {v. v < n \<and> (\<forall>u. (u, v) \<in> R \<longrightarrow> u \<in> set L)} \<and> topo R L"

lemma relax_edges:
  assumes "edge_inv G" "distinct ms" "\<forall>m \<in> set ms. (n, m) \<in> edges G"
  shows "\<exists>G1. relax n ms G T = (G1, T @ filter (\<lambda>m. \<forall>u. (u, m) \<in> edges G \<longrightarrow> u = n) ms) \<and>
    edge_inv G1 \<and> length G1 = length G \<and> edges G1 = edges G - {n} \<times> set ms"
  using assms
proof (induction ms arbitrary: G T)
  case Nil
  then show ?case by simp
next
  case (Cons m ms)
  let ?G = "deleteEdge G n m"
  have nm: "(n, m) \<in> edges G" using Cons.prems(3) by simp
  then have r: "n < length G" "m < length G" using edges_in_range[OF Cons.prems(1)] by blast+
  have i: "edge_inv ?G" using edge_inv_deleteEdge[OF Cons.prems(1) r] .
  have e: "edges ?G = edges G - {(n, m)}"
    using edges_deleteEdge[OF r] edges_antisym[OF Cons.prems(1) nm] by blast
  let ?T = "if \<not> hasIncomingEdge ?G m then T @ [m] else T"
  have "\<forall>m' \<in> set ms. (n, m') \<in> edges ?G" using Cons.prems(2,3) e by auto
  then obtain G1 where
    g: "relax n ms ?G ?T = (G1, ?T @ filter (\<lambda>m. \<forall>u. (u, m) \<in> edges ?G \<longrightarrow> u = n) ms)"
      "edge_inv G1" "length G1 = length G" "edges G1 = edges ?G - {n} \<times> set ms"
    using Cons.IH[OF i, of ?T] Cons.prems(2) by auto
  have f: "filter (\<lambda>m. \<forall>u. (u, m) \<in> edges ?G \<longrightarrow> u = n) ms = filter (\<lambda>m. \<forall>u. (u, m) \<in> edges G \<longrightarrow> u = n) ms"
    using Cons.prems(2) e by (intro filter_cong) auto
  have "\<not> hasIncomingEdge ?G m \<longleftrightarrow> (\<forall>u. (u, m) \<in> edges G \<longrightarrow> u = n)"
    using hasIncomingEdge_iff[OF i, of m] r e by auto
  then have "relax n (m # ms) G T = (G1, T @ filter (\<lambda>m. \<forall>u. (u, m) \<in> edges G \<longrightarrow> u = n) (m # ms))"
    using g(1) by (simp add: Let_def f split: if_splits)
  moreover have "edges G1 = edges G - {n} \<times> set (m # ms)" using g(4) e by auto
  ultimately show ?case using g(2,3) by blast
qed

lemma kahn_inv_step:
  assumes K: "kahn_inv R n G L (v # T)" and R: "\<forall>(a, b) \<in> R. a < n \<and> b < n"
  shows "(\<forall>e \<in> set (G ! v). snd e = 1) \<and>
    (\<exists>G1 T1. relax v (sort (map fst (G ! v))) G T = (G1, T1) \<and> kahn_inv R n G1 (L @ [v]) T1)"
proof -
  have i: "edge_inv G" and n: "length G = n" and e: "edges G = {(u, v) \<in> R. u \<notin> set L}"
    and d: "distinct (L @ v # T)" and s: "set (L @ v # T) = {v. v < n \<and> (\<forall>u. (u, v) \<in> R \<longrightarrow> u \<in> set L)}"
    and t: "topo R L"
    using K by (simp_all add: kahn_inv_def)
  have "v \<in> set (L @ v # T)" by simp
  then have v: "v < n" "\<And>u. (u, v) \<in> R \<Longrightarrow> u \<in> set L" using s by blast+
  have pos: "adj G v m = Some x \<Longrightarrow> x = 1" for m x
  proof -
    assume a: "adj G v m = Some x"
    have "(m, v) \<notin> edges G" using v(2) e by auto
    then show "x = 1" using edge_inv_cases[OF i a] by (auto simp: edges_def)
  qed
  then have one: "\<forall>e \<in> set (G ! v). snd e = 1"
    using in_adjacency[OF i] v n by (metis prod.collapse)
  let ?ms = "sort (map fst (G ! v))"
  have "m \<in> set ?ms \<longleftrightarrow> adj G v m \<noteq> None" for m
    using v n by (simp add: adj_def map_of_eq_None_iff)
  then have ms: "set ?ms = {m. (v, m) \<in> edges G}" using pos by (auto simp: edges_def)
  have "distinct ?ms" using i v n by (simp add: edge_inv_alt keys_ok_nth)
  with ms obtain G1 where
    g: "relax v ?ms G T = (G1, T @ filter (\<lambda>m. \<forall>u. (u, m) \<in> edges G \<longrightarrow> u = v) ?ms)"
      "edge_inv G1" "length G1 = n" "edges G1 = edges G - {v} \<times> set ?ms"
    using relax_edges[OF i, of ?ms v T] n by auto
  let ?new = "filter (\<lambda>m. \<forall>u. (u, m) \<in> edges G \<longrightarrow> u = v) ?ms"
  have vL: "v \<notin> set L" using d by simp
  have new: "set ?new = {m. (v, m) \<in> R \<and> (\<forall>u. (u, m) \<in> R \<longrightarrow> u \<in> set (L @ [v]))}"
    using ms e vL by auto
  have "edges G1 = {(a, b) \<in> R. a \<notin> set (L @ [v])}" using g(4) ms e by auto
  moreover have "distinct ((L @ [v]) @ T @ ?new)"
  proof -
    have "set ?new \<inter> set (L @ v # T) = {}" using new s vL by auto
    then show ?thesis using d \<open>distinct ?ms\<close> by auto
  qed
  moreover have "set ((L @ [v]) @ T @ ?new) = {w. w < n \<and> (\<forall>u. (u, w) \<in> R \<longrightarrow> u \<in> set (L @ [v]))}"
  proof -
    have "set ((L @ [v]) @ T @ ?new) = set (L @ v # T) \<union> set ?new" by auto
    also have "\<dots> = {w. w < n \<and> (\<forall>u. (u, w) \<in> R \<longrightarrow> u \<in> set (L @ [v]))}"
      unfolding s new using R by auto
    finally show ?thesis .
  qed
  moreover have "topo R (L @ [v])" using t v(2) by (rule topo_snoc)
  ultimately have "kahn_inv R n G1 (L @ [v]) (T @ ?new)"
    using g(2,3) unfolding kahn_inv_def by blast
  with one g(1) show ?thesis by blast
qed

text \<open>One iteration more than there are nodes is enough, and the loop never meets its own panic.\<close>

lemma kahn_enough:
  assumes "kahn_inv R n G L T" "\<forall>(a, b) \<in> R. a < n \<and> b < n" "n < k + length L"
  shows "\<exists>G1 L1. kahn k G L T = Ok (G1, L1) \<and> kahn_inv R n G1 L1 []"
  using assms(1,3)
proof (induction k arbitrary: G L T)
  case 0
  have "length (L @ T) \<le> n"
    using 0(1) card_mono[of "{v. v < n}" "set (L @ T)"] distinct_card[of "L @ T"]
    unfolding kahn_inv_def by auto
  with 0 show ?case by simp
next
  case (Suc k)
  show ?case
  proof (cases T)
    case Nil
    with Suc.prems show ?thesis by auto
  next
    case (Cons v T')
    then obtain G1 T1 where g: "\<forall>e \<in> set (G ! v). snd e = 1"
      "relax v (sort (map fst (G ! v))) G T' = (G1, T1)" "kahn_inv R n G1 (L @ [v]) T1"
      using kahn_inv_step[of R n G L v T'] Suc.prems(1) assms(2) by blast
    then have "kahn (Suc k) G L T = kahn k G1 (L @ [v]) T1" using Cons by auto
    with Suc.IH[OF g(3)] Suc.prems(2) show ?thesis by simp
  qed
qed

text \<open>What is left at the end: no edge, and then every node sorted, exactly if the graph is acyclic.\<close>

lemma kahn_final:
  assumes K: "kahn_inv R n G L []" and R: "\<forall>(a, b) \<in> R. a < n \<and> b < n"
  shows "edges G = {} \<longleftrightarrow> acyclic R" and "acyclic R \<Longrightarrow> set L = {v. v < n}"
proof -
  have e: "edges G = {(u, v) \<in> R. u \<notin> set L}" and s: "set L = {v. v < n \<and> (\<forall>u. (u, v) \<in> R \<longrightarrow> u \<in> set L)}"
    and t: "topo R L" "distinct L"
    using K by (simp_all add: kahn_inv_def)
  show all: "set L = {v. v < n}" if "acyclic R"
  proof -
    have "R \<subseteq> {v. v < n} \<times> {v. v < n}" using R by auto
    then have "finite R" by (rule finite_subset) simp
    then have "wf R" using that by (rule finite_acyclic_wf)
    then have "v < n \<longrightarrow> v \<in> set L" for v
    proof (induction v rule: wf_induct_rule)
      case (less v)
      then have "\<forall>u. (u, v) \<in> R \<longrightarrow> u \<in> set L" using R by blast
      then show ?case using s by blast
    qed
    then show ?thesis using s by blast
  qed
  show "edges G = {} \<longleftrightarrow> acyclic R"
  proof
    assume "edges G = {}"
    then have "\<forall>u v. (u, v) \<in> R \<longrightarrow> u \<in> set L" using e by blast
    then have "v \<in> {v. v < n \<and> (\<forall>u. (u, v) \<in> R \<longrightarrow> u \<in> set L)}" if "(u, v) \<in> R" for u v
      using that R by blast
    then have "snd ` R \<subseteq> set L" unfolding s[symmetric] by auto
    then show "acyclic R" using topo_acyclic t by blast
  next
    assume "acyclic R"
    then show "edges G = {}" using all e R by auto
  qed
qed

lemma topo_trancl:
  assumes "topo R l"
  shows "topo (R\<^sup>+) l"
  unfolding topo_def
proof (intro allI impI)
  fix xs v ys u
  assume "l = xs @ v # ys" and "(u, v) \<in> R\<^sup>+"
  from this(2,1) show "u \<in> set xs"
  proof (induction arbitrary: xs ys rule: trancl_induct)
    case (base v)
    with assms show ?case unfolding topo_def by blast
  next
    case (step w v)
    then have "w \<in> set xs" using assms unfolding topo_def by blast
    then obtain as bs where "xs = as @ w # bs" by (auto dest: split_list)
    with step.prems step.IH[of as "bs @ v # ys"] show ?case by simp
  qed
qed

lemma topo_rev:
  assumes "topo R l" "distinct l" "snd ` R \<subseteq> set l"
  shows "topo (R\<inverse>) (rev l)"
  unfolding topo_def
proof (intro allI impI)
  fix xs v ys u
  assume l: "rev l = xs @ v # ys" and r: "(u, v) \<in> R\<inverse>"
  then have e: "l = rev ys @ v # rev xs" by (simp add: rev_swap)
  from r assms(3) have "u \<in> set l" by force
  then obtain as bs where "l = as @ u # bs" by (auto dest: split_list)
  moreover from this r assms(1) have "v \<in> set as" unfolding topo_def by blast
  then obtain cs ds where "as = cs @ v # ds" by (auto dest: split_list)
  ultimately have "cs @ v # (ds @ u # bs) = rev ys @ v # rev xs" and "distinct (cs @ v # (ds @ u # bs))"
    using e assms(2) by simp_all
  then have "rev xs = ds @ u # bs" by (subst (asm) append_Cons_eq_iff) auto
  then have "u \<in> set (rev xs)" by simp
  then show "u \<in> set xs" by simp
qed

section \<open>First and last elements\<close>

text \<open>The links between neighbours of a list.\<close>

fun chain :: "'a list \<Rightarrow> ('a \<times> 'a) set" where
  "chain (a # b # l) = insert (a, b) (chain (b # l))"
| "chain _ = {}"

lemma chain_iff: "(x, y) \<in> chain l \<longleftrightarrow> (\<exists>xs ys. l = xs @ x # y # ys)"
proof (induction l rule: chain.induct)
  case (1 a b l)
  have "(\<exists>xs ys. a # b # l = xs @ x # y # ys) \<longleftrightarrow> (x = a \<and> y = b) \<or> (\<exists>xs ys. b # l = xs @ x # y # ys)"
    by (auto simp: Cons_eq_append_conv)
  with 1 show ?case by auto
qed (auto simp: Cons_eq_append_conv)

lemma chain_rev: "chain (rev l) = (chain l)\<inverse>"
proof -
  have "(x, y) \<in> chain (rev l) \<longleftrightarrow> (y, x) \<in> chain l" for x y
  proof
    assume "(x, y) \<in> chain (rev l)"
    then obtain xs ys where "rev l = xs @ x # y # ys" by (auto simp: chain_iff)
    then have "l = rev ys @ y # x # rev xs" by (simp add: rev_swap)
    then show "(y, x) \<in> chain l" unfolding chain_iff by blast
  next
    assume "(y, x) \<in> chain l"
    then obtain xs ys where "l = xs @ y # x # ys" by (auto simp: chain_iff)
    then have "rev l = rev ys @ x # y # rev xs" by simp
    then show "(x, y) \<in> chain (rev l)" unfolding chain_iff by blast
  qed
  then show ?thesis by auto
qed

lemma chain_in_set: "(x, y) \<in> chain l \<Longrightarrow> x \<in> set l \<and> y \<in> set l"
  by (auto simp: chain_iff)

lemma chain_hd_or_pred: "x \<in> set l \<Longrightarrow> x = hd l \<or> (\<exists>w. (w, x) \<in> chain l)"
  by (induction l rule: chain.induct) auto

lemma chain_reaches_last: "\<forall>x \<in> set l. x = last l \<or> (x, last l) \<in> (chain l)\<^sup>+"
proof (induction l rule: chain.induct)
  case (1 a b l)
  have m: "(chain (b # l))\<^sup>+ \<subseteq> (chain (a # b # l))\<^sup>+" by (rule trancl_mono_subset) auto
  have ab: "(a, b) \<in> (chain (a # b # l))\<^sup>+" by auto
  have "b = last (b # l) \<or> (b, last (b # l)) \<in> (chain (a # b # l))\<^sup>+"
    using 1 m by auto
  then have a: "(a, last (a # b # l)) \<in> (chain (a # b # l))\<^sup>+" using ab by (auto intro: trancl_trans)
  show ?case
  proof
    fix x
    assume "x \<in> set (a # b # l)"
    then consider "x = a" | "x = last (b # l)" | "(x, last (b # l)) \<in> (chain (b # l))\<^sup>+" using 1 by auto
    then show "x = last (a # b # l) \<or> (x, last (a # b # l)) \<in> (chain (a # b # l))\<^sup>+"
      using a m by cases auto
  qed
qed auto

lemma hd_reaches_chain: "x \<in> set l \<Longrightarrow> x = hd l \<or> (hd l, x) \<in> (chain l)\<^sup>+"
  using chain_reaches_last[of "rev l"] by (auto simp: last_rev chain_rev trancl_converse)

text \<open>If everything else follows the end of a chain, a topological order starts with the chain.\<close>

lemma topo_prefix:
  assumes "topo R l" "distinct l" "distinct ns" "ns \<noteq> []" "set ns \<subseteq> set l" "chain ns \<subseteq> R"
    and "\<forall>v \<in> set l - set ns. (last ns, v) \<in> R"
  shows "\<exists>l'. l = ns @ l'"
  using assms
proof (induction ns arbitrary: l R)
  case (Cons a ns)
  obtain x l' where l: "l = x # l'" using Cons.prems(5) by (cases l) auto
  have nopred: "(w, x) \<notin> R" for w using Cons.prems(1) l unfolding topo_def by (metis append_Nil empty_iff empty_set)
  have "x \<in> set (a # ns)" using Cons.prems(7) nopred l by auto
  then have x: "x = a" using chain_hd_or_pred[of x "a # ns"] nopred Cons.prems(6) by auto
  show ?case
  proof (cases ns)
    case Nil
    with l x show ?thesis by simp
  next
    case (Cons b ns')
    let ?R = "{(u, v) \<in> R. u \<noteq> a}"
    have "topo ?R l'"
      unfolding topo_def
    proof (intro allI impI)
      fix xs v ys u
      assume e: "l' = xs @ v # ys" and r: "(u, v) \<in> ?R"
      then have "l = (x # xs) @ v # ys" using l by simp
      then have "u \<in> set (x # xs)" using r Cons.prems(1) unfolding topo_def by blast
      then show "u \<in> set xs" using r x by simp
    qed
    moreover have "chain ns \<subseteq> ?R"
      using Cons.prems(3,6) local.Cons chain_in_set[of _ _ ns] by (auto)
    moreover have "\<forall>v \<in> set l' - set ns. (last ns, v) \<in> ?R"
      using Cons.prems(2,3,7) l x local.Cons by auto
    ultimately have "\<exists>l''. l' = ns @ l''"
      using Cons.prems(2,3,5) l x local.Cons by (intro Cons.IH[of ?R l']) auto
    then show ?thesis using l x by simp
  qed
qed simp

lemma topo_suffix:
  assumes "topo R l" "distinct l" "distinct ns" "ns \<noteq> []" "set ns \<subseteq> set l" "chain ns \<subseteq> R"
    and "snd ` R \<subseteq> set l" and "\<forall>v \<in> set l - set ns. (v, hd ns) \<in> R"
  shows "\<exists>l'. l = l' @ ns"
proof -
  have "\<exists>l'. rev l = rev ns @ l'"
    using assms by (intro topo_prefix[of "R\<inverse>"] topo_rev) (auto simp: chain_rev last_rev)
  then show ?thesis by (metis rev_append rev_rev_ident)
qed

lemma ofold_first_edges:
  assumes "edge_inv E" "z < length E" "\<forall>i \<in> set is. i < length E \<and> (i \<notin> S \<longrightarrow> i \<noteq> z)"
  shows "\<exists>E'. ofold (\<lambda>i F. if i \<in> S then Ok F else replaceEdge F z i) is E = Ok E' \<and> edge_inv E' \<and>
    length E' = length E \<and> edges E' = edges E - (set is - S) \<times> {z} \<union> {z} \<times> (set is - S)"
  using assms
proof (induction "is" arbitrary: E)
  case (Cons i "is")
  show ?case
  proof (cases "i \<in> S")
    case True
    then have "set (i # is) - S = set is - S" by auto
    with True Cons show ?thesis by simp
  next
    case False
    let ?E = "set_edge E z i"
    have r: "z < length E" "i < length E" "z \<noteq> i" using Cons.prems False by auto
    obtain E' where e: "ofold (\<lambda>i F. if i \<in> S then Ok F else replaceEdge F z i) is ?E = Ok E'" "edge_inv E'"
      "length E' = length E" "edges E' = edges ?E - (set is - S) \<times> {z} \<union> {z} \<times> (set is - S)"
      using Cons.IH[OF edge_inv_set_edge[OF Cons.prems(1) r]] Cons.prems by auto
    moreover have "edges E' = edges E - (set (i # is) - S) \<times> {z} \<union> {z} \<times> (set (i # is) - S)"
      unfolding e(4) edges_set_edge[OF r] using False r(3) Cons.prems(3) by auto
    ultimately show ?thesis using False r(3) by (auto simp: replaceEdge_def)
  qed
qed simp

lemma ofold_last_edges:
  assumes "edge_inv E" "z < length E" "\<forall>i \<in> set is. i < length E \<and> (i \<notin> S \<longrightarrow> i \<noteq> z)"
  shows "\<exists>E'. ofold (\<lambda>i F. if i \<in> S then Ok F else replaceEdge F i z) is E = Ok E' \<and> edge_inv E' \<and>
    length E' = length E \<and> edges E' = edges E - {z} \<times> (set is - S) \<union> (set is - S) \<times> {z}"
  using assms
proof (induction "is" arbitrary: E)
  case (Cons i "is")
  show ?case
  proof (cases "i \<in> S")
    case True
    then have "set (i # is) - S = set is - S" by auto
    with True Cons show ?thesis by simp
  next
    case False
    let ?E = "set_edge E i z"
    have r: "i < length E" "z < length E" "i \<noteq> z" using Cons.prems False by auto
    obtain E' where e: "ofold (\<lambda>i F. if i \<in> S then Ok F else replaceEdge F i z) is ?E = Ok E'" "edge_inv E'"
      "length E' = length E" "edges E' = edges ?E - {z} \<times> (set is - S) \<union> (set is - S) \<times> {z}"
      using Cons.IH[OF edge_inv_set_edge[OF Cons.prems(1) r]] Cons.prems by auto
    moreover have "edges E' = edges E - {z} \<times> (set (i # is) - S) \<union> (set (i # is) - S) \<times> {z}"
      unfolding e(4) edges_set_edge[OF r] using False r(3) Cons.prems(3) by auto
    ultimately show ?thesis using False r(3) by (auto simp: replaceEdge_def)
  qed
qed simp

text \<open>Clearing a node and giving it one edge.\<close>

lemma reset_replace:
  assumes "edge_inv E" "a < length E" "b < length E" "a \<noteq> b" "w = a \<or> w = b"
  shows "\<exists>E'. replaceEdge (resetEdges E w) a b = Ok E' \<and> edge_inv E' \<and> length E' = length E \<and>
    edges E' = insert (a, b) {(x, y) \<in> edges E. x \<noteq> w \<and> y \<noteq> w}"
proof -
  have w: "w < length E" using assms by auto
  have "edge_inv (set_edge (resetEdges E w) a b)"
    using assms edge_inv_resetEdges[OF assms(1) w] by (intro edge_inv_set_edge) auto
  moreover have "edges (set_edge (resetEdges E w) a b) = insert (a, b) {(x, y) \<in> edges E. x \<noteq> w \<and> y \<noteq> w}"
    using assms by (subst edges_set_edge) (auto simp: edges_resetEdges[OF assms(1) w])
  ultimately show ?thesis using assms(4) by (simp add: replaceEdge_def)
qed

lemma addFirst_chain_edges:
  assumes "edge_inv E" "distinct ns" "\<forall>i \<in> set ns. i < length E"
  shows "\<exists>E'. addFirst_chain ns E = Ok E' \<and> edge_inv E' \<and> length E' = length E \<and>
    edges E' = chain ns \<union> {(x, y) \<in> edges E. x \<notin> set (butlast ns) \<and> y \<notin> set (butlast ns)}"
  using assms
proof (induction ns E rule: addFirst_chain.induct)
  case (1 a b nodes E)
  then obtain E1 where e: "addFirst_chain (b # nodes) E = Ok E1" "edge_inv E1" "length E1 = length E"
    "edges E1 = chain (b # nodes) \<union> {(x, y) \<in> edges E. x \<notin> set (butlast (b # nodes)) \<and> y \<notin> set (butlast (b # nodes))}"
    by auto
  obtain E2 where f: "replaceEdge (resetEdges E1 a) a b = Ok E2" "edge_inv E2" "length E2 = length E1"
    "edges E2 = insert (a, b) {(x, y) \<in> edges E1. x \<noteq> a \<and> y \<noteq> a}"
    using reset_replace[OF e(2), of a b a] 1 e(3) by auto
  have "edges E2 = chain (a # b # nodes) \<union>
    {(x, y) \<in> edges E. x \<notin> set (butlast (a # b # nodes)) \<and> y \<notin> set (butlast (a # b # nodes))}"
    unfolding f(4) e(4) using "1.prems"(2) chain_in_set[of _ _ "b # nodes"] by (auto split: if_splits)
  with e f show ?case by simp
qed auto

lemma addLast_chain_edges:
  assumes "edge_inv E" "distinct ns" "\<forall>i \<in> set ns. i < length E"
  shows "\<exists>E'. addLast_chain ns E = Ok E' \<and> edge_inv E' \<and> length E' = length E \<and>
    edges E' = chain ns \<union> {(x, y) \<in> edges E. x \<notin> set (tl ns) \<and> y \<notin> set (tl ns)}"
  using assms
proof (induction ns E rule: addLast_chain.induct)
  case (1 a b nodes E)
  obtain E1 where f: "replaceEdge (resetEdges E b) a b = Ok E1" "edge_inv E1" "length E1 = length E"
    "edges E1 = insert (a, b) {(x, y) \<in> edges E. x \<noteq> b \<and> y \<noteq> b}"
    using reset_replace[of E a b b] "1.prems" by auto
  then obtain E2 where e: "addLast_chain (b # nodes) E1 = Ok E2" "edge_inv E2" "length E2 = length E1"
    "edges E2 = chain (b # nodes) \<union> {(x, y) \<in> edges E1. x \<notin> set nodes \<and> y \<notin> set nodes}"
    using "1.IH"[of E1] "1.prems" by auto
  have "edges E2 = chain (a # b # nodes) \<union>
    {(x, y) \<in> edges E. x \<notin> set (tl (a # b # nodes)) \<and> y \<notin> set (tl (a # b # nodes))}"
    unfolding f(4) e(4) using "1.prems"(2) by (auto split: if_splits)
  with e f show ?case by simp
qed auto

lemma addFirst_edges:
  assumes "edge_inv E" "distinct ns" "ns \<noteq> []" "\<forall>i \<in> set ns. i < length E"
  shows "\<exists>E'. addFirst E (length E) ns = Ok E' \<and> edge_inv E' \<and> length E' = length E \<and>
    edges E' = chain ns \<union> {last ns} \<times> ({0..<length E} - set ns) \<union>
      {(x, y) \<in> edges E. x \<notin> set ns \<and> y \<notin> set ns}"
proof -
  have l: "last ns \<in> set ns" using assms(3) by simp
  obtain E1 where e: "ofold (\<lambda>i F. if i \<in> set ns then Ok F else replaceEdge F (last ns) i) [0..<length E] E = Ok E1"
    "edge_inv E1" "length E1 = length E"
    "edges E1 = edges E - ({0..<length E} - set ns) \<times> {last ns} \<union> {last ns} \<times> ({0..<length E} - set ns)"
    using ofold_first_edges[OF assms(1), of "last ns" "[0..<length E]" "set ns"] assms(4) l by auto
  obtain E2 where f: "addFirst_chain ns E1 = Ok E2" "edge_inv E2" "length E2 = length E1"
    "edges E2 = chain ns \<union> {(x, y) \<in> edges E1. x \<notin> set (butlast ns) \<and> y \<notin> set (butlast ns)}"
    using addFirst_chain_edges[OF e(2) assms(2)] assms(4) e(3) by auto
  have b: "x \<in> set ns \<longleftrightarrow> x = last ns \<or> x \<in> set (butlast ns)" for x
    using assms(3) by (metis append_butlast_last_id in_set_conv_decomp in_set_butlastD rotate1.simps(2) set_ConsD set_rotate1)
  have "last ns \<notin> set (butlast ns)"
    using assms(2,3) by (metis append_butlast_last_id distinct_append not_distinct_conv_prefix)
  then have "edges E2 = chain ns \<union> {last ns} \<times> ({0..<length E} - set ns) \<union>
      {(x, y) \<in> edges E. x \<notin> set ns \<and> y \<notin> set ns}"
    unfolding f(4) e(4) using b edges_in_range[OF assms(1)] edges_antisym[OF assms(1), of "last ns" "last ns"]
    by auto
  with e f assms(3) show ?thesis by (simp add: addFirst_def)
qed

lemma addLast_edges:
  assumes "edge_inv E" "distinct ns" "ns \<noteq> []" "\<forall>i \<in> set ns. i < length E"
  shows "\<exists>E'. addLast E (length E) ns = Ok E' \<and> edge_inv E' \<and> length E' = length E \<and>
    edges E' = chain ns \<union> ({0..<length E} - set ns) \<times> {hd ns} \<union>
      {(x, y) \<in> edges E. x \<notin> set ns \<and> y \<notin> set ns}"
proof -
  have l: "hd ns \<in> set ns" using assms(3) by simp
  obtain E1 where e: "ofold (\<lambda>i F. if i \<in> set ns then Ok F else replaceEdge F i (hd ns)) [0..<length E] E = Ok E1"
    "edge_inv E1" "length E1 = length E"
    "edges E1 = edges E - {hd ns} \<times> ({0..<length E} - set ns) \<union> ({0..<length E} - set ns) \<times> {hd ns}"
    using ofold_last_edges[OF assms(1), of "hd ns" "[0..<length E]" "set ns"] assms(4) l by auto
  obtain E2 where f: "addLast_chain ns E1 = Ok E2" "edge_inv E2" "length E2 = length E1"
    "edges E2 = chain ns \<union> {(x, y) \<in> edges E1. x \<notin> set (tl ns) \<and> y \<notin> set (tl ns)}"
    using addLast_chain_edges[OF e(2) assms(2)] assms(4) e(3) by auto
  have b: "x \<in> set ns \<longleftrightarrow> x = hd ns \<or> x \<in> set (tl ns)" for x
    using assms(3) by (cases ns) auto
  have "hd ns \<notin> set (tl ns)" using assms(2,3) by (cases ns) auto
  then have "edges E2 = chain ns \<union> ({0..<length E} - set ns) \<times> {hd ns} \<union>
      {(x, y) \<in> edges E. x \<notin> set ns \<and> y \<notin> set ns}"
    unfolding f(4) e(4) using b edges_in_range[OF assms(1)] edges_antisym[OF assms(1), of "hd ns" "hd ns"]
    by auto
  with e f assms(3) show ?thesis by (simp add: addLast_def)
qed

section \<open>The graph over names\<close>

lemma dag_names_simps [simp]: "dag_names (dag\<lparr>directedEdgeList := E\<rparr>) = dag_names dag"
  by (simp add: dag_names_def)

lemma length_dag_names [simp]: "length (nodeNameToId dag) = length (dag_names dag)"
  by (simp add: dag_names_def)

lemma dag_inv_update:
  "dag_inv dag \<Longrightarrow> edge_inv E \<Longrightarrow> length E = length (directedEdgeList dag) \<Longrightarrow> dag_inv (dag\<lparr>directedEdgeList := E\<rparr>)"
  by (simp add: dag_inv_def)

lemma nodeNameToId_eq_Some:
  assumes "dag_inv dag"
  shows "map_of (nodeNameToId dag) s = Some u \<longleftrightarrow> u < length (dag_names dag) \<and> dag_names dag ! u = s"
proof -
  have "nodeNameToId dag = zip (dag_names dag) [0..<length (dag_names dag)]" "distinct (dag_names dag)"
    using assms unfolding dag_inv_def by blast+
  then show ?thesis by (metis (no_types, lifting) add_0 diff_zero distinct_map in_set_zip length_map length_upt map_fst_zip
    map_of_eq_Some_iff nth_upt fst_conv snd_conv)
qed

lemma nodeNameToId_None_iff:
  assumes "dag_inv dag"
  shows "map_of (nodeNameToId dag) s = None \<longleftrightarrow> s \<notin> set (dag_names dag)"
  by (simp add: map_of_eq_None_iff dag_names_def)

lemma idToNodeNames_nth:
  assumes "dag_inv dag" "u < length (dag_names dag)"
  shows "map_of (idToNodeNames dag) u = Some (dag_names dag ! u)"
proof -
  have "idToNodeNames dag = zip [0..<length (dag_names dag)] (dag_names dag)"
    using assms unfolding dag_inv_def by blast
  then show ?thesis using assms(2) by (auto simp: in_set_zip intro!: map_of_is_SomeI exI[of _ u])
qed

lemma dag_nth_inj:
  "dag_inv dag \<Longrightarrow> inj_on ((!) (dag_names dag)) {0..<length (directedEdgeList dag)}"
  by (auto simp: dag_inv_def inj_on_def nth_eq_iff_index_eq)

lemma dag_inv_edges_range:
  assumes "dag_inv dag"
  shows "edges (directedEdgeList dag) \<subseteq> {0..<length (directedEdgeList dag)} \<times> {0..<length (directedEdgeList dag)}"
  using assms edges_in_range[of "directedEdgeList dag"] by (auto simp: dag_inv_def)

lemma dag_edges_nth:
  assumes "dag_inv dag" "u < length (directedEdgeList dag)" "v < length (directedEdgeList dag)"
  shows "(dag_names dag ! u, dag_names dag ! v) \<in> dag_edges dag \<longleftrightarrow> (u, v) \<in> edges (directedEdgeList dag)"
proof
  assume "(dag_names dag ! u, dag_names dag ! v) \<in> dag_edges dag"
  then obtain a b where e: "(a, b) \<in> edges (directedEdgeList dag)"
    and n: "dag_names dag ! u = dag_names dag ! a" "dag_names dag ! v = dag_names dag ! b"
    by (auto simp: dag_edges_def)
  from e have "a < length (directedEdgeList dag)" "b < length (directedEdgeList dag)"
    using dag_inv_edges_range[OF assms(1)] by auto
  with n assms have "a = u" "b = v" by (simp_all add: dag_inv_def nth_eq_iff_index_eq)
  with e show "(u, v) \<in> edges (directedEdgeList dag)" by simp
qed (force simp: dag_edges_def)

text \<open>Renaming the elements of a topologically closed list.\<close>

lemma topo_map:
  assumes "topo R l" "inj_on f A" "set l \<subseteq> A" "R \<subseteq> A \<times> A"
  shows "topo (map_prod f f ` R) (map f l)"
  unfolding topo_def
proof (intro allI impI)
  fix xs v ys u
  assume "map f l = xs @ v # ys" and r: "(u, v) \<in> map_prod f f ` R"
  then obtain xs' v' ys' where l: "l = xs' @ v' # ys'" "xs = map f xs'" "v = f v'"
    by (auto simp: map_eq_append_conv)
  from r obtain a b where ab: "(a, b) \<in> R" "u = f a" "v = f b" by auto
  then have "b = v'" using l assms(2-4) by (auto simp: inj_on_def)
  with ab l assms(1) have "a \<in> set xs'" unfolding topo_def by blast
  with ab l show "u \<in> set xs" by simp
qed

lemma acyclic_map_prod: "acyclic (map_prod f f ` R) \<Longrightarrow> acyclic R"
proof -
  have "(x, y) \<in> R\<^sup>+ \<Longrightarrow> (f x, f y) \<in> (map_prod f f ` R)\<^sup>+" for x y
    by (induction rule: trancl_induct) (auto intro: trancl_into_trancl)
  then show "acyclic (map_prod f f ` R) \<Longrightarrow> acyclic R" by (auto simp: acyclic_def)
qed

lemma kahn_inv_init:
  assumes "edge_inv E"
  shows "kahn_inv (edges E) (length E) E [] (topologicalTopLevelNodes E (length E))"
  using assms hasIncomingEdge_iff[OF assms]
  by (auto simp: kahn_inv_def topologicalTopLevelNodes_def)

lemma DAG_Copy_edges:
  "dag_inv dag \<Longrightarrow> directedEdgeList (DAG_Copy dag) = directedEdgeList dag"
  by (auto simp: DAG_Copy_def dag_inv_def intro: nth_equalityI)

lemma idsToNames_all:
  assumes "dag_inv dag" "length L = length (directedEdgeList dag)" "set L \<subseteq> {0..<length (directedEdgeList dag)}"
  shows "idsToNames dag L = Ok (map ((!) (dag_names dag)) L)"
proof -
  have n: "length (dag_names dag) = length L" using assms by (simp add: dag_inv_def)
  have "L ! i < length (dag_names dag)" if "i < length L" for i
    using assms(2,3) n nth_mem[OF that] by auto
  then show ?thesis
    unfolding idsToNames_def omap_Ok_iff
    by (auto simp: list_all2_conv_all_nth n idToNodeNames_nth[OF assms(1)])
qed

lemma TopologicalSort_ids:
  assumes "dag_inv dag"
  shows "if acyclic (edges (directedEdgeList dag))
    then \<exists>L. TopologicalSort dag = Ok (map ((!) (dag_names dag)) L) \<and> distinct L \<and>
           set L = {0..<length (directedEdgeList dag)} \<and> topo (edges (directedEdgeList dag)) L
    else TopologicalSort dag = Panic ''dag: invalid construction, a cycle exists''"
proof -
  let ?E = "directedEdgeList dag" and ?n = "length (directedEdgeList dag)"
  have i: "edge_inv ?E" and n: "length (dag_names dag) = ?n" using assms by (simp_all add: dag_inv_def)
  have R: "\<forall>(a, b) \<in> edges ?E. a < ?n \<and> b < ?n" using edges_in_range[OF i] by auto
  obtain G L where k: "kahn (Suc ?n) ?E [] (topologicalTopLevelNodes ?E ?n) = Ok (G, L)"
    and K: "kahn_inv (edges ?E) ?n G L []"
    using kahn_enough[OF kahn_inv_init[OF i] R, of "Suc ?n"] by (metis add.right_neutral lessI list.size(3))
  have t: "TopologicalSort dag = (if hasEdges G then Panic ''dag: invalid construction, a cycle exists''
      else idsToNames dag L)"
    unfolding TopologicalSort_def Let_def DAG_Copy_edges[OF assms] length_dag_names n k by simp
  have h: "hasEdges G \<longleftrightarrow> \<not> acyclic (edges ?E)"
  proof -
    have "edge_inv G" using K unfolding kahn_inv_def by blast
    with hasEdges_iff kahn_final(1)[OF K R] show ?thesis by blast
  qed
  show ?thesis
  proof (cases "acyclic (edges ?E)")
    case True
    have s: "set L = {0..<?n}" unfolding kahn_final(2)[OF K R True] by auto
    have d: "distinct L" and o: "topo (edges ?E) L" using K unfolding kahn_inv_def by simp_all
    have "length L = ?n" using distinct_card[OF d] s by simp
    then have "TopologicalSort dag = Ok (map ((!) (dag_names dag)) L)"
      using True t h idsToNames_all[OF assms, of L] s by simp
    with s d o have "\<exists>L. TopologicalSort dag = Ok (map ((!) (dag_names dag)) L) \<and> distinct L \<and>
           set L = {0..<?n} \<and> topo (edges ?E) L" by blast
    with True show ?thesis by simp
  next
    case False
    with t h show ?thesis by simp
  qed
qed

lemma TopologicalSort_total_order:
  assumes "dag_inv dag"
  shows "if acyclic (dag_edges dag)
    then \<exists>l. TopologicalSort dag = Ok l \<and> distinct l \<and> set l = set (dag_names dag) \<and> topo (dag_edges dag) l
    else TopologicalSort dag = Panic ''dag: invalid construction, a cycle exists''"
proof -
  let ?E = "directedEdgeList dag" and ?n = "length (directedEdgeList dag)" and ?f = "(!) (dag_names dag)"
  have n: "length (dag_names dag) = ?n" using assms by (simp add: dag_inv_def)
  show ?thesis
  proof (cases "acyclic (edges ?E)")
    case True
    then obtain L where L: "TopologicalSort dag = Ok (map ?f L)" "distinct L" "set L = {0..<?n}" "topo (edges ?E) L"
      using TopologicalSort_ids[OF assms] by auto
    have "topo (dag_edges dag) (map ?f L)"
      unfolding dag_edges_def using topo_map[OF L(4) dag_nth_inj[OF assms]] L(3) dag_inv_edges_range[OF assms] by auto
    moreover have d: "distinct (map ?f L)" using L(2,3) dag_nth_inj[OF assms] by (simp add: distinct_map)
    moreover have s: "set (map ?f L) = set (dag_names dag)"
      using L(3) n by (auto simp: in_set_conv_nth)
    moreover have "snd ` dag_edges dag \<subseteq> set (dag_names dag)"
      using dag_inv_edges_range[OF assms] n by (auto simp: dag_edges_def)
    ultimately show ?thesis using L(1) topo_acyclic[of "dag_edges dag" "map ?f L"] by auto
  next
    case False
    then have "\<not> acyclic (dag_edges dag)" using acyclic_map_prod unfolding dag_edges_def by blast
    with False TopologicalSort_ids[OF assms] show ?thesis by simp
  qed
qed

section \<open>What the operations do to the graph over names\<close>

lemma dag_edges_update:
  "dag_edges (dag\<lparr>directedEdgeList := E\<rparr>) = map_prod ((!) (dag_names dag)) ((!) (dag_names dag)) ` edges E"
  by (simp add: dag_edges_def)

lemma dag_edges_names: "dag_inv dag \<Longrightarrow> dag_edges dag \<subseteq> set (dag_names dag) \<times> set (dag_names dag)"
  using dag_inv_edges_range[of dag] by (auto simp: dag_edges_def dag_inv_def)

lemma fold_update_fresh:
  assumes "distinct nodes" "set nodes \<inter> fst ` set m = {}"
  shows "fold (\<lambda>(i, node) m. AList.update node i m) (enumerate k nodes) m
           = m @ zip nodes [k..<k + length nodes]"
  using assms
proof (induction nodes arbitrary: k m)
  case (Cons x nodes)
  have "AList.update x k m = m @ [(x, k)]"
    using Cons.prems(2) by (induction m) auto
  moreover have "[k..<k + length (x # nodes)] = k # [Suc k..<Suc k + length nodes]"
    by (simp add: upt_rec)
  ultimately show ?case using Cons.IH[of "m @ [(x, k)]" "Suc k"] Cons.prems by auto
qed simp

lemma fold_update_index:
  assumes "\<forall>i \<in> fst ` set m. i < k"
  shows "fold (\<lambda>(i, node) m. AList.update i node m) (enumerate k nodes) m
           = m @ zip [k..<k + length nodes] nodes"
  using assms
proof (induction nodes arbitrary: k m)
  case (Cons x nodes)
  have "AList.update k x m = m @ [(k, x)]"
    using Cons.prems by (induction m) auto
  moreover have "[k..<k + length (x # nodes)] = k # [Suc k..<Suc k + length nodes]"
    by (simp add: upt_rec)
  ultimately show ?case using Cons.IH[of "m @ [(k, x)]" "Suc k"] Cons.prems by (auto simp: less_SucI)
qed simp

lemma NewDAG_distinct:
  assumes "distinct nodes"
  shows "\<exists>dag. NewDAG nodes = Ok dag \<and> dag_inv dag \<and> dag_names dag = nodes \<and> dag_edges dag = {}"
proof -
  let ?n = "length nodes"
  let ?dag = "\<lparr>directedEdgeList = replicate ?n [], nodeNameToId = zip nodes [0..<?n], idToNodeNames = zip [0..<?n] nodes\<rparr>"
  have "NewDAG nodes = Ok ?dag"
    using fold_update_fresh[of nodes "[]" 0] fold_update_index[of "[]" 0 nodes] assms
    by (simp add: NewDAG_def Let_def)
  moreover have a: "adj (replicate ?n []) u v = None" for u v by (simp add: adj_def)
  then have "edge_inv (replicate ?n [])" by (intro edge_invI) (simp_all add: keys_ok_nth)
  moreover have "dag_names ?dag = nodes" by (simp add: dag_names_def)
  moreover have "edges (replicate ?n []) = {}" using a by (simp add: edges_def)
  ultimately show ?thesis using assms by (simp add: dag_inv_def dag_edges_def)
qed

lemma fold_update_keys:
  "fst ` set (fold (\<lambda>(i, node) m. AList.update node i m) (enumerate k nodes) m) = fst ` set m \<union> set nodes"
  by (induction nodes arbitrary: k m) (auto simp: dom_update image_iff split: prod.splits)

lemma NewDAG_dup:
  assumes "\<not> distinct nodes"
  shows "NewDAG nodes = Panic ''provided multiple nodes with the same name''"
proof -
  let ?m = "fold (\<lambda>(i, node) m. AList.update node i m) (enumerate 0 nodes) []"
  have "distinct (map fst ?m)"
    by (induction nodes rule: rev_induct) (auto simp: enumerate_append_eq distinct_update)
  then have "length ?m = card (set nodes)"
    using fold_update_keys[of 0 nodes "[]"] distinct_card[of "map fst ?m"] by simp
  moreover have "card (set nodes) \<noteq> length nodes" using assms card_distinct by blast
  ultimately show ?thesis by (simp add: NewDAG_def Let_def)
qed

lemma AddEdge_Ok:
  assumes "dag_inv dag" "AddEdge dag u v = Ok dag'"
  shows "dag_inv dag' \<and> dag_names dag' = dag_names dag \<and> dag_edges dag' = insert (u, v) (dag_edges dag)"
proof -
  let ?E = "directedEdgeList dag"
  have n: "length (dag_names dag) = length ?E" and i: "edge_inv ?E" using assms(1) by (simp_all add: dag_inv_def)
  obtain a b where ab: "map_of (nodeNameToId dag) u = Some a" "map_of (nodeNameToId dag) v = Some b"
    "a \<noteq> b" "\<not> hasDirectedEdge ?E b a" "dag' = dag\<lparr>directedEdgeList := set_edge ?E a b\<rparr>"
    using assms(2) by (auto simp: AddEdge_def addEdge_def split: option.splits if_splits)
  then have r: "a < length ?E" "b < length ?E" "dag_names dag ! a = u" "dag_names dag ! b = v"
    using nodeNameToId_eq_Some[OF assms(1)] n by auto
  have "(b, a) \<notin> edges ?E" using ab(4) r by (auto simp: hasDirectedEdge_def edges_def adj_def)
  then have "edges (set_edge ?E a b) = insert (a, b) (edges ?E)"
    using edges_set_edge[OF r(1,2) ab(3)] by simp
  then have "dag_edges dag' = insert (u, v) (dag_edges dag)"
    unfolding ab(5) dag_edges_update by (simp add: dag_edges_def r)
  moreover have "dag_inv dag'"
    unfolding ab(5) by (intro dag_inv_update assms edge_inv_set_edge i r ab) simp
  ultimately show ?thesis by (simp add: ab(5))
qed

text \<open>Every way in which \<open>AddEdge\<close> refuses, and that it succeeds otherwise.\<close>

lemma AddEdge_unknown:
  assumes "u \<notin> set (dag_names dag) \<or> v \<notin> set (dag_names dag)"
  shows "AddEdge dag u v = Err ''does not exist in dag''"
proof -
  have "map_of (nodeNameToId dag) u = None \<or> map_of (nodeNameToId dag) v = None"
    using assms by (simp add: map_of_eq_None_iff dag_names_def)
  then show ?thesis by (auto simp: AddEdge_def split: option.split)
qed

lemma AddEdge_known:
  assumes "dag_inv dag" "a < length (dag_names dag)" "b < length (dag_names dag)"
  shows "is_Ok (AddEdge dag (dag_names dag ! a) (dag_names dag ! b)) \<longleftrightarrow>
    a \<noteq> b \<and> (a, b) \<notin> edges (directedEdgeList dag) \<and> (b, a) \<notin> edges (directedEdgeList dag)"
proof -
  have i: "edge_inv (directedEdgeList dag)" and n: "length (dag_names dag) = length (directedEdgeList dag)"
    using assms(1) by (simp_all add: dag_inv_def)
  have m: "map_of (nodeNameToId dag) (dag_names dag ! a) = Some a"
    "map_of (nodeNameToId dag) (dag_names dag ! b) = Some b"
    using assms(2,3) nodeNameToId_eq_Some[OF assms(1)] by blast+
  have "hasDirectedEdge (directedEdgeList dag) b a \<longleftrightarrow> adj (directedEdgeList dag) b a \<noteq> None"
    using assms(3) n by (simp add: hasDirectedEdge_def adj_def)
  then have "hasDirectedEdge (directedEdgeList dag) b a \<longleftrightarrow>
      (b, a) \<in> edges (directedEdgeList dag) \<or> (a, b) \<in> edges (directedEdgeList dag)"
    unfolding edge_inv_linked[OF i] .
  then show ?thesis by (auto simp: AddEdge_def addEdge_def m)
qed

lemma AddEdge_Ok_iff:
  assumes "dag_inv dag"
  shows "is_Ok (AddEdge dag u v) \<longleftrightarrow>
     u \<in> set (dag_names dag) \<and> v \<in> set (dag_names dag) \<and> u \<noteq> v \<and>
     (u, v) \<notin> dag_edges dag \<and> (v, u) \<notin> dag_edges dag"
proof (cases "u \<in> set (dag_names dag) \<and> v \<in> set (dag_names dag)")
  case True
  then obtain a b where r: "a < length (dag_names dag)" "b < length (dag_names dag)"
    and e: "u = dag_names dag ! a" "v = dag_names dag ! b"
    by (metis in_set_conv_nth)
  have n: "length (dag_names dag) = length (directedEdgeList dag)" and d: "distinct (dag_names dag)"
    using assms by (simp_all add: dag_inv_def)
  have "u = v \<longleftrightarrow> a = b" unfolding e using nth_eq_iff_index_eq[OF d r] .
  moreover have "(u, v) \<in> dag_edges dag \<longleftrightarrow> (a, b) \<in> edges (directedEdgeList dag)"
    "(v, u) \<in> dag_edges dag \<longleftrightarrow> (b, a) \<in> edges (directedEdgeList dag)"
    unfolding e using dag_edges_nth[OF assms] r n by auto
  ultimately show ?thesis using True AddEdge_known[OF assms r, folded e] by blast
next
  case False
  then show ?thesis using AddEdge_unknown[of u dag v] by auto
qed

lemma namesToIds_Ok:
  assumes "dag_inv dag" "set nodes \<subseteq> set (dag_names dag)"
  shows "\<exists>ids. namesToIds dag nodes = Ok ids \<and> map ((!) (dag_names dag)) ids = nodes \<and>
    (\<forall>i \<in> set ids. i < length (directedEdgeList dag))"
  using assms(2)
proof (induction nodes)
  case (Cons x nodes)
  then obtain ids where "namesToIds dag nodes = Ok ids \<and> map ((!) (dag_names dag)) ids = nodes \<and>
    (\<forall>i \<in> set ids. i < length (directedEdgeList dag))" by auto
  moreover obtain u where "map_of (nodeNameToId dag) x = Some u" "u < length (dag_names dag)" "dag_names dag ! u = x"
    using Cons.prems nodeNameToId_eq_Some[OF assms(1), of x] by (auto simp: in_set_conv_nth)
  ultimately show ?case using assms(1) by (auto simp: dag_inv_def)
qed simp

lemma namesToIds_Err:
  assumes "\<not> set nodes \<subseteq> set (dag_names dag)"
  shows "namesToIds dag nodes = Err ''does not exist in dag''"
  using assms
proof (induction nodes)
  case (Cons x nodes)
  have "map_of (nodeNameToId dag) x = None \<longleftrightarrow> x \<notin> set (dag_names dag)"
    by (simp add: map_of_eq_None_iff dag_names_def)
  with Cons show ?case by (cases "map_of (nodeNameToId dag) x") auto
qed simp

lemma map_prod_image_Times: "map_prod f g ` (A \<times> B) = f ` A \<times> g ` B"
  by auto

lemma chain_map: "chain (map f l) = map_prod f f ` chain l"
  by (induction l rule: chain.induct) auto

text \<open>Pushing the edges that an operation leaves from numbers to names.\<close>

lemma dag_edges_image:
  assumes "dag_inv dag" "map ((!) (dag_names dag)) ids = nodes" "\<forall>i \<in> set ids. i < length (directedEdgeList dag)"
  shows "map_prod ((!) (dag_names dag)) ((!) (dag_names dag)) `
      {(x, y) \<in> edges (directedEdgeList dag). x \<notin> set ids \<and> y \<notin> set ids}
      = {(x, y) \<in> dag_edges dag. x \<notin> set nodes \<and> y \<notin> set nodes}" (is ?edges)
    and "(!) (dag_names dag) ` ({0..<length (directedEdgeList dag)} - set ids) = set (dag_names dag) - set nodes" (is ?others)
proof -
  let ?f = "(!) (dag_names dag)" and ?A = "{0..<length (directedEdgeList dag)}"
  have inj: "inj_on ?f ?A" using dag_nth_inj[OF assms(1)] .
  have ids: "set ids \<subseteq> ?A" using assms(3) by auto
  have im: "?f ` set ids = set nodes" using assms(2) by auto
  have all: "?f ` ?A = set (dag_names dag)" using assms(1) by (auto simp: dag_inv_def in_set_conv_nth)
  have mem: "?f x \<in> set nodes \<longleftrightarrow> x \<in> set ids" if "x \<in> ?A" for x
    using inj_on_image_mem_iff[OF inj that ids] im by simp
  show ?others using inj_on_image_set_diff[OF inj _ ids, of ?A] all im by simp
  have r: "(x, y) \<in> edges (directedEdgeList dag) \<Longrightarrow> x \<in> ?A \<and> y \<in> ?A" for x y
    using dag_inv_edges_range[OF assms(1)] by blast
  show ?edges (is "?l = ?r")
  proof
    show "?l \<subseteq> ?r" unfolding dag_edges_def using r mem by auto
  next
    show "?r \<subseteq> ?l"
    proof clarify
      fix s t
      assume "(s, t) \<in> dag_edges dag" and st: "s \<notin> set nodes" "t \<notin> set nodes"
      then obtain x y where xy: "(x, y) \<in> edges (directedEdgeList dag)" "s = ?f x" "t = ?f y"
        by (auto simp: dag_edges_def)
      then have "(x, y) \<in> {(x, y) \<in> edges (directedEdgeList dag). x \<notin> set ids \<and> y \<notin> set ids}"
        using st r mem by blast
      then show "(s, t) \<in> ?l" using xy(2,3) by (metis (no_types, lifting) image_eqI map_prod_simp)
    qed
  qed
qed

lemma AddFirstElements_edges:
  assumes "dag_inv dag" "distinct nodes" "nodes \<noteq> []" "set nodes \<subseteq> set (dag_names dag)"
  shows "\<exists>dag'. AddFirstElements dag nodes = Ok dag' \<and> dag_inv dag' \<and> dag_names dag' = dag_names dag \<and>
    dag_edges dag' = chain nodes \<union> {last nodes} \<times> (set (dag_names dag) - set nodes) \<union>
      {(x, y) \<in> dag_edges dag. x \<notin> set nodes \<and> y \<notin> set nodes}"
proof -
  let ?E = "directedEdgeList dag" and ?f = "(!) (dag_names dag)"
  obtain ids where d: "namesToIds dag nodes = Ok ids" "map ?f ids = nodes" "\<forall>i \<in> set ids. i < length ?E"
    using namesToIds_Ok[OF assms(1,4)] by blast
  have i: "edge_inv ?E" and n: "length (dag_names dag) = length ?E" using assms(1) by (simp_all add: dag_inv_def)
  have "ids \<noteq> []" "distinct ids" using d(2) assms(2,3) by (auto simp: distinct_map)
  moreover from this have "?f (last ids) = last nodes" using d(2) by (metis last_map)
  ultimately obtain E' where e: "addFirst ?E (length ?E) ids = Ok E'" "edge_inv E'" "length E' = length ?E"
    "edges E' = chain ids \<union> {last ids} \<times> ({0..<length ?E} - set ids) \<union>
      {(x, y) \<in> edges ?E. x \<notin> set ids \<and> y \<notin> set ids}"
    using addFirst_edges[OF i _ _ d(3)] by blast
  have "map_prod ?f ?f ` edges E' = chain nodes \<union> {last nodes} \<times> (set (dag_names dag) - set nodes) \<union>
      {(x, y) \<in> dag_edges dag. x \<notin> set nodes \<and> y \<notin> set nodes}"
    using \<open>?f (last ids) = last nodes\<close> chain_map[of ?f ids]
    unfolding e(4) image_Un map_prod_image_Times dag_edges_image[OF assms(1) d(2,3)] d(2) by simp
  then show ?thesis
    using e d n dag_inv_update[OF assms(1) e(2,3)] by (simp add: AddFirstElements_def dag_edges_update)
qed

lemma AddLastElements_edges:
  assumes "dag_inv dag" "distinct nodes" "nodes \<noteq> []" "set nodes \<subseteq> set (dag_names dag)"
  shows "\<exists>dag'. AddLastElements dag nodes = Ok dag' \<and> dag_inv dag' \<and> dag_names dag' = dag_names dag \<and>
    dag_edges dag' = chain nodes \<union> (set (dag_names dag) - set nodes) \<times> {hd nodes} \<union>
      {(x, y) \<in> dag_edges dag. x \<notin> set nodes \<and> y \<notin> set nodes}"
proof -
  let ?E = "directedEdgeList dag" and ?f = "(!) (dag_names dag)"
  obtain ids where d: "namesToIds dag nodes = Ok ids" "map ?f ids = nodes" "\<forall>i \<in> set ids. i < length ?E"
    using namesToIds_Ok[OF assms(1,4)] by blast
  have i: "edge_inv ?E" and n: "length (dag_names dag) = length ?E" using assms(1) by (simp_all add: dag_inv_def)
  have "ids \<noteq> []" "distinct ids" using d(2) assms(2,3) by (auto simp: distinct_map)
  moreover from this have "?f (hd ids) = hd nodes" using d(2) by (metis hd_map)
  ultimately obtain E' where e: "addLast ?E (length ?E) ids = Ok E'" "edge_inv E'" "length E' = length ?E"
    "edges E' = chain ids \<union> ({0..<length ?E} - set ids) \<times> {hd ids} \<union>
      {(x, y) \<in> edges ?E. x \<notin> set ids \<and> y \<notin> set ids}"
    using addLast_edges[OF i _ _ d(3)] by blast
  have "map_prod ?f ?f ` edges E' = chain nodes \<union> (set (dag_names dag) - set nodes) \<times> {hd nodes} \<union>
      {(x, y) \<in> dag_edges dag. x \<notin> set nodes \<and> y \<notin> set nodes}"
    using \<open>?f (hd ids) = hd nodes\<close> chain_map[of ?f ids]
    unfolding e(4) image_Un map_prod_image_Times dag_edges_image[OF assms(1) d(2,3)] d(2) by simp
  then show ?thesis
    using e d n dag_inv_update[OF assms(1) e(2,3)] by (simp add: AddLastElements_def dag_edges_update)
qed

lemma ReplaceEdge_Ok:
  assumes "dag_inv dag" "ReplaceEdge dag u v = Ok dag'"
  shows "dag_inv dag' \<and> dag_names dag' = dag_names dag \<and> dag_edges dag' = insert (u, v) (dag_edges dag - {(v, u)})"
proof -
  let ?E = "directedEdgeList dag" and ?f = "(!) (dag_names dag)"
  have n: "length (dag_names dag) = length ?E" and i: "edge_inv ?E" using assms(1) by (simp_all add: dag_inv_def)
  obtain a b where ab: "map_of (nodeNameToId dag) u = Some a" "map_of (nodeNameToId dag) v = Some b"
    "a \<noteq> b" "dag' = dag\<lparr>directedEdgeList := set_edge ?E a b\<rparr>"
    using assms(2) by (auto simp: ReplaceEdge_def replaceEdge_def split: option.splits if_splits)
  then have r: "a < length ?E" "b < length ?E" "?f a = u" "?f b = v"
    using nodeNameToId_eq_Some[OF assms(1)] n by auto
  have "inj_on (map_prod ?f ?f) ({0..<length ?E} \<times> {0..<length ?E})"
    using dag_nth_inj[OF assms(1)] by (simp add: map_prod_inj_on)
  then have "map_prod ?f ?f ` (edges ?E - {(b, a)}) = dag_edges dag - {(v, u)}"
    using inj_on_image_set_diff[of "map_prod ?f ?f" "{0..<length ?E} \<times> {0..<length ?E}" "edges ?E" "{(b, a)}"]
      dag_inv_edges_range[OF assms(1)] r
    by (simp add: dag_edges_def Diff_subset subset_trans[OF Diff_subset])
  then have "dag_edges dag' = insert (u, v) (dag_edges dag - {(v, u)})"
    unfolding ab(4) dag_edges_update edges_set_edge[OF r(1,2) ab(3)] using r by simp
  moreover have "dag_inv dag'"
    unfolding ab(4) by (intro dag_inv_update assms edge_inv_set_edge i r ab) simp
  ultimately show ?thesis by (simp add: ab(4))
qed

end
