(* ===== verification/Partial_Order.thy ===== *)
theory Partial_Order
  imports Dag
begin

text \<open>
  \<^verbatim>\<open>src/osmoutils/partialord/partialord.go\<close>: the ordering of the modules' begin- and end-blockers.
  A partial ordering is a graph over the element names with two seals; every error of the graph is a
  panic. A method with a pointer receiver returns the updated ordering.
\<close>

section \<open>Definitions\<close>

record PartialOrdering =
  dag :: DAG
  firstSealed :: bool
  lastSealed :: bool

definition NewPartialOrdering :: "string list \<Rightarrow> PartialOrdering outcome" where
  "NewPartialOrdering elements =
     obind (NewDAG (sort elements)) (\<lambda>d. Ok \<lparr>dag = d, firstSealed = False, lastSealed = False\<rparr>)"

definition handleDAGErr :: "'a outcome \<Rightarrow> 'a outcome" where
  "handleDAGErr r = panic_on_err r"

definition After :: "PartialOrdering \<Rightarrow> string \<Rightarrow> string \<Rightarrow> PartialOrdering outcome" where
  "After ord A B = obind (handleDAGErr (AddEdge (dag ord) B A)) (\<lambda>d. Ok (ord\<lparr>dag := d\<rparr>))"

definition Before :: "PartialOrdering \<Rightarrow> string \<Rightarrow> string \<Rightarrow> PartialOrdering outcome" where
  "Before ord A B = obind (handleDAGErr (AddEdge (dag ord) A B)) (\<lambda>d. Ok (ord\<lparr>dag := d\<rparr>))"

definition FirstElements :: "PartialOrdering \<Rightarrow> string list \<Rightarrow> PartialOrdering outcome" where
  "FirstElements ord elems =
     (if firstSealed ord then Panic ''FirstElements has already been called''
      else obind (handleDAGErr (AddFirstElements (dag ord) elems)) (\<lambda>d.
             Ok (ord\<lparr>dag := d, firstSealed := True\<rparr>)))"

definition LastElements :: "PartialOrdering \<Rightarrow> string list \<Rightarrow> PartialOrdering outcome" where
  "LastElements ord elems =
     (if lastSealed ord then Panic ''FirstElements has already been called''
      else obind (handleDAGErr (AddLastElements (dag ord) elems)) (\<lambda>d.
             Ok (ord\<lparr>dag := d, lastSealed := True\<rparr>)))"

fun Sequence :: "PartialOrdering \<Rightarrow> string list \<Rightarrow> PartialOrdering outcome" where
  "Sequence ord (a # b # seq) =
     obind (handleDAGErr (AddEdge (dag ord) a b)) (\<lambda>d. Sequence (ord\<lparr>dag := d\<rparr>) (b # seq))"
| "Sequence ord _ = Ok ord"

definition TotalOrdering :: "PartialOrdering \<Rightarrow> string list outcome" where
  "TotalOrdering ord = TopologicalSort (dag ord)"

section \<open>The contract of an ordering\<close>

text \<open>
  What a client of the package relies on: constraints over a fixed set of elements, operations that
  only add constraints, and a total ordering that contains every element once and obeys them all.
\<close>

locale constraint_order =
  fixes inv :: "'ord \<Rightarrow> bool" and elems :: "'ord \<Rightarrow> 'e set" and constraints :: "'ord \<Rightarrow> ('e \<times> 'e) set"
    and add :: "'ord \<Rightarrow> 'e \<Rightarrow> 'e \<Rightarrow> 'ord outcome" and total :: "'ord \<Rightarrow> 'e list outcome"
  assumes add_Ok: "inv ord \<Longrightarrow> add ord a b = Ok ord' \<Longrightarrow>
      inv ord' \<and> elems ord' = elems ord \<and> constraints ord' = insert (a, b) (constraints ord)"
    and total_Ok: "inv ord \<Longrightarrow> total ord = Ok l \<Longrightarrow>
      distinct l \<and> set l = elems ord \<and> topo (constraints ord) l"
    and constraints_elems: "inv ord \<Longrightarrow> constraints ord \<subseteq> elems ord \<times> elems ord"
begin

definition add_all :: "('e \<times> 'e) list \<Rightarrow> 'ord \<Rightarrow> 'ord outcome" where
  "add_all ps = ofold (\<lambda>(a, b) ord. add ord a b) ps"

lemma add_all_simps:
  "add_all [] ord = Ok ord" "add_all ((a, b) # ps) ord = obind (add ord a b) (add_all ps)"
  by (simp_all add: add_all_def)

lemma add_all_Ok:
  "inv ord \<Longrightarrow> add_all ps ord = Ok ord' \<Longrightarrow>
     inv ord' \<and> elems ord' = elems ord \<and> constraints ord' = set ps \<union> constraints ord"
proof (induction ps arbitrary: ord)
  case (Cons p ps)
  then obtain t where t: "add ord (fst p) (snd p) = Ok t" and r: "add_all ps t = Ok ord'"
    by (auto simp: add_all_def go_simps split: prod.splits)
  from add_Ok[OF Cons.prems(1) t] Cons.IH[OF _ r] show ?case by auto
qed (simp add: add_all_def)

text \<open>Constraints that chain some elements and put the rest after (before) them fix a prefix (suffix).\<close>

lemma total_prefix:
  assumes "inv ord" "total ord = Ok l" "distinct ns" "ns \<noteq> []" "set ns \<subseteq> elems ord"
    and "chain ns \<subseteq> constraints ord" "\<forall>v \<in> elems ord - set ns. (last ns, v) \<in> (constraints ord)\<^sup>+"
  shows "\<exists>r. l = ns @ r"
proof -
  have "distinct l" "set l = elems ord" "topo ((constraints ord)\<^sup>+) l"
    using total_Ok[OF assms(1,2)] topo_trancl by auto
  with assms show ?thesis
    by (intro topo_prefix[of "(constraints ord)\<^sup>+" l ns]) auto
qed

lemma total_suffix:
  assumes "inv ord" "total ord = Ok l" "distinct ns" "ns \<noteq> []" "set ns \<subseteq> elems ord"
    and "chain ns \<subseteq> constraints ord" "\<forall>v \<in> elems ord - set ns. (v, hd ns) \<in> (constraints ord)\<^sup>+"
  shows "\<exists>r. l = r @ ns"
proof -
  have l: "distinct l" "set l = elems ord" "topo ((constraints ord)\<^sup>+) l"
    using total_Ok[OF assms(1,2)] topo_trancl by auto
  have "(constraints ord)\<^sup>+ \<subseteq> elems ord \<times> elems ord"
    using constraints_elems[OF assms(1)] trancl_subset_Sigma by blast
  then have "snd ` (constraints ord)\<^sup>+ \<subseteq> set l" using l(2) by auto
  with l assms show ?thesis
    by (intro topo_suffix[of "(constraints ord)\<^sup>+" l ns]) auto
qed

lemma total_respects:
  assumes "inv ord" "total ord = Ok l" "(a, b) \<in> (constraints ord)\<^sup>+"
  shows "\<exists>xs ys zs. l = xs @ a # ys @ b # zs"
proof -
  have l: "set l = elems ord" "topo ((constraints ord)\<^sup>+) l" using total_Ok[OF assms(1,2)] topo_trancl by auto
  have "b \<in> set l"
    using constraints_elems[OF assms(1)] trancl_subset_Sigma assms(3) l(1) by blast
  then obtain ps zs where "l = ps @ b # zs" by (auto dest: split_list)
  moreover from this l(2) assms(3) have "a \<in> set ps" unfolding topo_def by blast
  then obtain xs ys where "ps = xs @ a # ys" by (auto dest: split_list)
  ultimately show ?thesis by auto
qed

end

section \<open>The ordering implements the contract\<close>

definition ord_inv :: "PartialOrdering \<Rightarrow> bool" where
  "ord_inv ord \<longleftrightarrow> dag_inv (dag ord)"

definition ord_elems :: "PartialOrdering \<Rightarrow> string set" where
  "ord_elems ord = set (dag_names (dag ord))"

definition ord_constraints :: "PartialOrdering \<Rightarrow> (string \<times> string) set" where
  "ord_constraints ord = dag_edges (dag ord)"

lemma handleDAGErr_eq_Ok [simp]: "handleDAGErr r = Ok a \<longleftrightarrow> r = Ok a"
  by (simp add: handleDAGErr_def)

interpretation po: constraint_order ord_inv ord_elems ord_constraints Before TotalOrdering
proof unfold_locales
  fix ord ord' a b
  assume "ord_inv ord" "Before ord a b = Ok ord'"
  then show "ord_inv ord' \<and> ord_elems ord' = ord_elems ord \<and> ord_constraints ord' = insert (a, b) (ord_constraints ord)"
    using AddEdge_Ok[of "dag ord" a b]
    by (auto simp: Before_def go_simps ord_inv_def ord_elems_def ord_constraints_def)
next
  fix ord l
  assume "ord_inv ord" "TotalOrdering ord = Ok l"
  then show "distinct l \<and> set l = ord_elems ord \<and> topo (ord_constraints ord) l"
    using TopologicalSort_total_order[of "dag ord"]
    by (auto simp: TotalOrdering_def ord_inv_def ord_elems_def ord_constraints_def split: if_splits)
next
  fix ord
  assume "ord_inv ord"
  then show "ord_constraints ord \<subseteq> ord_elems ord \<times> ord_elems ord"
    using dag_edges_names[of "dag ord"] by (simp add: ord_inv_def ord_elems_def ord_constraints_def)
qed

text \<open>\<open>After\<close> is \<open>Before\<close> with its arguments swapped and \<open>Sequence\<close> a run of \<open>Before\<close>.\<close>

lemma After_Before: "After ord A B = Before ord B A"
  by (simp add: After_def Before_def)

lemma obind_Before: "obind (Before ord a b) f = obind (handleDAGErr (AddEdge (dag ord) a b)) (\<lambda>d. f (ord\<lparr>dag := d\<rparr>))"
  by (simp add: Before_def obind_assoc)

lemma Sequence_Before: "Sequence ord seq = po.add_all (zip seq (tl seq)) ord"
  by (induction ord seq rule: Sequence.induct)
     (auto simp: po.add_all_simps obind_Before intro: obind_cong)

lemma set_zip_tl: "set (zip l (tl l)) = chain l"
  by (induction l rule: chain.induct) auto

lemma Sequence_Ok:
  assumes "ord_inv ord" "Sequence ord seq = Ok ord'"
  shows "ord_inv ord' \<and> ord_elems ord' = ord_elems ord \<and> ord_constraints ord' = chain seq \<union> ord_constraints ord"
  using po.add_all_Ok[OF assms(1)] assms(2) by (simp add: Sequence_Before set_zip_tl)

lemma NewPartialOrdering_Ok:
  assumes "distinct elements"
  shows "\<exists>ord. NewPartialOrdering elements = Ok ord \<and> ord_inv ord \<and> ord_elems ord = set elements \<and>
    ord_constraints ord = {} \<and> \<not> firstSealed ord \<and> \<not> lastSealed ord"
  using NewDAG_distinct[of "sort elements"] assms
  by (auto simp: NewPartialOrdering_def ord_inv_def ord_elems_def ord_constraints_def)

text \<open>
  Names outside the ordering make \<open>FirstElements\<close> and \<open>LastElements\<close> panic; distinct names of the
  ordering do not.
\<close>

lemma AddFirstElements_known:
  "AddFirstElements d nodes = Ok d' \<Longrightarrow> set nodes \<subseteq> set (dag_names d) \<and> nodes \<noteq> []"
proof -
  assume a: "AddFirstElements d nodes = Ok d'"
  have "set nodes \<subseteq> set (dag_names d)"
  proof (rule ccontr)
    assume "\<not> set nodes \<subseteq> set (dag_names d)"
    from namesToIds_Err[OF this] a show False by (simp add: AddFirstElements_def)
  qed
  moreover have "nodes \<noteq> []" using a by (auto simp: AddFirstElements_def addFirst_def)
  ultimately show ?thesis by simp
qed

lemma AddLastElements_known:
  "AddLastElements d nodes = Ok d' \<Longrightarrow> set nodes \<subseteq> set (dag_names d) \<and> nodes \<noteq> []"
proof -
  assume a: "AddLastElements d nodes = Ok d'"
  have "set nodes \<subseteq> set (dag_names d)"
  proof (rule ccontr)
    assume "\<not> set nodes \<subseteq> set (dag_names d)"
    from namesToIds_Err[OF this] a show False by (simp add: AddLastElements_def)
  qed
  moreover have "nodes \<noteq> []" using a by (auto simp: AddLastElements_def addLast_def)
  ultimately show ?thesis by simp
qed

lemma FirstElements_Ok:
  assumes "ord_inv ord" "distinct es" "FirstElements ord es = Ok ord'"
  shows "ord_inv ord' \<and> ord_elems ord' = ord_elems ord \<and> es \<noteq> [] \<and> set es \<subseteq> ord_elems ord \<and>
    lastSealed ord' = lastSealed ord \<and>
    ord_constraints ord' = chain es \<union> {last es} \<times> (ord_elems ord - set es) \<union>
      {(x, y) \<in> ord_constraints ord. x \<notin> set es \<and> y \<notin> set es}"
proof -
  obtain d where d: "AddFirstElements (dag ord) es = Ok d" "ord' = ord\<lparr>dag := d, firstSealed := True\<rparr>"
    using assms(3) by (auto simp: FirstElements_def go_simps split: if_splits)
  note k = AddFirstElements_known[OF d(1)]
  with AddFirstElements_edges[of "dag ord" es] assms(1,2) d(1)
  show ?thesis by (auto simp: d(2) ord_inv_def ord_elems_def ord_constraints_def)
qed

lemma LastElements_Ok:
  assumes "ord_inv ord" "distinct es" "LastElements ord es = Ok ord'"
  shows "ord_inv ord' \<and> ord_elems ord' = ord_elems ord \<and> es \<noteq> [] \<and> set es \<subseteq> ord_elems ord \<and>
    firstSealed ord' = firstSealed ord \<and>
    ord_constraints ord' = chain es \<union> (ord_elems ord - set es) \<times> {hd es} \<union>
      {(x, y) \<in> ord_constraints ord. x \<notin> set es \<and> y \<notin> set es}"
proof -
  obtain d where d: "AddLastElements (dag ord) es = Ok d" "ord' = ord\<lparr>dag := d, lastSealed := True\<rparr>"
    using assms(3) by (auto simp: LastElements_def go_simps split: if_splits)
  note k = AddLastElements_known[OF d(1)]
  with AddLastElements_edges[of "dag ord" es] assms(1,2) d(1)
  show ?thesis by (auto simp: d(2) ord_inv_def ord_elems_def ord_constraints_def)
qed

section \<open>Properties\<close>

text \<open>
  C9 The total ordering exists exactly if the constraints have no cycle; it then lists every element
  once, with the predecessors of each element before it. With a cycle the call panics.
\<close>

theorem TotalOrdering_iff_acyclic:
  assumes "ord_inv ord"
  shows "if acyclic (ord_constraints ord)
    then \<exists>l. TotalOrdering ord = Ok l \<and> distinct l \<and> set l = ord_elems ord \<and> topo (ord_constraints ord) l
    else \<exists>m. TotalOrdering ord = Panic m"
  using TopologicalSort_total_order[of "dag ord"] assms
  by (auto simp: TotalOrdering_def ord_inv_def ord_elems_def ord_constraints_def)

lemma FirstElements_LastElements_constraints:
  assumes "ord_inv ord" "distinct fs" "distinct ls" "set fs \<inter> set ls = {}"
    and "FirstElements ord fs = Ok ord1" "LastElements ord1 ls = Ok ord2"
  shows "ord_inv ord2 \<and> ord_elems ord2 = ord_elems ord \<and> fs \<noteq> [] \<and> ls \<noteq> [] \<and>
    set fs \<union> set ls \<subseteq> ord_elems ord \<and> chain fs \<subseteq> ord_constraints ord2 \<and> chain ls \<subseteq> ord_constraints ord2 \<and>
    (\<forall>v \<in> ord_elems ord - set fs. (last fs, v) \<in> (ord_constraints ord2)\<^sup>+) \<and>
    (\<forall>v \<in> ord_elems ord - set ls. (v, hd ls) \<in> ord_constraints ord2)"
proof -
  note f = FirstElements_Ok[OF assms(1,2,5)]
  then have "ord_inv ord1" by blast
  note l = LastElements_Ok[OF this assms(3,6)]
  let ?C = "ord_constraints ord2"
  have e: "ord_elems ord1 = ord_elems ord" "ord_elems ord2 = ord_elems ord" and n: "fs \<noteq> []" "ls \<noteq> []"
    and s: "set fs \<subseteq> ord_elems ord" "set ls \<subseteq> ord_elems ord" and i: "ord_inv ord2"
    using f l by simp_all
  have keep: "(x, y) \<in> ?C" if "(x, y) \<in> ord_constraints ord1" "x \<notin> set ls" "y \<notin> set ls" for x y
    using that l by simp
  have first: "(last fs, y) \<in> ord_constraints ord1" if "y \<in> ord_elems ord - set fs" for y
    using that f by simp
  have cl: "chain ls \<subseteq> ?C" using l by auto
  have hd: "(v, hd ls) \<in> ?C" if "v \<in> ord_elems ord - set ls" for v using that l e by simp
  have cf: "chain fs \<subseteq> ?C"
  proof clarify
    fix x y
    assume c: "(x, y) \<in> chain fs"
    then have "(x, y) \<in> ord_constraints ord1" using f by simp
    then show "(x, y) \<in> ?C" using keep chain_in_set[OF c] assms(4) by blast
  qed
  have "last fs \<in> set fs" using n by simp
  then have lf: "last fs \<in> ord_elems ord - set ls" using s assms(4) by blast
  have "(last fs, v) \<in> ?C\<^sup>+" if v: "v \<in> ord_elems ord - set fs" for v
  proof (cases "v \<in> set ls")
    case True
    have "(chain ls)\<^sup>+ \<subseteq> ?C\<^sup>+" using trancl_mono_subset[OF cl] .
    then have "v = hd ls \<or> (hd ls, v) \<in> ?C\<^sup>+" using hd_reaches_chain[OF True] by blast
    then show ?thesis using hd[OF lf] by (auto intro: trancl_trans r_into_trancl)
  next
    case False
    then have "(last fs, v) \<in> ?C" using keep[OF first[OF v]] lf by blast
    then show ?thesis by blast
  qed
  with e n s i cf cl hd show ?thesis by simp
qed

text \<open>
  The guarantee of the package: whatever the ordering was before, after \<open>FirstElements\<close>, then
  \<open>LastElements\<close> and then any number of \<open>Before\<close>, \<open>After\<close> and \<open>Sequence\<close> calls, a total ordering
  starts with the first elements, ends with the last ones, each in the order given, and obeys every
  constraint that was added.
\<close>

theorem TotalOrdering_first_last:
  assumes "ord_inv ord" "distinct fs" "distinct ls" "set fs \<inter> set ls = {}"
    and "FirstElements ord fs = Ok ord1" "LastElements ord1 ls = Ok ord2"
    and "ofold (\<lambda>(a, b) ord. Before ord a b) ps ord2 = Ok ord3" and "TotalOrdering ord3 = Ok l"
  shows "(\<exists>mid. l = fs @ mid @ ls) \<and> (\<forall>(a, b) \<in> set ps. \<exists>xs ys zs. l = xs @ a # ys @ b # zs)"
proof -
  note c = FirstElements_LastElements_constraints[OF assms(1-6)]
  then have "ord_inv ord2" by blast
  from po.add_all_Ok[OF this, unfolded po.add_all_def, OF assms(7)]
  have i: "ord_inv ord3" and e: "ord_elems ord3 = ord_elems ord2"
    and cc: "ord_constraints ord3 = set ps \<union> ord_constraints ord2" by simp_all
  have "(ord_constraints ord2)\<^sup>+ \<subseteq> (ord_constraints ord3)\<^sup>+" by (rule trancl_mono_subset) (simp add: cc)
  with c obtain r where r: "l = fs @ r"
    using po.total_prefix[OF i assms(8,2)] e cc by blast
  obtain q where q: "l = q @ ls"
    using po.total_suffix[OF i assms(8,3)] e cc c by blast
  have "length fs + length ls \<le> length l"
  proof -
    have "card (set fs \<union> set ls) \<le> length l" using r q card_length[of l] by (metis card_mono le_trans List.finite_set Un_least set_append sup_ge1 sup_ge2)
    then show ?thesis using card_Un_disjoint[of "set fs" "set ls"] assms(2-4) by (simp add: distinct_card)
  qed
  then have "length ls \<le> length r" using r by simp
  moreover have "ls = drop (length l - length ls) l" using q by simp
  ultimately have "r = take (length r - length ls) r @ ls" using r by simp (metis append_take_drop_id)
  then have "\<exists>mid. l = fs @ mid @ ls" using r by metis
  moreover have "\<forall>(a, b) \<in> set ps. \<exists>xs ys zs. l = xs @ a # ys @ b # zs"
    using po.total_respects[OF i assms(8)] cc by blast
  ultimately show ?thesis by blast
qed

text \<open>A concrete ordering of five modules, evaluated through the whole package.\<close>

lemma example_run:
  "obind (NewPartialOrdering [''staking'', ''bank'', ''epochs'', ''mint'', ''crisis'']) (\<lambda>ord.
   obind (FirstElements ord [''epochs'', ''mint'']) (\<lambda>ord1.
   obind (LastElements ord1 [''crisis'']) (\<lambda>ord2.
   obind (ofold (\<lambda>(a, b) ord. Before ord a b) [(''staking'', ''bank'')] ord2) TotalOrdering)))
   = Ok [''epochs'', ''mint'', ''staking'', ''bank'', ''crisis'']"
  by code_simp

theorem TotalOrdering_first_last_witness:
  "(\<exists>mid. [''epochs'', ''mint'', ''staking'', ''bank'', ''crisis''] = [''epochs'', ''mint''] @ mid @ [''crisis'']) \<and>
   (\<exists>xs ys zs. [''epochs'', ''mint'', ''staking'', ''bank'', ''crisis''] = xs @ ''staking'' # ys @ ''bank'' # zs)"
proof -
  obtain ord where o: "NewPartialOrdering [''staking'', ''bank'', ''epochs'', ''mint'', ''crisis''] = Ok ord" "ord_inv ord"
    using NewPartialOrdering_Ok[of "[''staking'', ''bank'', ''epochs'', ''mint'', ''crisis'']"] by auto
  from example_run[unfolded o(1)] obtain ord1 ord2 ord3 where
    "FirstElements ord [''epochs'', ''mint''] = Ok ord1" "LastElements ord1 [''crisis''] = Ok ord2"
    "ofold (\<lambda>(a, b) ord. Before ord a b) [(''staking'', ''bank'')] ord2 = Ok ord3"
    "TotalOrdering ord3 = Ok [''epochs'', ''mint'', ''staking'', ''bank'', ''crisis'']"
    unfolding obind.simps obind_eq_Ok by blast
  from TotalOrdering_first_last[OF o(2) _ _ _ this] show ?thesis by simp
qed

theorem TotalOrdering_iff_acyclic_witness:
  "\<exists>ord. obind (NewPartialOrdering [''b'', ''a'', ''c'']) (\<lambda>p. Before p ''c'' ''a'') = Ok ord \<and> ord_inv ord \<and>
     (\<exists>l. TotalOrdering ord = Ok l \<and> distinct l \<and> set l = ord_elems ord \<and> topo (ord_constraints ord) l)"
proof -
  obtain ord where o: "NewPartialOrdering [''b'', ''a'', ''c''] = Ok ord" "ord_inv ord" "ord_constraints ord = {}"
    using NewPartialOrdering_Ok[of "[''b'', ''a'', ''c'']"] by auto
  have "is_Ok (obind (NewPartialOrdering [''b'', ''a'', ''c'']) (\<lambda>p. Before p ''c'' ''a''))" by code_simp
  then obtain ord1 where b: "Before ord ''c'' ''a'' = Ok ord1" by (auto simp: o is_Ok_iff)
  from po.add_Ok[OF o(2) this] have i: "ord_inv ord1" "ord_constraints ord1 = {(''c'', ''a'')}" by (simp_all add: o)
  have "acyclic {(''c'', ''a'')}" by (auto simp: acyclic_def trancl_insert)
  with TotalOrdering_iff_acyclic[OF i(1)] i b o show ?thesis by auto
qed

end
