(* ===== verification/KV_Store.thy ===== *)
theory KV_Store
  imports Prelude "HOL-Library.Char_ord" "HOL-Library.List_Lexorder" "HOL-Library.Sublist"
begin

text \<open>
  The persistent state of a module: what the sources use of the store that the application hands to
  them. A store is a finite table from byte strings to values, kept in the order of its keys, because
  the order of iteration is observable. Values are kept decoded: a key whose value is set and read
  back with the generated protobuf code holds the message itself. The second part is the helper that
  runs a function on a copy of the state and keeps the copy only on success
  (\<^verbatim>\<open>src/osmoutils/cache_ctx.go\<close>) and the store helpers of \<^verbatim>\<open>src/osmoutils/store_helper.go\<close>.
\<close>

section \<open>Tables ordered by key\<close>

type_synonym 'v store = "(string \<times> 'v) list"

definition store_ok :: "'v store \<Rightarrow> bool" where
  "store_ok s \<longleftrightarrow> sorted_wrt (<) (map fst s)"

definition store_get :: "'v store \<Rightarrow> string \<Rightarrow> 'v option" where
  "store_get s k = map_of s k"

definition store_has :: "'v store \<Rightarrow> string \<Rightarrow> bool" where
  "store_has s k \<longleftrightarrow> store_get s k \<noteq> None"

fun store_set :: "string \<Rightarrow> 'v \<Rightarrow> 'v store \<Rightarrow> 'v store" where
  "store_set k v [] = [(k, v)]"
| "store_set k v ((k', v') # s) =
     (if k < k' then (k, v) # (k', v') # s else if k = k' then (k, v) # s else (k', v') # store_set k v s)"

definition store_delete :: "string \<Rightarrow> 'v store \<Rightarrow> 'v store" where
  "store_delete k s = filter (\<lambda>p. fst p \<noteq> k) s"

text \<open>Iteration from a first key up to, and without, an end key; no end key is the end of the table.\<close>

definition store_range :: "'v store \<Rightarrow> string \<Rightarrow> string option \<Rightarrow> 'v store" where
  "store_range s begin end =
     filter (\<lambda>p. begin \<le> fst p \<and> (case end of None \<Rightarrow> True | Some e \<Rightarrow> fst p < e)) s"

definition store_prefix :: "'v store \<Rightarrow> string \<Rightarrow> 'v store" where
  "store_prefix s pre = filter (\<lambda>p. prefix pre (fst p)) s"

lemma store_ok_distinct: "store_ok s \<Longrightarrow> distinct (map fst s)"
  by (simp add: store_ok_def strict_sorted_iff)

lemma store_ok_Cons: "store_ok (p # s) \<longleftrightarrow> (\<forall>q \<in> set s. fst p < fst q) \<and> store_ok s"
  by (auto simp: store_ok_def)

lemma set_keys_store_set: "fst ` set (store_set k v s) = insert k (fst ` set s)"
  by (induction k v s rule: store_set.induct) auto

lemma store_set_ok: "store_ok s \<Longrightarrow> store_ok (store_set k v s)"
proof (induction k v s rule: store_set.induct)
  case (2 k v k' v' s)
  have "fst p \<in> insert k (fst ` set s)" if "p \<in> set (store_set k v s)" for p
    using set_keys_store_set[of k v s] that by blast
  with 2 show ?case by (auto simp: store_ok_Cons) fastforce+
qed (simp add: store_ok_def)

lemma store_get_set: "store_ok s \<Longrightarrow> store_get (store_set k v s) x = (if x = k then Some v else store_get s x)"
proof (induction k v s rule: store_set.induct)
  case (2 k v k' v' s)
  have "k < k' \<Longrightarrow> k \<notin> fst ` set s" using 2(2) by (auto simp: store_ok_Cons)
  with 2 show ?case by (auto simp: store_get_def store_ok_Cons map_of_eq_None_iff)
qed (simp add: store_get_def)

lemma store_delete_ok: "store_ok s \<Longrightarrow> store_ok (store_delete k s)"
  by (induction s) (auto simp: store_delete_def store_ok_Cons)

lemma store_get_delete: "store_get (store_delete k s) x = (if x = k then None else store_get s x)"
  by (induction s) (auto simp: store_get_def store_delete_def)

lemma store_get_iff: "store_ok s \<Longrightarrow> store_get s k = Some v \<longleftrightarrow> (k, v) \<in> set s"
  by (simp add: store_get_def store_ok_distinct)

text \<open>Tables with the same lookups are equal.\<close>

lemma store_from_gets: "store_ok s \<Longrightarrow> map (\<lambda>k. (k, the (store_get s k))) (map fst s) = s"
  by (auto simp: store_get_def store_ok_distinct intro!: map_idI)

lemma store_ext:
  assumes "store_ok s" "store_ok t" "\<And>k. store_get s k = store_get t k"
  shows "s = t"
proof -
  have "k \<in> set (map fst s) \<longleftrightarrow> k \<in> set (map fst t)" for k
    using assms(3)[of k] by (metis list.set_map map_of_eq_None_iff store_get_def)
  moreover have "sorted (map fst s)" "sorted (map fst t)" "distinct (map fst s)" "distinct (map fst t)"
    using assms(1,2) by (simp_all add: store_ok_def strict_sorted_iff)
  ultimately have "map fst s = map fst t" by (intro sorted_distinct_set_unique) blast+
  then show ?thesis
    using store_from_gets[OF assms(1)] store_from_gets[OF assms(2)] assms(3) by simp
qed

lemma store_set_present:
  assumes "store_ok s" "k \<in> fst ` set s"
  shows "store_set k v s = map (\<lambda>p. if fst p = k then (k, v) else p) s"
  using assms
proof (induction k v s rule: store_set.induct)
  case (2 k v k' v' s)
  consider "k < k'" | "k = k'" | "k' < k" by (rule linorder_cases)
  then show ?case
  proof cases
    case 1
    with 2(2,3) have False by (auto simp: store_ok_Cons)
    then show ?thesis ..
  next
    case 2
    then have "map (\<lambda>p. if fst p = k then (k, v) else p) s = s"
      using "2.prems"(1) by (auto simp: store_ok_Cons intro!: map_idI)
    with 2 show ?thesis by simp
  next
    case 3
    with 2 show ?thesis by (auto simp: store_ok_Cons)
  qed
qed simp

lemma store_ok_filter: "store_ok s \<Longrightarrow> store_ok (filter P s)"
  by (induction s) (auto simp: store_ok_Cons)

lemma store_get_prefix:
  "store_get (store_prefix s pre) k = (if prefix pre k then store_get s k else None)"
  by (induction s) (auto simp: store_get_def store_prefix_def)

text \<open>A weight of the entries, summed over the table, changes with a write or a deletion by the entry alone.\<close>

lemma sum_store_set:
  fixes f :: "string \<times> 'v \<Rightarrow> int"
  assumes "store_ok s"
  shows "sum_list (map f (store_set k v s)) =
    sum_list (map f s) - (case store_get s k of None \<Rightarrow> 0 | Some w \<Rightarrow> f (k, w)) + f (k, v)"
  using assms
proof (induction k v s rule: store_set.induct)
  case (2 k v k' v' s)
  have "k < k' \<Longrightarrow> store_get ((k', v') # s) k = None"
    using 2(2) by (auto simp: store_get_def store_ok_Cons map_of_eq_None_iff)
  with 2 show ?case by (auto simp: store_ok_Cons store_get_def)
qed (simp add: store_get_def)

lemma sum_store_delete:
  fixes f :: "string \<times> 'v \<Rightarrow> int"
  assumes "store_ok s"
  shows "sum_list (map f (store_delete k s)) =
    sum_list (map f s) - (case store_get s k of None \<Rightarrow> 0 | Some w \<Rightarrow> f (k, w))"
  using assms
proof (induction s)
  case (Cons p s)
  have "fst p = k \<Longrightarrow> filter (\<lambda>q. fst q \<noteq> k) s = s"
    using Cons(2) by (auto simp: store_ok_Cons filter_id_conv)
  with Cons show ?case by (cases p) (auto simp: store_ok_Cons store_get_def store_delete_def)
qed (simp add: store_delete_def store_get_def)

section \<open>The table as an interface\<close>

text \<open>The laws a module relies on, and what follows from them for a run of writes.\<close>

locale kv_table =
  fixes ok :: "'s \<Rightarrow> bool" and get :: "'s \<Rightarrow> 'k \<Rightarrow> 'v option"
    and put :: "'k \<Rightarrow> 'v \<Rightarrow> 's \<Rightarrow> 's" and del :: "'k \<Rightarrow> 's \<Rightarrow> 's"
  assumes put_ok: "ok s \<Longrightarrow> ok (put k v s)"
    and del_ok: "ok s \<Longrightarrow> ok (del k s)"
    and get_put: "ok s \<Longrightarrow> get (put k v s) x = (if x = k then Some v else get s x)"
    and get_del: "ok s \<Longrightarrow> get (del k s) x = (if x = k then None else get s x)"
begin

definition puts :: "('k \<times> 'v) list \<Rightarrow> 's \<Rightarrow> 's" where
  "puts = fold (\<lambda>(k, v). put k v)"

lemma puts_simps [simp]: "puts [] s = s" "puts ((k, v) # kvs) s = puts kvs (put k v s)"
  by (simp_all add: puts_def)

lemma puts_ok: "ok s \<Longrightarrow> ok (puts kvs s)"
  by (induction kvs arbitrary: s) (auto simp: put_ok)

text \<open>The last write to a key wins.\<close>

lemma get_puts:
  "ok s \<Longrightarrow> get (puts kvs s) x = (case map_of (rev kvs) x of None \<Rightarrow> get s x | Some v \<Rightarrow> Some v)"
  by (induction kvs arbitrary: s) (auto simp: put_ok get_put map_of_append map_add_def split: option.splits)

lemma get_puts_distinct:
  assumes "ok s" "distinct (map fst kvs)"
  shows "get (puts kvs s) x = (case map_of kvs x of None \<Rightarrow> get s x | Some v \<Rightarrow> Some v)"
proof -
  have "map_of (rev kvs) = map_of kvs" using assms(2) by (subst map_of_inject_set) (simp_all add: rev_map[symmetric])
  with get_puts[OF assms(1), of kvs x] show ?thesis by simp
qed

end

interpretation kv: kv_table store_ok store_get store_set store_delete
  by unfold_locales (simp_all add: store_set_ok store_delete_ok store_get_set store_get_delete)

section \<open>Functions on a copy of the state (\<^verbatim>\<open>cache_ctx.go\<close>)\<close>

text \<open>
  A panic with the value \<^verbatim>\<open>ErrorOutOfGas{d}\<close> or \<^verbatim>\<open>ErrorGasOverflow{d}\<close> has that type's name before the
  descriptor \<open>d\<close> as its message.
\<close>

definition IsOutOfGasError :: "string \<Rightarrow> bool \<times> string" where
  "IsOutOfGasError p =
     (if prefix ''ErrorOutOfGas:'' p then (True, drop (length ''ErrorOutOfGas:'') p)
      else if prefix ''ErrorGasOverflow:'' p then (True, drop (length ''ErrorGasOverflow:'') p)
      else (False, []))"

text \<open>
  The function gets a context and leaves the state as it has written it so far, also when it fails. The result is
  the state of the caller's context with the error that is returned, or with the out-of-gas panic that is passed on.
  \<^verbatim>\<open>CacheContext\<close> gives a copy of the state, and \<^verbatim>\<open>write\<close> replaces the state by what became of the copy. The events
  that the function emits are part of the state, so they are kept or dropped with it.
\<close>

definition ApplyFuncIfNoError :: "'s \<Rightarrow> ('s \<Rightarrow> 's \<times> unit outcome) \<Rightarrow> 's \<times> string option outcome" where
  "ApplyFuncIfNoError ctx f =
     (case f ctx of (cacheCtx, result) \<Rightarrow>
        (case result of
           Ok _ \<Rightarrow> (cacheCtx, Ok None)
         | Err e \<Rightarrow> (ctx, Ok (Some e))
         | Panic p \<Rightarrow> (ctx, if fst (IsOutOfGasError p) then Panic p else Ok (Some ''panic occurred during execution''))))"

text \<open>What such a call leaves of the function: all its writes if it succeeds, otherwise none.\<close>

definition effect_if_ok :: "('s \<Rightarrow> 's \<times> unit outcome) \<Rightarrow> 's \<Rightarrow> 's" where
  "effect_if_ok f s = (if is_Ok (snd (f s)) then fst (f s) else s)"

definition out_of_gas :: "'a outcome \<Rightarrow> bool" where
  "out_of_gas r = (case r of Panic p \<Rightarrow> fst (IsOutOfGasError p) | _ \<Rightarrow> False)"

lemma ApplyFuncIfNoError_state: "fst (ApplyFuncIfNoError s f) = effect_if_ok f s"
  by (auto simp: ApplyFuncIfNoError_def effect_if_ok_def split: prod.split outcome.split)

lemma ApplyFuncIfNoError_returns: "is_Ok (snd (ApplyFuncIfNoError s f)) \<longleftrightarrow> \<not> out_of_gas (snd (f s))"
  by (auto simp: ApplyFuncIfNoError_def out_of_gas_def split: prod.split outcome.split)

section \<open>Store helpers (\<^verbatim>\<open>store_helper.go\<close>)\<close>

text \<open>
  Here the values are bytes and the functions that parse and encode them are arguments. An iterator is
  the list of entries it has still to visit.
\<close>

type_synonym bytes = string

definition ErrNoValuesInRange :: string where
  "ErrNoValuesInRange = ''No values in range''"

definition noStopFn :: "bytes \<Rightarrow> bool" where
  "noStopFn k = False"

definition makeIterator :: "bytes store \<Rightarrow> bytes \<Rightarrow> bytes option \<Rightarrow> bool \<Rightarrow> bytes store" where
  "makeIterator storeObj keyStart keyEnd reverse =
     (if reverse then rev (store_range storeObj keyStart keyEnd) else store_range storeObj keyStart keyEnd)"

definition GatherAllKeysFromStore :: "bytes store \<Rightarrow> bytes list" where
  "GatherAllKeysFromStore storeObj = map fst (store_range storeObj [] None)"

fun gatherValuesFromIteratorWithKeyParser ::
  "bytes store \<Rightarrow> (bytes \<Rightarrow> bytes \<Rightarrow> 't outcome) \<Rightarrow> (bytes \<Rightarrow> bool) \<Rightarrow> 't list outcome" where
  "gatherValuesFromIteratorWithKeyParser [] parse stopFn = Ok []"
| "gatherValuesFromIteratorWithKeyParser ((k, v) # iterator) parse stopFn =
     (if stopFn k then Ok []
      else obind (parse k v) (\<lambda>val.
           obind (gatherValuesFromIteratorWithKeyParser iterator parse stopFn) (\<lambda>values. Ok (val # values))))"

definition gatherValuesFromIterator ::
  "bytes store \<Rightarrow> (bytes \<Rightarrow> 't outcome) \<Rightarrow> (bytes \<Rightarrow> bool) \<Rightarrow> 't list outcome" where
  "gatherValuesFromIterator iterator parseValue stopFn =
     gatherValuesFromIteratorWithKeyParser iterator (\<lambda>_ value. parseValue value) stopFn"

definition GatherValuesFromStore ::
  "bytes store \<Rightarrow> bytes \<Rightarrow> bytes option \<Rightarrow> (bytes \<Rightarrow> 't outcome) \<Rightarrow> 't list outcome" where
  "GatherValuesFromStore storeObj keyStart keyEnd parseValue =
     gatherValuesFromIterator (store_range storeObj keyStart keyEnd) parseValue noStopFn"

definition GatherValuesFromStorePrefixWithKeyParser ::
  "bytes store \<Rightarrow> bytes \<Rightarrow> (bytes \<Rightarrow> bytes \<Rightarrow> 't outcome) \<Rightarrow> 't list outcome" where
  "GatherValuesFromStorePrefixWithKeyParser storeObj pre parse =
     gatherValuesFromIteratorWithKeyParser (store_prefix storeObj pre) parse noStopFn"

definition GatherValuesFromStorePrefix :: "bytes store \<Rightarrow> bytes \<Rightarrow> (bytes \<Rightarrow> 't outcome) \<Rightarrow> 't list outcome" where
  "GatherValuesFromStorePrefix storeObj pre parseValue =
     GatherValuesFromStorePrefixWithKeyParser storeObj pre (\<lambda>_ value. parseValue value)"

definition GetIterValuesWithStop ::
  "bytes store \<Rightarrow> bytes \<Rightarrow> bytes option \<Rightarrow> bool \<Rightarrow> (bytes \<Rightarrow> bool) \<Rightarrow> (bytes \<Rightarrow> 't outcome) \<Rightarrow> 't list outcome" where
  "GetIterValuesWithStop storeObj keyStart keyEnd reverse stopFn parseValue =
     gatherValuesFromIterator (makeIterator storeObj keyStart keyEnd reverse) parseValue stopFn"

definition GetValuesUntilDerivedStop ::
  "bytes store \<Rightarrow> bytes \<Rightarrow> (bytes \<Rightarrow> bool) \<Rightarrow> (bytes \<Rightarrow> 't outcome) \<Rightarrow> 't list outcome" where
  "GetValuesUntilDerivedStop storeObj keyStart stopFn parseValue =
     GetIterValuesWithStop storeObj keyStart (Some [CHR 0xFF]) False stopFn parseValue"

definition GetFirstValueInRange ::
  "bytes store \<Rightarrow> bytes \<Rightarrow> bytes option \<Rightarrow> bool \<Rightarrow> (bytes \<Rightarrow> 't outcome) \<Rightarrow> 't outcome" where
  "GetFirstValueInRange storeObj keyStart keyEnd reverseIterate parseValue =
     (case makeIterator storeObj keyStart keyEnd reverseIterate of
        [] \<Rightarrow> Err ErrNoValuesInRange
      | (_, value) # _ \<Rightarrow> parseValue value)"

definition GetFirstValueAfterPrefixInclusive :: "bytes store \<Rightarrow> bytes \<Rightarrow> (bytes \<Rightarrow> 't outcome) \<Rightarrow> 't outcome" where
  "GetFirstValueAfterPrefixInclusive storeObj keyStart parseValue =
     GetFirstValueInRange storeObj keyStart (Some [CHR 0xFF]) False parseValue"

text \<open>The end of the range of keys with a prefix is a function of the SDK and an argument here.\<close>

definition HasAnyAtPrefix ::
  "(bytes \<Rightarrow> bytes option) \<Rightarrow> bytes store \<Rightarrow> bytes \<Rightarrow> (bytes \<Rightarrow> 't outcome) \<Rightarrow> bool outcome" where
  "HasAnyAtPrefix PrefixEndBytes storeObj pre parseValue =
     (case GetFirstValueInRange storeObj pre (PrefixEndBytes pre) False parseValue of
        Ok _ \<Rightarrow> Ok True
      | Err e \<Rightarrow> if e = ErrNoValuesInRange then Ok False else Err e
      | Panic p \<Rightarrow> Panic p)"

definition MustSet :: "('m \<Rightarrow> bytes outcome) \<Rightarrow> bytes store \<Rightarrow> bytes \<Rightarrow> 'm \<Rightarrow> bytes store outcome" where
  "MustSet marshal storeObj key value =
     obind (panic_on_err (marshal value)) (\<lambda>bz. Ok (store_set key bz storeObj))"

definition MustGet :: "(bytes \<Rightarrow> 'm outcome) \<Rightarrow> bytes store \<Rightarrow> bytes \<Rightarrow> 'm outcome" where
  "MustGet unmarshal store key =
     (case store_get store key of
        None \<Rightarrow> Panic ''getting at key should not have been nil''
      | Some b \<Rightarrow> panic_on_err (unmarshal b))"

text \<open>\<open>Get\<close> reports whether the key was found, with the message it read.\<close>

definition Get :: "(bytes \<Rightarrow> 'm outcome) \<Rightarrow> bytes store \<Rightarrow> bytes \<Rightarrow> 'm option outcome" where
  "Get unmarshal store key =
     (case store_get store key of
        None \<Rightarrow> Ok None
      | Some b \<Rightarrow> obind (unmarshal b) (\<lambda>m. Ok (Some m)))"

definition DeleteAllKeysFromPrefix :: "'v store \<Rightarrow> bytes \<Rightarrow> 'v store" where
  "DeleteAllKeysFromPrefix store prefixKey =
     fold (\<lambda>k s. store_delete k s) (map fst (store_prefix store prefixKey)) store"

lemma MustGet_MustSet:
  assumes "store_ok s" "marshal m = Ok bz" "unmarshal bz = Ok m"
  shows "obind (MustSet marshal s k m) (\<lambda>s'. MustGet unmarshal s' k) = Ok m"
  using assms by (simp add: MustSet_def MustGet_def store_get_set)

lemma store_get_fold_delete:
  "store_get (fold (\<lambda>k s. store_delete k s) ks s) x = (if x \<in> set ks then None else store_get s x)"
  by (induction ks arbitrary: s) (auto simp: store_get_delete)

lemma store_ok_fold_delete: "store_ok s \<Longrightarrow> store_ok (fold (\<lambda>k s. store_delete k s) ks s)"
  by (induction ks arbitrary: s) (auto simp: store_delete_ok)

text \<open>
  Deleting a prefix leaves exactly the other entries, whatever the values.
\<close>

theorem DeleteAllKeysFromPrefix_exact:
  assumes "store_ok s"
  shows "DeleteAllKeysFromPrefix s pre = filter (\<lambda>p. \<not> prefix pre (fst p)) s"
proof (rule store_ext)
  fix k
  have "k \<in> set (map fst (store_prefix s pre)) \<longleftrightarrow> prefix pre k \<and> k \<in> fst ` set s"
    by (force simp: store_prefix_def image_iff)
  moreover have "store_get (filter (\<lambda>p. \<not> prefix pre (fst p)) s) k = (if prefix pre k then None else store_get s k)"
    by (induction s) (auto simp: store_get_def)
  moreover have "store_get s k = None \<longleftrightarrow> k \<notin> fst ` set s" by (simp add: store_get_def map_of_eq_None_iff)
  ultimately show "store_get (DeleteAllKeysFromPrefix s pre) k = store_get (filter (\<lambda>p. \<not> prefix pre (fst p)) s) k"
    unfolding DeleteAllKeysFromPrefix_def store_get_fold_delete by auto
qed (use assms in \<open>auto simp: DeleteAllKeysFromPrefix_def store_ok_fold_delete store_ok_filter\<close>)

theorem DeleteAllKeysFromPrefix_exact_witness:
  "store_ok [(''a1'', 1::int), (''a2'', 2), (''b'', 3)] \<and>
   DeleteAllKeysFromPrefix [(''a1'', 1::int), (''a2'', 2), (''b'', 3)] ''a'' = [(''b'', 3)]"
proof -
  have "store_ok [(''a1'', 1::int), (''a2'', 2), (''b'', 3)]" by code_simp
  from this DeleteAllKeysFromPrefix_exact[OF this, of "''a''"] show ?thesis by simp
qed

lemma gatherValues_no_stop:
  "gatherValuesFromIteratorWithKeyParser iter parse noStopFn = omap (\<lambda>(k, v). parse k v) iter"
  by (induction iter) (auto simp: noStopFn_def)

lemma gatherValues_stop:
  "gatherValuesFromIteratorWithKeyParser iter parse stopFn
     = gatherValuesFromIteratorWithKeyParser (takeWhile (\<lambda>p. \<not> stopFn (fst p)) iter) parse noStopFn"
  by (induction iter) (auto simp: noStopFn_def)

end
