(* ===== verification/Epochs.thy ===== *)
theory Epochs
  imports KV_Store
begin

text \<open>
  \<^verbatim>\<open>src/x/epochs\<close>: named timers that the other modules hook into. The state of the module is the store of
  its epochs; the state of the rest of the application, which only the hooks change, is a parameter
  type. Times are nanoseconds, durations, heights and epoch numbers signed 64-bit words. Logging and
  telemetry are left out.
\<close>

section \<open>Types\<close>

record EpochInfo =
  Identifier :: string
  StartTime :: int
  Duration :: int64
  CurrentEpoch :: int64
  CurrentEpochStartTime :: int
  EpochCountingStarted :: bool
  CurrentEpochStartHeight :: int64

text \<open>The zero value of \<^verbatim>\<open>time.Time\<close>: the first instant of year one, before the origin of the nanosecond count.\<close>

definition time_zero :: int where
  "time_zero = - 62135596800000000000"

definition EpochInfo_zero :: EpochInfo where
  "EpochInfo_zero = \<lparr>Identifier = [], StartTime = time_zero, Duration = 0, CurrentEpoch = 0,
     CurrentEpochStartTime = time_zero, EpochCountingStarted = False, CurrentEpochStartHeight = 0\<rparr>"

definition NewGenesisEpochInfo :: "string \<Rightarrow> int64 \<Rightarrow> EpochInfo" where
  "NewGenesisEpochInfo identifier duration =
     \<lparr>Identifier = identifier, StartTime = time_zero, Duration = duration, CurrentEpoch = 0,
      CurrentEpochStartTime = time_zero, EpochCountingStarted = False, CurrentEpochStartHeight = 0\<rparr>"

definition time_Hour :: int64 where
  "time_Hour = 3600000000000"

definition DefaultGenesis :: "EpochInfo list" where
  "DefaultGenesis =
     [NewGenesisEpochInfo ''day'' (time_Hour * 24), NewGenesisEpochInfo ''hour'' time_Hour,
      NewGenesisEpochInfo ''week'' (time_Hour * 24 * 7)]"

definition EpochInfo_Validate :: "EpochInfo \<Rightarrow> unit outcome" where
  "EpochInfo_Validate epoch =
     (if Identifier epoch = [] then Err ''epoch identifier should NOT be empty''
      else if Duration epoch = 0 then Err ''epoch duration should NOT be 0''
      else if sint (CurrentEpoch epoch) < 0 then Err ''epoch CurrentEpoch must be non-negative''
      else if sint (CurrentEpochStartHeight epoch) < 0 then Err ''epoch CurrentEpoch must be non-negative''
      else Ok ())"

fun GenesisState_Validate_loop :: "EpochInfo list \<Rightarrow> string set \<Rightarrow> unit outcome" where
  "GenesisState_Validate_loop [] epochIdentifiers = Ok ()"
| "GenesisState_Validate_loop (epoch # epochs) epochIdentifiers =
     obind (EpochInfo_Validate epoch) (\<lambda>_.
       if Identifier epoch \<in> epochIdentifiers then Err ''epoch identifier should be unique''
       else GenesisState_Validate_loop epochs (insert (Identifier epoch) epochIdentifiers))"

definition GenesisState_Validate :: "EpochInfo list \<Rightarrow> unit outcome" where
  "GenesisState_Validate gs = GenesisState_Validate_loop gs {}"

definition ValidateEpochIdentifierString :: "string \<Rightarrow> unit outcome" where
  "ValidateEpochIdentifierString s = (if s = [] then Err ''empty distribution epoch identifier'' else Ok ())"

section \<open>The keeper\<close>

record block_ctx =
  BlockTime :: int
  BlockHeight :: int64

definition KeyPrefixEpoch :: string where
  "KeyPrefixEpoch = [CHR 0x01]"

definition epoch_key :: "string \<Rightarrow> string" where
  "epoch_key identifier = KeyPrefixEpoch @ identifier"

definition GetEpochInfo :: "EpochInfo store \<Rightarrow> string \<Rightarrow> EpochInfo" where
  "GetEpochInfo store identifier =
     (case store_get store (epoch_key identifier) of None \<Rightarrow> EpochInfo_zero | Some epoch \<Rightarrow> epoch)"

definition setEpochInfo :: "EpochInfo \<Rightarrow> EpochInfo store \<Rightarrow> EpochInfo store" where
  "setEpochInfo epoch store = store_set (epoch_key (Identifier epoch)) epoch store"

definition AddEpochInfo :: "block_ctx \<Rightarrow> EpochInfo \<Rightarrow> EpochInfo store \<Rightarrow> EpochInfo store outcome" where
  "AddEpochInfo ctx epoch store =
     obind (EpochInfo_Validate epoch) (\<lambda>_.
       if GetEpochInfo store (Identifier epoch) \<noteq> EpochInfo_zero then Err ''epoch with identifier already exists''
       else
         let epoch1 = (if StartTime epoch = time_zero then epoch\<lparr>StartTime := BlockTime ctx\<rparr> else epoch);
             epoch2 = epoch1\<lparr>CurrentEpochStartHeight := BlockHeight ctx\<rparr>
         in Ok (setEpochInfo epoch2 store))"

definition DeleteEpochInfo :: "string \<Rightarrow> EpochInfo store \<Rightarrow> EpochInfo store" where
  "DeleteEpochInfo identifier store = store_delete (epoch_key identifier) store"

text \<open>
  The callback gets the index and the entry and returns the new state and whether to stop. The entries
  are those present when the iteration starts.
\<close>

fun iterate_entries ::
  "(int64 \<Rightarrow> EpochInfo \<Rightarrow> 's \<Rightarrow> ('s \<times> bool) outcome) \<Rightarrow> int64 \<Rightarrow> EpochInfo list \<Rightarrow> 's \<Rightarrow> 's outcome" where
  "iterate_entries fn i [] s = Ok s"
| "iterate_entries fn i (epoch # epochs) s =
     obind (fn i epoch s) (\<lambda>(s1, stop). if stop then Ok s1 else iterate_entries fn (i + 1) epochs s1)"

definition IterateEpochInfo ::
  "EpochInfo store \<Rightarrow> (int64 \<Rightarrow> EpochInfo \<Rightarrow> 's \<Rightarrow> ('s \<times> bool) outcome) \<Rightarrow> 's \<Rightarrow> 's outcome" where
  "IterateEpochInfo store fn s = iterate_entries fn 0 (map snd (store_prefix store KeyPrefixEpoch)) s"

definition AllEpochInfos :: "EpochInfo store \<Rightarrow> EpochInfo list outcome" where
  "AllEpochInfos store = IterateEpochInfo store (\<lambda>index epochInfo epochs. Ok (epochs @ [epochInfo], False)) []"

definition NumBlocksSinceEpochStart :: "block_ctx \<Rightarrow> EpochInfo store \<Rightarrow> string \<Rightarrow> int64 outcome" where
  "NumBlocksSinceEpochStart ctx store identifier =
     (let epoch = GetEpochInfo store identifier
      in if epoch = EpochInfo_zero then Err ''epoch with identifier not found''
         else Ok (BlockHeight ctx - CurrentEpochStartHeight epoch))"

definition InitGenesis :: "block_ctx \<Rightarrow> EpochInfo list \<Rightarrow> EpochInfo store \<Rightarrow> EpochInfo store outcome" where
  "InitGenesis ctx genState store = ofold (\<lambda>epoch s. panic_on_err (AddEpochInfo ctx epoch s)) genState store"

definition ExportGenesis :: "EpochInfo store \<Rightarrow> EpochInfo list outcome" where
  "ExportGenesis store = AllEpochInfos store"

text \<open>The query service; a request is the identifier, absent for a missing request.\<close>

definition Querier_CurrentEpoch :: "EpochInfo store \<Rightarrow> string option \<Rightarrow> int64 outcome" where
  "Querier_CurrentEpoch store req =
     (case req of
        None \<Rightarrow> Err ''empty request''
      | Some identifier \<Rightarrow>
          if identifier = [] then Err ''identifier is empty''
          else let info = GetEpochInfo store identifier
               in if Identifier info \<noteq> identifier then Err ''not available identifier'' else Ok (CurrentEpoch info))"

section \<open>Hooks\<close>

record 's EpochHooks =
  hook_AfterEpochEnd :: "string \<Rightarrow> int64 \<Rightarrow> 's \<Rightarrow> 's \<times> unit outcome"
  hook_BeforeEpochStart :: "string \<Rightarrow> int64 \<Rightarrow> 's \<Rightarrow> 's \<times> unit outcome"

text \<open>The error that the helper returns is only logged; a panic that it passes on ends the block.\<close>

definition panicCatchingEpochHook ::
  "(string \<Rightarrow> int64 \<Rightarrow> 's \<Rightarrow> 's \<times> unit outcome) \<Rightarrow> string \<Rightarrow> int64 \<Rightarrow> 's \<Rightarrow> 's outcome" where
  "panicCatchingEpochHook hookFn epochIdentifier epochNumber ctx =
     (case ApplyFuncIfNoError ctx (hookFn epochIdentifier epochNumber) of (s, result) \<Rightarrow> obind result (\<lambda>err. Ok s))"

definition AfterEpochEnd :: "'s EpochHooks list \<Rightarrow> string \<Rightarrow> int64 \<Rightarrow> 's \<Rightarrow> 's outcome" where
  "AfterEpochEnd h epochIdentifier epochNumber ctx =
     ofold (\<lambda>hook. panicCatchingEpochHook (hook_AfterEpochEnd hook) epochIdentifier epochNumber) h ctx"

definition BeforeEpochStart :: "'s EpochHooks list \<Rightarrow> string \<Rightarrow> int64 \<Rightarrow> 's \<Rightarrow> 's outcome" where
  "BeforeEpochStart h epochIdentifier epochNumber ctx =
     ofold (\<lambda>hook. panicCatchingEpochHook (hook_BeforeEpochStart hook) epochIdentifier epochNumber) h ctx"

section \<open>The begin blocker\<close>

datatype epoch_event = EventTypeEpochEnd int64 | EventTypeEpochStart int64 int

record 's epochs_state =
  epoch_store :: "EpochInfo store"
  app_state :: 's
  emitted :: "epoch_event list"

text \<open>The body of the callback: start counting, or end an epoch and start the next one.\<close>

definition BeginBlocker_epoch ::
  "'s EpochHooks list \<Rightarrow> block_ctx \<Rightarrow> EpochInfo \<Rightarrow> 's epochs_state \<Rightarrow> ('s epochs_state \<times> bool) outcome" where
  "BeginBlocker_epoch hooks ctx epochInfo st =
     (if BlockTime ctx < StartTime epochInfo then Ok (st, False)
      else
        let shouldInitialEpochStart = \<not> EpochCountingStarted epochInfo;
            epochEndTime = CurrentEpochStartTime epochInfo + sint (Duration epochInfo);
            shouldEpochStart = (BlockTime ctx > epochEndTime \<or> shouldInitialEpochStart)
        in if \<not> shouldEpochStart then Ok (st, False)
           else
             let info = epochInfo\<lparr>CurrentEpochStartHeight := BlockHeight ctx\<rparr>
             in obind
               (if shouldInitialEpochStart
                then Ok (info\<lparr>EpochCountingStarted := True, CurrentEpoch := 1, CurrentEpochStartTime := StartTime info\<rparr>, st)
                else
                  let st1 = st\<lparr>emitted := emitted st @ [EventTypeEpochEnd (CurrentEpoch info)]\<rparr>
                  in obind (AfterEpochEnd hooks (Identifier info) (CurrentEpoch info) (app_state st1)) (\<lambda>s.
                       Ok (info\<lparr>CurrentEpoch := CurrentEpoch info + 1,
                                CurrentEpochStartTime := CurrentEpochStartTime info + sint (Duration info)\<rparr>,
                           st1\<lparr>app_state := s\<rparr>)))
               (\<lambda>(info1, st1).
                  let st2 = st1\<lparr>emitted := emitted st1 @
                              [EventTypeEpochStart (CurrentEpoch info1) (CurrentEpochStartTime info1 div 1000000000)]\<rparr>;
                      st3 = st2\<lparr>epoch_store := setEpochInfo info1 (epoch_store st2)\<rparr>
                  in obind (BeforeEpochStart hooks (Identifier info1) (CurrentEpoch info1) (app_state st3)) (\<lambda>s.
                       Ok (st3\<lparr>app_state := s\<rparr>, False))))"

definition BeginBlocker :: "'s EpochHooks list \<Rightarrow> block_ctx \<Rightarrow> 's epochs_state \<Rightarrow> 's epochs_state outcome" where
  "BeginBlocker hooks ctx st =
     IterateEpochInfo (epoch_store st) (\<lambda>index epochInfo s. BeginBlocker_epoch hooks ctx epochInfo s) st"

section \<open>Specification of a block\<close>

text \<open>
  What a block does to one epoch, which hooks it calls for it and in which order, and which events it
  emits, without the store.
\<close>

definition epoch_due :: "block_ctx \<Rightarrow> EpochInfo \<Rightarrow> bool" where
  "epoch_due ctx e \<longleftrightarrow>
     StartTime e \<le> BlockTime ctx \<and>
     (EpochCountingStarted e \<longrightarrow> CurrentEpochStartTime e + sint (Duration e) < BlockTime ctx)"

definition epoch_tick :: "block_ctx \<Rightarrow> EpochInfo \<Rightarrow> EpochInfo" where
  "epoch_tick ctx e =
     (if \<not> epoch_due ctx e then e
      else if EpochCountingStarted e
      then e\<lparr>CurrentEpoch := CurrentEpoch e + 1, CurrentEpochStartTime := CurrentEpochStartTime e + sint (Duration e),
             CurrentEpochStartHeight := BlockHeight ctx\<rparr>
      else e\<lparr>EpochCountingStarted := True, CurrentEpoch := 1, CurrentEpochStartTime := StartTime e,
             CurrentEpochStartHeight := BlockHeight ctx\<rparr>)"

datatype hook_call = AtEnd string int64 | AtStart string int64

definition epoch_calls :: "block_ctx \<Rightarrow> EpochInfo \<Rightarrow> hook_call list" where
  "epoch_calls ctx e =
     (if \<not> epoch_due ctx e then []
      else (if EpochCountingStarted e then [AtEnd (Identifier e) (CurrentEpoch e)] else []) @
           [AtStart (Identifier e) (CurrentEpoch (epoch_tick ctx e))])"

definition epoch_events :: "block_ctx \<Rightarrow> EpochInfo \<Rightarrow> epoch_event list" where
  "epoch_events ctx e =
     (if \<not> epoch_due ctx e then []
      else (if EpochCountingStarted e then [EventTypeEpochEnd (CurrentEpoch e)] else []) @
           [EventTypeEpochStart (CurrentEpoch (epoch_tick ctx e)) (CurrentEpochStartTime (epoch_tick ctx e) div 1000000000)])"

primrec run_call :: "'s EpochHooks list \<Rightarrow> hook_call \<Rightarrow> 's \<Rightarrow> 's outcome" where
  "run_call hooks (AtEnd i n) = AfterEpochEnd hooks i n"
| "run_call hooks (AtStart i n) = BeforeEpochStart hooks i n"

lemma Identifier_tick [simp]: "Identifier (epoch_tick ctx e) = Identifier e"
  by (simp add: epoch_tick_def)

definition store_tick :: "block_ctx \<Rightarrow> EpochInfo \<Rightarrow> EpochInfo store \<Rightarrow> EpochInfo store" where
  "store_tick ctx e s = (if epoch_due ctx e then setEpochInfo (epoch_tick ctx e) s else s)"

lemma BeginBlocker_epoch_spec:
  "BeginBlocker_epoch hooks ctx e st =
     obind (ofold (run_call hooks) (epoch_calls ctx e) (app_state st)) (\<lambda>s.
       Ok (st\<lparr>epoch_store := store_tick ctx e (epoch_store st), app_state := s,
              emitted := emitted st @ epoch_events ctx e\<rparr>, False))"
proof (cases "epoch_due ctx e")
  case False
  then have "BlockTime ctx < StartTime e \<or>
      (EpochCountingStarted e \<and> \<not> CurrentEpochStartTime e + sint (Duration e) < BlockTime ctx)"
    by (auto simp: epoch_due_def)
  then show ?thesis using False
    by (auto simp: BeginBlocker_epoch_def epoch_calls_def epoch_events_def store_tick_def Let_def)
next
  case True
  then have t: "\<not> BlockTime ctx < StartTime e"
    and d: "EpochCountingStarted e \<Longrightarrow> CurrentEpochStartTime e + sint (Duration e) < BlockTime ctx"
    by (auto simp: epoch_due_def)
  show ?thesis
  proof (cases "EpochCountingStarted e")
    case started: True
    have b: "BeginBlocker_epoch hooks ctx e st =
      obind (AfterEpochEnd hooks (Identifier e) (CurrentEpoch e) (app_state st)) (\<lambda>s.
      obind (BeforeEpochStart hooks (Identifier e) (CurrentEpoch e + 1) s) (\<lambda>s'.
        Ok (st\<lparr>epoch_store := setEpochInfo (epoch_tick ctx e) (epoch_store st), app_state := s',
               emitted := emitted st @ epoch_events ctx e\<rparr>, False)))"
      using t d[OF started] started True
      by (cases e; cases st) (simp add: BeginBlocker_epoch_def epoch_tick_def epoch_events_def obind_assoc Let_def)
    show ?thesis unfolding b
      using True started by (simp add: epoch_calls_def store_tick_def obind_assoc epoch_tick_def)
  next
    case fresh: False
    show ?thesis
      using t fresh True
      by (cases e; cases st)
         (simp add: BeginBlocker_epoch_def epoch_tick_def epoch_events_def epoch_calls_def store_tick_def Let_def obind_assoc)
  qed
qed

lemma iterate_entries_spec:
  "iterate_entries (\<lambda>index. BeginBlocker_epoch hooks ctx) i es st =
     obind (ofold (run_call hooks) (concat (map (epoch_calls ctx) es)) (app_state st)) (\<lambda>s.
       Ok (st\<lparr>epoch_store := fold (store_tick ctx) es (epoch_store st), app_state := s,
              emitted := emitted st @ concat (map (epoch_events ctx) es)\<rparr>))"
proof (induction es arbitrary: i st)
  case (Cons e es)
  then show ?case
    by (simp add: BeginBlocker_epoch_spec obind_assoc ofold_append)
qed simp

section \<open>The invariant of the store\<close>

definition epochs_ok :: "EpochInfo store \<Rightarrow> bool" where
  "epochs_ok s \<longleftrightarrow> store_ok s \<and> (\<forall>(k, e) \<in> set s. k = epoch_key (Identifier e))"

lemma epoch_key_inj [simp]: "epoch_key a = epoch_key b \<longleftrightarrow> a = b"
  by (simp add: epoch_key_def)

lemma epoch_key_less [simp]: "epoch_key a < epoch_key b \<longleftrightarrow> a < b"
  by (simp add: epoch_key_def KeyPrefixEpoch_def)

lemma epochs_ok_prefix: "epochs_ok s \<Longrightarrow> store_prefix s KeyPrefixEpoch = s"
  by (auto simp: epochs_ok_def store_prefix_def epoch_key_def filter_id_conv)

lemma fold_store_tick_puts:
  "fold (store_tick ctx) es s =
     kv.puts (map (\<lambda>e. (epoch_key (Identifier e), epoch_tick ctx e)) (filter (epoch_due ctx) es)) s"
  by (induction es arbitrary: s) (auto simp: store_tick_def setEpochInfo_def)

lemma epochs_ok_map:
  assumes "epochs_ok s" "\<And>e. Identifier (f e) = Identifier e"
  shows "epochs_ok (map (map_prod id f) s)"
proof -
  have "map fst (map (map_prod id f) s) = map fst s" by simp
  then show ?thesis using assms unfolding epochs_ok_def store_ok_def by (auto simp: split_beta)
qed

lemma fold_store_tick:
  assumes "epochs_ok s"
  shows "fold (store_tick ctx) (map snd s) s = map (map_prod id (epoch_tick ctx)) s"
proof (rule store_ext)
  have ok: "store_ok s" using assms by (simp add: epochs_ok_def)
  let ?kvs = "map (\<lambda>e. (epoch_key (Identifier e), epoch_tick ctx e)) (filter (epoch_due ctx) (map snd s))"
  show "store_ok (fold (store_tick ctx) (map snd s) s)" unfolding fold_store_tick_puts by (rule kv.puts_ok[OF ok])
  show "store_ok (map (map_prod id (epoch_tick ctx)) s)"
    using epochs_ok_map[OF assms, of "epoch_tick ctx"] by (simp add: epochs_ok_def)
  fix k
  have keys: "k' = epoch_key (Identifier e)" if "(k', e) \<in> set s" for k' e
    using that assms by (auto simp: epochs_ok_def)
  have m: "map fst ?kvs = map fst (filter (epoch_due ctx \<circ> snd) s)"
    using keys by (auto simp: filter_map)
  then have d: "distinct (map fst ?kvs)" using store_ok_distinct[OF store_ok_filter[OF ok]] by metis
  have in_kvs: "map_of ?kvs k = Some v \<longleftrightarrow> (\<exists>e. (k, e) \<in> set s \<and> epoch_due ctx e \<and> v = epoch_tick ctx e)" for v
    unfolding map_of_eq_Some_iff[OF d] using keys by (force simp: image_iff)
  have get: "store_get (fold (store_tick ctx) (map snd s) s) k
      = (case map_of ?kvs k of None \<Rightarrow> store_get s k | Some v \<Rightarrow> Some v)"
    unfolding fold_store_tick_puts by (rule kv.get_puts_distinct[OF ok d])
  have "\<dots> = map_option (epoch_tick ctx) (store_get s k)"
  proof (cases "map_of ?kvs k")
    case None
    have "epoch_tick ctx e = e" if "store_get s k = Some e" for e
      using in_kvs[of "epoch_tick ctx e"] None that store_get_iff[OF ok] by (auto simp: epoch_tick_def)
    with None show ?thesis by (cases "store_get s k") auto
  next
    case (Some v)
    with in_kvs obtain e where "(k, e) \<in> set s" "v = epoch_tick ctx e" by blast
    with Some store_get_iff[OF ok, of k e] show ?thesis by simp
  qed
  also have "\<dots> = store_get (map (map_prod id (epoch_tick ctx)) s) k"
    unfolding store_get_def by (induction s) auto
  finally show "store_get (fold (store_tick ctx) (map snd s) s) k = store_get (map (map_prod id (epoch_tick ctx)) s) k"
    unfolding get .
qed

text \<open>
  C7 A block moves every epoch by one step of the specification and calls exactly the due hooks, in
  the order of the identifiers, the end of an epoch before the start of the next; it emits the
  matching events and fails only if a hook call fails.
\<close>

theorem BeginBlocker_refines_ticks:
  assumes "epochs_ok (epoch_store st)"
  shows "BeginBlocker hooks ctx st =
     obind (ofold (run_call hooks) (concat (map (epoch_calls ctx \<circ> snd) (epoch_store st))) (app_state st)) (\<lambda>s.
       Ok (st\<lparr>epoch_store := map (map_prod id (epoch_tick ctx)) (epoch_store st), app_state := s,
              emitted := emitted st @ concat (map (epoch_events ctx \<circ> snd) (epoch_store st))\<rparr>))"
  using fold_store_tick[OF assms, of ctx]
  by (simp add: BeginBlocker_def IterateEpochInfo_def epochs_ok_prefix[OF assms] iterate_entries_spec)

theorem BeginBlocker_refines_ticks_witness:
  "epochs_ok [(epoch_key ''day'', (NewGenesisEpochInfo ''day'' 5)\<lparr>StartTime := 0\<rparr>)] \<and>
   BeginBlocker [] \<lparr>BlockTime = 7, BlockHeight = 3\<rparr>
     \<lparr>epoch_store = [(epoch_key ''day'', (NewGenesisEpochInfo ''day'' 5)\<lparr>StartTime := 0\<rparr>)], app_state = (), emitted = []\<rparr>
   = Ok \<lparr>epoch_store = [(epoch_key ''day'', \<lparr>Identifier = ''day'', StartTime = 0, Duration = 5, CurrentEpoch = 1,
         CurrentEpochStartTime = 0, EpochCountingStarted = True, CurrentEpochStartHeight = 3\<rparr>)],
       app_state = (), emitted = [EventTypeEpochStart 1 0]\<rparr>"
proof -
  have ok: "epochs_ok [(epoch_key ''day'', (NewGenesisEpochInfo ''day'' 5)\<lparr>StartTime := 0\<rparr>)]"
    by (simp add: epochs_ok_def store_ok_def NewGenesisEpochInfo_def)
  let ?st = "\<lparr>epoch_store = [(epoch_key ''day'', (NewGenesisEpochInfo ''day'' 5)\<lparr>StartTime := 0\<rparr>)], app_state = (), emitted = []\<rparr>"
  from BeginBlocker_refines_ticks[of ?st "[]" "\<lparr>BlockTime = 7, BlockHeight = 3\<rparr>"] ok show ?thesis
    by (simp add: epoch_calls_def epoch_due_def epoch_tick_def epoch_events_def NewGenesisEpochInfo_def BeforeEpochStart_def)
qed

section \<open>Epochs over a run of blocks\<close>

text \<open>Epoch numbers and start times stay in step: the start times form an arithmetic sequence.\<close>

definition epoch_timed :: "EpochInfo \<Rightarrow> bool" where
  "epoch_timed e \<longleftrightarrow>
     (EpochCountingStarted e \<longrightarrow>
        1 \<le> sint (CurrentEpoch e) \<and>
        CurrentEpochStartTime e = StartTime e + (sint (CurrentEpoch e) - 1) * sint (Duration e))"

lemma sint_add_one:
  fixes x :: int64
  assumes "sint x < 2 ^ 63 - 1"
  shows "sint (x + 1) = sint x + 1"
  using assms sint_range_64[of x] sint_add_64[of x 1] by simp

lemma epoch_timed_tick:
  assumes "epoch_timed e" "sint (CurrentEpoch e) < 2 ^ 63 - 1"
  shows "epoch_timed (epoch_tick ctx e)"
  using assms sint_add_one[OF assms(2)] by (auto simp: epoch_timed_def epoch_tick_def algebra_simps)

lemma epoch_tick_number:
  assumes "sint (CurrentEpoch e) < 2 ^ 63 - 1" "0 \<le> sint (CurrentEpoch e)"
  shows "sint (CurrentEpoch (epoch_tick ctx e)) \<le> sint (CurrentEpoch e) + 1 \<and> 0 \<le> sint (CurrentEpoch (epoch_tick ctx e))"
  using assms sint_add_one[OF assms(1)] by (auto simp: epoch_tick_def)

lemma BeginBlocker_store:
  assumes "epochs_ok (epoch_store st)" "BeginBlocker hooks ctx st = Ok st'"
  shows "epoch_store st' = map (map_prod id (epoch_tick ctx)) (epoch_store st)"
proof -
  have s: "store_prefix (epoch_store st) KeyPrefixEpoch = epoch_store st" by (rule epochs_ok_prefix[OF assms(1)])
  show ?thesis
    using assms(2) fold_store_tick[OF assms(1), of ctx]
    by (auto simp: BeginBlocker_def IterateEpochInfo_def s iterate_entries_spec go_simps)
qed

lemma blocks_store:
  assumes "epochs_ok (epoch_store st)" "ofold (BeginBlocker hooks) ctxs st = Ok st'"
  shows "epoch_store st' = map (map_prod id (fold epoch_tick ctxs)) (epoch_store st)"
  using assms
proof (induction ctxs arbitrary: st)
  case Nil
  then show ?case by (auto simp: map_idI)
next
  case (Cons ctx ctxs)
  then obtain t where t: "BeginBlocker hooks ctx st = Ok t" "ofold (BeginBlocker hooks) ctxs t = Ok st'"
    by (auto simp: go_simps)
  have e: "epoch_store t = map (map_prod id (epoch_tick ctx)) (epoch_store st)"
    by (rule BeginBlocker_store[OF Cons.prems(1) t(1)])
  then have "epochs_ok (epoch_store t)" using epochs_ok_map[OF Cons.prems(1)] by simp
  with Cons.IH[OF _ t(2)] e show ?case by auto
qed

lemma epoch_timed_ticks:
  assumes "epoch_timed e" "0 \<le> sint (CurrentEpoch e)" "sint (CurrentEpoch e) + int (length ctxs) < 2 ^ 63"
  shows "epoch_timed (fold epoch_tick ctxs e)"
  using assms
proof (induction ctxs arbitrary: e)
  case (Cons ctx ctxs)
  have lt: "sint (CurrentEpoch e) < 2 ^ 63 - 1" using Cons.prems by simp
  have "epoch_timed (epoch_tick ctx e)" using epoch_timed_tick[OF Cons.prems(1) lt] .
  moreover have "0 \<le> sint (CurrentEpoch (epoch_tick ctx e))"
    "sint (CurrentEpoch (epoch_tick ctx e)) + int (length ctxs) < 2 ^ 63"
    using epoch_tick_number[OF lt Cons.prems(2), of ctx] Cons.prems(3) by auto
  ultimately show ?case using Cons.IH by simp
qed simp

text \<open>
  C24 Whatever the block times and whatever the hooks do, over a run of blocks the start time of the
  current epoch of every timer stays \<open>StartTime + (CurrentEpoch - 1) * Duration\<close>: epochs do not drift.
\<close>

theorem epochs_never_drift:
  assumes "epochs_ok (epoch_store st)" "ofold (BeginBlocker hooks) ctxs st = Ok st'"
    and "\<forall>(k, e) \<in> set (epoch_store st). epoch_timed e \<and> 0 \<le> sint (CurrentEpoch e) \<and>
           sint (CurrentEpoch e) + int (length ctxs) < 2 ^ 63"
  shows "epochs_ok (epoch_store st') \<and> map fst (epoch_store st') = map fst (epoch_store st) \<and>
    (\<forall>(k, e) \<in> set (epoch_store st'). EpochCountingStarted e \<longrightarrow>
       CurrentEpochStartTime e = StartTime e + (sint (CurrentEpoch e) - 1) * sint (Duration e))"
proof -
  have s: "epoch_store st' = map (map_prod id (fold epoch_tick ctxs)) (epoch_store st)"
    by (rule blocks_store[OF assms(1,2)])
  have i: "Identifier (fold epoch_tick ctxs e) = Identifier e" for e
    by (induction ctxs arbitrary: e) simp_all
  have "epoch_timed (fold epoch_tick ctxs e)" if "(k, e) \<in> set (epoch_store st)" for k e
    using that assms(3) epoch_timed_ticks[of e ctxs] by blast
  then have "\<forall>(k, e) \<in> set (epoch_store st'). epoch_timed e" unfolding s by auto
  then show ?thesis
    using epochs_ok_map[OF assms(1) i] s by (auto simp: epoch_timed_def)
qed

text \<open>
  C35 After an outage the missed epochs are made up one per block: if every block of a run comes after
  the end of all of them, a counting timer advances by exactly the number of blocks.
\<close>

theorem epochs_catch_up:
  assumes "epochs_ok (epoch_store st)" "ofold (BeginBlocker hooks) ctxs st = Ok st'"
    and "(k, e) \<in> set (epoch_store st)" "EpochCountingStarted e" "epoch_timed e" "0 < sint (Duration e)"
    and "sint (CurrentEpoch e) + int (length ctxs) < 2 ^ 63"
    and "\<forall>ctx \<in> set ctxs. StartTime e + (sint (CurrentEpoch e) + int (length ctxs) - 1) * sint (Duration e) < BlockTime ctx"
  shows "\<exists>e'. (k, e') \<in> set (epoch_store st') \<and> sint (CurrentEpoch e') = sint (CurrentEpoch e) + int (length ctxs)"
proof -
  have "sint (CurrentEpoch (fold epoch_tick ctxs e)) = sint (CurrentEpoch e) + int (length ctxs)"
    using assms(4-8)
  proof (induction ctxs arbitrary: e)
    case (Cons ctx ctxs)
    let ?c = "sint (CurrentEpoch e)" and ?d = "sint (Duration e)"
    have lt: "?c < 2 ^ 63 - 1" using Cons.prems(4) by simp
    have cs: "1 \<le> ?c" "CurrentEpochStartTime e = StartTime e + (?c - 1) * ?d"
      using Cons.prems(1,2) by (simp_all add: epoch_timed_def)
    have m: "StartTime e + (?c + int (length (ctx # ctxs)) - 1) * ?d
        = StartTime e + ((?c + 1) + int (length ctxs) - 1) * ?d" by simp
    have le: "?c * ?d \<le> (?c + int (length (ctx # ctxs)) - 1) * ?d"
      using Cons.prems(3) by (intro mult_right_mono) auto
    then have "CurrentEpochStartTime e + ?d < BlockTime ctx"
      using Cons.prems(5) cs by (auto simp: algebra_simps)
    moreover have "0 \<le> ?c * ?d" using cs(1) Cons.prems(3) by simp
    then have "StartTime e \<le> BlockTime ctx" using le Cons.prems(5) by fastforce
    ultimately have due: "epoch_due ctx e" by (simp add: epoch_due_def)
    let ?e = "epoch_tick ctx e"
    have e: "EpochCountingStarted ?e" "Duration ?e = Duration e" "StartTime ?e = StartTime e"
      "CurrentEpoch ?e = CurrentEpoch e + 1"
      using due Cons.prems(1) by (simp_all add: epoch_tick_def)
    have n: "sint (CurrentEpoch ?e) = ?c + 1" using sint_add_one[OF lt] e(4) by simp
    have "sint (CurrentEpoch (fold epoch_tick ctxs ?e)) = sint (CurrentEpoch ?e) + int (length ctxs)"
      using Cons.prems(3-5) e n m epoch_timed_tick[OF Cons.prems(2) lt] by (intro Cons.IH) auto
    then show ?case using n by simp
  qed simp
  moreover have "(k, fold epoch_tick ctxs e) \<in> set (epoch_store st')"
    unfolding blocks_store[OF assms(1,2)] using assms(3) by force
  ultimately show ?thesis by blast
qed

text \<open>A timer in its second epoch, and two late blocks.\<close>

definition example_epoch :: EpochInfo where
  "example_epoch = \<lparr>Identifier = ''hour'', StartTime = 0, Duration = 10, CurrentEpoch = 2,
     CurrentEpochStartTime = 10, EpochCountingStarted = True, CurrentEpochStartHeight = 3\<rparr>"

definition example_state :: "unit epochs_state" where
  "example_state = \<lparr>epoch_store = [(epoch_key ''hour'', example_epoch)], app_state = (), emitted = []\<rparr>"

definition example_blocks :: "block_ctx list" where
  "example_blocks = [\<lparr>BlockTime = 55, BlockHeight = 7\<rparr>, \<lparr>BlockTime = 56, BlockHeight = 8\<rparr>]"

lemma example_ok: "epochs_ok (epoch_store example_state)"
  by (simp add: example_state_def epochs_ok_def store_ok_def example_epoch_def)

lemma example_run_Ok: "is_Ok (ofold (BeginBlocker []) example_blocks example_state)"
  by code_simp

lemma example_timed:
  "\<forall>(k, e) \<in> set (epoch_store example_state). epoch_timed e \<and> 0 \<le> sint (CurrentEpoch e) \<and>
           sint (CurrentEpoch e) + int (length example_blocks) < 2 ^ 63"
  by (simp add: example_state_def example_epoch_def example_blocks_def epoch_timed_def)

theorem epochs_never_drift_witness:
  "\<exists>st' e. ofold (BeginBlocker []) example_blocks example_state = Ok st' \<and>
     epoch_store st' = [(epoch_key ''hour'', e)] \<and> EpochCountingStarted e \<and>
     CurrentEpochStartTime e = StartTime e + (sint (CurrentEpoch e) - 1) * sint (Duration e)"
proof -
  let ?e = "fold epoch_tick example_blocks example_epoch"
  obtain st' where r: "ofold (BeginBlocker []) example_blocks example_state = Ok st'"
    using example_run_Ok by (auto simp: is_Ok_iff)
  have s: "epoch_store st' = [(epoch_key ''hour'', ?e)]"
    using blocks_store[OF example_ok r] by (simp add: example_state_def)
  moreover have "EpochCountingStarted ?e" by (simp add: example_blocks_def example_epoch_def epoch_tick_def)
  moreover have "CurrentEpochStartTime ?e = StartTime ?e + (sint (CurrentEpoch ?e) - 1) * sint (Duration ?e)"
    using epochs_never_drift[OF example_ok r example_timed] calculation by simp
  ultimately show ?thesis using r by blast
qed

theorem epochs_catch_up_witness:
  "\<exists>st' e'. ofold (BeginBlocker []) example_blocks example_state = Ok st' \<and>
     (epoch_key ''hour'', e') \<in> set (epoch_store st') \<and> sint (CurrentEpoch e') = 4"
proof -
  obtain st' where r: "ofold (BeginBlocker []) example_blocks example_state = Ok st'"
    using example_run_Ok by (auto simp: is_Ok_iff)
  have "(epoch_key ''hour'', example_epoch) \<in> set (epoch_store example_state)" by (simp add: example_state_def)
  moreover have "EpochCountingStarted example_epoch" "epoch_timed example_epoch" "0 < sint (Duration example_epoch)"
    by (simp_all add: example_epoch_def epoch_timed_def)
  moreover have n: "sint (CurrentEpoch example_epoch) = 2" "int (length example_blocks) = 2"
    by (simp_all add: example_epoch_def example_blocks_def)
  moreover have "\<forall>ctx \<in> set example_blocks. StartTime example_epoch +
      (sint (CurrentEpoch example_epoch) + int (length example_blocks) - 1) * sint (Duration example_epoch) < BlockTime ctx"
    unfolding n by (simp add: example_epoch_def example_blocks_def)
  ultimately have "\<exists>e'. (epoch_key ''hour'', e') \<in> set (epoch_store st') \<and>
      sint (CurrentEpoch e') = sint (CurrentEpoch example_epoch) + int (length example_blocks)"
    by (intro epochs_catch_up[OF example_ok r]) simp_all
  then show ?thesis using r unfolding n by simp
qed

section \<open>Hooks cannot stop a block\<close>

text \<open>A call of all hooks, when none of them runs out of gas: every hook leaves all its writes or none.\<close>

primrec call_effect :: "'s EpochHooks list \<Rightarrow> hook_call \<Rightarrow> 's \<Rightarrow> 's" where
  "call_effect hooks (AtEnd i n) = fold (\<lambda>h. effect_if_ok (hook_AfterEpochEnd h i n)) hooks"
| "call_effect hooks (AtStart i n) = fold (\<lambda>h. effect_if_ok (hook_BeforeEpochStart h i n)) hooks"

definition hooks_within_gas :: "'s EpochHooks list \<Rightarrow> bool" where
  "hooks_within_gas hooks \<longleftrightarrow>
     (\<forall>h \<in> set hooks. \<forall>i n s. \<not> out_of_gas (snd (hook_AfterEpochEnd h i n s)) \<and> \<not> out_of_gas (snd (hook_BeforeEpochStart h i n s)))"

text \<open>The calls of a run of blocks.\<close>

fun blocks_calls :: "block_ctx list \<Rightarrow> EpochInfo store \<Rightarrow> hook_call list" where
  "blocks_calls [] s = []"
| "blocks_calls (ctx # ctxs) s =
     concat (map (epoch_calls ctx \<circ> snd) s) @ blocks_calls ctxs (map (map_prod id (epoch_tick ctx)) s)"

lemma panicCatchingEpochHook_cases:
  "panicCatchingEpochHook f i n s =
     (if out_of_gas (snd (f i n s)) then panicCatchingEpochHook f i n s else Ok (effect_if_ok (f i n) s))"
  using ApplyFuncIfNoError_returns[of s "f i n"] ApplyFuncIfNoError_state[of s "f i n"]
  by (auto simp: panicCatchingEpochHook_def is_Ok_iff split: prod.split)

lemma panicCatchingEpochHook_out_of_gas:
  "f i n s = (s', Panic p) \<Longrightarrow> fst (IsOutOfGasError p) \<Longrightarrow> panicCatchingEpochHook f i n s = Panic p"
  by (simp add: panicCatchingEpochHook_def ApplyFuncIfNoError_def)

lemma run_call_within_gas:
  assumes "hooks_within_gas hooks"
  shows "run_call hooks c s = Ok (call_effect hooks c s)"
proof (cases c)
  case (AtEnd i n)
  from assms show ?thesis unfolding AtEnd
    by (induction hooks arbitrary: s) (simp_all add: hooks_within_gas_def AfterEpochEnd_def panicCatchingEpochHook_cases)
next
  case (AtStart i n)
  from assms show ?thesis unfolding AtStart
    by (induction hooks arbitrary: s) (simp_all add: hooks_within_gas_def BeforeEpochStart_def panicCatchingEpochHook_cases)
qed

lemma run_calls_within_gas:
  "hooks_within_gas hooks \<Longrightarrow> ofold (run_call hooks) cs s = Ok (fold (call_effect hooks) cs s)"
  by (induction cs arbitrary: s) (simp_all add: run_call_within_gas)

lemma BeginBlocker_within_gas:
  assumes "epochs_ok (epoch_store st)" "hooks_within_gas hooks"
  shows "\<exists>st'. BeginBlocker hooks ctx st = Ok st' \<and> epoch_store st' = map (map_prod id (epoch_tick ctx)) (epoch_store st) \<and>
    app_state st' = fold (call_effect hooks) (concat (map (epoch_calls ctx \<circ> snd) (epoch_store st))) (app_state st)"
  using fold_store_tick[OF assms(1), of ctx]
  by (simp add: BeginBlocker_def IterateEpochInfo_def epochs_ok_prefix[OF assms(1)] iterate_entries_spec run_calls_within_gas[OF assms(2)])

text \<open>
  C36 Hooks cannot stop the chain or damage each other: unless one runs out of gas, whose panic is passed on, every run
  of blocks succeeds and moves the timers as if there were no hooks, and the state of the other modules is that of
  running, at every epoch boundary in turn, each hook that succeeds there; a hook that fails with an error or a panic
  leaves nothing of what it has written.
\<close>

theorem hooks_cannot_stop_blocks:
  assumes "epochs_ok (epoch_store st)" "hooks_within_gas hooks"
  shows "\<exists>st'. ofold (BeginBlocker hooks) ctxs st = Ok st' \<and>
    epoch_store st' = map (map_prod id (fold epoch_tick ctxs)) (epoch_store st) \<and>
    app_state st' = fold (call_effect hooks) (blocks_calls ctxs (epoch_store st)) (app_state st)"
  using assms(1)
proof (induction ctxs arbitrary: st)
  case Nil
  then show ?case by (simp add: map_idI)
next
  case (Cons ctx ctxs)
  obtain t where t: "BeginBlocker hooks ctx st = Ok t" "epoch_store t = map (map_prod id (epoch_tick ctx)) (epoch_store st)"
    "app_state t = fold (call_effect hooks) (concat (map (epoch_calls ctx \<circ> snd) (epoch_store st))) (app_state st)"
    using BeginBlocker_within_gas[OF Cons.prems assms(2)] by blast
  then have "epochs_ok (epoch_store t)" using epochs_ok_map[OF Cons.prems] by simp
  from Cons.IH[OF this] t show ?case by auto
qed

text \<open>A hook that counts, one that writes and then panics, and one that multiplies.\<close>

definition example_hooks :: "int EpochHooks list" where
  "example_hooks =
     [\<lparr>hook_AfterEpochEnd = \<lambda>i n s. (s + 1, Ok ()), hook_BeforeEpochStart = \<lambda>i n s. (s, Ok ())\<rparr>,
      \<lparr>hook_AfterEpochEnd = \<lambda>i n s. (s + 500, Panic ''nil dereference''), hook_BeforeEpochStart = \<lambda>i n s. (0, Err ''no'')\<rparr>,
      \<lparr>hook_AfterEpochEnd = \<lambda>i n s. (s * 10, Ok ()), hook_BeforeEpochStart = \<lambda>i n s. (s, Ok ())\<rparr>]"

theorem hooks_cannot_stop_blocks_witness:
  "\<exists>st'. ofold (BeginBlocker example_hooks) example_blocks
     \<lparr>epoch_store = [(epoch_key ''hour'', example_epoch)], app_state = 2, emitted = []\<rparr> = Ok st' \<and> app_state st' = 310"
proof -
  let ?st = "\<lparr>epoch_store = [(epoch_key ''hour'', example_epoch)], app_state = 2::int, emitted = []\<rparr>"
  have "epochs_ok (epoch_store ?st)" using example_ok by (simp add: example_state_def)
  moreover have "hooks_within_gas example_hooks"
    by (simp add: hooks_within_gas_def example_hooks_def out_of_gas_def IsOutOfGasError_def)
  ultimately have "\<exists>st'. ofold (BeginBlocker example_hooks) example_blocks ?st = Ok st' \<and>
     app_state st' = fold (call_effect example_hooks) (blocks_calls example_blocks (epoch_store ?st)) 2"
    using hooks_cannot_stop_blocks[of ?st example_hooks example_blocks] by auto
  moreover have "fold (call_effect example_hooks) (blocks_calls example_blocks (epoch_store ?st)) 2 = 310"
    by (simp add: example_hooks_def effect_if_ok_def example_blocks_def example_epoch_def epoch_calls_def epoch_due_def epoch_tick_def)
  ultimately show ?thesis by simp
qed

section \<open>Genesis\<close>

definition genesis_epoch :: "block_ctx \<Rightarrow> EpochInfo \<Rightarrow> EpochInfo" where
  "genesis_epoch ctx e =
     e\<lparr>StartTime := (if StartTime e = time_zero then BlockTime ctx else StartTime e),
       CurrentEpochStartHeight := BlockHeight ctx\<rparr>"

lemma AddEpochInfo_fresh:
  assumes "EpochInfo_Validate e = Ok ()" "store_get s (epoch_key (Identifier e)) = None"
  shows "AddEpochInfo ctx e s = Ok (store_set (epoch_key (Identifier e)) (genesis_epoch ctx e) s)"
  using assms by (cases e) (simp add: AddEpochInfo_def GetEpochInfo_def setEpochInfo_def genesis_epoch_def Let_def)

lemma iterate_collect:
  "iterate_entries (\<lambda>index epochInfo epochs. Ok (epochs @ [epochInfo], False)) i es acc = Ok (acc @ es)"
  by (induction es arbitrary: i acc) simp_all

lemma ExportGenesis_eq: "epochs_ok s \<Longrightarrow> ExportGenesis s = Ok (map snd s)"
  by (simp add: ExportGenesis_def AllEpochInfos_def IterateEpochInfo_def iterate_collect epochs_ok_prefix)

lemma GenesisState_Validate_loop_Ok:
  "GenesisState_Validate_loop gs ids = Ok () \<longleftrightarrow>
     (\<forall>e \<in> set gs. EpochInfo_Validate e = Ok ()) \<and> distinct (map Identifier gs) \<and> set (map Identifier gs) \<inter> ids = {}"
  by (induction gs arbitrary: ids) (auto simp: go_simps)

lemma InitGenesis_puts:
  assumes "\<forall>e \<in> set gs. EpochInfo_Validate e = Ok ()" "distinct (map Identifier gs)" "store_ok s"
    and "\<forall>e \<in> set gs. store_get s (epoch_key (Identifier e)) = None"
  shows "InitGenesis ctx gs s = Ok (kv.puts (map (\<lambda>e. (epoch_key (Identifier e), genesis_epoch ctx e)) gs) s)"
  using assms
proof (induction gs arbitrary: s)
  case (Cons e gs)
  let ?s = "store_set (epoch_key (Identifier e)) (genesis_epoch ctx e) s"
  have "\<forall>x \<in> set gs. store_get ?s (epoch_key (Identifier x)) = None"
    using Cons.prems by (auto simp: store_get_set image_iff)
  with Cons show ?case by (auto simp: InitGenesis_def AddEpochInfo_fresh store_set_ok)
qed (simp add: InitGenesis_def)

lemma set_puts:
  assumes "distinct (map fst kvs)"
  shows "set (kv.puts kvs []) = set kvs"
proof -
  have ok: "store_ok (kv.puts kvs [])" by (rule kv.puts_ok) (simp add: store_ok_def)
  have "store_get (kv.puts kvs []) k = map_of kvs k" for k
    using kv.get_puts_distinct[of "[]" kvs k] assms by (simp add: store_ok_def store_get_def split: option.splits)
  then show ?thesis using store_get_iff[OF ok] map_of_eq_Some_iff[OF assms] by (metis subrelI subset_antisym)
qed

text \<open>The store that a valid genesis state gives, and initialising again from what such a store exports.\<close>

lemma InitGenesis_store:
  assumes "GenesisState_Validate gs = Ok ()"
  shows "\<exists>s. InitGenesis ctx gs [] = Ok s \<and> epochs_ok s \<and> set (map snd s) = genesis_epoch ctx ` set gs"
proof -
  let ?kvs = "map (\<lambda>e. (epoch_key (Identifier e), genesis_epoch ctx e)) gs"
  let ?s = "kv.puts ?kvs []"
  have v: "\<forall>e \<in> set gs. EpochInfo_Validate e = Ok ()" "distinct (map Identifier gs)"
    using assms by (simp_all add: GenesisState_Validate_def GenesisState_Validate_loop_Ok)
  then have i: "InitGenesis ctx gs [] = Ok ?s"
    by (intro InitGenesis_puts) (simp_all add: store_ok_def store_get_def)
  have "distinct (map fst ?kvs)" using v(2) by (auto simp: distinct_map inj_on_def)
  then have set: "set ?s = set ?kvs" by (rule set_puts)
  have "epochs_ok ?s"
    unfolding epochs_ok_def set using kv.puts_ok[of "[]" ?kvs] by (auto simp: genesis_epoch_def store_ok_def)
  moreover have "set (map snd ?s) = genesis_epoch ctx ` set gs" using set by force
  ultimately show ?thesis using i by blast
qed

lemma epochs_ok_identifiers:
  assumes "epochs_ok s"
  shows "sorted_wrt (<) (map Identifier (map snd s))"
proof -
  have "map fst s = map (epoch_key \<circ> Identifier \<circ> snd) s" using assms by (auto simp: epochs_ok_def)
  moreover have "sorted_wrt (<) (map fst s)" using assms by (simp add: epochs_ok_def store_ok_def)
  ultimately have "sorted_wrt (<) (map (epoch_key \<circ> Identifier \<circ> snd) s)" by metis
  then show ?thesis by (simp add: sorted_wrt_map)
qed

lemma epochs_ok_set_eq:
  assumes "epochs_ok s" "epochs_ok t" "set (map snd s) = set (map snd t)"
  shows "s = t"
proof (rule store_ext)
  show ok: "store_ok s" "store_ok t" using assms by (simp_all add: epochs_ok_def)
  have entry: "(k, e) \<in> set u \<longleftrightarrow> e \<in> set (map snd u) \<and> k = epoch_key (Identifier e)" if "epochs_ok u" for u k e
    using that by (force simp: epochs_ok_def)
  fix k
  have "store_get s k = Some e \<longleftrightarrow> store_get t k = Some e" for e
    unfolding store_get_iff[OF ok(1)] store_get_iff[OF ok(2)] entry[OF assms(1)] entry[OF assms(2)] assms(3) ..
  then show "store_get s k = store_get t k" by (metis not_None_eq)
qed

lemma InitGenesis_exported:
  assumes "epochs_ok s" "GenesisState_Validate (map snd s) = Ok ()"
  shows "InitGenesis ctx (map snd s) [] = Ok (map (map_prod id (genesis_epoch ctx)) s)"
proof -
  obtain t where t: "InitGenesis ctx (map snd s) [] = Ok t" "epochs_ok t" "set (map snd t) = genesis_epoch ctx ` set (map snd s)"
    using InitGenesis_store[OF assms(2)] by blast
  have "epochs_ok (map (map_prod id (genesis_epoch ctx)) s)" using assms(1) by (rule epochs_ok_map) (simp add: genesis_epoch_def)
  then have "t = map (map_prod id (genesis_epoch ctx)) s" using t by (intro epochs_ok_set_eq) (auto simp: image_image)
  with t(1) show ?thesis by simp
qed

text \<open>
  C34 A genesis state that validates can be initialised on an empty store. What is exported then is the genesis epochs
  in the order of their identifiers, with absent start times set to the time of the genesis block and every start height
  replaced by the height of that block, whatever the genesis state said. From there on it is a round trip: the exported
  state validates, initialising it at the same block gives the same store again, and initialising it at another block
  gives a store that exports the same epochs with the start heights of that block.
\<close>

theorem InitGenesis_ExportGenesis:
  assumes "GenesisState_Validate gs = Ok ()" "0 \<le> sint (BlockHeight ctx)" "BlockTime ctx \<noteq> time_zero"
  shows "\<exists>s l. InitGenesis ctx gs [] = Ok s \<and> ExportGenesis s = Ok l \<and> sorted_wrt (<) (map Identifier l) \<and>
    set l = (\<lambda>e. e\<lparr>StartTime := (if StartTime e = time_zero then BlockTime ctx else StartTime e),
                   CurrentEpochStartHeight := BlockHeight ctx\<rparr>) ` set gs \<and>
    GenesisState_Validate l = Ok () \<and> InitGenesis ctx l [] = Ok s \<and>
    (\<forall>ctx'. \<exists>s'. InitGenesis ctx' l [] = Ok s' \<and>
       ExportGenesis s' = Ok (map (\<lambda>e. e\<lparr>CurrentEpochStartHeight := BlockHeight ctx'\<rparr>) l))"
proof -
  obtain s where s: "InitGenesis ctx gs [] = Ok s" "epochs_ok s" "set (map snd s) = genesis_epoch ctx ` set gs"
    using InitGenesis_store[OF assms(1)] by blast
  let ?l = "map snd s"
  have v: "\<forall>e \<in> set gs. EpochInfo_Validate e = Ok ()"
    using assms(1) by (simp add: GenesisState_Validate_def GenesisState_Validate_loop_Ok)
  then have "\<forall>e \<in> set ?l. EpochInfo_Validate e = Ok ()"
    unfolding s(3) using assms(2) by (auto simp: genesis_epoch_def EpochInfo_Validate_def split: if_splits)
  moreover have "distinct (map Identifier ?l)" using epochs_ok_identifiers[OF s(2)] by (simp add: strict_sorted_iff)
  ultimately have valid: "GenesisState_Validate ?l = Ok ()" by (simp add: GenesisState_Validate_def GenesisState_Validate_loop_Ok)
  have fixed: "genesis_epoch ctx e = e \<and> StartTime e \<noteq> time_zero" if "e \<in> set ?l" for e
    using that assms(3) unfolding s(3) by (auto simp: genesis_epoch_def split: if_splits)
  then have "map (map_prod id (genesis_epoch ctx)) s = s" by (intro map_idI) force
  then have again: "InitGenesis ctx ?l [] = Ok s" using InitGenesis_exported[OF s(2) valid, of ctx] by simp
  have "\<exists>s'. InitGenesis ctx' ?l [] = Ok s' \<and> ExportGenesis s' = Ok (map (\<lambda>e. e\<lparr>CurrentEpochStartHeight := BlockHeight ctx'\<rparr>) ?l)" for ctx'
  proof -
    let ?s = "map (map_prod id (genesis_epoch ctx')) s"
    have "epochs_ok ?s" using s(2) by (rule epochs_ok_map) (simp add: genesis_epoch_def)
    moreover have "map snd ?s = map (\<lambda>e. e\<lparr>CurrentEpochStartHeight := BlockHeight ctx'\<rparr>) ?l"
      using fixed by (auto simp: genesis_epoch_def image_iff)
    ultimately show ?thesis using InitGenesis_exported[OF s(2) valid, of ctx'] ExportGenesis_eq by metis
  qed
  then show ?thesis
    using s(1,3) ExportGenesis_eq[OF s(2)] epochs_ok_identifiers[OF s(2)] valid again
    unfolding genesis_epoch_def by (intro exI[of _ s] exI[of _ ?l]) simp
qed

theorem InitGenesis_ExportGenesis_witness:
  "\<exists>s l. InitGenesis \<lparr>BlockTime = 7, BlockHeight = 1\<rparr> DefaultGenesis [] = Ok s \<and> ExportGenesis s = Ok l \<and>
     InitGenesis \<lparr>BlockTime = 7, BlockHeight = 1\<rparr> l [] = Ok s"
proof -
  have "GenesisState_Validate DefaultGenesis = Ok ()"
    by (simp add: GenesisState_Validate_def DefaultGenesis_def NewGenesisEpochInfo_def EpochInfo_Validate_def time_Hour_def)
  from InitGenesis_ExportGenesis[OF this, of "\<lparr>BlockTime = 7, BlockHeight = 1\<rparr>"] show ?thesis
    by (auto simp: time_zero_def)
qed

end
