(* ===== verification/Downtime_Detector.thy ===== *)
theory Downtime_Detector
  imports KV_Store Epochs
begin

text \<open>
  \<^verbatim>\<open>src/x/downtime-detector\<close>: for every one of a fixed set of lengths, the last time at which the chain
  was down for at least that long. The store holds times in nanoseconds; the text form in which they
  are written sorts and reads back unchanged. The table of lengths is the ordered map that the package
  fills when it is initialised.
\<close>

section \<open>Definitions\<close>

datatype Downtime =
    Downtime_DURATION_30S
  | Downtime_DURATION_1M
  | Downtime_DURATION_2M
  | Downtime_DURATION_3M
  | Downtime_DURATION_4M
  | Downtime_DURATION_5M
  | Downtime_DURATION_10M
  | Downtime_DURATION_20M
  | Downtime_DURATION_30M
  | Downtime_DURATION_40M
  | Downtime_DURATION_50M
  | Downtime_DURATION_1H
  | Downtime_DURATION_1_5H
  | Downtime_DURATION_2H
  | Downtime_DURATION_2_5H
  | Downtime_DURATION_3H
  | Downtime_DURATION_4H
  | Downtime_DURATION_5H
  | Downtime_DURATION_6H
  | Downtime_DURATION_9H
  | Downtime_DURATION_12H
  | Downtime_DURATION_18H
  | Downtime_DURATION_24H
  | Downtime_DURATION_36H
  | Downtime_DURATION_48H

primrec Downtime_String :: "Downtime \<Rightarrow> string" where
  "Downtime_String Downtime_DURATION_30S = ''DURATION_30S''"
| "Downtime_String Downtime_DURATION_1M = ''DURATION_1M''"
| "Downtime_String Downtime_DURATION_2M = ''DURATION_2M''"
| "Downtime_String Downtime_DURATION_3M = ''DURATION_3M''"
| "Downtime_String Downtime_DURATION_4M = ''DURATION_4M''"
| "Downtime_String Downtime_DURATION_5M = ''DURATION_5M''"
| "Downtime_String Downtime_DURATION_10M = ''DURATION_10M''"
| "Downtime_String Downtime_DURATION_20M = ''DURATION_20M''"
| "Downtime_String Downtime_DURATION_30M = ''DURATION_30M''"
| "Downtime_String Downtime_DURATION_40M = ''DURATION_40M''"
| "Downtime_String Downtime_DURATION_50M = ''DURATION_50M''"
| "Downtime_String Downtime_DURATION_1H = ''DURATION_1H''"
| "Downtime_String Downtime_DURATION_1_5H = ''DURATION_1_5H''"
| "Downtime_String Downtime_DURATION_2H = ''DURATION_2H''"
| "Downtime_String Downtime_DURATION_2_5H = ''DURATION_2_5H''"
| "Downtime_String Downtime_DURATION_3H = ''DURATION_3H''"
| "Downtime_String Downtime_DURATION_4H = ''DURATION_4H''"
| "Downtime_String Downtime_DURATION_5H = ''DURATION_5H''"
| "Downtime_String Downtime_DURATION_6H = ''DURATION_6H''"
| "Downtime_String Downtime_DURATION_9H = ''DURATION_9H''"
| "Downtime_String Downtime_DURATION_12H = ''DURATION_12H''"
| "Downtime_String Downtime_DURATION_18H = ''DURATION_18H''"
| "Downtime_String Downtime_DURATION_24H = ''DURATION_24H''"
| "Downtime_String Downtime_DURATION_36H = ''DURATION_36H''"
| "Downtime_String Downtime_DURATION_48H = ''DURATION_48H''"

definition time_Second :: int where "time_Second = 1000000000"

definition time_Minute :: int where "time_Minute = 60 * time_Second"

definition time_HourD :: int where "time_HourD = 60 * time_Minute"

definition DowntimeToDuration :: "(Downtime \<times> int) list" where
  "DowntimeToDuration =
     [(Downtime_DURATION_30S, 30 * time_Second),
      (Downtime_DURATION_1M, time_Minute),
      (Downtime_DURATION_2M, 2 * time_Minute),
      (Downtime_DURATION_3M, 3 * time_Minute),
      (Downtime_DURATION_4M, 4 * time_Minute),
      (Downtime_DURATION_5M, 5 * time_Minute),
      (Downtime_DURATION_10M, 10 * time_Minute),
      (Downtime_DURATION_20M, 20 * time_Minute),
      (Downtime_DURATION_30M, 30 * time_Minute),
      (Downtime_DURATION_40M, 40 * time_Minute),
      (Downtime_DURATION_50M, 50 * time_Minute),
      (Downtime_DURATION_1H, time_HourD),
      (Downtime_DURATION_1_5H, time_HourD + 30 * time_Minute),
      (Downtime_DURATION_2H, 2 * time_HourD),
      (Downtime_DURATION_2_5H, 2 * time_HourD + 30 * time_Minute),
      (Downtime_DURATION_3H, 3 * time_HourD),
      (Downtime_DURATION_4H, 4 * time_HourD),
      (Downtime_DURATION_5H, 5 * time_HourD),
      (Downtime_DURATION_6H, 6 * time_HourD),
      (Downtime_DURATION_9H, 9 * time_HourD),
      (Downtime_DURATION_12H, 12 * time_HourD),
      (Downtime_DURATION_18H, 18 * time_HourD),
      (Downtime_DURATION_24H, 24 * time_HourD),
      (Downtime_DURATION_36H, 36 * time_HourD),
      (Downtime_DURATION_48H, 48 * time_HourD)]"

definition DefaultLastDowntime :: int where "DefaultLastDowntime = 0"

definition DowntimeByDuration :: "int \<Rightarrow> Downtime outcome" where
  "DowntimeByDuration duration =
     (case find (\<lambda>(k, v). v = duration) DowntimeToDuration of
        Some (k, v) \<Rightarrow> Ok k
      | None \<Rightarrow> Err ''downtime does not exist'')"

definition lastBlockTimestampKey :: string where
  "lastBlockTimestampKey = ''last_block_timestamp''"

definition GetLastDowntimeOfLengthKey :: "Downtime \<Rightarrow> string" where
  "GetLastDowntimeOfLengthKey downtimeDur = ''last_downtime_of_length/'' @ Downtime_String downtimeDur"

definition GetLastBlockTime :: "int store \<Rightarrow> int outcome" where
  "GetLastBlockTime s =
     (case store_get s lastBlockTimestampKey of
        None \<Rightarrow> Err ''no last block time stored in state'' | Some t \<Rightarrow> Ok t)"

definition StoreLastBlockTime :: "int \<Rightarrow> int store \<Rightarrow> int store" where
  "StoreLastBlockTime t s = store_set lastBlockTimestampKey t s"

definition GetLastDowntimeOfLength :: "int store \<Rightarrow> Downtime \<Rightarrow> int outcome" where
  "GetLastDowntimeOfLength s dur =
     (case store_get s (GetLastDowntimeOfLengthKey dur) of
        None \<Rightarrow> Err ''no last time stored in state'' | Some t \<Rightarrow> Ok t)"

definition StoreLastDowntimeOfLength :: "Downtime \<Rightarrow> int \<Rightarrow> int store \<Rightarrow> int store" where
  "StoreLastDowntimeOfLength dur t s = store_set (GetLastDowntimeOfLengthKey dur) t s"

text \<open>\<^verbatim>\<open>time.Time.Sub\<close> saturates at the range of a 64-bit duration.\<close>

definition time_Sub :: "int \<Rightarrow> int \<Rightarrow> int" where
  "time_Sub t u = max (- (2 ^ 63)) (min (2 ^ 63 - 1) (t - u))"

text \<open>The visit of the table in ascending order that stops at the first length above the downtime.\<close>

fun saveDowntimeUpdates_loop :: "int \<Rightarrow> int \<Rightarrow> (Downtime \<times> int) list \<Rightarrow> int store \<Rightarrow> int store" where
  "saveDowntimeUpdates_loop now downtime [] s = s"
| "saveDowntimeUpdates_loop now downtime ((downType, duration) # rest) s =
     (if downtime < duration then s
      else saveDowntimeUpdates_loop now downtime rest (StoreLastDowntimeOfLength downType now s))"

definition saveDowntimeUpdates :: "int \<Rightarrow> int \<Rightarrow> int store \<Rightarrow> int store" where
  "saveDowntimeUpdates now downtime s =
     (if downtime < 30 * time_Second then s
      else saveDowntimeUpdates_loop now downtime DowntimeToDuration s)"

text \<open>A missing last block time is logged and read as the zero time.\<close>

definition BeginBlock :: "int \<Rightarrow> int store \<Rightarrow> int store" where
  "BeginBlock curTime s =
     (let lastBlockTime = (case GetLastBlockTime s of Ok t \<Rightarrow> t | _ \<Rightarrow> time_zero);
          downtime = time_Sub curTime lastBlockTime
      in StoreLastBlockTime curTime (saveDowntimeUpdates curTime downtime s))"

definition RecoveredSinceDowntimeOfLength :: "int \<Rightarrow> int store \<Rightarrow> Downtime \<Rightarrow> int \<Rightarrow> bool outcome" where
  "RecoveredSinceDowntimeOfLength now s downtime recoveryDuration =
     obind (GetLastDowntimeOfLength s downtime) (\<lambda>lastDowntime.
       if recoveryDuration = 0 then Err ''invalid recovery duration of 0''
       else if now < lastDowntime + recoveryDuration then Ok False
       else Ok True)"

record DowntimeGenesis =
  Downtimes :: "(Downtime \<times> int) list"
  LastBlockTime :: int

definition Downtime_DefaultGenesis :: DowntimeGenesis where
  "Downtime_DefaultGenesis =
     \<lparr>Downtimes = map (\<lambda>downtime. (downtime, DefaultLastDowntime)) (map fst DowntimeToDuration), LastBlockTime = 0\<rparr>"

definition setGenDowntimes :: "(Downtime \<times> int) list \<Rightarrow> int store \<Rightarrow> int store" where
  "setGenDowntimes genDowntimes s = fold (\<lambda>(d, t). StoreLastDowntimeOfLength d t) genDowntimes s"

definition Downtime_InitGenesis :: "DowntimeGenesis \<Rightarrow> int store \<Rightarrow> int store" where
  "Downtime_InitGenesis gen s =
     setGenDowntimes (Downtimes gen)
       (setGenDowntimes (Downtimes Downtime_DefaultGenesis) (StoreLastBlockTime (LastBlockTime gen) s))"

definition getGenDowntimes :: "int store \<Rightarrow> (Downtime \<times> int) list outcome" where
  "getGenDowntimes s =
     omap (\<lambda>downtime. obind (panic_on_err (GetLastDowntimeOfLength s downtime)) (\<lambda>t. Ok (downtime, t)))
       (map fst DowntimeToDuration)"

definition Downtime_ExportGenesis :: "int store \<Rightarrow> DowntimeGenesis outcome" where
  "Downtime_ExportGenesis s =
     obind (panic_on_err (GetLastBlockTime s)) (\<lambda>t.
     obind (getGenDowntimes s) (\<lambda>ds. Ok \<lparr>Downtimes = ds, LastBlockTime = t\<rparr>))"

section \<open>The table\<close>

lemmas time_defs = time_HourD_def time_Minute_def time_Second_def

lemma DowntimeToDuration_keys: "distinct (map fst DowntimeToDuration)" "\<And>d. d \<in> set (map fst DowntimeToDuration)"
proof -
  show "distinct (map fst DowntimeToDuration)" by (simp add: DowntimeToDuration_def)
  fix d
  show "d \<in> set (map fst DowntimeToDuration)" by (cases d) (simp_all add: DowntimeToDuration_def)
qed

lemma DowntimeToDuration_sorted: "sorted_wrt (<) (map snd DowntimeToDuration)"
  by (simp add: DowntimeToDuration_def time_defs)

lemma DowntimeToDuration_min: "\<forall>v \<in> set (map snd DowntimeToDuration). 30 * time_Second \<le> v"
  by (simp add: DowntimeToDuration_def time_defs)

definition downtime_length :: "Downtime \<Rightarrow> int" where
  "downtime_length d = the (map_of DowntimeToDuration d)"

lemma downtime_length_in: "(d, downtime_length d) \<in> set DowntimeToDuration"
proof -
  have "map_of DowntimeToDuration d \<noteq> None"
    using DowntimeToDuration_keys(2)[of d] by (simp add: map_of_eq_None_iff)
  then show ?thesis by (auto simp: downtime_length_def dest: map_of_SomeD)
qed

lemma Downtime_String_inj: "Downtime_String a = Downtime_String b \<longleftrightarrow> a = b"
proof -
  have "distinct (map Downtime_String (map fst DowntimeToDuration))" by (simp add: DowntimeToDuration_def)
  then have "inj_on Downtime_String (set (map fst DowntimeToDuration))" unfolding distinct_map by blast
  then show ?thesis using DowntimeToDuration_keys(2) inj_onD by metis
qed

lemma downtime_key_inj [simp]: "GetLastDowntimeOfLengthKey a = GetLastDowntimeOfLengthKey b \<longleftrightarrow> a = b"
  by (simp add: GetLastDowntimeOfLengthKey_def Downtime_String_inj)

lemma downtime_key_other [simp]:
  "GetLastDowntimeOfLengthKey a \<noteq> lastBlockTimestampKey" "lastBlockTimestampKey \<noteq> GetLastDowntimeOfLengthKey a"
  by (simp_all add: GetLastDowntimeOfLengthKey_def lastBlockTimestampKey_def)

section \<open>One block\<close>

lemma saveDowntimeUpdates_loop_get:
  assumes "store_ok s" "sorted_wrt (<) (map snd tab)"
  shows "store_ok (saveDowntimeUpdates_loop now dt tab s) \<and>
    store_get (saveDowntimeUpdates_loop now dt tab s) x =
      (if \<exists>(d, v) \<in> set tab. v \<le> dt \<and> x = GetLastDowntimeOfLengthKey d then Some now else store_get s x)"
  using assms
proof (induction now dt tab s rule: saveDowntimeUpdates_loop.induct)
  case (2 now dt d v tab s)
  show ?case
  proof (cases "dt < v")
    case True
    then have "\<forall>p \<in> set ((d, v) # tab). \<not> snd p \<le> dt" using 2(3) by auto
    with True 2(2) show ?thesis by fastforce
  next
    case False
    let ?s = "StoreLastDowntimeOfLength d now s"
    have ok: "store_ok ?s" using 2(2) by (simp add: StoreLastDowntimeOfLength_def store_set_ok)
    have g: "store_get ?s x = (if x = GetLastDowntimeOfLengthKey d then Some now else store_get s x)"
      using 2(2) by (simp add: StoreLastDowntimeOfLength_def store_get_set)
    from 2(1)[OF False ok] 2(3) False g show ?thesis by auto
  qed
qed simp

lemma time_Sub_ge: "downtime_length d \<le> time_Sub t u \<longleftrightarrow> downtime_length d \<le> t - u"
proof -
  have "\<forall>v \<in> set (map snd DowntimeToDuration). 0 < v \<and> v < 2 ^ 63 - 1"
    by (simp add: DowntimeToDuration_def time_defs)
  then have "0 < downtime_length d" "downtime_length d < 2 ^ 63 - 1"
    using downtime_length_in[of d] by force+
  then show ?thesis by (auto simp: time_Sub_def max_def min_def)
qed

lemma saveDowntimeUpdates_get:
  assumes "store_ok s"
  shows "store_ok (saveDowntimeUpdates now dt s)"
    and "store_get (saveDowntimeUpdates now dt s) lastBlockTimestampKey = store_get s lastBlockTimestampKey"
    and "store_get (saveDowntimeUpdates now dt s) (GetLastDowntimeOfLengthKey d) =
      (if downtime_length d \<le> dt then Some now else store_get s (GetLastDowntimeOfLengthKey d))"
proof -
  note l = saveDowntimeUpdates_loop_get[OF assms DowntimeToDuration_sorted, of now dt]
  show "store_ok (saveDowntimeUpdates now dt s)" using l assms by (simp add: saveDowntimeUpdates_def)
  show "store_get (saveDowntimeUpdates now dt s) lastBlockTimestampKey = store_get s lastBlockTimestampKey"
    using l[of lastBlockTimestampKey] by (simp add: saveDowntimeUpdates_def split_beta)
  have len: "(d, v) \<in> set DowntimeToDuration \<Longrightarrow> v = downtime_length d" for v
    unfolding downtime_length_def using map_of_is_SomeI[OF DowntimeToDuration_keys(1)] by (metis option.sel)
  have "(\<exists>(d', v) \<in> set DowntimeToDuration. v \<le> dt \<and> GetLastDowntimeOfLengthKey d = GetLastDowntimeOfLengthKey d')
      \<longleftrightarrow> downtime_length d \<le> dt"
    unfolding downtime_key_inj using downtime_length_in[of d] len by blast
  moreover have "30 * time_Second \<le> downtime_length d"
    using downtime_length_in[of d] DowntimeToDuration_min by force
  ultimately show "store_get (saveDowntimeUpdates now dt s) (GetLastDowntimeOfLengthKey d) =
      (if downtime_length d \<le> dt then Some now else store_get s (GetLastDowntimeOfLengthKey d))"
    using l[of "GetLastDowntimeOfLengthKey d"] by (simp add: saveDowntimeUpdates_def)
qed

lemma BeginBlock_get:
  assumes "store_ok s" "store_get s lastBlockTimestampKey = Some prev"
  shows "store_ok (BeginBlock t s)" "store_get (BeginBlock t s) lastBlockTimestampKey = Some t"
    "store_get (BeginBlock t s) (GetLastDowntimeOfLengthKey d) =
      (if downtime_length d \<le> t - prev then Some t else store_get s (GetLastDowntimeOfLengthKey d))"
  using assms saveDowntimeUpdates_get[OF assms(1)]
  by (simp_all add: BeginBlock_def GetLastBlockTime_def StoreLastBlockTime_def store_set_ok store_get_set time_Sub_ge)

section \<open>Genesis\<close>

lemma setGenDowntimes_get:
  assumes "store_ok s"
  shows "store_ok (setGenDowntimes ds s)"
    and "store_get (setGenDowntimes ds s) lastBlockTimestampKey = store_get s lastBlockTimestampKey"
    and "store_get (setGenDowntimes ds s) (GetLastDowntimeOfLengthKey d) =
      (case map_of (rev ds) d of None \<Rightarrow> store_get s (GetLastDowntimeOfLengthKey d) | Some t \<Rightarrow> Some t)"
proof -
  have "store_ok (setGenDowntimes ds s) \<and>
    store_get (setGenDowntimes ds s) lastBlockTimestampKey = store_get s lastBlockTimestampKey \<and>
    store_get (setGenDowntimes ds s) (GetLastDowntimeOfLengthKey d) =
      (case map_of (rev ds) d of None \<Rightarrow> store_get s (GetLastDowntimeOfLengthKey d) | Some t \<Rightarrow> Some t)"
    using assms
  proof (induction ds arbitrary: s)
    case (Cons p ds)
    obtain d' t where p: "p = (d', t)" by (cases p)
    have ok: "store_ok (StoreLastDowntimeOfLength d' t s)"
      using Cons.prems by (simp add: StoreLastDowntimeOfLength_def store_set_ok)
    from Cons.IH[OF ok] Cons.prems show ?case
      by (auto simp: p setGenDowntimes_def StoreLastDowntimeOfLength_def store_get_set map_add_def split: option.splits)
  qed (simp add: setGenDowntimes_def)
  then show "store_ok (setGenDowntimes ds s)"
    and "store_get (setGenDowntimes ds s) lastBlockTimestampKey = store_get s lastBlockTimestampKey"
    and "store_get (setGenDowntimes ds s) (GetLastDowntimeOfLengthKey d) =
      (case map_of (rev ds) d of None \<Rightarrow> store_get s (GetLastDowntimeOfLengthKey d) | Some t \<Rightarrow> Some t)"
    by blast+
qed

text \<open>The last downtime that a genesis state gives for a length: its own entry, or the default.\<close>

definition genesis_downtime :: "DowntimeGenesis \<Rightarrow> Downtime \<Rightarrow> int" where
  "genesis_downtime gen d = (case map_of (rev (Downtimes gen)) d of None \<Rightarrow> DefaultLastDowntime | Some t \<Rightarrow> t)"

lemma Downtime_InitGenesis_get:
  assumes "store_ok s"
  shows "store_ok (Downtime_InitGenesis gen s)"
    "store_get (Downtime_InitGenesis gen s) lastBlockTimestampKey = Some (LastBlockTime gen)"
    "store_get (Downtime_InitGenesis gen s) (GetLastDowntimeOfLengthKey d) = Some (genesis_downtime gen d)"
proof -
  let ?s = "StoreLastBlockTime (LastBlockTime gen) s"
  have ok: "store_ok ?s" using assms by (simp add: StoreLastBlockTime_def store_set_ok)
  have "map_of (rev (Downtimes Downtime_DefaultGenesis)) d = Some DefaultLastDowntime"
  proof -
    have "distinct (map fst (rev (Downtimes Downtime_DefaultGenesis)))"
      using DowntimeToDuration_keys(1) by (simp add: Downtime_DefaultGenesis_def rev_map[symmetric] comp_def)
    moreover have "(d, DefaultLastDowntime) \<in> set (rev (Downtimes Downtime_DefaultGenesis))"
      using DowntimeToDuration_keys(2)[of d] by (force simp: Downtime_DefaultGenesis_def)
    ultimately show ?thesis by simp
  qed
  then show "store_ok (Downtime_InitGenesis gen s)"
    "store_get (Downtime_InitGenesis gen s) lastBlockTimestampKey = Some (LastBlockTime gen)"
    "store_get (Downtime_InitGenesis gen s) (GetLastDowntimeOfLengthKey d) = Some (genesis_downtime gen d)"
    using assms setGenDowntimes_get[OF ok] setGenDowntimes_get[OF setGenDowntimes_get(1)[OF ok]]
    by (simp_all add: Downtime_InitGenesis_def genesis_downtime_def StoreLastBlockTime_def store_get_set
        split: option.split)
qed

text \<open>
  Exporting a freshly initialised genesis state succeeds and gives every known length exactly once,
  with the entry of the genesis state or the default, whether or not the genesis state was complete.
\<close>

theorem Downtime_Export_Init:
  "Downtime_ExportGenesis (Downtime_InitGenesis gen []) =
     Ok \<lparr>Downtimes = map (\<lambda>(d, v). (d, genesis_downtime gen d)) DowntimeToDuration, LastBlockTime = LastBlockTime gen\<rparr>"
proof -
  have ok: "store_ok ([] :: int store)" by (simp add: store_ok_def)
  have "getGenDowntimes (Downtime_InitGenesis gen []) = Ok (map (\<lambda>(d, v). (d, genesis_downtime gen d)) DowntimeToDuration)"
    unfolding getGenDowntimes_def omap_Ok_iff
    by (simp add: list_all2_map1 list_all2_map2 GetLastDowntimeOfLength_def Downtime_InitGenesis_get[OF ok] split_beta
        list_all2_same)
  then show ?thesis
    by (simp add: Downtime_ExportGenesis_def GetLastBlockTime_def Downtime_InitGenesis_get[OF ok])
qed

section \<open>A run of blocks\<close>

fun last_down :: "Downtime \<Rightarrow> int \<Rightarrow> int \<Rightarrow> int list \<Rightarrow> int" where
  "last_down d prev acc [] = acc"
| "last_down d prev acc (t # ts) = last_down d t (if downtime_length d \<le> t - prev then t else acc) ts"

lemma blocks_last_down:
  assumes "store_ok s" "store_get s lastBlockTimestampKey = Some prev"
    "store_get s (GetLastDowntimeOfLengthKey d) = Some acc"
  shows "store_get (fold BeginBlock ts s) (GetLastDowntimeOfLengthKey d) = Some (last_down d prev acc ts)"
  using assms
proof (induction ts arbitrary: s prev acc)
  case (Cons t ts)
  from BeginBlock_get[OF Cons.prems(1,2), of t] Cons.prems(3) show ?case
    using Cons.IH[of "BeginBlock t s" t "if downtime_length d \<le> t - prev then t else acc"] by simp
qed simp

lemma last_down_iff:
  assumes "sorted (prev # ts)" "acc \<le> prev"
  shows "last_down d prev acc ts + r \<le> now \<longleftrightarrow>
    acc + r \<le> now \<and> (\<forall>(p, t) \<in> set (zip (prev # ts) ts). downtime_length d \<le> t - p \<longrightarrow> t + r \<le> now)"
  using assms
proof (induction ts arbitrary: prev acc)
  case (Cons t ts)
  then have "sorted (t # ts)" "prev \<le> t" by auto
  then show ?case
    using Cons.IH[of t t] Cons.IH[of t acc] Cons.prems(2) by auto
qed simp

text \<open>
  C26 After genesis and any run of blocks with non-decreasing times, the chain counts as recovered from
  a downtime of a given length for a given duration exactly if that duration has passed since the
  downtime of the genesis state and since every gap of at least that length between two blocks. At the very end of the
  duration (\<open>t + r = now\<close>) the answer is yes, while the README asks for a time difference greater than the
  duration and the comment in \<^verbatim>\<open>query.go\<close> says that the duration has not been waited for at equality.
\<close>

theorem RecoveredSinceDowntime_correct:
  assumes "sorted (LastBlockTime gen # ts)" "genesis_downtime gen d \<le> LastBlockTime gen" "r \<noteq> 0"
  shows "RecoveredSinceDowntimeOfLength now (fold BeginBlock ts (Downtime_InitGenesis gen [])) d r =
    Ok (genesis_downtime gen d + r \<le> now \<and>
        (\<forall>(p, t) \<in> set (zip (LastBlockTime gen # ts) ts). downtime_length d \<le> t - p \<longrightarrow> t + r \<le> now))"
proof -
  have ok: "store_ok ([] :: int store)" by (simp add: store_ok_def)
  show ?thesis
    using assms(3) last_down_iff[OF assms(1,2), of d r now]
      blocks_last_down[OF Downtime_InitGenesis_get[OF ok, of gen], of ts d]
    by (auto simp: RecoveredSinceDowntimeOfLength_def GetLastDowntimeOfLength_def)
qed

theorem RecoveredSinceDowntime_correct_witness:
  "RecoveredSinceDowntimeOfLength 300000000000
     (fold BeginBlock [5000000000, 125000000000] (Downtime_InitGenesis Downtime_DefaultGenesis [])) Downtime_DURATION_2M 200000000000
   = Ok False"
  using RecoveredSinceDowntime_correct[of Downtime_DefaultGenesis "[5000000000, 125000000000]" Downtime_DURATION_2M
      200000000000 300000000000]
  by (simp add: Downtime_DefaultGenesis_def genesis_downtime_def DowntimeToDuration_def downtime_length_def time_defs
      DefaultLastDowntime_def)

text \<open>At the last instant of the recovery duration the chain counts as recovered.\<close>

lemma RecoveredSinceDowntime_at_equality:
  assumes "GetLastDowntimeOfLength s d = Ok t" "r \<noteq> 0"
  shows "RecoveredSinceDowntimeOfLength (t + r) s d r = Ok True" "RecoveredSinceDowntimeOfLength (t + r - 1) s d r = Ok False"
  using assms by (simp_all add: RecoveredSinceDowntimeOfLength_def)

text \<open>The lengths and the names of the table determine each other.\<close>

lemma DowntimeByDuration_length: "DowntimeByDuration (downtime_length d) = Ok d"
  by (cases d) (simp_all add: DowntimeByDuration_def downtime_length_def DowntimeToDuration_def time_defs)

end
