(* ===== verification/Accum.thy ===== *)
theory Accum
  imports KV_Store Big_Dec
begin

text \<open>
  \<^verbatim>\<open>src/osmoutils/accum\<close>: accumulators that share rewards among positions in constant time. The decimal
  numbers (\<^verbatim>\<open>sdk.Dec\<close>) and coin lists (\<^verbatim>\<open>sdk.DecCoins\<close>, \<^verbatim>\<open>sdk.Coins\<close>) of the SDK are a parameter: a record
  of the operations the code calls. The store is passed along explicitly; it holds accumulators and
  positions under separate keys. A call that returns an error has no new state: its caller discards
  the writes with the transaction.
\<close>

section \<open>Definitions\<close>

record ('d, 'c, 'i) sdk_lib =
  Dec_zero :: 'd
  Dec_Add :: "'d \<Rightarrow> 'd \<Rightarrow> 'd outcome"
  Dec_Sub :: "'d \<Rightarrow> 'd \<Rightarrow> 'd outcome"
  Dec_Neg :: "'d \<Rightarrow> 'd"
  Dec_IsZero :: "'d \<Rightarrow> bool"
  Dec_IsNegative :: "'d \<Rightarrow> bool"
  Dec_IsPositive :: "'d \<Rightarrow> bool"
  Dec_GT :: "'d \<Rightarrow> 'd \<Rightarrow> bool"
  NewDecCoins :: 'c
  DecCoins_Add :: "'c \<Rightarrow> 'c \<Rightarrow> 'c outcome"
  DecCoins_Sub :: "'c \<Rightarrow> 'c \<Rightarrow> 'c outcome"
  DecCoins_MulDec :: "'c \<Rightarrow> 'd \<Rightarrow> 'c outcome"
  DecCoins_IsAnyNegative :: "'c \<Rightarrow> bool"
  DecCoins_TruncateDecimal :: "'c \<Rightarrow> ('i \<times> 'c) outcome"
  NewDecCoinsFromCoins :: "'i \<Rightarrow> 'c"

record ('d, 'c) AccumulatorObject =
  name :: string
  valuePerShare :: 'c
  totalShares :: 'd

record ('d, 'c) AccumRecord =
  NumShares :: 'd
  AccumValuePerShare :: 'c
  UnclaimedRewardsTotal :: 'c
  Options :: "unit option"

datatype ('d, 'c) accum_entry =
  AccumulatorContent (AccumValue: 'c) (TotalShares: 'd)
| Position "('d, 'c) AccumRecord"

type_synonym ('d, 'c) accum_store = "('d, 'c) accum_entry store"

definition KeySeparator :: string where
  "KeySeparator = ''||''"

definition accumPrefixKey :: string where
  "accumPrefixKey = ''accum'' @ KeySeparator @ ''acc'' @ KeySeparator"

definition positionPrefixKey :: string where
  "positionPrefixKey = ''accum'' @ KeySeparator @ ''pos'' @ KeySeparator"

definition formatAccumPrefixKey :: "string \<Rightarrow> string" where
  "formatAccumPrefixKey accumName = accumPrefixKey @ accumName"

definition FormatPositionPrefixKey :: "string \<Rightarrow> string \<Rightarrow> string" where
  "FormatPositionPrefixKey accumName posName = positionPrefixKey @ accumName @ KeySeparator @ posName"

text \<open>Reading an accumulator or a position; an entry of the other kind cannot be decoded.\<close>

definition GetAccumulator :: "('d, 'c) accum_store \<Rightarrow> string \<Rightarrow> ('d, 'c) AccumulatorObject outcome" where
  "GetAccumulator accumStore accumName =
     (case store_get accumStore (formatAccumPrefixKey accumName) of
        None \<Rightarrow> Err ''Accumulator name does not exist in store''
      | Some (AccumulatorContent v s) \<Rightarrow> Ok \<lparr>name = accumName, valuePerShare = v, totalShares = s\<rparr>
      | Some (Position p) \<Rightarrow> Err ''unmarshal error'')"

definition GetPosition ::
  "('d, 'c) accum_store \<Rightarrow> ('d, 'c) AccumulatorObject \<Rightarrow> string \<Rightarrow> ('d, 'c) AccumRecord outcome" where
  "GetPosition s accum posName =
     (case store_get s (FormatPositionPrefixKey (name accum) posName) of
        None \<Rightarrow> Err ''no position found for position key''
      | Some (Position p) \<Rightarrow> Ok p
      | Some (AccumulatorContent _ _) \<Rightarrow> Err ''unmarshal error'')"

definition MustGetPosition ::
  "('d, 'c) accum_store \<Rightarrow> ('d, 'c) AccumulatorObject \<Rightarrow> string \<Rightarrow> ('d, 'c) AccumRecord outcome" where
  "MustGetPosition s accum posName =
     (case store_get s (FormatPositionPrefixKey (name accum) posName) of
        None \<Rightarrow> Panic ''getting at key should not have been nil''
      | Some (Position p) \<Rightarrow> Ok p
      | Some (AccumulatorContent _ _) \<Rightarrow> Panic ''unmarshal error'')"

definition HasPosition :: "('d, 'c) accum_store \<Rightarrow> ('d, 'c) AccumulatorObject \<Rightarrow> string \<Rightarrow> bool" where
  "HasPosition s accum posName = store_has s (FormatPositionPrefixKey (name accum) posName)"

definition GetPositionSize ::
  "('d, 'c) accum_store \<Rightarrow> ('d, 'c) AccumulatorObject \<Rightarrow> string \<Rightarrow> 'd outcome" where
  "GetPositionSize s accum posName = obind (GetPosition s accum posName) (\<lambda>position. Ok (NumShares position))"

definition setAccumulator ::
  "('d, 'c) AccumulatorObject \<Rightarrow> 'c \<Rightarrow> 'd \<Rightarrow> ('d, 'c) accum_store \<Rightarrow> ('d, 'c) accum_store outcome" where
  "setAccumulator accum v shares s =
     (if sublist KeySeparator (name accum) then Err ''Accumulator name cannot contain the separator''
      else Ok (store_set (formatAccumPrefixKey (name accum)) (AccumulatorContent v shares) s))"

definition MakeAccumulatorWithValueAndShare ::
  "('d, 'c) accum_store \<Rightarrow> string \<Rightarrow> 'c \<Rightarrow> 'd \<Rightarrow> ('d, 'c) accum_store outcome" where
  "MakeAccumulatorWithValueAndShare accumStore accumName accumValue shares =
     (if store_has accumStore (formatAccumPrefixKey accumName)
      then Err ''Accumulator with given name already exists in store''
      else setAccumulator \<lparr>name = accumName, valuePerShare = accumValue, totalShares = shares\<rparr> accumValue shares accumStore)"

definition MakeAccumulator ::
  "('d, 'c, 'i) sdk_lib \<Rightarrow> ('d, 'c) accum_store \<Rightarrow> string \<Rightarrow> ('d, 'c) accum_store outcome" where
  "MakeAccumulator L accumStore accumName =
     (if store_has accumStore (formatAccumPrefixKey accumName)
      then Err ''Accumulator with given name already exists in store''
      else setAccumulator \<lparr>name = accumName, valuePerShare = NewDecCoins L, totalShares = Dec_zero L\<rparr>
             (NewDecCoins L) (Dec_zero L) accumStore)"

definition initOrUpdatePosition ::
  "('d, 'c) AccumulatorObject \<Rightarrow> 'c \<Rightarrow> string \<Rightarrow> 'd \<Rightarrow> 'c \<Rightarrow> unit option \<Rightarrow> ('d, 'c) accum_store \<Rightarrow> ('d, 'c) accum_store" where
  "initOrUpdatePosition accum accumulatorValuePerShare index numShareUnits unclaimedRewardsTotal options s =
     store_set (FormatPositionPrefixKey (name accum) index)
       (Position \<lparr>NumShares = numShareUnits, AccumValuePerShare = accumulatorValuePerShare,
                  UnclaimedRewardsTotal = unclaimedRewardsTotal, Options = options\<rparr>) s"

definition GetTotalRewards ::
  "('d, 'c, 'i) sdk_lib \<Rightarrow> ('d, 'c) AccumulatorObject \<Rightarrow> ('d, 'c) AccumRecord \<Rightarrow> 'c outcome" where
  "GetTotalRewards L accum position =
     obind (DecCoins_Sub L (valuePerShare accum) (AccumValuePerShare position)) (\<lambda>diff.
     obind (DecCoins_MulDec L diff (NumShares position)) (\<lambda>accumulatorRewards.
       DecCoins_Add L (UnclaimedRewardsTotal position) accumulatorRewards))"

text \<open>
  The methods with a pointer receiver return the receiver and the store they leave. \<open>AddToAccumulator\<close>
  ignores the error of \<open>setAccumulator\<close>.
\<close>

definition AddToAccumulator ::
  "('d, 'c, 'i) sdk_lib \<Rightarrow> ('d, 'c) AccumulatorObject \<Rightarrow> 'c \<Rightarrow> ('d, 'c) accum_store \<Rightarrow>
     (('d, 'c) AccumulatorObject \<times> ('d, 'c) accum_store) outcome" where
  "AddToAccumulator L accum amt s =
     obind (DecCoins_Add L (valuePerShare accum) amt) (\<lambda>v.
       let accum1 = accum\<lparr>valuePerShare := v\<rparr>
       in Ok (accum1, case setAccumulator accum1 v (totalShares accum1) s of Ok s1 \<Rightarrow> s1 | _ \<Rightarrow> s))"

definition Options_validate :: "unit option \<Rightarrow> unit outcome" where
  "Options_validate opts = (if opts = None then Ok () else Ok ())"

definition NewPositionIntervalAccumulation ::
  "('d, 'c, 'i) sdk_lib \<Rightarrow> ('d, 'c) AccumulatorObject \<Rightarrow> string \<Rightarrow> 'd \<Rightarrow> 'c \<Rightarrow> unit option \<Rightarrow> ('d, 'c) accum_store \<Rightarrow>
     (('d, 'c) AccumulatorObject \<times> ('d, 'c) accum_store) outcome" where
  "NewPositionIntervalAccumulation L accum posName numShareUnits intervalAccumulationPerShare options s =
     obind (Options_validate options) (\<lambda>_.
       let s1 = initOrUpdatePosition accum intervalAccumulationPerShare posName numShareUnits (NewDecCoins L) options s
       in obind (GetAccumulator s1 (name accum)) (\<lambda>updatedAccum.
          obind (Dec_Add L (totalShares updatedAccum) numShareUnits) (\<lambda>total.
            let accum1 = accum\<lparr>totalShares := total\<rparr>
            in obind (setAccumulator accum1 (valuePerShare accum1) total s1) (\<lambda>s2. Ok (accum1, s2)))))"

definition NewPosition ::
  "('d, 'c, 'i) sdk_lib \<Rightarrow> ('d, 'c) AccumulatorObject \<Rightarrow> string \<Rightarrow> 'd \<Rightarrow> unit option \<Rightarrow> ('d, 'c) accum_store \<Rightarrow>
     (('d, 'c) AccumulatorObject \<times> ('d, 'c) accum_store) outcome" where
  "NewPosition L accum posName numShareUnits options s =
     NewPositionIntervalAccumulation L accum posName numShareUnits (valuePerShare accum) options s"

definition AddToPositionIntervalAccumulation ::
  "('d, 'c, 'i) sdk_lib \<Rightarrow> ('d, 'c) AccumulatorObject \<Rightarrow> string \<Rightarrow> 'd \<Rightarrow> 'c \<Rightarrow> ('d, 'c) accum_store \<Rightarrow>
     (('d, 'c) AccumulatorObject \<times> ('d, 'c) accum_store) outcome" where
  "AddToPositionIntervalAccumulation L accum posName newShares intervalAccumulationPerShare s =
     (if \<not> Dec_IsPositive L newShares then Err ''Attempted to add zero or negative number of shares to a position''
      else obind (GetPosition s accum posName) (\<lambda>position.
           obind (GetTotalRewards L accum position) (\<lambda>unclaimedRewards.
           obind (GetPositionSize s accum posName) (\<lambda>oldNumShares.
           obind (Dec_Add L oldNumShares newShares) (\<lambda>sum.
             let s1 = initOrUpdatePosition accum intervalAccumulationPerShare posName sum unclaimedRewards (Options position) s
             in obind (GetAccumulator s1 (name accum)) (\<lambda>updatedAccum.
                obind (Dec_Add L (totalShares updatedAccum) newShares) (\<lambda>total.
                  let accum1 = accum\<lparr>totalShares := total\<rparr>
                  in obind (setAccumulator accum1 (valuePerShare accum1) total s1) (\<lambda>s2. Ok (accum1, s2)))))))))"

definition AddToPosition ::
  "('d, 'c, 'i) sdk_lib \<Rightarrow> ('d, 'c) AccumulatorObject \<Rightarrow> string \<Rightarrow> 'd \<Rightarrow> ('d, 'c) accum_store \<Rightarrow>
     (('d, 'c) AccumulatorObject \<times> ('d, 'c) accum_store) outcome" where
  "AddToPosition L accum posName newShares s =
     AddToPositionIntervalAccumulation L accum posName newShares (valuePerShare accum) s"

definition RemoveFromPositionIntervalAccumulation ::
  "('d, 'c, 'i) sdk_lib \<Rightarrow> ('d, 'c) AccumulatorObject \<Rightarrow> string \<Rightarrow> 'd \<Rightarrow> 'c \<Rightarrow> ('d, 'c) accum_store \<Rightarrow>
     (('d, 'c) AccumulatorObject \<times> ('d, 'c) accum_store) outcome" where
  "RemoveFromPositionIntervalAccumulation L accum posName numSharesToRemove intervalAccumulationPerShare s =
     (if \<not> Dec_IsPositive L numSharesToRemove then Err ''Attempted to remove no/negative shares''
      else obind (GetPosition s accum posName) (\<lambda>position.
        if Dec_GT L numSharesToRemove (NumShares position)
        then Err ''Attempted to remove more shares than exist in the position''
        else obind (GetTotalRewards L accum position) (\<lambda>unclaimedRewards.
             obind (GetPositionSize s accum posName) (\<lambda>oldNumShares.
             obind (Dec_Sub L oldNumShares numSharesToRemove) (\<lambda>diff.
               let s1 = initOrUpdatePosition accum intervalAccumulationPerShare posName diff unclaimedRewards (Options position) s
               in obind (GetAccumulator s1 (name accum)) (\<lambda>updatedAccum.
                  obind (Dec_Sub L (totalShares updatedAccum) numSharesToRemove) (\<lambda>total.
                    let accum1 = accum\<lparr>totalShares := total\<rparr>
                    in obind (setAccumulator accum1 (valuePerShare accum1) total s1) (\<lambda>s2. Ok (accum1, s2)))))))))"

definition RemoveFromPosition ::
  "('d, 'c, 'i) sdk_lib \<Rightarrow> ('d, 'c) AccumulatorObject \<Rightarrow> string \<Rightarrow> 'd \<Rightarrow> ('d, 'c) accum_store \<Rightarrow>
     (('d, 'c) AccumulatorObject \<times> ('d, 'c) accum_store) outcome" where
  "RemoveFromPosition L accum posName numSharesToRemove s =
     RemoveFromPositionIntervalAccumulation L accum posName numSharesToRemove (valuePerShare accum) s"

definition UpdatePositionIntervalAccumulation ::
  "('d, 'c, 'i) sdk_lib \<Rightarrow> ('d, 'c) AccumulatorObject \<Rightarrow> string \<Rightarrow> 'd \<Rightarrow> 'c \<Rightarrow> ('d, 'c) accum_store \<Rightarrow>
     (('d, 'c) AccumulatorObject \<times> ('d, 'c) accum_store) outcome" where
  "UpdatePositionIntervalAccumulation L accum posName numShares intervalAccumulationPerShare s =
     (if Dec_IsZero L numShares then Err ''shares must be non-zero''
      else if Dec_IsNegative L numShares
      then RemoveFromPositionIntervalAccumulation L accum posName (Dec_Neg L numShares) intervalAccumulationPerShare s
      else AddToPositionIntervalAccumulation L accum posName numShares intervalAccumulationPerShare s)"

definition UpdatePosition ::
  "('d, 'c, 'i) sdk_lib \<Rightarrow> ('d, 'c) AccumulatorObject \<Rightarrow> string \<Rightarrow> 'd \<Rightarrow> ('d, 'c) accum_store \<Rightarrow>
     (('d, 'c) AccumulatorObject \<times> ('d, 'c) accum_store) outcome" where
  "UpdatePosition L accum posName numShares s =
     UpdatePositionIntervalAccumulation L accum posName numShares (valuePerShare accum) s"

definition SetPositionIntervalAccumulation ::
  "('d, 'c) AccumulatorObject \<Rightarrow> string \<Rightarrow> 'c \<Rightarrow> ('d, 'c) accum_store \<Rightarrow> ('d, 'c) accum_store outcome" where
  "SetPositionIntervalAccumulation accum posName intervalAccumulationPerShare s =
     obind (GetPosition s accum posName) (\<lambda>position.
       Ok (initOrUpdatePosition accum intervalAccumulationPerShare posName (NumShares position)
             (UnclaimedRewardsTotal position) (Options position) s))"

definition deletePosition :: "('d, 'c) AccumulatorObject \<Rightarrow> string \<Rightarrow> ('d, 'c) accum_store \<Rightarrow> ('d, 'c) accum_store" where
  "deletePosition accum positionName s = store_delete (FormatPositionPrefixKey (name accum) positionName) s"

definition ClaimRewards ::
  "('d, 'c, 'i) sdk_lib \<Rightarrow> ('d, 'c) AccumulatorObject \<Rightarrow> string \<Rightarrow> ('d, 'c) accum_store \<Rightarrow>
     ('i \<times> 'c \<times> ('d, 'c) accum_store) outcome" where
  "ClaimRewards L accum positionName s =
     (case GetPosition s accum positionName of
        Err e \<Rightarrow> Err ''no position found for position key''
      | Panic p \<Rightarrow> Panic p
      | Ok position \<Rightarrow>
          obind (GetTotalRewards L accum position) (\<lambda>totalRewards.
          obind (DecCoins_TruncateDecimal L totalRewards) (\<lambda>(truncatedRewardsTotal, dust).
            Ok (truncatedRewardsTotal, dust,
                if Dec_IsZero L (NumShares position) then deletePosition accum positionName s
                else initOrUpdatePosition accum (valuePerShare accum) positionName (NumShares position)
                       (NewDecCoins L) (Options position) s))))"

definition DeletePosition ::
  "('d, 'c, 'i) sdk_lib \<Rightarrow> ('d, 'c) AccumulatorObject \<Rightarrow> string \<Rightarrow> ('d, 'c) accum_store \<Rightarrow>
     ('c \<times> ('d, 'c) AccumulatorObject \<times> ('d, 'c) accum_store) outcome" where
  "DeletePosition L accum positionName s =
     obind (GetPosition s accum positionName) (\<lambda>position.
     obind (ClaimRewards L accum positionName s) (\<lambda>(remainingRewards, dust, s1).
       let s2 = store_delete (FormatPositionPrefixKey (name accum) positionName) s1
       in obind (Dec_Sub L (totalShares accum) (NumShares position)) (\<lambda>total.
            let accum1 = accum\<lparr>totalShares := total\<rparr>
            in obind (setAccumulator accum1 (valuePerShare accum1) total s2) (\<lambda>s3.
               obind (DecCoins_Add L (NewDecCoinsFromCoins L remainingRewards) dust) (\<lambda>rewards.
                 Ok (rewards, accum1, s3))))))"

definition AddToUnclaimedRewards ::
  "('d, 'c, 'i) sdk_lib \<Rightarrow> ('d, 'c) AccumulatorObject \<Rightarrow> string \<Rightarrow> 'c \<Rightarrow> ('d, 'c) accum_store \<Rightarrow>
     ('d, 'c) accum_store outcome" where
  "AddToUnclaimedRewards L accum positionName rewardsToAddTotal s =
     obind (GetPosition s accum positionName) (\<lambda>position.
       if DecCoins_IsAnyNegative L rewardsToAddTotal
       then Err ''Attempted to add negative rewards to position of the accumulator''
       else obind (DecCoins_Add L (UnclaimedRewardsTotal position) rewardsToAddTotal) (\<lambda>total.
              Ok (initOrUpdatePosition accum (AccumValuePerShare position) positionName (NumShares position)
                    total (Options position) s)))"

section \<open>Keys\<close>

lemma accum_key_not_position [simp]:
  "formatAccumPrefixKey a \<noteq> FormatPositionPrefixKey b x" "FormatPositionPrefixKey b x \<noteq> formatAccumPrefixKey a"
  by (simp_all add: formatAccumPrefixKey_def FormatPositionPrefixKey_def accumPrefixKey_def positionPrefixKey_def
      KeySeparator_def)

lemma position_key_inj [simp]: "FormatPositionPrefixKey a x = FormatPositionPrefixKey a y \<longleftrightarrow> x = y"
  by (simp add: FormatPositionPrefixKey_def)

lemma accum_key_inj [simp]: "formatAccumPrefixKey a = formatAccumPrefixKey b \<longleftrightarrow> a = b"
  by (simp add: formatAccumPrefixKey_def)

text \<open>Splitting at the first separator: it cannot start earlier in another reading of the same text.\<close>

lemma separator_split:
  assumes "a @ ''||'' @ x = b @ ''||'' @ y" "length a < length b"
  shows "b = a @ ''|'' \<or> sublist ''||'' b"
proof -
  obtain c where c: "b = a @ c"
    using assms by (auto simp: append_eq_append_conv2)
  with assms have "''||'' @ x = c @ ''||'' @ y" "c \<noteq> []" by auto
  then obtain d where d: "c = CHR ''|'' # d" "CHR ''|'' # x = d @ ''||'' @ y" by (cases c) auto
  show ?thesis
  proof (cases d)
    case Nil
    with c d show ?thesis by simp
  next
    case (Cons h e)
    with d have "c = ''||'' @ e" by simp
    then show ?thesis using c by (auto simp: sublist_def)
  qed
qed

text \<open>
  The keys of positions of two accumulators are different if no accumulator name contains the
  separator, which \<open>setAccumulator\<close> checks, and none ends in a vertical bar, which it does not
  check. The second condition is needed: the names \<open>a|\<close> and \<open>a\<close> share keys.
\<close>

theorem FormatPositionPrefixKey_inj:
  "(\<forall>a b x y. \<not> sublist KeySeparator a \<longrightarrow> \<not> sublist KeySeparator b \<longrightarrow>
      (a = [] \<or> last a \<noteq> CHR ''|'') \<longrightarrow> (b = [] \<or> last b \<noteq> CHR ''|'') \<longrightarrow>
      FormatPositionPrefixKey a x = FormatPositionPrefixKey b y \<longrightarrow> a = b \<and> x = y) \<and>
   FormatPositionPrefixKey ''a|'' ''x'' = FormatPositionPrefixKey ''a'' ''|x''"
proof (intro conjI allI impI)
  fix a b x y
  assume sep: "\<not> sublist KeySeparator a" "\<not> sublist KeySeparator b"
    and bar: "a = [] \<or> last a \<noteq> CHR ''|''" "b = [] \<or> last b \<noteq> CHR ''|''"
    and eq: "FormatPositionPrefixKey a x = FormatPositionPrefixKey b y"
  from eq have e: "a @ ''||'' @ x = b @ ''||'' @ y" by (simp add: FormatPositionPrefixKey_def KeySeparator_def)
  have "\<not> length a < length b" using separator_split[OF e] sep bar by (auto simp: KeySeparator_def)
  moreover have "\<not> length b < length a" using separator_split[OF e[symmetric]] sep bar by (auto simp: KeySeparator_def)
  ultimately have "length a = length b" by simp
  with e show "a = b" "x = y" by simp_all
qed (simp add: FormatPositionPrefixKey_def KeySeparator_def)

theorem FormatPositionPrefixKey_inj_witness:
  "FormatPositionPrefixKey ''fee/1'' ''alice'' \<noteq> FormatPositionPrefixKey ''fee/12'' ''alice''"
proof -
  have "\<not> sublist KeySeparator ''fee/1''" "\<not> sublist KeySeparator ''fee/12''" by code_simp+
  with FormatPositionPrefixKey_inj[THEN conjunct1, rule_format, of "''fee/1''" "''fee/12''" "''alice''" "''alice''"]
  show ?thesis by auto
qed

section \<open>Shares are conserved\<close>

text \<open>The shares of the positions of an accumulator, with \<open>val\<close> reading a decimal as a number.\<close>

definition shares_at :: "('d \<Rightarrow> int) \<Rightarrow> string \<Rightarrow> string \<times> ('d, 'c) accum_entry \<Rightarrow> int" where
  "shares_at val a = (\<lambda>(k, e). case e of
     Position p \<Rightarrow> if prefix (FormatPositionPrefixKey a []) k then val (NumShares p) else 0
   | AccumulatorContent _ _ \<Rightarrow> 0)"

definition shares_sum :: "('d \<Rightarrow> int) \<Rightarrow> ('d, 'c) accum_store \<Rightarrow> string \<Rightarrow> int" where
  "shares_sum val s a = sum_list (map (shares_at val a) s)"

text \<open>The shares of the position that a new one of the same name replaces.\<close>

definition overwritten :: "('d, 'c) accum_store \<Rightarrow> ('d, 'c) AccumulatorObject \<Rightarrow> string \<Rightarrow> 'd list" where
  "overwritten s accum posName =
     (case store_get s (FormatPositionPrefixKey (name accum) posName) of Some (Position p) \<Rightarrow> [NumShares p] | _ \<Rightarrow> [])"

text \<open>What the code relies on of the decimals: additions and subtractions that return are exact.\<close>

locale dec_shares =
  fixes L :: "('d, 'c, 'i) sdk_lib" and val :: "'d \<Rightarrow> int"
  assumes val_zero: "val (Dec_zero L) = 0"
    and val_Add: "Dec_Add L x y = Ok z \<Longrightarrow> val z = val x + val y"
    and val_Sub: "Dec_Sub L x y = Ok z \<Longrightarrow> val z = val x - val y"
    and val_IsZero: "Dec_IsZero L x \<longleftrightarrow> val x = 0"
begin

text \<open>
  The total that an accumulator stores is the sum of the shares of its positions, up to an excess \<open>d\<close>; in a
  consistent store there is none.
\<close>

definition shares_off :: "int \<Rightarrow> string \<Rightarrow> ('d, 'c) accum_store \<Rightarrow> bool" where
  "shares_off d a s \<longleftrightarrow> store_ok s \<and>
     (\<exists>v t. store_get s (formatAccumPrefixKey a) = Some (AccumulatorContent v t) \<and> val t = shares_sum val s a + d)"

definition shares_inv :: "string \<Rightarrow> ('d, 'c) accum_store \<Rightarrow> bool" where
  "shares_inv a s \<longleftrightarrow> store_ok s \<and>
     (\<exists>v t. store_get s (formatAccumPrefixKey a) = Some (AccumulatorContent v t) \<and> val t = shares_sum val s a)"

lemma shares_inv_off: "shares_inv a s \<longleftrightarrow> shares_off 0 a s"
  by (simp add: shares_inv_def shares_off_def)

lemma shares_at_position [simp]:
  "shares_at val a (FormatPositionPrefixKey a x, Position p) = val (NumShares p)"
  by (simp add: shares_at_def FormatPositionPrefixKey_def)

lemma shares_at_content [simp]: "shares_at val a (k, AccumulatorContent v t) = 0"
  by (simp add: shares_at_def)

lemma shares_sum_setAccumulator:
  assumes "store_ok s" "setAccumulator acc v t s = Ok s'"
    and "store_get s (formatAccumPrefixKey (name acc)) = Some (AccumulatorContent w u)"
  shows "store_ok s' \<and> store_get s' (formatAccumPrefixKey (name acc)) = Some (AccumulatorContent v t) \<and>
    shares_sum val s' a = shares_sum val s a"
  using assms by (auto simp: setAccumulator_def shares_sum_def sum_store_set store_set_ok store_get_set split: if_splits)

lemma shares_sum_position:
  assumes "store_ok s"
  shows "store_ok (initOrUpdatePosition acc v x n r opt s) \<and>
    store_get (initOrUpdatePosition acc v x n r opt s) (formatAccumPrefixKey (name acc))
      = store_get s (formatAccumPrefixKey (name acc)) \<and>
    shares_sum val (initOrUpdatePosition acc v x n r opt s) (name acc) = shares_sum val s (name acc) + val n -
      (case store_get s (FormatPositionPrefixKey (name acc) x) of
         Some (Position p) \<Rightarrow> val (NumShares p) | _ \<Rightarrow> 0)"
  using assms
  by (auto simp: initOrUpdatePosition_def shares_sum_def sum_store_set store_set_ok store_get_set
      split: option.splits accum_entry.splits)

lemma shares_sum_delete:
  assumes "store_ok s"
  shows "store_ok (store_delete (FormatPositionPrefixKey a x) s) \<and>
    store_get (store_delete (FormatPositionPrefixKey a x) s) (formatAccumPrefixKey a) = store_get s (formatAccumPrefixKey a) \<and>
    shares_sum val (store_delete (FormatPositionPrefixKey a x) s) a = shares_sum val s a -
      (case store_get s (FormatPositionPrefixKey a x) of Some (Position p) \<Rightarrow> val (NumShares p) | _ \<Rightarrow> 0)"
  using assms
  by (auto simp: shares_sum_def sum_store_delete store_delete_ok store_get_delete split: option.splits accum_entry.splits)

lemma GetPosition_Ok: "GetPosition s acc x = Ok p \<longleftrightarrow> store_get s (FormatPositionPrefixKey (name acc) x) = Some (Position p)"
  by (auto simp: GetPosition_def split: option.splits accum_entry.splits)

lemma GetAccumulator_Ok:
  "GetAccumulator s a = Ok acc \<longleftrightarrow>
     name acc = a \<and> store_get s (formatAccumPrefixKey a) = Some (AccumulatorContent (valuePerShare acc) (totalShares acc))"
  by (cases acc) (auto simp: GetAccumulator_def split: option.splits accum_entry.splits)

text \<open>A position write with a matching write of the total keeps the invariant.\<close>

lemma shares_off_update:
  assumes "shares_off d (name acc) s"
    and "GetAccumulator (initOrUpdatePosition acc v x n r opt s) (name acc) = Ok upd"
    and "val t = val (totalShares upd) + val n + e -
      (case store_get s (FormatPositionPrefixKey (name acc) x) of Some (Position p) \<Rightarrow> val (NumShares p) | _ \<Rightarrow> 0)"
    and "name acc1 = name acc" and "setAccumulator acc1 w t (initOrUpdatePosition acc v x n r opt s) = Ok s'"
  shows "shares_off (d + e) (name acc) s'"
proof -
  let ?s = "initOrUpdatePosition acc v x n r opt s"
  have ok: "store_ok s" using assms(1) by (simp add: shares_off_def)
  note p = shares_sum_position[OF ok, of acc v x n r opt]
  have g: "store_get ?s (formatAccumPrefixKey (name acc1)) = Some (AccumulatorContent (valuePerShare upd) (totalShares upd))"
    using assms(2,4) by (simp add: GetAccumulator_Ok)
  have "val (totalShares upd) = shares_sum val s (name acc) + d"
    using assms(1,4) p g by (auto simp: shares_off_def)
  moreover have "store_ok ?s" using p by blast
  ultimately show ?thesis
    using shares_sum_setAccumulator[OF _ assms(5) g, of "name acc"] p assms(3,4) by (simp add: shares_off_def)
qed

lemmas op_defs = NewPositionIntervalAccumulation_def AddToPositionIntervalAccumulation_def
  RemoveFromPositionIntervalAccumulation_def GetPositionSize_def go_simps Let_def

lemma NewPosition_shares:
  assumes "shares_off d (name acc) s"
    and "NewPositionIntervalAccumulation L acc x n v opt s = Ok (acc', s')"
  shows "shares_off (d + sum_list (map val (overwritten s acc x))) (name acc) s'"
proof -
  obtain upd t where u: "GetAccumulator (initOrUpdatePosition acc v x n (NewDecCoins L) opt s) (name acc) = Ok upd"
    "Dec_Add L (totalShares upd) n = Ok t"
    "setAccumulator (acc\<lparr>totalShares := t\<rparr>) (valuePerShare acc) t (initOrUpdatePosition acc v x n (NewDecCoins L) opt s) = Ok s'"
    using assms(2) by (auto simp: op_defs)
  from val_Add[OF u(2)] show ?thesis
    by (intro shares_off_update[OF assms(1) u(1) _ _ u(3)]) (simp_all add: overwritten_def split: option.split accum_entry.split)
qed

lemma AddToPosition_shares:
  assumes "shares_off d (name acc) s" "AddToPositionIntervalAccumulation L acc x n v s = Ok (acc', s')"
  shows "shares_off d (name acc) s'"
proof -
  obtain p r m upd t where u: "GetPosition s acc x = Ok p" "Dec_Add L (NumShares p) n = Ok m"
    "GetAccumulator (initOrUpdatePosition acc v x m r (Options p) s) (name acc) = Ok upd"
    "Dec_Add L (totalShares upd) n = Ok t"
    "setAccumulator (acc\<lparr>totalShares := t\<rparr>) (valuePerShare acc) t (initOrUpdatePosition acc v x m r (Options p) s) = Ok s'"
    using assms(2) by (auto simp: op_defs split: if_splits)
  with val_Add[OF u(2)] val_Add[OF u(4)] show ?thesis
    using shares_off_update[OF assms(1) u(3) _ _ u(5), of 0] by (simp add: GetPosition_Ok)
qed

lemma RemoveFromPosition_shares:
  assumes "shares_off d (name acc) s" "RemoveFromPositionIntervalAccumulation L acc x n v s = Ok (acc', s')"
  shows "shares_off d (name acc) s'"
proof -
  obtain p r m upd t where u: "GetPosition s acc x = Ok p" "Dec_Sub L (NumShares p) n = Ok m"
    "GetAccumulator (initOrUpdatePosition acc v x m r (Options p) s) (name acc) = Ok upd"
    "Dec_Sub L (totalShares upd) n = Ok t"
    "setAccumulator (acc\<lparr>totalShares := t\<rparr>) (valuePerShare acc) t (initOrUpdatePosition acc v x m r (Options p) s) = Ok s'"
    using assms(2) by (auto simp: op_defs split: if_splits)
  with val_Sub[OF u(2)] val_Sub[OF u(4)] show ?thesis
    using shares_off_update[OF assms(1) u(3) _ _ u(5), of 0] by (simp add: GetPosition_Ok)
qed

lemma UpdatePosition_shares:
  assumes "shares_off d (name acc) s" "UpdatePositionIntervalAccumulation L acc x n v s = Ok (acc', s')"
  shows "shares_off d (name acc) s'"
proof -
  have "RemoveFromPositionIntervalAccumulation L acc x (Dec_Neg L n) v s = Ok (acc', s') \<or>
      AddToPositionIntervalAccumulation L acc x n v s = Ok (acc', s')"
    using assms(2) by (simp add: UpdatePositionIntervalAccumulation_def split: if_splits)
  then show ?thesis using AddToPosition_shares[OF assms(1)] RemoveFromPosition_shares[OF assms(1)] by blast
qed

text \<open>A new position over an old one: the total is not reduced by the old shares.\<close>

lemma NewPosition_overwrite:
  assumes "shares_inv (name acc) s" "GetPosition s acc x = Ok old"
    and "NewPositionIntervalAccumulation L acc x n v opt s = Ok (acc', s')"
  shows "\<exists>w t. store_get s' (formatAccumPrefixKey (name acc)) = Some (AccumulatorContent w t) \<and>
    val t = shares_sum val s' (name acc) + val (NumShares old)"
  using NewPosition_shares[OF assms(1)[unfolded shares_inv_off] assms(3)] assms(2)
  by (auto simp: shares_off_def overwritten_def GetPosition_Ok)

text \<open>Rewriting a position with the shares it has keeps the invariant.\<close>

lemma same_shares:
  assumes "shares_off d (name acc) s" "GetPosition s acc x = Ok p"
  shows "shares_off d (name acc) (initOrUpdatePosition acc v x (NumShares p) r opt s)"
proof -
  have "store_ok s" using assms(1) by (simp add: shares_off_def)
  from shares_sum_position[OF this, of acc v x "NumShares p" r opt] assms show ?thesis
    by (auto simp: shares_off_def GetPosition_Ok)
qed

lemma ClaimRewards_shares:
  assumes "shares_off d (name acc) s" "ClaimRewards L acc x s = Ok (i, r, s')"
  shows "shares_off d (name acc) s'"
proof -
  obtain p where p: "GetPosition s acc x = Ok p"
    "s' = (if Dec_IsZero L (NumShares p) then deletePosition acc x s
           else initOrUpdatePosition acc (valuePerShare acc) x (NumShares p) (NewDecCoins L) (Options p) s)"
    using assms(2) by (auto simp: ClaimRewards_def go_simps split: outcome.splits)
  show ?thesis
  proof (cases "Dec_IsZero L (NumShares p)")
    case True
    have ok: "store_ok s" using assms(1) by (simp add: shares_off_def)
    have "val (NumShares p) = 0" using True val_IsZero by simp
    with True p assms(1) shares_sum_delete[OF ok, of "name acc" x] show ?thesis
      by (auto simp: shares_off_def deletePosition_def GetPosition_Ok)
  next
    case False
    with p assms(1) same_shares[OF assms(1) p(1)] show ?thesis by simp
  qed
qed

lemma AddToAccumulator_shares:
  assumes "shares_off d (name acc) s" "GetAccumulator s (name acc) = Ok acc" "AddToAccumulator L acc c s = Ok (acc', s')"
  shows "shares_off d (name acc) s'"
proof -
  obtain v where v: "s' = (case setAccumulator (acc\<lparr>valuePerShare := v\<rparr>) v (totalShares acc) s of Ok s1 \<Rightarrow> s1 | _ \<Rightarrow> s)"
    using assms(3) by (auto simp: AddToAccumulator_def go_simps Let_def)
  have ok: "store_ok s" using assms(1) by (simp add: shares_off_def)
  have g: "store_get s (formatAccumPrefixKey (name (acc\<lparr>valuePerShare := v\<rparr>)))
      = Some (AccumulatorContent (valuePerShare acc) (totalShares acc))"
    using assms(2) by (simp add: GetAccumulator_Ok)
  show ?thesis
  proof (cases "setAccumulator (acc\<lparr>valuePerShare := v\<rparr>) v (totalShares acc) s")
    case (Ok s1)
    from shares_sum_setAccumulator[OF ok this g] Ok v assms(1) g show ?thesis by (auto simp: shares_off_def)
  qed (use v assms(1) in simp_all)
qed

text \<open>
  \<open>DeletePosition\<close> takes the total from its receiver, so it needs one that is up to date. Claiming
  first removes or rewrites the position, and the deletion then removes what is left of it.
\<close>

lemma DeletePosition_shares:
  assumes "shares_off d (name acc) s" "GetAccumulator s (name acc) = Ok acc" "DeletePosition L acc x s = Ok (r, acc', s')"
  shows "shares_off d (name acc) s'"
proof -
  obtain p i rd s1 t where u: "GetPosition s acc x = Ok p" "ClaimRewards L acc x s = Ok (i, rd, s1)"
    "Dec_Sub L (totalShares acc) (NumShares p) = Ok t"
    "setAccumulator (acc\<lparr>totalShares := t\<rparr>) (valuePerShare acc) t
       (store_delete (FormatPositionPrefixKey (name acc) x) s1) = Ok s'"
    using assms(3) by (auto simp: DeletePosition_def go_simps Let_def)
  have ok: "store_ok s" using assms(1) by (simp add: shares_off_def)
  have s1: "s1 = (if Dec_IsZero L (NumShares p) then deletePosition acc x s
           else initOrUpdatePosition acc (valuePerShare acc) x (NumShares p) (NewDecCoins L) (Options p) s)"
    using u(1,2) by (auto simp: ClaimRewards_def go_simps)
  let ?k = "FormatPositionPrefixKey (name acc) x"
  have "store_delete ?k s1 = store_delete ?k s"
    using s1 ok by (intro store_ext) (auto simp: deletePosition_def initOrUpdatePosition_def store_delete_ok
        store_set_ok store_get_delete store_get_set)
  note del = shares_sum_delete[OF ok, of "name acc" x]
  have g: "store_get (store_delete ?k s) (formatAccumPrefixKey (name (acc\<lparr>totalShares := t\<rparr>)))
      = Some (AccumulatorContent (valuePerShare acc) (totalShares acc))"
    using assms(2) del by (simp add: GetAccumulator_Ok)
  have "val (totalShares acc) = shares_sum val s (name acc) + d"
    using assms(1,2) by (auto simp: shares_off_def GetAccumulator_Ok)
  then show ?thesis
    using shares_sum_setAccumulator[OF _ u(4)[unfolded \<open>store_delete ?k s1 = store_delete ?k s\<close>] g, of "name acc"]
      del val_Sub[OF u(3)] u(1) by (simp add: shares_off_def GetPosition_Ok)
qed

end

text \<open>A step on the accumulator \<open>a\<close>: one call on an object that was just read from the store. The step
  lists the shares of the position that the call overwrites.\<close>

inductive accum_step :: "('d, 'c, 'i) sdk_lib \<Rightarrow> string \<Rightarrow> ('d, 'c) accum_store \<Rightarrow> 'd list \<Rightarrow> ('d, 'c) accum_store \<Rightarrow> bool"
  for L a where
  add_value: "GetAccumulator s a = Ok acc \<Longrightarrow> AddToAccumulator L acc c s = Ok (acc', s') \<Longrightarrow> accum_step L a s [] s'"
| new_position: "GetAccumulator s a = Ok acc \<Longrightarrow>
    NewPositionIntervalAccumulation L acc x n v opt s = Ok (acc', s') \<Longrightarrow> accum_step L a s (overwritten s acc x) s'"
| add_shares: "GetAccumulator s a = Ok acc \<Longrightarrow>
    AddToPositionIntervalAccumulation L acc x n v s = Ok (acc', s') \<Longrightarrow> accum_step L a s [] s'"
| remove_shares: "GetAccumulator s a = Ok acc \<Longrightarrow>
    RemoveFromPositionIntervalAccumulation L acc x n v s = Ok (acc', s') \<Longrightarrow> accum_step L a s [] s'"
| update_shares: "GetAccumulator s a = Ok acc \<Longrightarrow>
    UpdatePositionIntervalAccumulation L acc x n v s = Ok (acc', s') \<Longrightarrow> accum_step L a s [] s'"
| set_position: "GetAccumulator s a = Ok acc \<Longrightarrow>
    SetPositionIntervalAccumulation acc x v s = Ok s' \<Longrightarrow> accum_step L a s [] s'"
| claim: "GetAccumulator s a = Ok acc \<Longrightarrow> ClaimRewards L acc x s = Ok (i, d, s') \<Longrightarrow> accum_step L a s [] s'"
| delete: "GetAccumulator s a = Ok acc \<Longrightarrow> DeletePosition L acc x s = Ok (r, acc', s') \<Longrightarrow> accum_step L a s [] s'"
| add_rewards: "GetAccumulator s a = Ok acc \<Longrightarrow> AddToUnclaimedRewards L acc x c s = Ok s' \<Longrightarrow> accum_step L a s [] s'"

text \<open>The stores that calls reach from \<open>s0\<close>, with the shares of all positions overwritten on the way.\<close>

inductive accum_reach :: "('d, 'c, 'i) sdk_lib \<Rightarrow> string \<Rightarrow> ('d, 'c) accum_store \<Rightarrow> 'd list \<Rightarrow> ('d, 'c) accum_store \<Rightarrow> bool"
  for L a s0 where
  start: "accum_reach L a s0 [] s0"
| step: "accum_reach L a s0 lost s \<Longrightarrow> accum_step L a s lost1 s' \<Longrightarrow> accum_reach L a s0 (lost @ lost1) s'"

context dec_shares
begin

lemma accum_step_shares:
  "accum_step L a s lost s' \<Longrightarrow> shares_off d a s \<Longrightarrow> shares_off (d + sum_list (map val lost)) a s'"
proof (induction rule: accum_step.induct)
  case (add_value s acc c acc' s')
  then show ?case using AddToAccumulator_shares[of d acc s c acc' s'] by (simp add: GetAccumulator_Ok)
next
  case (new_position s acc x n v opt acc' s')
  then show ?case using NewPosition_shares[of d acc s x n v opt acc' s'] by (simp add: GetAccumulator_Ok)
next
  case (add_shares s acc x n v acc' s')
  then show ?case using AddToPosition_shares[of d acc s x n v acc' s'] by (simp add: GetAccumulator_Ok)
next
  case (remove_shares s acc x n v acc' s')
  then show ?case using RemoveFromPosition_shares[of d acc s x n v acc' s'] by (simp add: GetAccumulator_Ok)
next
  case (update_shares s acc x n v acc' s')
  then show ?case using UpdatePosition_shares[of d acc s x n v acc' s'] by (simp add: GetAccumulator_Ok)
next
  case (set_position s acc x v s')
  then show ?case using same_shares[of d acc s x]
    by (auto simp: SetPositionIntervalAccumulation_def go_simps GetAccumulator_Ok)
next
  case (claim s acc x i r s')
  then show ?case using ClaimRewards_shares[of d acc s x i r s'] by (simp add: GetAccumulator_Ok)
next
  case (delete s acc x r acc' s')
  then show ?case using DeletePosition_shares[of d acc s x r acc' s'] by (simp add: GetAccumulator_Ok)
next
  case (add_rewards s acc x c s')
  then show ?case using same_shares[of d acc s x]
    by (auto simp: AddToUnclaimedRewards_def go_simps GetAccumulator_Ok split: if_splits)
qed

lemma MakeAccumulator_shares:
  assumes "store_ok s" "\<forall>(k, e) \<in> set s. \<not> prefix (FormatPositionPrefixKey a []) k" "MakeAccumulator L s a = Ok s'"
  shows "shares_inv a s'"
proof -
  have s': "s' = store_set (formatAccumPrefixKey a) (AccumulatorContent (NewDecCoins L) (Dec_zero L)) s"
    and n: "store_get s (formatAccumPrefixKey a) = None"
    using assms(3) by (auto simp: MakeAccumulator_def setAccumulator_def store_has_def split: if_splits)
  have "map (shares_at val a) s = map (\<lambda>_. 0) s"
    using assms(2) by (intro map_cong) (auto simp: shares_at_def split: accum_entry.splits)
  then have "shares_sum val s a = 0" unfolding shares_sum_def by (simp only: sum_list_0)
  with s' n assms(1) show ?thesis
    by (simp add: shares_inv_def shares_sum_def sum_store_set store_set_ok store_get_set val_zero)
qed

lemma reachable_shares:
  assumes "MakeAccumulator L [] a = Ok s0" "accum_reach L a s0 lost s"
  shows "shares_off (sum_list (map val lost)) a s"
  using assms(2)
proof (induction rule: accum_reach.induct)
  case start
  show ?case using MakeAccumulator_shares[OF _ _ assms(1)] by (simp add: store_ok_def flip: shares_inv_off)
next
  case (step lost s lost1 s')
  then show ?case using accum_step_shares by fastforce
qed

end

text \<open>
  C6 In every state that calls on an accumulator can reach from its creation, when each call is made on an object that
  was read from the store, the total it stores is the sum of the shares of its positions and of the shares of
  all positions that were overwritten by new ones of the same name on the way. So the total is the sum of the
  shares as long as no position is overwritten, and never again after one with shares was. The decimals are any
  implementation whose additions and subtractions are exact.
\<close>

theorem accumulator_shares_conserved:
  assumes "dec_shares L val" "MakeAccumulator L [] a = Ok s0" "accum_reach L a s0 lost s"
  shows "\<exists>v t. store_get s (formatAccumPrefixKey a) = Some (AccumulatorContent v t) \<and>
    val t = shares_sum val s a + sum_list (map val lost)"
  using dec_shares.reachable_shares[OF assms] dec_shares.shares_off_def[OF assms(1)] by metis

section \<open>Rewards\<close>

text \<open>
  The coin lists as elements of a commutative group: sums and differences that return are exact, the
  product with a decimal is some function of both, and truncation splits a list into whole coins and
  dust.
\<close>

locale dec_rewards = dec_shares L val for L :: "('d, 'c, 'i) sdk_lib" and val :: "'d \<Rightarrow> int" +
  fixes cval :: "'c \<Rightarrow> 'm::ab_group_add" and ival :: "'i \<Rightarrow> 'm" and cmul :: "'m \<Rightarrow> int \<Rightarrow> 'm"
  assumes cval_New: "cval (NewDecCoins L) = 0"
    and cval_Add: "DecCoins_Add L x y = Ok z \<Longrightarrow> cval z = cval x + cval y"
    and cval_Sub: "DecCoins_Sub L x y = Ok z \<Longrightarrow> cval z = cval x - cval y"
    and cval_MulDec: "DecCoins_MulDec L x d = Ok z \<Longrightarrow> cval z = cmul (cval x) (val d)"
    and cval_Truncate: "DecCoins_TruncateDecimal L x = Ok (i, dust) \<Longrightarrow> ival i + cval dust = cval x"
    and cval_FromCoins: "cval (NewDecCoinsFromCoins L i) = ival i"
begin

lemma GetTotalRewards_value:
  assumes "GetTotalRewards L acc p = Ok r"
  shows "cval r = cval (UnclaimedRewardsTotal p) + cmul (cval (valuePerShare acc) - cval (AccumValuePerShare p)) (val (NumShares p))"
  using assms by (auto simp: GetTotalRewards_def go_simps cval_Add cval_Sub cval_MulDec)

lemma ClaimRewards_value:
  assumes "GetPosition s acc x = Ok p" "ClaimRewards L acc x s = Ok (i, d, s')"
  shows "ival i + cval d =
    cval (UnclaimedRewardsTotal p) + cmul (cval (valuePerShare acc) - cval (AccumValuePerShare p)) (val (NumShares p))"
proof -
  obtain r where "GetTotalRewards L acc p = Ok r" "DecCoins_TruncateDecimal L r = Ok (i, d)"
    using assms by (auto simp: ClaimRewards_def go_simps)
  then show ?thesis using GetTotalRewards_value cval_Truncate by metis
qed

lemma AddToAccumulator_effect:
  assumes "store_ok s" "AddToAccumulator L acc c s = Ok (acc', s')"
  shows "store_ok s' \<and> name acc' = name acc \<and> cval (valuePerShare acc') = cval (valuePerShare acc) + cval c \<and>
    GetPosition s' acc' x = GetPosition s acc x"
  using assms
  by (auto simp: AddToAccumulator_def setAccumulator_def go_simps Let_def cval_Add store_set_ok store_get_set GetPosition_def
      split: if_splits)

lemma AddToAccumulator_run:
  assumes "store_ok s" "ofold (\<lambda>c (acc, s). AddToAccumulator L acc c s) cs (acc, s) = Ok (acc', s')"
  shows "store_ok s' \<and> name acc' = name acc \<and>
    cval (valuePerShare acc') = cval (valuePerShare acc) + sum_list (map cval cs) \<and> GetPosition s' acc' x = GetPosition s acc x"
  using assms
proof (induction cs arbitrary: acc s)
  case (Cons c cs)
  then obtain acc1 s1 where a: "AddToAccumulator L acc c s = Ok (acc1, s1)"
    "ofold (\<lambda>c (acc, s). AddToAccumulator L acc c s) cs (acc1, s1) = Ok (acc', s')"
    by (auto simp: go_simps)
  from AddToAccumulator_effect[OF Cons.prems(1) a(1), of x] Cons.IH[OF _ a(2)] show ?case
    by (simp add: add.assoc)
qed simp

lemma NewPosition_effect:
  assumes "store_ok s" "NewPosition L acc x n opt s = Ok (acc', s')"
  shows "store_ok s' \<and> name acc' = name acc \<and> valuePerShare acc' = valuePerShare acc \<and>
    GetPosition s' acc' x = Ok \<lparr>NumShares = n, AccumValuePerShare = valuePerShare acc,
      UnclaimedRewardsTotal = NewDecCoins L, Options = opt\<rparr>"
  using assms
  by (auto simp: NewPosition_def NewPositionIntervalAccumulation_def initOrUpdatePosition_def setAccumulator_def go_simps
      Let_def store_set_ok store_get_set GetPosition_def split: if_splits)

lemma earned:
  assumes "store_ok s" "NewPosition L acc x n opt s = Ok (acc1, s1)"
    and "ofold (\<lambda>c (acc, s). AddToAccumulator L acc c s) cs (acc1, s1) = Ok (acc2, s2)"
    and "ClaimRewards L acc2 x s2 = Ok (i, d, s3)"
  shows "ival i + cval d = cmul (sum_list (map cval cs)) (val n)"
proof -
  note n = NewPosition_effect[OF assms(1,2)]
  then have "store_ok s1" by blast
  note a = AddToAccumulator_run[OF this assms(3), of x]
  with n have p: "GetPosition s2 acc2 x = Ok \<lparr>NumShares = n, AccumValuePerShare = valuePerShare acc,
      UnclaimedRewardsTotal = NewDecCoins L, Options = opt\<rparr>" by simp
  from ClaimRewards_value[OF p assms(4)] n a show ?thesis by (simp add: cval_New)
qed

end

text \<open>
  C27 What a position earns: the whole coins and the dust that a claim returns are together the shares
  of the position times what was added to the accumulator since it was created, for any number of
  additions. The SDK's decimals and coins are any implementation with exact sums and differences.
\<close>

theorem ClaimRewards_earned:
  assumes "dec_rewards L val cval ival cmul" "store_ok s"
    and "NewPosition L acc x n opt s = Ok (acc1, s1)"
    and "ofold (\<lambda>c (acc, s). AddToAccumulator L acc c s) cs (acc1, s1) = Ok (acc2, s2)"
    and "ClaimRewards L acc2 x s2 = Ok (i, d, s3)"
  shows "ival i + cval d = cmul (sum_list (map cval cs)) (val n)"
  by (rule dec_rewards.earned[OF assms])

section \<open>The laws hold for the 36-digit decimals\<close>

text \<open>Lists with one denomination, with its amount as a \<open>BigDec\<close>.\<close>

definition bigdec_lib :: "(BigDec, BigDec, BigInt) sdk_lib" where
  "bigdec_lib = \<lparr>Dec_zero = ZeroDec, Dec_Add = BigDec_Add, Dec_Sub = BigDec_Sub, Dec_Neg = BigDec_Neg,
     Dec_IsZero = BigDec_IsZero, Dec_IsNegative = BigDec_IsNegative, Dec_IsPositive = BigDec_IsPositive,
     Dec_GT = BigDec_GT, NewDecCoins = ZeroDec, DecCoins_Add = BigDec_Add, DecCoins_Sub = BigDec_Sub,
     DecCoins_MulDec = BigDec_Mul, DecCoins_IsAnyNegative = BigDec_IsNegative,
     DecCoins_TruncateDecimal = (\<lambda>c. obind (BigDec_TruncateInt c) (\<lambda>i. obind (BigDec_TruncateDec c) (\<lambda>t.
        obind (BigDec_Sub c t) (\<lambda>d. Ok (i, d))))),
     NewDecCoinsFromCoins = (\<lambda>i. i * precisionReuse)\<rparr>"

lemma BigDec_TruncateInt_Ok: "BigDec_TruncateInt d = Ok i \<Longrightarrow> i = chopPrecisionAndTruncate d"
  by (auto simp: BigDec_TruncateInt_def NewIntFromBigInt_def deref_def go_simps split: if_splits option.splits)

interpretation bd: dec_rewards bigdec_lib "\<lambda>d. d" "\<lambda>c. c" "\<lambda>i. i * precisionReuse" "\<lambda>c d. chopPrecisionAndRound (c * d)"
  by unfold_locales
     (auto simp: bigdec_lib_def ZeroDec_def big_simps big_dec.add_Ok_iff big_dec.sub_Ok_iff mul.mul_Ok_iff go_simps
        BigDec_TruncateDec_def dest: BigDec_TruncateInt_Ok)

text \<open>An accumulator with one position of five shares, step by step.\<close>

definition example_accum :: "(BigDec, BigDec) AccumulatorObject" where
  "example_accum = \<lparr>name = ''fee'', valuePerShare = 0, totalShares = 0\<rparr>"

definition example_store :: "(BigDec, BigDec) accum_store" where
  "example_store = [(formatAccumPrefixKey ''fee'', AccumulatorContent 0 0)]"

lemma fee_no_separator: "\<not> sublist KeySeparator ''fee''"
  by code_simp

lemma example_store_ok: "store_ok example_store"
  by (simp add: example_store_def store_ok_def)

lemma example_Make: "MakeAccumulator bigdec_lib [] ''fee'' = Ok example_store"
  by (simp add: MakeAccumulator_def store_has_def store_get_def setAccumulator_def fee_no_separator example_store_def
      bigdec_lib_def ZeroDec_def)

lemma example_NewPosition:
  "\<exists>s. NewPosition bigdec_lib example_accum ''bob'' (5 * 10 ^ 36) None example_store
     = Ok (example_accum\<lparr>totalShares := 5 * 10 ^ 36\<rparr>, s)"
proof -
  have "BigDec_Add 0 (5 * 10 ^ 36) = Ok (5 * 10 ^ 36)"
    by (simp add: big_dec.add_Ok_iff in_bits_def maxDecBitLen_def maxBitLen_def DecimalPrecisionBits_def)
  moreover have "store_get (store_set (FormatPositionPrefixKey ''fee'' x) e example_store) (formatAccumPrefixKey ''fee'')
      = Some (AccumulatorContent 0 0)" for x e
    by (simp add: store_get_set example_store_ok) (simp add: example_store_def store_get_def)
  ultimately show ?thesis
    by (simp add: NewPosition_def NewPositionIntervalAccumulation_def Options_validate_def initOrUpdatePosition_def
        GetAccumulator_def setAccumulator_def example_accum_def fee_no_separator bigdec_lib_def)
qed

lemma example_ClaimRewards:
  "\<exists>s1 acc2 s2 i d s3. NewPosition bigdec_lib example_accum ''bob'' (5 * 10 ^ 36) None example_store
       = Ok (example_accum\<lparr>totalShares := 5 * 10 ^ 36\<rparr>, s1) \<and>
     ofold (\<lambda>c (acc, s). AddToAccumulator bigdec_lib acc c s) [2 * 10 ^ 35]
       (example_accum\<lparr>totalShares := 5 * 10 ^ 36\<rparr>, s1) = Ok (acc2, s2) \<and>
     ClaimRewards bigdec_lib acc2 ''bob'' s2 = Ok (i, d, s3)"
proof -
  let ?acc = "example_accum\<lparr>totalShares := 5 * 10 ^ 36\<rparr>" and ?acc2 = "example_accum\<lparr>totalShares := 5 * 10 ^ 36, valuePerShare := 2 * 10 ^ 35\<rparr>"
  obtain s1 where n: "NewPosition bigdec_lib example_accum ''bob'' (5 * 10 ^ 36) None example_store = Ok (?acc, s1)"
    using example_NewPosition by blast
  have b: "in_bits maxDecBitLen (2 * 10 ^ 35)" "in_bits maxDecBitLen (10 ^ 36)"
    by (simp_all add: in_bits_def maxDecBitLen_def maxBitLen_def DecimalPrecisionBits_def)
  have "BigDec_Add 0 (2 * 10 ^ 35) = Ok (2 * 10 ^ 35)" using b by (simp add: big_dec.add_Ok_iff)
  then have a: "AddToAccumulator bigdec_lib ?acc (2 * 10 ^ 35) s1
      = Ok (?acc2, store_set (formatAccumPrefixKey ''fee'') (AccumulatorContent (2 * 10 ^ 35) (5 * 10 ^ 36)) s1)"
    by (simp add: AddToAccumulator_def setAccumulator_def example_accum_def fee_no_separator bigdec_lib_def Let_def)
  let ?s2 = "store_set (formatAccumPrefixKey ''fee'') (AccumulatorContent (2 * 10 ^ 35) (5 * 10 ^ 36)) s1"
  let ?p = "\<lparr>NumShares = 5 * 10 ^ 36, AccumValuePerShare = 0, UnclaimedRewardsTotal = 0, Options = None\<rparr>"
  have p: "GetPosition ?s2 ?acc2 ''bob'' = Ok ?p"
    using bd.NewPosition_effect[OF example_store_ok n]
    by (simp add: GetPosition_def store_get_set example_accum_def bigdec_lib_def ZeroDec_def)
  have "chopPrecisionAndRound (2 * 10 ^ 35 * (5 * 10 ^ 36)) = 10 ^ 36"
    using bankers.chop_exact[of "10 ^ 36"] by (simp add: precisionReuse_eq)
  then have "BigDec_Mul (2 * 10 ^ 35) (5 * 10 ^ 36) = Ok (10 ^ 36)" using b by (simp add: mul.mul_Ok_iff)
  then have "GetTotalRewards bigdec_lib ?acc2 ?p = Ok (10 ^ 36)"
    using b by (simp add: GetTotalRewards_def bigdec_lib_def example_accum_def big_dec.add_Ok_iff big_dec.sub_Ok_iff go_simps)
  moreover have "DecCoins_TruncateDecimal bigdec_lib (10 ^ 36) = Ok (1, 0)"
    by (simp add: bigdec_lib_def BigDec_TruncateInt_def BigDec_TruncateDec_def big_simps chopPrecisionAndTruncate_def
        precisionReuse_eq NewIntFromBigInt_def deref_def big_dec.sub_Ok_iff quo_def go_simps maxBitLen_def)
  ultimately have "\<exists>i d s3. ClaimRewards bigdec_lib ?acc2 ''bob'' ?s2 = Ok (i, d, s3)"
    unfolding ClaimRewards_def p by simp
  then show ?thesis using n a by auto
qed

theorem ClaimRewards_earned_witness:
  "\<exists>acc2 s2 i d s3. ClaimRewards bigdec_lib acc2 ''bob'' s2 = Ok (i, d, s3) \<and>
     i * precisionReuse + d = chopPrecisionAndRound (2 * 10 ^ 35 * (5 * 10 ^ 36))"
proof -
  obtain s1 acc2 s2 i d s3 where
    n: "NewPosition bigdec_lib example_accum ''bob'' (5 * 10 ^ 36) None example_store
       = Ok (example_accum\<lparr>totalShares := 5 * 10 ^ 36\<rparr>, s1)"
    and a: "ofold (\<lambda>c (acc, s). AddToAccumulator bigdec_lib acc c s) [2 * 10 ^ 35]
       (example_accum\<lparr>totalShares := 5 * 10 ^ 36\<rparr>, s1) = Ok (acc2, s2)"
    and c: "ClaimRewards bigdec_lib acc2 ''bob'' s2 = Ok (i, d, s3)"
    using example_ClaimRewards by blast
  have "i * precisionReuse + d = chopPrecisionAndRound (2 * 10 ^ 35 * (5 * 10 ^ 36))"
    using ClaimRewards_earned[OF bd.dec_rewards_axioms example_store_ok n a c] by simp
  with c show ?thesis by blast
qed

section \<open>Overwriting a position\<close>

text \<open>
  C37 Creating a position under a name that is in use replaces the position but adds the new shares to
  the total without taking the old ones off: from a consistent store the total then exceeds the sum
  of the shares of the positions by the old position's shares.
\<close>

theorem NewPosition_overwrite_total:
  assumes "dec_shares L val" "dec_shares.shares_inv val (name acc) s" "GetPosition s acc x = Ok old"
    and "NewPositionIntervalAccumulation L acc x n v opt s = Ok (acc', s')"
  shows "\<exists>w t. store_get s' (formatAccumPrefixKey (name acc)) = Some (AccumulatorContent w t) \<and>
    val t = shares_sum val s' (name acc) + val (NumShares old)"
  by (rule dec_shares.NewPosition_overwrite[OF assms])

lemma example_shares_inv: "bd.shares_inv ''fee'' example_store"
  using bd.MakeAccumulator_shares[OF _ _ example_Make] by (simp add: store_ok_def)

lemma bigdec_NewPosition_Ok:
  assumes "store_ok s" "name acc = ''fee''" "store_get s (formatAccumPrefixKey ''fee'') = Some (AccumulatorContent w t)"
    "in_bits maxDecBitLen (t + n)"
  shows "\<exists>r. NewPositionIntervalAccumulation bigdec_lib acc x n v opt s = Ok r"
  using assms
  by (simp add: NewPositionIntervalAccumulation_def Options_validate_def initOrUpdatePosition_def GetAccumulator_def
      store_get_set setAccumulator_def fee_no_separator bigdec_lib_def Let_def big_dec.add_Ok_iff go_simps)

text \<open>The position of five shares, overwritten by an empty one.\<close>

lemma example_overwrite:
  "\<exists>s acc' s'. NewPosition bigdec_lib example_accum ''bob'' (5 * 10 ^ 36) None example_store
       = Ok (example_accum\<lparr>totalShares := 5 * 10 ^ 36\<rparr>, s) \<and>
     NewPositionIntervalAccumulation bigdec_lib (example_accum\<lparr>totalShares := 5 * 10 ^ 36\<rparr>) ''bob'' 0 0 None s = Ok (acc', s') \<and>
     GetAccumulator s ''fee'' = Ok (example_accum\<lparr>totalShares := 5 * 10 ^ 36\<rparr>) \<and>
     overwritten s (example_accum\<lparr>totalShares := 5 * 10 ^ 36\<rparr>) ''bob'' = [5 * 10 ^ 36] \<and>
     bd.shares_inv ''fee'' s"
proof -
  let ?acc = "example_accum\<lparr>totalShares := 5 * 10 ^ 36\<rparr>"
  obtain s where n: "NewPosition bigdec_lib example_accum ''bob'' (5 * 10 ^ 36) None example_store = Ok (?acc, s)"
    using example_NewPosition by blast
  have nm: "name ?acc = ''fee''" "name example_accum = ''fee''" by (simp_all add: example_accum_def)
  have "overwritten example_store example_accum ''bob'' = []"
    by (simp add: overwritten_def example_store_def store_get_def)
  then have inv: "bd.shares_inv ''fee'' s"
    using bd.NewPosition_shares[of 0 example_accum example_store "''bob''"] n example_shares_inv nm
    by (simp add: NewPosition_def bd.shares_inv_off)
  note e = bd.NewPosition_effect[OF example_store_ok n]
  have w: "store_get s (formatAccumPrefixKey ''fee'') = Some (AccumulatorContent 0 (5 * 10 ^ 36))"
    using n by (auto simp: NewPosition_def NewPositionIntervalAccumulation_def setAccumulator_def go_simps Let_def
        example_accum_def initOrUpdatePosition_def store_get_set example_store_ok store_set_ok split: if_splits)
  moreover have "in_bits maxDecBitLen (5 * 10 ^ 36 + 0)"
    by (simp add: in_bits_def maxDecBitLen_def maxBitLen_def DecimalPrecisionBits_def)
  ultimately obtain acc' s' where m: "NewPositionIntervalAccumulation bigdec_lib ?acc ''bob'' 0 0 None s = Ok (acc', s')"
    using bigdec_NewPosition_Ok[of s ?acc 0 "5 * 10 ^ 36" 0 "''bob''" 0 None] nm e by auto
  have "GetAccumulator s ''fee'' = Ok ?acc" using w by (simp add: GetAccumulator_def example_accum_def)
  moreover have "overwritten s ?acc ''bob'' = [5 * 10 ^ 36]"
    using e by (auto simp: overwritten_def GetPosition_def split: option.splits accum_entry.splits)
  ultimately show ?thesis using n m inv by blast
qed

theorem accumulator_shares_conserved_witness:
  "\<exists>s v t. accum_reach bigdec_lib ''fee'' example_store [5 * 10 ^ 36] s \<and>
     store_get s (formatAccumPrefixKey ''fee'') = Some (AccumulatorContent v t) \<and> t = shares_sum (\<lambda>d. d) s ''fee'' + 5 * 10 ^ 36"
proof -
  let ?acc = "example_accum\<lparr>totalShares := 5 * 10 ^ 36\<rparr>"
  obtain s acc' s' where s: "NewPosition bigdec_lib example_accum ''bob'' (5 * 10 ^ 36) None example_store = Ok (?acc, s)"
    "NewPositionIntervalAccumulation bigdec_lib ?acc ''bob'' 0 0 None s = Ok (acc', s')"
    "GetAccumulator s ''fee'' = Ok ?acc" "overwritten s ?acc ''bob'' = [5 * 10 ^ 36]"
    using example_overwrite by blast
  have "GetAccumulator example_store ''fee'' = Ok example_accum"
    by (simp add: GetAccumulator_def example_store_def store_get_def example_accum_def)
  then have "accum_step bigdec_lib ''fee'' example_store (overwritten example_store example_accum ''bob'') s"
    using s(1) by (intro accum_step.new_position) (simp_all add: NewPosition_def)
  moreover have "overwritten example_store example_accum ''bob'' = []"
    by (simp add: overwritten_def example_store_def store_get_def)
  ultimately have "accum_reach bigdec_lib ''fee'' example_store [] s"
    using accum_reach.step[OF accum_reach.start] by fastforce
  moreover have "accum_step bigdec_lib ''fee'' s [5 * 10 ^ 36] s'"
    using accum_step.new_position[OF s(3,2)] s(4) by simp
  ultimately have "accum_reach bigdec_lib ''fee'' example_store [5 * 10 ^ 36] s'"
    using accum_reach.step by fastforce
  with accumulator_shares_conserved[OF bd.dec_shares_axioms example_Make this] show ?thesis by auto
qed

theorem NewPosition_overwrite_total_witness:
  "\<exists>acc s acc' s' w t. NewPosition bigdec_lib example_accum ''bob'' (5 * 10 ^ 36) None example_store = Ok (acc, s) \<and>
     NewPositionIntervalAccumulation bigdec_lib acc ''bob'' 0 0 None s = Ok (acc', s') \<and>
     store_get s' (formatAccumPrefixKey ''fee'') = Some (AccumulatorContent w t) \<and>
     t = shares_sum (\<lambda>d. d) s' ''fee'' + 5 * 10 ^ 36"
proof -
  let ?acc = "example_accum\<lparr>totalShares := 5 * 10 ^ 36\<rparr>"
  obtain s acc' s' where s: "NewPosition bigdec_lib example_accum ''bob'' (5 * 10 ^ 36) None example_store = Ok (?acc, s)"
    "NewPositionIntervalAccumulation bigdec_lib ?acc ''bob'' 0 0 None s = Ok (acc', s')" "bd.shares_inv ''fee'' s"
    using example_overwrite by blast
  have nm: "name ?acc = ''fee''" by (simp add: example_accum_def)
  note e = bd.NewPosition_effect[OF example_store_ok s(1)]
  from NewPosition_overwrite_total[OF bd.dec_shares_axioms _ conjunct2[OF conjunct2[OF conjunct2[OF e]]] s(2)] s nm
  show ?thesis by fastforce
qed

end
