(* ===== verification/Rate_Limiter.thy ===== *)
theory Rate_Limiter
  imports Prelude "HOL-Library.Sublist"
begin

text \<open>
  \<^verbatim>\<open>src/x/ibc-rate-limit/contracts/rate-limiter/src\<close>: the contract that the middleware asks before it
  lets a transfer pass. Amounts are unsigned 256-bit and times unsigned 64-bit (nanoseconds): numbers
  with the saturation or the panic of the operator that the code uses. The hash of a denomination and
  the supply query of the chain are arguments. A failed call has no new state, since the host discards
  its writes; the attributes of responses and the numbers in error messages are left out.
\<close>

section \<open>Numbers\<close>

definition u256_max :: nat where "u256_max = 2 ^ 256 - 1"

definition u256_saturating_add :: "nat \<Rightarrow> nat \<Rightarrow> nat" where
  "u256_saturating_add a b = min (a + b) u256_max"

definition u256_add :: "nat \<Rightarrow> nat \<Rightarrow> nat outcome" where
  "u256_add a b = (if a + b > u256_max then Panic ''attempt to add with overflow'' else Ok (a + b))"

definition u256_mul :: "nat \<Rightarrow> nat \<Rightarrow> nat outcome" where
  "u256_mul a b = (if a * b > u256_max then Panic ''attempt to multiply with overflow'' else Ok (a * b))"

definition plus_seconds :: "nat \<Rightarrow> nat \<Rightarrow> nat outcome" where
  "plus_seconds t d =
     (if t + d * 1000000000 > 2 ^ 64 - 1 then Panic ''attempt to add with overflow'' else Ok (t + d * 1000000000))"

section \<open>State (\<^verbatim>\<open>state.rs\<close>)\<close>

record Path =
  path_denom :: string
  path_channel :: string

datatype FlowType = In | Out

record Flow =
  inflow :: nat
  outflow :: nat
  period_end :: nat

record Quota =
  quota_name :: string
  max_percentage_send :: nat
  max_percentage_recv :: nat
  duration :: nat
  channel_value :: "nat option"

record RateLimit =
  quota :: Quota
  flow :: Flow

record QuotaMsg =
  msg_name :: string
  msg_duration :: nat
  msg_send_recv :: "nat \<times> nat"

definition Flow_new :: "nat \<Rightarrow> nat \<Rightarrow> nat \<Rightarrow> nat \<Rightarrow> Flow outcome" where
  "Flow_new i out now dur =
     obind (plus_seconds now dur) (\<lambda>e. Ok \<lparr>inflow = i, outflow = out, period_end = e\<rparr>)"

text \<open>Subtraction of naturals saturates at zero, as \<^verbatim>\<open>saturating_sub\<close> does.\<close>

definition balance :: "Flow \<Rightarrow> nat \<times> nat" where
  "balance f = (inflow f - outflow f, outflow f - inflow f)"

definition exceeds :: "Flow \<Rightarrow> FlowType \<Rightarrow> nat \<Rightarrow> nat \<Rightarrow> bool" where
  "exceeds f direction max_inflow max_outflow =
     (let (balance_in, balance_out) = balance f
      in case direction of In \<Rightarrow> balance_in > max_inflow | Out \<Rightarrow> balance_out > max_outflow)"

definition balance_on :: "Flow \<Rightarrow> FlowType \<Rightarrow> nat" where
  "balance_on f direction =
     (let (balance_in, balance_out) = balance f in case direction of In \<Rightarrow> balance_in | Out \<Rightarrow> balance_out)"

definition is_expired :: "Flow \<Rightarrow> nat \<Rightarrow> bool" where
  "is_expired f now \<longleftrightarrow> period_end f < now"

definition expire :: "Flow \<Rightarrow> nat \<Rightarrow> nat \<Rightarrow> Flow outcome" where
  "expire f now dur = obind (plus_seconds now dur) (\<lambda>e. Ok (f\<lparr>inflow := 0, outflow := 0, period_end := e\<rparr>))"

definition add_flow :: "Flow \<Rightarrow> FlowType \<Rightarrow> nat \<Rightarrow> Flow" where
  "add_flow f direction value =
     (case direction of
        In \<Rightarrow> f\<lparr>inflow := u256_saturating_add (inflow f) value\<rparr>
      | Out \<Rightarrow> f\<lparr>outflow := u256_saturating_add (outflow f) value\<rparr>)"

definition undo_flow :: "Flow \<Rightarrow> FlowType \<Rightarrow> nat \<Rightarrow> Flow" where
  "undo_flow f direction value =
     (case direction of
        In \<Rightarrow> f\<lparr>inflow := inflow f - value\<rparr> | Out \<Rightarrow> f\<lparr>outflow := outflow f - value\<rparr>)"

definition apply_transfer :: "Flow \<Rightarrow> FlowType \<Rightarrow> nat \<Rightarrow> nat \<Rightarrow> Quota \<Rightarrow> (Flow \<times> bool) outcome" where
  "apply_transfer f direction funds now q =
     obind (if is_expired f now then obind (expire f now (duration q)) (\<lambda>g. Ok (g, True)) else Ok (f, False)) (\<lambda>(g, expired).
       Ok (add_flow g direction funds, expired))"

definition capacity :: "Quota \<Rightarrow> (nat \<times> nat) outcome" where
  "capacity q =
     (case channel_value q of
        Some total_value \<Rightarrow>
          obind (u256_mul total_value (max_percentage_recv q)) (\<lambda>r.
          obind (u256_mul total_value (max_percentage_send q)) (\<lambda>s. Ok (r div 100, s div 100)))
      | None \<Rightarrow> Ok (0, 0))"

definition capacity_on :: "Quota \<Rightarrow> FlowType \<Rightarrow> nat outcome" where
  "capacity_on q direction =
     obind (capacity q) (\<lambda>(max_in, max_out). Ok (case direction of In \<Rightarrow> max_in | Out \<Rightarrow> max_out))"

definition Quota_from_msg :: "QuotaMsg \<Rightarrow> Quota" where
  "Quota_from_msg msg =
     (let send_recv = (min (fst (msg_send_recv msg)) 100, min (snd (msg_send_recv msg)) 100)
      in \<lparr>quota_name = msg_name msg, max_percentage_send = fst send_recv, max_percentage_recv = snd send_recv,
          duration = msg_duration msg, channel_value = None\<rparr>)"

definition calculate_channel_value :: "nat \<Rightarrow> string \<Rightarrow> nat \<Rightarrow> FlowType \<Rightarrow> nat outcome" where
  "calculate_channel_value value den funds direction =
     (case direction of
        Out \<Rightarrow> if sublist ''ibc'' den then u256_add value funds else Ok value
      | In \<Rightarrow> Ok value)"

definition allow_transfer :: "RateLimit \<Rightarrow> Path \<Rightarrow> FlowType \<Rightarrow> nat \<Rightarrow> nat \<Rightarrow> nat \<Rightarrow> RateLimit outcome" where
  "allow_transfer l path direction funds value now =
     obind (apply_transfer (flow l) direction funds now (quota l)) (\<lambda>(f, expired).
     obind (if channel_value (quota l) = None \<or> expired
            then obind (calculate_channel_value value (path_denom path) funds direction) (\<lambda>v.
                   Ok ((quota l)\<lparr>channel_value := Some v\<rparr>))
            else Ok (quota l)) (\<lambda>q.
     obind (capacity q) (\<lambda>(max_in, max_out).
       if exceeds f direction max_in max_out
       then Err (''IBC Rate Limit exceeded for '' @ path_channel path @ ''/'' @ path_denom path)
       else Ok \<lparr>quota = q, flow = f\<rparr>)))"

section \<open>Packets (\<^verbatim>\<open>packet.rs\<close>)\<close>

record FungibleTokenData =
  denom :: string
  amount :: nat
  sender :: string
  receiver :: string

record Packet =
  sequence :: uint64
  source_port :: string
  source_channel :: string
  destination_port :: string
  destination_channel :: string
  data :: FungibleTokenData

definition local_channel :: "Packet \<Rightarrow> FlowType \<Rightarrow> string" where
  "local_channel p direction = (case direction of In \<Rightarrow> destination_channel p | Out \<Rightarrow> source_channel p)"

definition receiver_chain_is_source :: "Packet \<Rightarrow> bool" where
  "receiver_chain_is_source p \<longleftrightarrow> prefix (''transfer/'' @ source_channel p) (denom (data p))"

definition handle_denom_for_sends :: "(string \<Rightarrow> string) \<Rightarrow> Packet \<Rightarrow> string" where
  "handle_denom_for_sends hash_denom p =
     (if \<not> prefix ''transfer/'' (denom (data p)) then denom (data p) else hash_denom (denom (data p)))"

definition strip_prefix :: "string \<Rightarrow> string \<Rightarrow> string option" where
  "strip_prefix pre s = (if prefix pre s then Some (drop (length pre) s) else None)"

definition handle_denom_for_recvs :: "(string \<Rightarrow> string) \<Rightarrow> Packet \<Rightarrow> string" where
  "handle_denom_for_recvs hash_denom p =
     (if receiver_chain_is_source p
      then
        let unprefixed = (case strip_prefix (''transfer/'' @ source_channel p @ ''/'') (denom (data p)) of
                            None \<Rightarrow> [] | Some s \<Rightarrow> s)
        in if CHR ''/'' \<notin> set unprefixed then unprefixed else hash_denom unprefixed
      else hash_denom (''transfer/'' @ destination_channel p @ ''/'' @ denom (data p)))"

definition local_denom :: "(string \<Rightarrow> string) \<Rightarrow> Packet \<Rightarrow> FlowType \<Rightarrow> string" where
  "local_denom hash_denom p direction =
     (case direction of In \<Rightarrow> handle_denom_for_recvs hash_denom p | Out \<Rightarrow> handle_denom_for_sends hash_denom p)"

definition path_data :: "(string \<Rightarrow> string) \<Rightarrow> Packet \<Rightarrow> FlowType \<Rightarrow> string \<times> string" where
  "path_data hash_denom p direction = (local_channel p direction, local_denom hash_denom p direction)"

section \<open>Transfers (\<^verbatim>\<open>sudo.rs\<close>)\<close>

text \<open>The trackers, from a channel and a denomination to the limits on it, and the two managers.\<close>

record contract_state =
  RATE_LIMIT_TRACKERS :: "string \<times> string \<Rightarrow> RateLimit list option"
  GOVMODULE :: string
  IBCMODULE :: string

definition trackers_at :: "contract_state \<Rightarrow> string \<times> string \<Rightarrow> RateLimit list" where
  "trackers_at st k = (case RATE_LIMIT_TRACKERS st k of None \<Rightarrow> [] | Some ls \<Rightarrow> ls)"

definition save_trackers :: "string \<times> string \<Rightarrow> RateLimit list \<Rightarrow> contract_state \<Rightarrow> contract_state" where
  "save_trackers k ls st = st\<lparr>RATE_LIMIT_TRACKERS := (RATE_LIMIT_TRACKERS st)(k := Some ls)\<rparr>"

definition try_transfer :: "contract_state \<Rightarrow> Path \<Rightarrow> nat \<Rightarrow> nat \<Rightarrow> FlowType \<Rightarrow> nat \<Rightarrow> contract_state outcome" where
  "try_transfer st path value funds direction now =
     (let any_key = (''any'', path_denom path); key = (path_channel path, path_denom path);
          any_trackers = trackers_at st any_key; trackers = trackers_at st key
      in if trackers = [] \<and> any_trackers = [] then Ok st
         else obind (omap (\<lambda>l. allow_transfer l path direction funds value now) trackers) (\<lambda>results.
              obind (omap (\<lambda>l. allow_transfer l path direction funds value now) any_trackers) (\<lambda>any_results.
                Ok (save_trackers any_key any_results (save_trackers key results st)))))"

definition process_packet ::
  "(string \<Rightarrow> string) \<Rightarrow> (string \<Rightarrow> nat outcome) \<Rightarrow> contract_state \<Rightarrow> Packet \<Rightarrow> FlowType \<Rightarrow> nat \<Rightarrow> contract_state outcome" where
  "process_packet hash_denom supply st p direction now =
     (let (channel_id, den) = path_data hash_denom p direction
      in obind (supply (local_denom hash_denom p direction)) (\<lambda>value.
           try_transfer st \<lparr>path_denom = den, path_channel = channel_id\<rparr> value (amount (data p)) direction now))"

definition undo_send :: "(string \<Rightarrow> string) \<Rightarrow> contract_state \<Rightarrow> Packet \<Rightarrow> contract_state outcome" where
  "undo_send hash_denom st p =
     (let (channel_id, den) = path_data hash_denom p Out;
          any_key = (''any'', den); key = (channel_id, den); funds = amount (data p);
          any_trackers = trackers_at st any_key; trackers = trackers_at st key;
          undo = (\<lambda>l. l\<lparr>flow := undo_flow (flow l) Out funds\<rparr>)
      in if trackers = [] \<and> any_trackers = [] then Ok st
         else Ok (save_trackers any_key (map undo any_trackers) (save_trackers key (map undo trackers) st)))"

section \<open>Management (\<^verbatim>\<open>execute.rs\<close>) and entry points (\<^verbatim>\<open>contract.rs\<close>)\<close>

record PathMsg =
  msg_channel_id :: string
  msg_denom :: string
  msg_quotas :: "QuotaMsg list"

definition add_new_path :: "nat \<Rightarrow> PathMsg \<Rightarrow> contract_state \<Rightarrow> contract_state outcome" where
  "add_new_path now m st =
     obind (omap (\<lambda>q. obind (Flow_new 0 0 now (msg_duration q)) (\<lambda>f. Ok \<lparr>quota = Quota_from_msg q, flow = f\<rparr>)) (msg_quotas m)) (\<lambda>ls.
       Ok (save_trackers (msg_channel_id m, msg_denom m) ls st))"

definition add_new_paths :: "nat \<Rightarrow> PathMsg list \<Rightarrow> contract_state \<Rightarrow> contract_state outcome" where
  "add_new_paths now ms st = ofold (add_new_path now) ms st"

definition try_add_path :: "contract_state \<Rightarrow> string \<Rightarrow> PathMsg \<Rightarrow> nat \<Rightarrow> contract_state outcome" where
  "try_add_path st sndr m now =
     (if sndr \<noteq> IBCMODULE st \<and> sndr \<noteq> GOVMODULE st then Err ''Unauthorized'' else add_new_paths now [m] st)"

definition try_remove_path :: "contract_state \<Rightarrow> string \<Rightarrow> string \<Rightarrow> string \<Rightarrow> contract_state outcome" where
  "try_remove_path st sndr channel_id den =
     (if sndr \<noteq> IBCMODULE st \<and> sndr \<noteq> GOVMODULE st then Err ''Unauthorized''
      else Ok (st\<lparr>RATE_LIMIT_TRACKERS := (RATE_LIMIT_TRACKERS st)((channel_id, den) := None)\<rparr>))"

definition try_reset_path_quota :: "contract_state \<Rightarrow> string \<Rightarrow> string \<Rightarrow> string \<Rightarrow> string \<Rightarrow> nat \<Rightarrow> contract_state outcome" where
  "try_reset_path_quota st sndr channel_id den quota_id now =
     (if sndr \<noteq> GOVMODULE st then Err ''Unauthorized''
      else case RATE_LIMIT_TRACKERS st (channel_id, den) of
             None \<Rightarrow> Err ''Quota not found for channel''
           | Some limits \<Rightarrow>
               obind (omap (\<lambda>l. if quota_name (quota l) = quota_id
                                then obind (expire (flow l) now (duration (quota l))) (\<lambda>f. Ok (l\<lparr>flow := f\<rparr>))
                                else Ok l) limits) (\<lambda>ls.
                 Ok (save_trackers (channel_id, den) ls st)))"

definition instantiate :: "string \<Rightarrow> string \<Rightarrow> PathMsg list \<Rightarrow> nat \<Rightarrow> contract_state outcome" where
  "instantiate gov_module ibc_module paths now =
     add_new_paths now paths \<lparr>RATE_LIMIT_TRACKERS = (\<lambda>_. None), GOVMODULE = gov_module, IBCMODULE = ibc_module\<rparr>"

datatype ExecuteMsg =
  AddPath PathMsg | RemovePath string string | ResetPathQuota string string string

definition contract_execute :: "contract_state \<Rightarrow> nat \<Rightarrow> string \<Rightarrow> ExecuteMsg \<Rightarrow> contract_state outcome" where
  "contract_execute st now sndr msg =
     (case msg of
        AddPath m \<Rightarrow> try_add_path st sndr m now
      | RemovePath channel_id den \<Rightarrow> try_remove_path st sndr channel_id den
      | ResetPathQuota channel_id den quota_id \<Rightarrow> try_reset_path_quota st sndr channel_id den quota_id now)"

datatype SudoMsg = SendPacketMsg Packet | RecvPacketMsg Packet | UndoSendMsg Packet

definition contract_sudo ::
  "(string \<Rightarrow> string) \<Rightarrow> (string \<Rightarrow> nat outcome) \<Rightarrow> contract_state \<Rightarrow> nat \<Rightarrow> SudoMsg \<Rightarrow> contract_state outcome" where
  "contract_sudo hash_denom supply st now msg =
     (case msg of
        SendPacketMsg p \<Rightarrow> process_packet hash_denom supply st p Out now
      | RecvPacketMsg p \<Rightarrow> process_packet hash_denom supply st p In now
      | UndoSendMsg p \<Rightarrow> undo_send hash_denom st p)"

section \<open>A single limit\<close>

lemmas flow_defs = balance_def balance_on_def exceeds_def add_flow_def undo_flow_def

text \<open>
  The invariant of a limit: its numbers fit and the net outflow of the period is within the quota's
  capacity, which is zero as long as no channel value has been recorded.
\<close>

definition out_within :: "RateLimit \<Rightarrow> bool" where
  "out_within l \<longleftrightarrow> inflow (flow l) \<le> u256_max \<and> outflow (flow l) \<le> u256_max \<and>
     (\<exists>max_in max_out. capacity (quota l) = Ok (max_in, max_out) \<and> balance_on (flow l) Out \<le> max_out)"

lemma apply_transfer_cases:
  assumes "apply_transfer f d funds now q = Ok (g, e)"
  shows "(e \<and> is_expired f now \<and> (\<exists>pe. g = add_flow \<lparr>inflow = 0, outflow = 0, period_end = pe\<rparr> d funds)) \<or>
         (\<not> e \<and> \<not> is_expired f now \<and> g = add_flow f d funds)"
proof (cases "is_expired f now")
  case True
  then obtain pe where "g = add_flow (f\<lparr>inflow := 0, outflow := 0, period_end := pe\<rparr>) d funds" "e"
    using assms by (auto simp: apply_transfer_def expire_def go_simps)
  then show ?thesis using True by (cases f) auto
next
  case False
  then show ?thesis using assms by (simp add: apply_transfer_def)
qed

lemma allow_transfer_Ok:
  assumes "allow_transfer l path d funds v now = Ok l'"
  obtains g e max_in max_out where "apply_transfer (flow l) d funds now (quota l) = Ok (g, e)" "flow l' = g"
    "channel_value (quota l) = None \<or> e \<or> quota l' = quota l"
    "capacity (quota l') = Ok (max_in, max_out)" "\<not> exceeds g d max_in max_out"
  using assms
  by (auto simp: allow_transfer_def go_simps split: if_splits)

text \<open>An accepted transfer is within the capacity of its direction.\<close>

lemma allow_transfer_within:
  assumes "allow_transfer l path d funds v now = Ok l'"
  shows "\<exists>m. capacity_on (quota l') d = Ok m \<and> balance_on (flow l') d \<le> m"
proof -
  obtain g e mi mo where a: "apply_transfer (flow l) d funds now (quota l) = Ok (g, e)" "flow l' = g"
    and q: "channel_value (quota l) = None \<or> e \<or> quota l' = quota l"
    and c: "capacity (quota l') = Ok (mi, mo)" and x: "\<not> exceeds g d mi mo"
    using assms by (rule allow_transfer_Ok)
  then show ?thesis by (cases d) (auto simp: capacity_on_def flow_defs)
qed

lemma add_flow_range:
  "inflow f \<le> u256_max \<Longrightarrow> outflow f \<le> u256_max \<Longrightarrow>
     inflow (add_flow f d x) \<le> u256_max \<and> outflow (add_flow f d x) \<le> u256_max"
  by (cases d) (auto simp: add_flow_def u256_saturating_add_def)

lemma add_flow_In_balance:
  "inflow f \<le> u256_max \<Longrightarrow> balance_on (add_flow f In x) Out \<le> balance_on f Out"
  by (auto simp: flow_defs u256_saturating_add_def)

lemma allow_transfer_out_within:
  assumes "out_within l" "allow_transfer l path d funds v now = Ok l'"
  shows "out_within l'"
proof -
  obtain g e mi mo where a: "apply_transfer (flow l) d funds now (quota l) = Ok (g, e)" "flow l' = g"
    and q: "channel_value (quota l) = None \<or> e \<or> quota l' = quota l"
    and c: "capacity (quota l') = Ok (mi, mo)" and x: "\<not> exceeds g d mi mo"
    using assms(2) by (rule allow_transfer_Ok)
  have r: "inflow (flow l) \<le> u256_max" "outflow (flow l) \<le> u256_max" using assms(1) by (simp_all add: out_within_def)
  have range: "inflow g \<le> u256_max \<and> outflow g \<le> u256_max"
    using apply_transfer_cases[OF a(1)] r add_flow_range by fastforce
  have "balance_on g Out \<le> mo"
  proof (cases d)
    case Out
    with x show ?thesis by (simp add: flow_defs)
  next
    case In
    consider (expired) "e" | (fresh) "\<not> e" "channel_value (quota l) = None" | (same) "\<not> e" "quota l' = quota l" using q by auto
    then show ?thesis
    proof cases
      case expired
      then show ?thesis using apply_transfer_cases[OF a(1)] In by (auto simp: flow_defs)
    next
      case fresh
      then have "balance_on (flow l) Out = 0" using assms(1) by (auto simp: out_within_def capacity_def)
      then show ?thesis
        using apply_transfer_cases[OF a(1)] fresh In add_flow_In_balance[OF r(1), of funds] by auto
    next
      case same
      then have "balance_on (flow l) Out \<le> mo" using assms(1) c by (auto simp: out_within_def)
      then show ?thesis
        using apply_transfer_cases[OF a(1)] same In add_flow_In_balance[OF r(1), of funds] by auto
    qed
  qed
  then show ?thesis using range c a(2) by (simp add: out_within_def)
qed

lemma undo_out_within: "out_within l \<Longrightarrow> out_within (l\<lparr>flow := undo_flow (flow l) Out x\<rparr>)"
  by (auto simp: out_within_def flow_defs)

lemma expire_out_within:
  "out_within l \<Longrightarrow> expire (flow l) now dur = Ok f \<Longrightarrow> out_within (l\<lparr>flow := f\<rparr>)"
  by (auto simp: out_within_def expire_def go_simps flow_defs)

section \<open>The whole contract\<close>

definition limits_ok :: "contract_state \<Rightarrow> bool" where
  "limits_ok st \<longleftrightarrow> (\<forall>k. \<forall>l \<in> set (trackers_at st k). out_within l)"

lemma trackers_at_save [simp]:
  "trackers_at (save_trackers k ls st) k' = (if k' = k then ls else trackers_at st k')"
  by (simp add: trackers_at_def save_trackers_def)

lemma limits_ok_save: "limits_ok st \<Longrightarrow> \<forall>l \<in> set ls. out_within l \<Longrightarrow> limits_ok (save_trackers k ls st)"
  by (simp add: limits_ok_def)

lemma limits_okD: "limits_ok st \<Longrightarrow> l \<in> set (trackers_at st k) \<Longrightarrow> out_within l"
  unfolding limits_ok_def by blast

lemma limits_okI: "(\<And>k l. l \<in> set (trackers_at st k) \<Longrightarrow> out_within l) \<Longrightarrow> limits_ok st"
  unfolding limits_ok_def by blast

lemma omap_all:
  assumes "omap f xs = Ok ys" "\<And>x y. x \<in> set xs \<Longrightarrow> f x = Ok y \<Longrightarrow> P y"
  shows "\<forall>y \<in> set ys. P y"
proof -
  have "list_all2 (\<lambda>x y. f x = Ok y) xs ys" using assms(1) by (simp add: omap_Ok_iff)
  then show ?thesis using assms(2) by (force simp: list_all2_conv_all_nth in_set_conv_nth)
qed

lemma try_transfer_limits:
  assumes "limits_ok st" "try_transfer st path v funds d now = Ok st'"
  shows "limits_ok st'"
proof (cases "trackers_at st (path_channel path, path_denom path) = [] \<and> trackers_at st (''any'', path_denom path) = []")
  case True
  then show ?thesis using assms by (simp add: try_transfer_def)
next
  case False
  then obtain rs as where
    r: "omap (\<lambda>l. allow_transfer l path d funds v now) (trackers_at st (path_channel path, path_denom path)) = Ok rs"
    and a: "omap (\<lambda>l. allow_transfer l path d funds v now) (trackers_at st (''any'', path_denom path)) = Ok as"
    and st': "st' = save_trackers (''any'', path_denom path) as (save_trackers (path_channel path, path_denom path) rs st)"
    using assms(2) by (auto simp: try_transfer_def Let_def go_simps)
  note w = limits_okD[OF assms(1)]
  show ?thesis unfolding st'
    by (intro limits_ok_save assms(1) omap_all[OF r] omap_all[OF a]) (auto intro: allow_transfer_out_within w)
qed

lemma process_packet_limits:
  "limits_ok st \<Longrightarrow> process_packet h supply st p d now = Ok st' \<Longrightarrow> limits_ok st'"
  by (auto simp: process_packet_def Let_def go_simps split: prod.splits intro: try_transfer_limits)

lemma undo_send_limits:
  assumes "limits_ok st" "undo_send h st p = Ok st'"
  shows "limits_ok st'"
  using assms
  by (auto simp: undo_send_def Let_def path_data_def split: if_splits intro!: limits_ok_save undo_out_within)
     (auto dest: limits_okD)

lemma add_new_path_limits:
  assumes "limits_ok st" "add_new_path now m st = Ok st'"
  shows "limits_ok st'"
proof -
  obtain ls where l: "omap (\<lambda>q. obind (Flow_new 0 0 now (msg_duration q)) (\<lambda>f. Ok \<lparr>quota = Quota_from_msg q, flow = f\<rparr>))
      (msg_quotas m) = Ok ls" "st' = save_trackers (msg_channel_id m, msg_denom m) ls st"
    using assms(2) by (auto simp: add_new_path_def go_simps)
  have "\<forall>l \<in> set ls. out_within l"
    by (rule omap_all[OF l(1)])
       (auto simp: go_simps Flow_new_def out_within_def capacity_def Quota_from_msg_def Let_def flow_defs)
  then show ?thesis using assms(1) l(2) limits_ok_save by blast
qed

lemma add_new_paths_limits:
  "limits_ok st \<Longrightarrow> add_new_paths now ms st = Ok st' \<Longrightarrow> limits_ok st'"
  unfolding add_new_paths_def by (erule (1) ofold_invariant) (rule add_new_path_limits)

lemma try_reset_limits:
  assumes "limits_ok st" "try_reset_path_quota st sndr c d q now = Ok st'"
  shows "limits_ok st'"
proof -
  obtain limits ls where
    l: "RATE_LIMIT_TRACKERS st (c, d) = Some limits"
      "omap (\<lambda>l. if quota_name (quota l) = q then obind (expire (flow l) now (duration (quota l))) (\<lambda>f. Ok (l\<lparr>flow := f\<rparr>))
                 else Ok l) limits = Ok ls" "st' = save_trackers (c, d) ls st"
    using assms(2) by (auto simp: try_reset_path_quota_def go_simps split: if_splits option.splits)
  have "trackers_at st (c, d) = limits" using l(1) by (simp add: trackers_at_def)
  then have w: "l \<in> set limits \<Longrightarrow> out_within l" for l using limits_okD[OF assms(1)] by metis
  have "\<forall>l \<in> set ls. out_within l"
    by (rule omap_all[OF l(2)]) (auto simp: go_simps split: if_splits intro: expire_out_within w)
  then show ?thesis using assms(1) l(3) limits_ok_save by blast
qed

lemma contract_execute_limits:
  assumes "limits_ok st" "contract_execute st now sndr msg = Ok st'"
  shows "limits_ok st'"
proof (cases msg)
  case (AddPath m)
  then show ?thesis
    using assms add_new_paths_limits by (auto simp: contract_execute_def try_add_path_def split: if_splits)
next
  case (RemovePath c d)
  then show ?thesis
    using assms(2) limits_okD[OF assms(1)]
    by (auto simp: contract_execute_def try_remove_path_def trackers_at_def split: if_splits option.splits intro!: limits_okI)
next
  case (ResetPathQuota c d q)
  then show ?thesis using assms try_reset_limits by (auto simp: contract_execute_def)
qed

lemma contract_sudo_limits:
  "limits_ok st \<Longrightarrow> contract_sudo h supply st now msg = Ok st' \<Longrightarrow> limits_ok st'"
  by (cases msg) (auto simp: contract_sudo_def intro: process_packet_limits undo_send_limits)

text \<open>A step of the contract: one successful message, at any time, with any supply, by any sender.\<close>

inductive contract_step :: "(string \<Rightarrow> string) \<Rightarrow> contract_state \<Rightarrow> contract_state \<Rightarrow> bool" for h where
  by_sudo: "contract_sudo h supply st now msg = Ok st' \<Longrightarrow> contract_step h st st'"
| by_execute: "contract_execute st now sndr msg = Ok st' \<Longrightarrow> contract_step h st st'"

inductive_cases contract_stepE: "contract_step h st st'"

lemma reachable_limits:
  assumes "instantiate gov ibc paths now = Ok st0" "(contract_step h)\<^sup>*\<^sup>* st0 st"
  shows "limits_ok st"
proof -
  have "limits_ok st0"
    using add_new_paths_limits[OF _ assms(1)[unfolded instantiate_def]] by (simp add: limits_ok_def trackers_at_def)
  with assms(2) show ?thesis
    by (induction rule: rtranclp_induct) (auto elim!: contract_stepE intro: contract_sudo_limits contract_execute_limits)
qed

lemma reachable_within:
  assumes "instantiate gov ibc paths now = Ok st0" "(contract_step h)\<^sup>*\<^sup>* st0 st" "l \<in> set (trackers_at st k)"
  shows "\<exists>max_in max_out. capacity (quota l) = Ok (max_in, max_out) \<and>
    outflow (flow l) - inflow (flow l) \<le> max_out"
  using limits_okD[OF reachable_limits[OF assms(1,2)] assms(3)] by (auto simp: out_within_def flow_defs)

text \<open>
  C1 In every state that any sequence of messages can reach from instantiation, every limit on every
  path holds: the net outflow of the current period does not exceed the capacity of the quota.
\<close>

theorem rate_limit_outflow_bounded:
  assumes "instantiate gov ibc paths now = Ok st0" "(contract_step h)\<^sup>*\<^sup>* st0 st"
    and "RATE_LIMIT_TRACKERS st k = Some ls" "l \<in> set ls"
  shows "\<exists>max_in max_out. capacity (quota l) = Ok (max_in, max_out) \<and>
    outflow (flow l) - inflow (flow l) \<le> max_out"
  by (rule reachable_within[OF assms(1,2), of l k]) (use assms(3,4) in \<open>simp add: trackers_at_def\<close>)

text \<open>A contract with one quota of ten percent on channel-0, and a transfer of fifty units over it.\<close>

definition example_paths :: "PathMsg list" where
  "example_paths = [\<lparr>msg_channel_id = ''channel-0'', msg_denom = ''uosmo'',
     msg_quotas = [\<lparr>msg_name = ''daily'', msg_duration = 86400, msg_send_recv = (10, 10)\<rparr>]\<rparr>]"

definition example_packet :: "nat \<Rightarrow> Packet" where
  "example_packet a = \<lparr>sequence = 1, source_port = ''transfer'', source_channel = ''channel-0'',
     destination_port = ''transfer'', destination_channel = ''channel-9'',
     data = \<lparr>denom = ''uosmo'', amount = a, sender = ''alice'', receiver = ''bob''\<rparr>\<rparr>"

definition example_limit :: "nat option \<Rightarrow> nat \<Rightarrow> RateLimit" where
  "example_limit v out =
     \<lparr>quota = \<lparr>quota_name = ''daily'', max_percentage_send = 10, max_percentage_recv = 10, duration = 86400, channel_value = v\<rparr>,
      flow = \<lparr>inflow = 0, outflow = out, period_end = 86400000000000\<rparr>\<rparr>"

definition example_state :: "nat option \<Rightarrow> nat \<Rightarrow> contract_state" where
  "example_state v out =
     \<lparr>RATE_LIMIT_TRACKERS = (\<lambda>_. None)((''channel-0'', ''uosmo'') := Some [example_limit v out]),
      GOVMODULE = ''gov'', IBCMODULE = ''ibc''\<rparr>"

lemmas example_defs = example_paths_def example_packet_def example_limit_def example_state_def

lemma example_instantiate: "instantiate ''gov'' ''ibc'' example_paths 0 = Ok (example_state None 0)"
  by (simp add: instantiate_def example_defs add_new_paths_def add_new_path_def Flow_new_def plus_seconds_def
    Quota_from_msg_def save_trackers_def)

lemma example_send:
  "\<exists>st. process_packet (\<lambda>x. x) (\<lambda>_. Ok 1000) (example_state None 0) (example_packet 50) Out 5 = Ok st \<and>
     trackers_at st (''channel-0'', ''uosmo'') = [example_limit (Some 1000) 50]"
proof -
  have "\<not> sublist ''ibc'' ''uosmo''" by code_simp
  moreover have "\<not> prefix ''transfer/'' ''uosmo''" by code_simp
  ultimately show ?thesis
    by (simp add: process_packet_def path_data_def local_channel_def local_denom_def handle_denom_for_sends_def
      example_defs try_transfer_def Let_def trackers_at_def save_trackers_def allow_transfer_def
      apply_transfer_def is_expired_def add_flow_def u256_saturating_add_def u256_max_def
      calculate_channel_value_def capacity_def u256_mul_def exceeds_def balance_def)
qed

theorem rate_limit_outflow_bounded_witness:
  "\<exists>max_in max_out. capacity (quota (example_limit (Some 1000) 50)) = Ok (max_in, max_out) \<and>
     outflow (flow (example_limit (Some 1000) 50)) - inflow (flow (example_limit (Some 1000) 50)) \<le> max_out"
proof -
  obtain st where st: "process_packet (\<lambda>x. x) (\<lambda>_. Ok 1000) (example_state None 0) (example_packet 50) Out 5 = Ok st"
    "trackers_at st (''channel-0'', ''uosmo'') = [example_limit (Some 1000) 50]"
    using example_send by blast
  have "contract_step (\<lambda>x. x) (example_state None 0) st"
    using st(1) by (intro by_sudo[where msg = "SendPacketMsg (example_packet 50)"]) (simp add: contract_sudo_def)
  then have "(contract_step (\<lambda>x. x))\<^sup>*\<^sup>* (example_state None 0) st" by simp
  moreover have "RATE_LIMIT_TRACKERS st (''channel-0'', ''uosmo'') = Some [example_limit (Some 1000) 50]"
    using st(2) by (auto simp: trackers_at_def split: option.splits)
  ultimately show ?thesis
    by (rule rate_limit_outflow_bounded[OF example_instantiate]) simp
qed

section \<open>Undoing a send\<close>

lemma allow_transfer_flow:
  "allow_transfer l path d funds v now = Ok l' \<Longrightarrow> \<not> is_expired (flow l) now \<Longrightarrow> flow l' = add_flow (flow l) d funds"
  by (erule allow_transfer_Ok) (auto dest: apply_transfer_cases)

lemma undo_add_flow:
  "outflow f + x \<le> u256_max \<Longrightarrow> undo_flow (add_flow f Out x) Out x = f"
  by (simp add: undo_flow_def add_flow_def u256_saturating_add_def)

lemma undo_transfers:
  assumes "omap (\<lambda>l. allow_transfer l path Out x v now) ls = Ok rs"
    and "\<forall>l \<in> set ls. \<not> is_expired (flow l) now \<and> outflow (flow l) + x \<le> u256_max"
  shows "map flow (map (\<lambda>l. l\<lparr>flow := undo_flow (flow l) Out x\<rparr>) rs) = map flow ls"
proof -
  have "list_all2 (\<lambda>l r. allow_transfer l path Out x v now = Ok r) ls rs" using assms(1) by (simp add: omap_Ok_iff)
  then show ?thesis
    using assms(2) by (auto simp: list_all2_conv_all_nth intro!: nth_equalityI simp: allow_transfer_flow undo_add_flow)
qed

text \<open>What a successful transfer and its undoing leave at each path.\<close>

lemma try_transfer_trackers:
  assumes "try_transfer st path v x d now = Ok st'"
  shows "if k = (path_channel path, path_denom path) \<or> k = (''any'', path_denom path)
    then omap (\<lambda>l. allow_transfer l path d x v now) (trackers_at st k) = Ok (trackers_at st' k)
    else trackers_at st' k = trackers_at st k"
  using assms by (auto simp: try_transfer_def Let_def go_simps split: if_splits)

lemma undo_send_trackers:
  "\<exists>st'. undo_send h st p = Ok st' \<and> (\<forall>k. trackers_at st' k =
     (if k = (source_channel p, local_denom h p Out) \<or> k = (''any'', local_denom h p Out)
      then map (\<lambda>l. l\<lparr>flow := undo_flow (flow l) Out (amount (data p))\<rparr>) (trackers_at st k)
      else trackers_at st k))"
  by (auto simp: undo_send_def path_data_def local_channel_def Let_def)

lemma undo_send_restores:
  assumes "process_packet hash_denom supply st p Out now = Ok st'"
    and "\<forall>k \<in> {(source_channel p, local_denom hash_denom p Out), (''any'', local_denom hash_denom p Out)}.
      \<forall>l \<in> set (trackers_at st k). \<not> is_expired (flow l) now \<and> outflow (flow l) + amount (data p) \<le> u256_max"
  shows "\<exists>st''. undo_send hash_denom st' p = Ok st'' \<and>
    (\<forall>k. map flow (trackers_at st'' k) = map flow (trackers_at st k))"
proof -
  let ?d = "local_denom hash_denom p Out"
  obtain v where t: "try_transfer st \<lparr>path_denom = ?d, path_channel = source_channel p\<rparr> v (amount (data p)) Out now = Ok st'"
    using assms(1) by (auto simp: process_packet_def path_data_def local_channel_def go_simps)
  note tr = try_transfer_trackers[OF t, simplified]
  obtain st'' where u: "undo_send hash_denom st' p = Ok st''" and
    s: "\<And>k. trackers_at st'' k =
     (if k = (source_channel p, ?d) \<or> k = (''any'', ?d)
      then map (\<lambda>l. l\<lparr>flow := undo_flow (flow l) Out (amount (data p))\<rparr>) (trackers_at st' k)
      else trackers_at st' k)"
    using undo_send_trackers[of hash_denom st' p] by blast
  have "map flow (trackers_at st'' k) = map flow (trackers_at st k)" for k
  proof (cases "k = (source_channel p, ?d) \<or> k = (''any'', ?d)")
    case True
    then have "omap (\<lambda>l. allow_transfer l \<lparr>path_denom = ?d, path_channel = source_channel p\<rparr> Out (amount (data p)) v now)
        (trackers_at st k) = Ok (trackers_at st' k)" using tr by simp
    then show ?thesis
      unfolding s if_P[OF True] by (rule undo_transfers) (use True assms(2) in blast)
  next
    case False
    then show ?thesis using tr[of k] s[of k] by simp
  qed
  with u show ?thesis by blast
qed

text \<open>
  C28 A send that was accepted within the current period and whose packet then times out or fails
  leaves no trace: undoing it succeeds and gives back the inflow, outflow and period of every limit
  of every path, as they were before the send. The period must not have ended at the send, and the
  counter must not have saturated.
\<close>

theorem undo_send_restores_flows:
  assumes "process_packet hash_denom supply st p Out now = Ok st'"
    and "\<forall>k \<in> {(source_channel p, local_denom hash_denom p Out), (''any'', local_denom hash_denom p Out)}.
      \<forall>l \<in> set (trackers_at st k). \<not> is_expired (flow l) now \<and> outflow (flow l) + amount (data p) \<le> u256_max"
  shows "\<exists>st''. undo_send hash_denom st' p = Ok st'' \<and>
    (\<forall>k. map flow (trackers_at st'' k) = map flow (trackers_at st k))"
  using assms by (rule undo_send_restores)

theorem undo_send_restores_flows_witness:
  "\<exists>st' st''. process_packet (\<lambda>x. x) (\<lambda>_. Ok 1000) (example_state None 0) (example_packet 50) Out 5 = Ok st' \<and>
     undo_send (\<lambda>x. x) st' (example_packet 50) = Ok st'' \<and>
     (\<forall>k. map flow (trackers_at st'' k) = map flow (trackers_at (example_state None 0) k))"
proof -
  obtain st' where st': "process_packet (\<lambda>x. x) (\<lambda>_. Ok 1000) (example_state None 0) (example_packet 50) Out 5 = Ok st'"
    using example_send by blast
  have "\<forall>l \<in> set (trackers_at (example_state None 0) k). \<not> is_expired (flow l) 5 \<and> outflow (flow l) + 50 \<le> u256_max" for k
    by (simp add: trackers_at_def example_defs is_expired_def u256_max_def)
  with undo_send_restores_flows[OF st'] st' show ?thesis
    by (auto simp: example_packet_def)
qed

section \<open>Two denominations that the contract misreads\<close>

text \<open>
  The test for a returning token looks for the port and the channel without the slash that ends
  them. A token of channel-10 that arrives from channel-1 passes it, the prefix with the slash is then
  not found, and the limits of the empty denomination are consulted. A returning native token whose
  name has a slash, such as a pool share, is taken for a path and hashed.
\<close>

theorem recv_denom_misread:
  "local_denom hash_denom
     ((example_packet 50)\<lparr>source_channel := ''channel-1'',
        data := (data (example_packet 50))\<lparr>denom := ''transfer/channel-10/uatom''\<rparr>\<rparr>) In = '''' \<and>
   local_denom hash_denom
     ((example_packet 50)\<lparr>source_channel := ''channel-1'',
        data := (data (example_packet 50))\<lparr>denom := ''transfer/channel-1/gamm/pool/1''\<rparr>\<rparr>) In = hash_denom ''gamm/pool/1''"
  by (simp_all add: local_denom_def handle_denom_for_recvs_def receiver_chain_is_source_def strip_prefix_def example_packet_def)

end
