(* ===== verification/IBC_Rate_Limit.thy ===== *)
theory IBC_Rate_Limit
  imports Rate_Limiter KV_Store
begin

text \<open>
  \<^verbatim>\<open>src/x/ibc-rate-limit/{rate_limit,ics4_wrapper,ibc_module,genesis}.go\<close>, \<^verbatim>\<open>types/{params,genesis}.go\<close> and
  \<^verbatim>\<open>src/osmoutils/ibc.go\<close>: the middleware between the transfer module and the channel keeper. A
  handler maps the state of the chain to a result and the state it leaves, also when it fails, since
  the middleware goes on after some errors. What it calls and does not own (addresses, JSON,
  parameter space, contract keeper, event manager, wrapped channel and wrapped application) is the
  record \<open>host\<close>, an argument; errors are their texts.
\<close>

section \<open>Effects\<close>

type_synonym ('a, 's) eff = "'a outcome \<times> 's"

definition try_pure :: "'a outcome \<Rightarrow> 's \<Rightarrow> ('a \<Rightarrow> ('b, 's) eff) \<Rightarrow> ('b, 's) eff" where
  "try_pure m s k = (case m of Ok a \<Rightarrow> k a | Err e \<Rightarrow> (Err e, s) | Panic p \<Rightarrow> (Panic p, s))"

definition on_err :: "('a, 's) eff \<Rightarrow> (string \<Rightarrow> 's \<Rightarrow> ('b, 's) eff) \<Rightarrow> ('a \<Rightarrow> 's \<Rightarrow> ('b, 's) eff) \<Rightarrow> ('b, 's) eff" where
  "on_err m f k =
     (case m of (Ok a, s) \<Rightarrow> k a s | (Err e, s) \<Rightarrow> f e s | (Panic p, s) \<Rightarrow> (Panic p, s))"

lemma try_pure_simps [simp]:
  "try_pure (Ok a) s k = k a"
  "try_pure (Err e) s k = (Err e, s)"
  "try_pure (Panic p) s k = (Panic p, s)"
  by (simp_all add: try_pure_def)

lemma on_err_simps [simp]:
  "on_err (Ok a, s) f k = k a s"
  "on_err (Err e, s) f k = f e s"
  "on_err (Panic p, s) f k = (Panic p, s)"
  by (simp_all add: on_err_def)

lemma try_pure_eq_Ok: "try_pure m s k = (Ok b, s') \<longleftrightarrow> (\<exists>a. m = Ok a \<and> k a = (Ok b, s'))"
  by (cases m) simp_all

section \<open>Packets and messages\<close>

record FungibleTokenPacketData =
  Denom :: string
  Amount :: string
  Sender :: string
  Receiver :: string
  Memo :: string

datatype exported_Height = ClientHeight uint64 uint64 | OtherHeight

text \<open>A packet as the getters of the interface show it, and whether it is a \<^verbatim>\<open>channeltypes.Packet\<close>.\<close>

record PacketI =
  GetSequence :: uint64
  GetSourcePort :: string
  GetSourceChannel :: string
  GetDestPort :: string
  GetDestChannel :: string
  GetData :: string
  GetTimeoutHeight :: exported_Height
  GetTimeoutTimestamp :: uint64
  is_channel_Packet :: bool

record UnwrappedPacket =
  Sequence :: uint64
  SourcePort :: string
  SourceChannel :: string
  DestinationPort :: string
  DestinationChannel :: string
  Data :: FungibleTokenPacketData
  TimeoutHeight :: "uint64 \<times> uint64"
  TimeoutTimestamp :: uint64

datatype wasm_msg = Send_msg UnwrappedPacket | Recv_msg UnwrappedPacket | Undo_msg UnwrappedPacket

type_synonym event = "string \<times> (string \<times> string) list"

record Counterparty =
  cp_port :: string
  cp_channel :: string

section \<open>What the middleware calls\<close>

record ('s, 'm, 'ack) host =
  AccAddressFromBech32 :: "string \<Rightarrow> string outcome"
  VerifyAddressFormat :: "string \<Rightarrow> unit outcome"
  Wrap :: "string \<Rightarrow> string \<Rightarrow> string"
  Unmarshal_data :: "string \<Rightarrow> FungibleTokenPacketData outcome"
  Unmarshal_ack :: "string \<Rightarrow> unit outcome"
  Unmarshal_ack_error :: "string \<Rightarrow> string outcome"
  Marshal_msg :: "wasm_msg \<Rightarrow> 'm outcome"
  NewErrorAcknowledgement :: "string \<Rightarrow> 'ack"
  GetIfExists :: "'s \<Rightarrow> string \<Rightarrow> string option"
  Set_param :: "'s \<Rightarrow> string \<Rightarrow> string \<Rightarrow> 's"
  EmitEvent :: "event \<Rightarrow> 's \<Rightarrow> 's"
  Sudo :: "'s \<Rightarrow> string \<Rightarrow> 'm \<Rightarrow> (unit, 's) eff"
  channel_SendPacket :: "'s \<Rightarrow> nat \<Rightarrow> PacketI \<Rightarrow> (unit, 's) eff"
  channel_WriteAcknowledgement :: "'s \<Rightarrow> nat \<Rightarrow> PacketI \<Rightarrow> 'ack \<Rightarrow> (unit, 's) eff"
  channel_GetAppVersion :: "'s \<Rightarrow> string \<Rightarrow> string \<Rightarrow> string option"
  app_OnChanOpenInit :: "'s \<Rightarrow> nat \<Rightarrow> string list \<Rightarrow> string \<Rightarrow> string \<Rightarrow> nat \<Rightarrow> Counterparty \<Rightarrow> string \<Rightarrow> (string, 's) eff"
  app_OnChanOpenTry :: "'s \<Rightarrow> nat \<Rightarrow> string list \<Rightarrow> string \<Rightarrow> string \<Rightarrow> nat \<Rightarrow> Counterparty \<Rightarrow> string \<Rightarrow> (string, 's) eff"
  app_OnChanOpenAck :: "'s \<Rightarrow> string \<Rightarrow> string \<Rightarrow> string \<Rightarrow> string \<Rightarrow> (unit, 's) eff"
  app_OnChanOpenConfirm :: "'s \<Rightarrow> string \<Rightarrow> string \<Rightarrow> (unit, 's) eff"
  app_OnChanCloseInit :: "'s \<Rightarrow> string \<Rightarrow> string \<Rightarrow> (unit, 's) eff"
  app_OnChanCloseConfirm :: "'s \<Rightarrow> string \<Rightarrow> string \<Rightarrow> (unit, 's) eff"
  app_OnRecvPacket :: "'s \<Rightarrow> PacketI \<Rightarrow> string \<Rightarrow> ('ack, 's) eff"
  app_OnAcknowledgementPacket :: "'s \<Rightarrow> PacketI \<Rightarrow> string \<Rightarrow> string \<Rightarrow> (unit, 's) eff"
  app_OnTimeoutPacket :: "'s \<Rightarrow> PacketI \<Rightarrow> string \<Rightarrow> (unit, 's) eff"

section \<open>Parameters (\<^verbatim>\<open>types/params.go\<close>, \<^verbatim>\<open>types/errors.go\<close>)\<close>

definition ErrRateLimitExceeded :: string where "ErrRateLimitExceeded = ''rate limit exceeded''"
definition ErrBadMessage :: string where "ErrBadMessage = ''bad message''"
definition ErrContractError :: string where "ErrContractError = ''contract error''"
definition EventBadRevert :: string where "EventBadRevert = ''bad_revert''"
definition KeyContractAddress :: string where "KeyContractAddress = ''contract''"
definition rate_limit_ModuleName :: string where "rate_limit_ModuleName = ''rate-limited-ibc''"

record rate_limit_Params =
  ContractAddress :: string

definition NewParams :: "string \<Rightarrow> rate_limit_Params outcome" where
  "NewParams contractAddress = Ok \<lparr>ContractAddress = contractAddress\<rparr>"

definition DefaultParams :: rate_limit_Params where
  "DefaultParams = \<lparr>ContractAddress = ''''\<rparr>"

definition validateContractAddress :: "('s, 'm, 'ack) host \<Rightarrow> string \<Rightarrow> unit outcome" where
  "validateContractAddress h v =
     (if v = '''' then Ok ()
      else obind (AccAddressFromBech32 h v) (\<lambda>bech32. obind (VerifyAddressFormat h bech32) (\<lambda>_. Ok ())))"

definition Params_Validate :: "('s, 'm, 'ack) host \<Rightarrow> rate_limit_Params \<Rightarrow> unit outcome" where
  "Params_Validate h p = obind (validateContractAddress h (ContractAddress p)) (\<lambda>_. Ok ())"

text \<open>The one pair of the set: its key, the field it points to and its validator.\<close>

definition ParamSetPairs ::
  "('s, 'm, 'ack) host \<Rightarrow> rate_limit_Params \<Rightarrow>
     (string \<times> string \<times> (string \<Rightarrow> rate_limit_Params \<Rightarrow> rate_limit_Params) \<times> (string \<Rightarrow> unit outcome)) list" where
  "ParamSetPairs h p =
     [(KeyContractAddress, ContractAddress p, \<lambda>v q. q\<lparr>ContractAddress := v\<rparr>, validateContractAddress h)]"

text \<open>\<^verbatim>\<open>Subspace.SetParamSet\<close> validates each value, panics when it is invalid, and stores it.\<close>

definition SetParamSet :: "('s, 'm, 'ack) host \<Rightarrow> 's \<Rightarrow> rate_limit_Params \<Rightarrow> 's outcome" where
  "SetParamSet h s p =
     ofold (\<lambda>(key, v, _, validate) s.
              case validate v of
                Ok _ \<Rightarrow> Ok (Set_param h s key v)
              | Err e \<Rightarrow> Panic (''value from ParamSetPair is invalid: '' @ e)
              | Panic m \<Rightarrow> Panic m)
       (ParamSetPairs h p) s"

definition GetParams :: "('s, 'm, 'ack) host \<Rightarrow> 's \<Rightarrow> rate_limit_Params" where
  "GetParams h s =
     (let empty = \<lparr>ContractAddress = ''''\<rparr>;
          params = fold (\<lambda>(key, _, set_field, _) p.
                           case GetIfExists h s key of None \<Rightarrow> p | Some v \<Rightarrow> set_field v p)
                     (ParamSetPairs h empty) empty
      in if params = empty then DefaultParams else params)"

definition SetParams :: "('s, 'm, 'ack) host \<Rightarrow> 's \<Rightarrow> rate_limit_Params \<Rightarrow> 's outcome" where
  "SetParams h s params = SetParamSet h s params"

definition GetContractAddress :: "('s, 'm, 'ack) host \<Rightarrow> 's \<Rightarrow> string" where
  "GetContractAddress h s = ContractAddress (GetParams h s)"

definition rate_limit_DefaultGenesis :: rate_limit_Params where
  "rate_limit_DefaultGenesis = DefaultParams"

definition rate_limit_GenesisValidate :: "('s, 'm, 'ack) host \<Rightarrow> rate_limit_Params \<Rightarrow> unit outcome" where
  "rate_limit_GenesisValidate h gs = obind (Params_Validate h gs) (\<lambda>_. Ok ())"

definition rate_limit_InitGenesis :: "('s, 'm, 'ack) host \<Rightarrow> 's \<Rightarrow> rate_limit_Params \<Rightarrow> 's outcome" where
  "rate_limit_InitGenesis h s gs = SetParams h s gs"

definition rate_limit_ExportGenesis :: "('s, 'm, 'ack) host \<Rightarrow> 's \<Rightarrow> rate_limit_Params" where
  "rate_limit_ExportGenesis h s = GetParams h s"

section \<open>Calls of the contract (\<^verbatim>\<open>rate_limit.go\<close>)\<close>

definition msgSend :: string where "msgSend = ''send_packet''"
definition msgRecv :: string where "msgRecv = ''recv_packet''"

definition unwrapPacket :: "('s, 'm, 'ack) host \<Rightarrow> PacketI \<Rightarrow> UnwrappedPacket outcome" where
  "unwrapPacket h packet =
     obind (Unmarshal_data h (GetData packet)) (\<lambda>packetData.
       case GetTimeoutHeight packet of
         OtherHeight \<Rightarrow> Err ErrBadMessage
       | ClientHeight revision height \<Rightarrow>
           Ok \<lparr>Sequence = GetSequence packet, SourcePort = GetSourcePort packet, SourceChannel = GetSourceChannel packet,
               DestinationPort = GetDestPort packet, DestinationChannel = GetDestChannel packet, Data = packetData,
               TimeoutHeight = (revision, height), TimeoutTimestamp = GetTimeoutTimestamp packet\<rparr>)"

definition BuildWasmExecMsg :: "('s, 'm, 'ack) host \<Rightarrow> string \<Rightarrow> PacketI \<Rightarrow> 'm outcome" where
  "BuildWasmExecMsg h msgType packet =
     obind (unwrapPacket h packet) (\<lambda>unwrapped.
       if msgType = msgSend then Marshal_msg h (Send_msg unwrapped)
       else if msgType = msgRecv then Marshal_msg h (Recv_msg unwrapped)
       else Err ErrBadMessage)"

definition CheckAndUpdateRateLimits ::
  "('s, 'm, 'ack) host \<Rightarrow> 's \<Rightarrow> string \<Rightarrow> string \<Rightarrow> PacketI \<Rightarrow> (unit, 's) eff" where
  "CheckAndUpdateRateLimits h s msgType contract packet =
     try_pure (AccAddressFromBech32 h contract) s (\<lambda>contractAddr.
     try_pure (BuildWasmExecMsg h msgType packet) s (\<lambda>sendPacketMsg.
       on_err (Sudo h s contractAddr sendPacketMsg)
         (\<lambda>e s'. (Err (Wrap h ErrRateLimitExceeded e), s')) (\<lambda>_ s'. (Ok (), s'))))"

definition UndoSendRateLimit :: "('s, 'm, 'ack) host \<Rightarrow> 's \<Rightarrow> string \<Rightarrow> PacketI \<Rightarrow> (unit, 's) eff" where
  "UndoSendRateLimit h s contract packet =
     try_pure (AccAddressFromBech32 h contract) s (\<lambda>contractAddr.
     try_pure (unwrapPacket h packet) s (\<lambda>unwrapped.
     try_pure (Marshal_msg h (Undo_msg unwrapped)) s (\<lambda>asJson.
       on_err (Sudo h s contractAddr asJson)
         (\<lambda>e s'. (Err (Wrap h ErrContractError e), s')) (\<lambda>_ s'. (Ok (), s')))))"

section \<open>The send side (\<^verbatim>\<open>ics4_wrapper.go\<close>)\<close>

definition ICS4_GetAppVersion :: "('s, 'm, 'ack) host \<Rightarrow> 's \<Rightarrow> string \<Rightarrow> string \<Rightarrow> string option" where
  "ICS4_GetAppVersion h s portID channelID = channel_GetAppVersion h s portID channelID"

definition ICS4_SendPacket :: "('s, 'm, 'ack) host \<Rightarrow> 's \<Rightarrow> nat \<Rightarrow> PacketI \<Rightarrow> (unit, 's) eff" where
  "ICS4_SendPacket h s chanCap packet =
     (let contract = GetContractAddress h s
      in if contract = '''' then channel_SendPacket h s chanCap packet
         else if \<not> is_channel_Packet packet then (Err ''invalid request'', s)
         else on_err (CheckAndUpdateRateLimits h s ''send_packet'' contract packet)
                (\<lambda>e s'. (Err (Wrap h e ''rate limit SendPacket failed to authorize transfer''), s'))
                (\<lambda>_ s'. channel_SendPacket h s' chanCap packet))"

definition ICS4_WriteAcknowledgement :: "('s, 'm, 'ack) host \<Rightarrow> 's \<Rightarrow> nat \<Rightarrow> PacketI \<Rightarrow> 'ack \<Rightarrow> (unit, 's) eff" where
  "ICS4_WriteAcknowledgement h s chanCap packet ack = channel_WriteAcknowledgement h s chanCap packet ack"

section \<open>Acknowledgements (\<^verbatim>\<open>osmoutils/ibc.go\<close>)\<close>

definition IbcAcknowledgementErrorType :: string where
  "IbcAcknowledgementErrorType = ''ibc-acknowledgement-error''"

definition NewEmitErrorAcknowledgement ::
  "('s, 'm, 'ack) host \<Rightarrow> 's \<Rightarrow> string \<Rightarrow> string list \<Rightarrow> 'ack \<times> 's" where
  "NewEmitErrorAcknowledgement h s e errorContexts =
     (let attributes = (''error'', e) # map (\<lambda>c. (''error-context'', c)) errorContexts
      in (NewErrorAcknowledgement h e, EmitEvent h (IbcAcknowledgementErrorType, attributes) s))"

definition IsAckError :: "('s, 'm, 'ack) host \<Rightarrow> string \<Rightarrow> bool" where
  "IsAckError h acknowledgement =
     (case Unmarshal_ack_error h acknowledgement of Ok e \<Rightarrow> length e > 0 | _ \<Rightarrow> False)"

text \<open>The denomination helpers of \<^verbatim>\<open>transfertypes\<close> are arguments.\<close>

record denom_lib =
  ReceiverChainIsSource :: "string \<Rightarrow> string \<Rightarrow> string \<Rightarrow> bool"
  GetDenomPrefix :: "string \<Rightarrow> string \<Rightarrow> string"
  Trace_Path :: "string \<Rightarrow> string"
  Trace_IBCDenom :: "string \<Rightarrow> string"

definition MustExtractDenomFromPacketOnRecv :: "denom_lib \<Rightarrow> ('s, 'm, 'ack) host \<Rightarrow> PacketI \<Rightarrow> string outcome" where
  "MustExtractDenomFromPacketOnRecv t h packet =
     (case Unmarshal_data h (GetData packet) of
        Ok dat \<Rightarrow>
          if ReceiverChainIsSource t (GetSourcePort packet) (GetSourceChannel packet) (Denom dat) then
            let voucherPrefix = GetDenomPrefix t (GetSourcePort packet) (GetSourceChannel packet)
            in if length voucherPrefix > length (Denom dat) then Panic ''slice bounds out of range''
               else let unprefixedDenom = drop (length voucherPrefix) (Denom dat)
                    in Ok (if Trace_Path t unprefixedDenom \<noteq> '''' then Trace_IBCDenom t unprefixedDenom else unprefixedDenom)
          else Ok (Trace_IBCDenom t (GetDenomPrefix t (GetDestPort packet) (GetDestChannel packet) @ Denom dat))
      | Err e \<Rightarrow> Panic ''unable to unmarshal ICS20 packet data''
      | Panic p \<Rightarrow> Panic p)"

section \<open>The receive side (\<^verbatim>\<open>ibc_module.go\<close>)\<close>

definition OnChanOpenInit ::
  "('s, 'm, 'ack) host \<Rightarrow> 's \<Rightarrow> nat \<Rightarrow> string list \<Rightarrow> string \<Rightarrow> string \<Rightarrow> nat \<Rightarrow> Counterparty \<Rightarrow> string \<Rightarrow> (string, 's) eff" where
  "OnChanOpenInit h s order connectionHops portID channelID channelCap counterparty version =
     app_OnChanOpenInit h s order connectionHops portID channelID channelCap counterparty version"

definition OnChanOpenTry ::
  "('s, 'm, 'ack) host \<Rightarrow> 's \<Rightarrow> nat \<Rightarrow> string list \<Rightarrow> string \<Rightarrow> string \<Rightarrow> nat \<Rightarrow> Counterparty \<Rightarrow> string \<Rightarrow> (string, 's) eff" where
  "OnChanOpenTry h s order connectionHops portID channelID channelCap counterparty counterpartyVersion =
     app_OnChanOpenTry h s order connectionHops portID channelID channelCap counterparty counterpartyVersion"

definition OnChanOpenAck :: "('s, 'm, 'ack) host \<Rightarrow> 's \<Rightarrow> string \<Rightarrow> string \<Rightarrow> string \<Rightarrow> string \<Rightarrow> (unit, 's) eff" where
  "OnChanOpenAck h s portID channelID counterpartyChannelID counterpartyVersion =
     app_OnChanOpenAck h s portID channelID counterpartyChannelID counterpartyVersion"

definition OnChanOpenConfirm :: "('s, 'm, 'ack) host \<Rightarrow> 's \<Rightarrow> string \<Rightarrow> string \<Rightarrow> (unit, 's) eff" where
  "OnChanOpenConfirm h s portID channelID = app_OnChanOpenConfirm h s portID channelID"

definition OnChanCloseInit :: "('s, 'm, 'ack) host \<Rightarrow> 's \<Rightarrow> string \<Rightarrow> string \<Rightarrow> (unit, 's) eff" where
  "OnChanCloseInit h s portID channelID = app_OnChanCloseInit h s portID channelID"

definition OnChanCloseConfirm :: "('s, 'm, 'ack) host \<Rightarrow> 's \<Rightarrow> string \<Rightarrow> string \<Rightarrow> (unit, 's) eff" where
  "OnChanCloseConfirm h s portID channelID = app_OnChanCloseConfirm h s portID channelID"

definition ValidateReceiverAddress :: "('s, 'm, 'ack) host \<Rightarrow> PacketI \<Rightarrow> unit outcome" where
  "ValidateReceiverAddress h packet =
     obind (Unmarshal_data h (GetData packet)) (\<lambda>packetData.
       if length (Receiver packetData) \<ge> 4096
       then Err (Wrap h ''invalid address'' ''IBC Receiver address too long. Max supported length is 4096'')
       else Ok ())"

definition OnRecvPacket :: "('s, 'm, 'ack) host \<Rightarrow> 's \<Rightarrow> PacketI \<Rightarrow> string \<Rightarrow> ('ack, 's) eff" where
  "OnRecvPacket h s packet relayer =
     (case ValidateReceiverAddress h packet of
        Err e \<Rightarrow> (let (ack, s') = NewEmitErrorAcknowledgement h s ErrBadMessage [e] in (Ok ack, s'))
      | Panic m \<Rightarrow> (Panic m, s)
      | Ok _ \<Rightarrow>
          let contract = GetContractAddress h s
          in if contract = '''' then app_OnRecvPacket h s packet relayer
             else on_err (CheckAndUpdateRateLimits h s ''recv_packet'' contract packet)
                    (\<lambda>e s'.
                       if sublist ''rate limit exceeded'' e
                       then let (ack, s'') = NewEmitErrorAcknowledgement h s' ErrRateLimitExceeded [] in (Ok ack, s'')
                       else let fullError = Wrap h ErrContractError e;
                                (ack, s'') = NewEmitErrorAcknowledgement h s' fullError []
                            in (Ok ack, s''))
                    (\<lambda>_ s'. app_OnRecvPacket h s' packet relayer))"

definition RevertSentPacket :: "('s, 'm, 'ack) host \<Rightarrow> 's \<Rightarrow> PacketI \<Rightarrow> (unit, 's) eff" where
  "RevertSentPacket h s packet =
     (let contract = GetContractAddress h s
      in if contract = '''' then (Ok (), s)
         else on_err (UndoSendRateLimit h s contract packet) (\<lambda>e s'. (Err e, s')) (\<lambda>_ s'. (Ok (), s')))"

definition OnAcknowledgementPacket :: "('s, 'm, 'ack) host \<Rightarrow> 's \<Rightarrow> PacketI \<Rightarrow> string \<Rightarrow> string \<Rightarrow> (unit, 's) eff" where
  "OnAcknowledgementPacket h s packet acknowledgement relayer =
     (case Unmarshal_ack h acknowledgement of
        Err e \<Rightarrow> (Err (Wrap h ''unknown request'' (''cannot unmarshal ICS-20 transfer packet acknowledgement: '' @ e)), s)
      | Panic m \<Rightarrow> (Panic m, s)
      | Ok _ \<Rightarrow>
          on_err (if IsAckError h acknowledgement
                  then on_err (RevertSentPacket h s packet)
                         (\<lambda>_ s'. (Ok (), EmitEvent h (EventBadRevert,
                            [(''module'', rate_limit_ModuleName), (''failure_type'', ''acknowledgment''),
                             (''packet'', GetData packet), (''acknowledgement'', acknowledgement)]) s'))
                         (\<lambda>_ s'. (Ok (), s'))
                  else (Ok (), s))
            (\<lambda>e s'. (Err e, s'))
            (\<lambda>_ s'. app_OnAcknowledgementPacket h s' packet acknowledgement relayer))"

definition OnTimeoutPacket :: "('s, 'm, 'ack) host \<Rightarrow> 's \<Rightarrow> PacketI \<Rightarrow> string \<Rightarrow> (unit, 's) eff" where
  "OnTimeoutPacket h s packet relayer =
     on_err (RevertSentPacket h s packet)
       (\<lambda>_ s'. app_OnTimeoutPacket h (EmitEvent h (EventBadRevert,
          [(''module'', rate_limit_ModuleName), (''failure_type'', ''timeout''), (''packet'', GetData packet)]) s') packet relayer)
       (\<lambda>_ s'. app_OnTimeoutPacket h s' packet relayer)"

definition Module_SendPacket :: "('s, 'm, 'ack) host \<Rightarrow> 's \<Rightarrow> nat \<Rightarrow> PacketI \<Rightarrow> (unit, 's) eff" where
  "Module_SendPacket h s chanCap packet = ICS4_SendPacket h s chanCap packet"

definition Module_WriteAcknowledgement :: "('s, 'm, 'ack) host \<Rightarrow> 's \<Rightarrow> nat \<Rightarrow> PacketI \<Rightarrow> 'ack \<Rightarrow> (unit, 's) eff" where
  "Module_WriteAcknowledgement h s chanCap packet ack = ICS4_WriteAcknowledgement h s chanCap packet ack"

definition Module_GetAppVersion :: "('s, 'm, 'ack) host \<Rightarrow> 's \<Rightarrow> string \<Rightarrow> string \<Rightarrow> string option" where
  "Module_GetAppVersion h s portID channelID = ICS4_GetAppVersion h s portID channelID"

section \<open>The middleware over the contract\<close>

text \<open>
  What the contract reads of a message: the JSON it is given holds the packet of the middleware, with
  the amount as a decimal string that \<open>amount_of\<close> parses.
\<close>

definition contract_packet :: "(string \<Rightarrow> nat option) \<Rightarrow> UnwrappedPacket \<Rightarrow> Packet option" where
  "contract_packet amount_of u =
     map_option (\<lambda>a. \<lparr>sequence = Sequence u, source_port = SourcePort u, source_channel = SourceChannel u,
        destination_port = DestinationPort u, destination_channel = DestinationChannel u,
        data = \<lparr>denom = Denom (Data u), amount = a, sender = Sender (Data u), receiver = Receiver (Data u)\<rparr>\<rparr>)
       (amount_of (Amount (Data u)))"

definition run_contract ::
  "(string \<Rightarrow> nat option) \<Rightarrow> (string \<Rightarrow> string) \<Rightarrow> (string \<Rightarrow> nat outcome) \<Rightarrow> contract_state \<Rightarrow> nat \<Rightarrow> wasm_msg \<Rightarrow> contract_state outcome" where
  "run_contract amount_of hash_denom supply c now m =
     (let (u, f) = (case m of Send_msg u \<Rightarrow> (u, SendPacketMsg) | Recv_msg u \<Rightarrow> (u, RecvPacketMsg) | Undo_msg u \<Rightarrow> (u, UndoSendMsg))
      in case contract_packet amount_of u of
           None \<Rightarrow> Err ''Error parsing into type''
         | Some p \<Rightarrow> contract_sudo hash_denom supply c now (f p))"

text \<open>
  The contract accepts a packet in the state \<open>c0\<close> and moves to \<open>c\<close>: it can be called for the packet, and its own
  handler of sent packets returns \<open>c\<close>.
\<close>

definition contract_accepts ::
  "('s, 'm, 'ack) host \<Rightarrow> (string \<Rightarrow> nat option) \<Rightarrow> (string \<Rightarrow> string) \<Rightarrow> (string \<Rightarrow> nat outcome) \<Rightarrow> contract_state \<Rightarrow> nat \<Rightarrow>
     's \<Rightarrow> PacketI \<Rightarrow> contract_state \<Rightarrow> bool" where
  "contract_accepts h amount_of hash_denom supply c0 now s packet c \<longleftrightarrow>
     is_channel_Packet packet \<and> is_Ok (AccAddressFromBech32 h (GetContractAddress h s)) \<and>
     (\<exists>u pkt. unwrapPacket h packet = Ok u \<and> contract_packet amount_of u = Some pkt \<and>
        contract_sudo hash_denom supply c0 now (SendPacketMsg pkt) = Ok c)"

text \<open>
  The interface to the contract keeper: a call of \<open>Sudo\<close> with an encoded message runs the contract on
  its own state and the block time, and commits that state only when the contract succeeds.
\<close>

locale contract_host =
  fixes h :: "('s, 'm, 'ack) host"
    and amount_of :: "string \<Rightarrow> nat option"
    and hash_denom :: "string \<Rightarrow> string"
    and supply_of :: "'s \<Rightarrow> string \<Rightarrow> nat outcome"
    and block_time :: "'s \<Rightarrow> nat"
    and contract_of :: "'s \<Rightarrow> contract_state"
    and with_contract :: "contract_state \<Rightarrow> 's \<Rightarrow> 's"
    and encode :: "wasm_msg \<Rightarrow> 'm"
  assumes marshal: "Marshal_msg h m = Ok (encode m)"
    and contract_of_with: "contract_of (with_contract c s) = c"
    and sudo: "Sudo h s a (encode m) =
      (case run_contract amount_of hash_denom (supply_of s) (contract_of s) (block_time s) m of
         Ok c \<Rightarrow> (Ok (), with_contract c s) | Err e \<Rightarrow> (Err e, s) | Panic e \<Rightarrow> (Err e, s))"
begin

lemma CheckAndUpdate_send:
  "(\<exists>e. CheckAndUpdateRateLimits h s ''send_packet'' a packet = (Err e, s)) \<or>
   (\<exists>p. CheckAndUpdateRateLimits h s ''send_packet'' a packet = (Panic p, s)) \<or>
   (\<exists>u pkt c. unwrapPacket h packet = Ok u \<and> contract_packet amount_of u = Some pkt \<and>
     process_packet hash_denom (supply_of s) (contract_of s) pkt Out (block_time s) = Ok c \<and>
     CheckAndUpdateRateLimits h s ''send_packet'' a packet = (Ok (), with_contract c s))"
proof (cases "AccAddressFromBech32 h a")
  case (Ok addr)
  then show ?thesis
    by (cases "unwrapPacket h packet")
       (auto simp: CheckAndUpdateRateLimits_def BuildWasmExecMsg_def msgSend_def marshal sudo run_contract_def
          contract_sudo_def split: option.splits outcome.splits)
qed (auto simp: CheckAndUpdateRateLimits_def)

lemma CheckAndUpdate_send_Ok:
  assumes "CheckAndUpdateRateLimits h s ''send_packet'' a packet = (Ok (), s')"
  obtains u pkt c where "unwrapPacket h packet = Ok u" "contract_packet amount_of u = Some pkt"
    "process_packet hash_denom (supply_of s) (contract_of s) pkt Out (block_time s) = Ok c" "s' = with_contract c s"
  using CheckAndUpdate_send[of s a packet] assms by auto

lemma Revert_runs_undo:
  assumes "unwrapPacket h packet = Ok u" "contract_packet amount_of u = Some pkt"
    and "GetContractAddress h s \<noteq> ''''" "AccAddressFromBech32 h (GetContractAddress h s) = Ok a"
    and "undo_send hash_denom (contract_of s) pkt = Ok c"
  shows "RevertSentPacket h s packet = (Ok (), with_contract c s)"
  using assms
  by (simp add: RevertSentPacket_def UndoSendRateLimit_def marshal sudo run_contract_def contract_sudo_def)

lemma send_guarded:
  assumes "GetContractAddress h s \<noteq> ''''"
  shows "contract_accepts h amount_of hash_denom (supply_of s) (contract_of s) (block_time s) s packet c \<Longrightarrow>
      ICS4_SendPacket h s chanCap packet = channel_SendPacket h (with_contract c s) chanCap packet"
    and "(\<And>c. \<not> contract_accepts h amount_of hash_denom (supply_of s) (contract_of s) (block_time s) s packet c) \<Longrightarrow>
      \<exists>e. ICS4_SendPacket h s chanCap packet = (Err e, s) \<or> ICS4_SendPacket h s chanCap packet = (Panic e, s)"
proof -
  assume "contract_accepts h amount_of hash_denom (supply_of s) (contract_of s) (block_time s) s packet c"
  then obtain u pkt addr where a: "is_channel_Packet packet" "AccAddressFromBech32 h (GetContractAddress h s) = Ok addr"
    "unwrapPacket h packet = Ok u" "contract_packet amount_of u = Some pkt"
    "contract_sudo hash_denom (supply_of s) (contract_of s) (block_time s) (SendPacketMsg pkt) = Ok c"
    by (auto simp: contract_accepts_def is_Ok_iff)
  then show "ICS4_SendPacket h s chanCap packet = channel_SendPacket h (with_contract c s) chanCap packet"
    using assms by (simp add: ICS4_SendPacket_def CheckAndUpdateRateLimits_def BuildWasmExecMsg_def msgSend_def marshal sudo run_contract_def)
next
  assume no: "\<And>c. \<not> contract_accepts h amount_of hash_denom (supply_of s) (contract_of s) (block_time s) s packet c"
  show "\<exists>e. ICS4_SendPacket h s chanCap packet = (Err e, s) \<or> ICS4_SendPacket h s chanCap packet = (Panic e, s)"
  proof (cases "is_channel_Packet packet \<and> is_Ok (AccAddressFromBech32 h (GetContractAddress h s))")
    case True
    from CheckAndUpdate_send[of s "GetContractAddress h s" packet] show ?thesis
      using assms True no by (auto simp: ICS4_SendPacket_def contract_accepts_def contract_sudo_def)
  qed (use assms in \<open>auto simp: ICS4_SendPacket_def CheckAndUpdateRateLimits_def try_pure_def is_Ok_iff split: outcome.splits\<close>)
qed

lemma timeout_restores:
  assumes "CheckAndUpdateRateLimits h s ''send_packet'' a packet = (Ok (), s1)"
    and "contract_of s2 = contract_of s1"
    and "GetContractAddress h s2 \<noteq> ''''" "AccAddressFromBech32 h (GetContractAddress h s2) = Ok a2"
    and "\<forall>k. \<forall>l \<in> set (trackers_at (contract_of s) k). \<not> is_expired (flow l) (block_time s)"
    and "\<forall>u pkt k. unwrapPacket h packet = Ok u \<and> contract_packet amount_of u = Some pkt \<longrightarrow>
      (\<forall>l \<in> set (trackers_at (contract_of s) k). outflow (flow l) + amount (data pkt) \<le> u256_max)"
  shows "\<exists>s3. OnTimeoutPacket h s2 packet relayer = app_OnTimeoutPacket h s3 packet relayer \<and>
    (\<forall>k. map flow (trackers_at (contract_of s3) k) = map flow (trackers_at (contract_of s) k))"
proof -
  obtain u pkt c where u: "unwrapPacket h packet = Ok u" "contract_packet amount_of u = Some pkt"
    and c: "process_packet hash_denom (supply_of s) (contract_of s) pkt Out (block_time s) = Ok c" "s1 = with_contract c s"
    using assms(1) by (rule CheckAndUpdate_send_Ok)
  have "\<exists>c'. undo_send hash_denom c pkt = Ok c' \<and>
      (\<forall>k. map flow (trackers_at c' k) = map flow (trackers_at (contract_of s) k))"
    by (rule undo_send_restores[OF c(1)]) (use assms(5,6) u in blast)
  then obtain c' where c': "undo_send hash_denom c pkt = Ok c'"
    "\<forall>k. map flow (trackers_at c' k) = map flow (trackers_at (contract_of s) k)" by blast
  have "RevertSentPacket h s2 packet = (Ok (), with_contract c' s2)"
    using Revert_runs_undo[OF u assms(3,4)] c' c(2) assms(2) by (simp add: contract_of_with)
  then have "OnTimeoutPacket h s2 packet relayer = app_OnTimeoutPacket h (with_contract c' s2) packet relayer"
    by (simp add: OnTimeoutPacket_def)
  with c'(2) show ?thesis by (intro exI[of _ "with_contract c' s2"]) (simp add: contract_of_with)
qed

end

section \<open>A chain that runs the contract\<close>

record chain =
  chain_contract :: contract_state
  chain_params :: "(string \<times> string) list"
  chain_events :: "event list"
  chain_sent :: "PacketI list"
  chain_time :: nat

text \<open>
  A host whose contract keeper is the contract of \<open>Rate_Limiter\<close>, with the messages themselves as
  their encoding, an association list as parameter space, and a channel and an application that
  record what reaches them.
\<close>

definition chain_host ::
  "(string \<Rightarrow> FungibleTokenPacketData outcome) \<Rightarrow> (string \<Rightarrow> nat option) \<Rightarrow> (string \<Rightarrow> string) \<Rightarrow> (string \<Rightarrow> nat outcome) \<Rightarrow>
     (chain, wasm_msg, string) host" where
  "chain_host dec amount_of hash_denom supply =
     \<lparr>AccAddressFromBech32 = (\<lambda>a. if a = '''' then Err ''empty address string is not allowed'' else Ok a),
      VerifyAddressFormat = (\<lambda>_. Ok ()),
      Wrap = (\<lambda>e d. d @ '': '' @ e),
      Unmarshal_data = dec,
      Unmarshal_ack = (\<lambda>_. Ok ()),
      Unmarshal_ack_error = (\<lambda>a. Ok a),
      Marshal_msg = (\<lambda>m. Ok m),
      NewErrorAcknowledgement = (\<lambda>e. e),
      GetIfExists = (\<lambda>s k. map_of (chain_params s) k),
      Set_param = (\<lambda>s k v. s\<lparr>chain_params := (k, v) # chain_params s\<rparr>),
      EmitEvent = (\<lambda>e s. s\<lparr>chain_events := chain_events s @ [e]\<rparr>),
      Sudo = (\<lambda>s a m.
        case run_contract amount_of hash_denom supply (chain_contract s) (chain_time s) m of
          Ok c \<Rightarrow> (Ok (), s\<lparr>chain_contract := c\<rparr>) | Err e \<Rightarrow> (Err e, s) | Panic e \<Rightarrow> (Err e, s)),
      channel_SendPacket = (\<lambda>s _ p. (Ok (), s\<lparr>chain_sent := chain_sent s @ [p]\<rparr>)),
      channel_WriteAcknowledgement = (\<lambda>s _ _ _. (Ok (), s)),
      channel_GetAppVersion = (\<lambda>_ _ _. None),
      app_OnChanOpenInit = (\<lambda>s _ _ _ _ _ _ v. (Ok v, s)),
      app_OnChanOpenTry = (\<lambda>s _ _ _ _ _ _ v. (Ok v, s)),
      app_OnChanOpenAck = (\<lambda>s _ _ _ _. (Ok (), s)),
      app_OnChanOpenConfirm = (\<lambda>s _ _. (Ok (), s)),
      app_OnChanCloseInit = (\<lambda>s _ _. (Ok (), s)),
      app_OnChanCloseConfirm = (\<lambda>s _ _. (Ok (), s)),
      app_OnRecvPacket = (\<lambda>s _ _. (Ok ''ok'', s)),
      app_OnAcknowledgementPacket = (\<lambda>s _ _ _. (Ok (), s)),
      app_OnTimeoutPacket = (\<lambda>s _ _. (Ok (), s))\<rparr>"

interpretation ch: contract_host "chain_host dec amount_of hash_denom supply" amount_of hash_denom "\<lambda>_. supply"
  chain_time chain_contract "\<lambda>c s. s\<lparr>chain_contract := c\<rparr>" "\<lambda>m. m"
  by unfold_locales (simp_all add: chain_host_def)

section \<open>Properties of the middleware\<close>

text \<open>
  C21 With a contract configured, exactly the packets that the contract accepts are sent. When the contract's handler of
  sent packets accepts this packet and returns the state \<open>c\<close>, the packet is passed to the wrapped channel in the
  present state with the contract's state replaced by \<open>c\<close>, and all limits hold in \<open>c\<close>; when it does not accept the
  packet, or cannot be called for it, the send fails and the chain is left as it was.
\<close>

theorem SendPacket_within_limits:
  assumes "contract_host h amount_of hash_denom supply_of block_time contract_of with_contract encode"
    and "GetContractAddress h s \<noteq> ''''"
    and "instantiate gov ibc paths t0 = Ok st0" "(contract_step hash_denom)\<^sup>*\<^sup>* st0 (contract_of s)"
  shows "if \<exists>c. contract_accepts h amount_of hash_denom (supply_of s) (contract_of s) (block_time s) s packet c
    then \<exists>c. contract_accepts h amount_of hash_denom (supply_of s) (contract_of s) (block_time s) s packet c \<and>
      ICS4_SendPacket h s chanCap packet = channel_SendPacket h (with_contract c s) chanCap packet \<and>
      contract_of (with_contract c s) = c \<and>
      (\<forall>k. \<forall>l \<in> set (trackers_at c k).
         \<exists>max_in max_out. capacity (quota l) = Ok (max_in, max_out) \<and> outflow (flow l) - inflow (flow l) \<le> max_out)
    else \<exists>e. ICS4_SendPacket h s chanCap packet \<in> {(Err e, s), (Panic e, s)}"
proof (cases "\<exists>c. contract_accepts h amount_of hash_denom (supply_of s) (contract_of s) (block_time s) s packet c")
  case True
  then obtain c where c: "contract_accepts h amount_of hash_denom (supply_of s) (contract_of s) (block_time s) s packet c" by blast
  then have "contract_step hash_denom (contract_of s) c" unfolding contract_accepts_def by (blast intro: by_sudo)
  then have "(contract_step hash_denom)\<^sup>*\<^sup>* st0 c" using assms(4) by (rule rtranclp.rtrancl_into_rtrancl[rotated])
  then have limits: "\<forall>k. \<forall>l \<in> set (trackers_at c k).
      \<exists>max_in max_out. capacity (quota l) = Ok (max_in, max_out) \<and> outflow (flow l) - inflow (flow l) \<le> max_out"
    using reachable_within[OF assms(3)] by blast
  have "contract_of (with_contract c s) = c" by (rule contract_host.contract_of_with[OF assms(1)])
  with True c limits contract_host.send_guarded(1)[OF assms(1,2) c] show ?thesis by auto
next
  case False
  with contract_host.send_guarded(2)[OF assms(1,2)] show ?thesis by fastforce
qed

text \<open>
  C23 A transfer that was let through and then times out is taken off the limits again: the timeout
  always reaches the wrapped application, in a state in which every limit of the contract has the flow
  it had before the send. Between the two only the rest of the chain may have changed; the contract is
  still configured, no period had ended at the send and no counter saturated.
\<close>

theorem timeout_restores_limits:
  assumes "contract_host h amount_of hash_denom supply_of block_time contract_of with_contract encode"
    and "CheckAndUpdateRateLimits h s ''send_packet'' a packet = (Ok (), s1)"
    and "contract_of s2 = contract_of s1"
    and "GetContractAddress h s2 \<noteq> ''''" "AccAddressFromBech32 h (GetContractAddress h s2) = Ok a2"
    and "\<forall>k. \<forall>l \<in> set (trackers_at (contract_of s) k). \<not> is_expired (flow l) (block_time s)"
    and "\<forall>u pkt k. unwrapPacket h packet = Ok u \<and> contract_packet amount_of u = Some pkt \<longrightarrow>
      (\<forall>l \<in> set (trackers_at (contract_of s) k). outflow (flow l) + amount (data pkt) \<le> u256_max)"
  shows "\<exists>s3. OnTimeoutPacket h s2 packet relayer = app_OnTimeoutPacket h s3 packet relayer \<and>
    (\<forall>k. map flow (trackers_at (contract_of s3) k) = map flow (trackers_at (contract_of s) k))"
  by (rule contract_host.timeout_restores[OF assms])

text \<open>A chain with the example contract, configured, and a transfer of fifty units.\<close>

definition example_data :: "string \<Rightarrow> FungibleTokenPacketData outcome" where
  "example_data b = Ok \<lparr>Denom = ''uosmo'', Amount = b, Sender = ''alice'', Receiver = ''bob'', Memo = ''''\<rparr>"

definition example_amount :: "string \<Rightarrow> nat option" where
  "example_amount b = (if b = ''50'' then Some 50 else None)"

definition example_chain :: chain where
  "example_chain = \<lparr>chain_contract = example_state None 0, chain_params = [(KeyContractAddress, ''osmo1contract'')],
     chain_events = [], chain_sent = [], chain_time = 5\<rparr>"

definition example_PacketI :: PacketI where
  "example_PacketI = \<lparr>GetSequence = 1, GetSourcePort = ''transfer'', GetSourceChannel = ''channel-0'',
     GetDestPort = ''transfer'', GetDestChannel = ''channel-9'', GetData = ''50'', GetTimeoutHeight = ClientHeight 1 100,
     GetTimeoutTimestamp = 0, is_channel_Packet = True\<rparr>"

abbreviation example_host :: "(chain, wasm_msg, string) host" where
  "example_host \<equiv> chain_host example_data example_amount (\<lambda>x. x) (\<lambda>_. Ok 1000)"

lemma example_address: "GetContractAddress example_host s =
    (case map_of (chain_params s) KeyContractAddress of None \<Rightarrow> '''' | Some a \<Rightarrow> a)"
  by (simp add: GetContractAddress_def GetParams_def ParamSetPairs_def chain_host_def DefaultParams_def Let_def
      split: option.splits)

lemma example_packet_of:
  "unwrapPacket example_host example_PacketI = Ok u \<Longrightarrow> contract_packet example_amount u = Some (example_packet 50)"
  by (auto simp: unwrapPacket_def chain_host_def example_data_def example_PacketI_def contract_packet_def
      example_amount_def example_packet_def)

lemma example_check:
  "\<exists>c. CheckAndUpdateRateLimits example_host example_chain ''send_packet'' ''osmo1contract'' example_PacketI =
     (Ok (), example_chain\<lparr>chain_contract := c\<rparr>) \<and>
     trackers_at c (''channel-0'', ''uosmo'') = [example_limit (Some 1000) 50]"
proof -
  obtain c where c: "process_packet (\<lambda>x. x) (\<lambda>_. Ok 1000) (example_state None 0) (example_packet 50) Out 5 = Ok c"
    and t: "trackers_at c (''channel-0'', ''uosmo'') = [example_limit (Some 1000) 50]" using example_send by blast
  from c have "CheckAndUpdateRateLimits example_host example_chain ''send_packet'' ''osmo1contract'' example_PacketI =
      (Ok (), example_chain\<lparr>chain_contract := c\<rparr>)"
    by (simp add: CheckAndUpdateRateLimits_def BuildWasmExecMsg_def unwrapPacket_def msgSend_def run_contract_def
      contract_packet_def contract_sudo_def chain_host_def example_data_def example_amount_def example_chain_def
      example_PacketI_def example_packet_def)
  with t show ?thesis by blast
qed

lemma example_accepts:
  "\<exists>c. contract_accepts example_host example_amount (\<lambda>x. x) (\<lambda>_. Ok 1000) (chain_contract example_chain)
      (chain_time example_chain) example_chain example_PacketI c \<and>
     trackers_at c (''channel-0'', ''uosmo'') = [example_limit (Some 1000) 50]"
proof -
  obtain c where c: "process_packet (\<lambda>x. x) (\<lambda>_. Ok 1000) (example_state None 0) (example_packet 50) Out 5 = Ok c"
    and t: "trackers_at c (''channel-0'', ''uosmo'') = [example_limit (Some 1000) 50]" using example_send by blast
  obtain u where u: "unwrapPacket example_host example_PacketI = Ok u"
    by (simp add: unwrapPacket_def chain_host_def example_data_def example_PacketI_def)
  have "is_Ok (AccAddressFromBech32 example_host (GetContractAddress example_host example_chain))" "is_channel_Packet example_PacketI"
    by (simp_all add: example_address example_chain_def example_PacketI_def) (simp add: chain_host_def)
  then show ?thesis using u example_packet_of[OF u] c t
    by (intro exI[of _ c]) (auto simp: contract_accepts_def contract_sudo_def example_chain_def)
qed

theorem SendPacket_within_limits_witness:
  "\<exists>c max_in max_out.
     ICS4_SendPacket example_host example_chain 0 example_PacketI =
       channel_SendPacket example_host (example_chain\<lparr>chain_contract := c\<rparr>) 0 example_PacketI \<and>
     trackers_at c (''channel-0'', ''uosmo'') = [example_limit (Some 1000) 50] \<and>
     capacity (quota (example_limit (Some 1000) 50)) = Ok (max_in, max_out) \<and> 50 \<le> max_out"
proof -
  obtain c where c: "contract_accepts example_host example_amount (\<lambda>x. x) (\<lambda>_. Ok 1000) (chain_contract example_chain)
      (chain_time example_chain) example_chain example_PacketI c"
    and t: "trackers_at c (''channel-0'', ''uosmo'') = [example_limit (Some 1000) 50]" using example_accepts by blast
  have unique: "c' = c" if "contract_accepts example_host example_amount (\<lambda>x. x) (\<lambda>_. Ok 1000) (chain_contract example_chain)
      (chain_time example_chain) example_chain example_PacketI c'" for c'
    using that c by (auto simp: contract_accepts_def)
  have i: "(contract_step (\<lambda>x. x))\<^sup>*\<^sup>* (example_state None 0) (chain_contract example_chain)" by (simp add: example_chain_def)
  have "GetContractAddress example_host example_chain \<noteq> ''''" by (simp add: example_address example_chain_def)
  note sent = SendPacket_within_limits[OF ch.contract_host_axioms this example_instantiate i, of example_PacketI 0]
  have ex: "\<exists>c. contract_accepts example_host example_amount (\<lambda>x. x) (\<lambda>_. Ok 1000) (chain_contract example_chain)
      (chain_time example_chain) example_chain example_PacketI c" using c by blast
  obtain c' where c': "contract_accepts example_host example_amount (\<lambda>x. x) (\<lambda>_. Ok 1000) (chain_contract example_chain)
      (chain_time example_chain) example_chain example_PacketI c'"
    "ICS4_SendPacket example_host example_chain 0 example_PacketI =
       channel_SendPacket example_host (example_chain\<lparr>chain_contract := c'\<rparr>) 0 example_PacketI"
    and l: "\<And>k l. l \<in> set (trackers_at c' k) \<Longrightarrow>
      \<exists>max_in max_out. capacity (quota l) = Ok (max_in, max_out) \<and> outflow (flow l) - inflow (flow l) \<le> max_out"
    using sent[unfolded if_P[OF ex]] by blast
  have "trackers_at c' (''channel-0'', ''uosmo'') = [example_limit (Some 1000) 50]" using unique[OF c'(1)] t by simp
  with c'(2) l[of "example_limit (Some 1000) 50" "(''channel-0'', ''uosmo'')"] show ?thesis
    by (auto simp: example_limit_def)
qed

theorem timeout_restores_limits_witness:
  "\<exists>s1 s3. CheckAndUpdateRateLimits example_host example_chain ''send_packet'' ''osmo1contract'' example_PacketI = (Ok (), s1) \<and>
     OnTimeoutPacket example_host s1 example_PacketI ''relayer'' = app_OnTimeoutPacket example_host s3 example_PacketI ''relayer'' \<and>
     (\<forall>k. map flow (trackers_at (chain_contract s3) k) = map flow (trackers_at (chain_contract example_chain) k))"
proof -
  obtain c where c: "CheckAndUpdateRateLimits example_host example_chain ''send_packet'' ''osmo1contract'' example_PacketI =
      (Ok (), example_chain\<lparr>chain_contract := c\<rparr>)" using example_check by blast
  have addr: "GetContractAddress example_host (example_chain\<lparr>chain_contract := c\<rparr>) = ''osmo1contract''"
    by (simp add: example_address example_chain_def)
  have acc: "AccAddressFromBech32 example_host ''osmo1contract'' = Ok ''osmo1contract''" by (simp add: chain_host_def)
  have fresh: "\<forall>k. \<forall>l \<in> set (trackers_at (chain_contract example_chain) k). \<not> is_expired (flow l) (chain_time example_chain)"
    by (simp add: trackers_at_def example_chain_def example_defs is_expired_def)
  have small: "\<forall>u pkt k. unwrapPacket example_host example_PacketI = Ok u \<and> contract_packet example_amount u = Some pkt \<longrightarrow>
      (\<forall>l \<in> set (trackers_at (chain_contract example_chain) k). outflow (flow l) + amount (data pkt) \<le> u256_max)"
    by (auto dest: example_packet_of simp: trackers_at_def example_chain_def example_defs u256_max_def)
  show ?thesis
    using timeout_restores_limits[OF ch.contract_host_axioms c refl _ _ fresh small, of "''osmo1contract''" "''relayer''"]
      c addr acc by auto
qed

text \<open>
  Every failure of the contract on a received packet is answered with the error ``rate limit
  exceeded'', whatever the failure was: the call wraps it in that error before the handler looks for
  its text, so the branch that reports a contract error is never taken for it. \<open>Wrap\<close> keeps the text
  of the error that it wraps.
\<close>

theorem OnRecvPacket_hides_contract_errors:
  assumes "\<And>e d. sublist e (Wrap h e d)"
    and "ValidateReceiverAddress h packet = Ok ()" "GetContractAddress h s \<noteq> ''''"
    and "AccAddressFromBech32 h (GetContractAddress h s) = Ok a" "BuildWasmExecMsg h ''recv_packet'' packet = Ok m"
    and "Sudo h s a m = (Err e, s')"
  shows "OnRecvPacket h s packet relayer =
    (Ok (NewErrorAcknowledgement h ErrRateLimitExceeded),
     EmitEvent h (IbcAcknowledgementErrorType, [(''error'', ErrRateLimitExceeded)]) s')"
  using assms(2-) assms(1)[of ErrRateLimitExceeded e]
  by (simp add: OnRecvPacket_def CheckAndUpdateRateLimits_def NewEmitErrorAcknowledgement_def ErrRateLimitExceeded_def)

text \<open>The amount of this packet does not parse: the contract rejects the message, not the transfer.\<close>

theorem OnRecvPacket_hides_contract_errors_witness:
  "OnRecvPacket example_host example_chain (example_PacketI\<lparr>GetData := ''x''\<rparr>) ''relayer'' =
    (Ok ErrRateLimitExceeded,
     example_chain\<lparr>chain_events := [(IbcAcknowledgementErrorType, [(''error'', ErrRateLimitExceeded)])]\<rparr>)"
proof -
  let ?p = "example_PacketI\<lparr>GetData := ''x''\<rparr>"
  have w: "sublist e (Wrap example_host e d)" for e d
    unfolding sublist_def by (intro exI[of _ "d @ '': ''"] exI[of _ "[]"]) (simp add: chain_host_def)
  have v: "ValidateReceiverAddress example_host ?p = Ok ()"
    by (simp add: ValidateReceiverAddress_def chain_host_def example_data_def)
  have a: "GetContractAddress example_host example_chain = ''osmo1contract''"
    by (simp add: example_address example_chain_def)
  obtain m where m: "BuildWasmExecMsg example_host ''recv_packet'' ?p = Ok m"
    "Sudo example_host example_chain ''osmo1contract'' m = (Err ''Error parsing into type'', example_chain)"
    by (simp add: BuildWasmExecMsg_def unwrapPacket_def chain_host_def example_data_def example_PacketI_def
      msgSend_def msgRecv_def run_contract_def contract_packet_def example_amount_def)
  have "AccAddressFromBech32 example_host ''osmo1contract'' = Ok ''osmo1contract''" by (simp add: chain_host_def)
  then show ?thesis
    using OnRecvPacket_hides_contract_errors[OF w v _ _ m(1), of example_chain "''osmo1contract''"] a m(2)
    by (simp add: chain_host_def example_chain_def)
qed

section \<open>The denomination of a received packet\<close>

text \<open>
  C33 When the contract and the chain agree on the local denomination of a transfer received on the transfer port, and
  when they do not. They agree on a denomination that does not begin with the port and the source channel (hashed
  with the prefix of this chain), and on a returning one, \<open>transfer/channel/base\<close>, if the base has no slash or is a
  path, hashed in the latter case. They disagree if the denomination goes on after the source channel with anything but a
  slash: the contract takes the denomination for the empty one, the chain hashes it with its prefix; and if the base has a
  slash but is no path, as for a pool share: the contract uses its hash, the chain the base itself. The laws of the
  transfer module are those it documents.
\<close>

theorem contract_and_chain_denoms:
  assumes "\<And>port chan d. ReceiverChainIsSource t port chan d \<longleftrightarrow> prefix (GetDenomPrefix t port chan) d"
    and "\<And>port chan. GetDenomPrefix t port chan = port @ ''/'' @ chan @ ''/''"
    and "\<And>d. Trace_Path t d \<noteq> '''' \<Longrightarrow> Trace_IBCDenom t d = hash_denom d"
    and "\<And>d. CHR ''/'' \<notin> set d \<Longrightarrow> Trace_Path t d = ''''"
    and "Trace_Path t (''transfer/'' @ GetDestChannel packet @ ''/'' @ Denom dat) \<noteq> ''''" "\<And>d. hash_denom d \<noteq> ''''"
    and "Unmarshal_data h (GetData packet) = Ok dat" "unwrapPacket h packet = Ok u" "contract_packet amount_of u = Some p"
    and "GetSourcePort packet = ''transfer''" "GetDestPort packet = ''transfer''"
  shows "MustExtractDenomFromPacketOnRecv t h packet = Ok (local_denom hash_denom p In) \<longleftrightarrow>
    (case strip_prefix (''transfer/'' @ GetSourceChannel packet) (Denom dat) of
       None \<Rightarrow> True
     | Some rest \<Rightarrow>
         (case strip_prefix ''/'' rest of
            None \<Rightarrow> False
          | Some base \<Rightarrow> CHR ''/'' \<notin> set base \<or> Trace_Path t base \<noteq> '''' \<or> hash_denom base = base))"
proof -
  have p: "source_channel p = GetSourceChannel packet" "destination_channel p = GetDestChannel packet" "denom (data p) = Denom dat"
    using assms(7,8,9) by (auto simp: unwrapPacket_def contract_packet_def split: exported_Height.splits)
  note chain = MustExtractDenomFromPacketOnRecv_def assms(1,2,5,7,10,11) assms(3)[OF assms(5), simplified] Let_def
  note contract = local_denom_def handle_denom_for_recvs_def receiver_chain_is_source_def strip_prefix_def p
  show ?thesis
  proof (cases "prefix (''transfer/'' @ GetSourceChannel packet) (Denom dat)")
    case False
    then have "\<not> prefix (''transfer/'' @ GetSourceChannel packet @ ''/'') (Denom dat)" by (auto simp: prefix_def)
    then show ?thesis using False by (simp add: chain contract)
  next
    case True
    then obtain rest where r: "Denom dat = ''transfer/'' @ GetSourceChannel packet @ rest" by (auto simp: prefix_def)
    show ?thesis
    proof (cases "prefix ''/'' rest")
      case True
      then obtain base where "rest = ''/'' @ base" by (auto simp: prefix_def)
      then show ?thesis using assms(3,4)[of base] r by (auto simp: chain contract)
    next
      case False
      then show ?thesis using assms(6) r assms(3)[OF assms(5)] by (auto simp: chain contract)
    qed
  qed
qed

definition example_denoms :: denom_lib where
  "example_denoms = \<lparr>ReceiverChainIsSource = (\<lambda>port chan d. prefix (port @ ''/'' @ chan @ ''/'') d),
     GetDenomPrefix = (\<lambda>port chan. port @ ''/'' @ chan @ ''/''),
     Trace_Path = (\<lambda>d. if prefix ''transfer/'' d then ''transfer/channel-9'' else ''''),
     Trace_IBCDenom = (\<lambda>d. ''ibc/'' @ d)\<rparr>"

definition denom_host :: "(chain, wasm_msg, string) host" where
  "denom_host = example_host\<lparr>Unmarshal_data := (\<lambda>b. Ok \<lparr>Denom = b, Amount = ''50'', Sender = ''alice'', Receiver = ''bob'', Memo = ''''\<rparr>)\<rparr>"

text \<open>
  A foreign token, a returning native one, one that has come through channel-0 twice, a token of channel-01, and a
  returning pool share.
\<close>

theorem contract_and_chain_denoms_witness:
  "(let agree = (\<lambda>d. \<exists>u p. unwrapPacket denom_host (example_PacketI\<lparr>GetData := d\<rparr>) = Ok u \<and> contract_packet example_amount u = Some p \<and>
        MustExtractDenomFromPacketOnRecv example_denoms denom_host (example_PacketI\<lparr>GetData := d\<rparr>)
          = Ok (local_denom (\<lambda>d. ''ibc/'' @ d) p In))
    in agree ''uatom'' \<and> agree ''transfer/channel-0/uosmo'' \<and> agree ''transfer/channel-0/transfer/channel-7/uatom'' \<and>
       \<not> agree ''transfer/channel-01/uatom'' \<and> \<not> agree ''transfer/channel-0/gamm/pool/1'')"
proof -
  let ?agree = "\<lambda>d. \<exists>u p. unwrapPacket denom_host (example_PacketI\<lparr>GetData := d\<rparr>) = Ok u \<and> contract_packet example_amount u = Some p \<and>
      MustExtractDenomFromPacketOnRecv example_denoms denom_host (example_PacketI\<lparr>GetData := d\<rparr>)
        = Ok (local_denom (\<lambda>d. ''ibc/'' @ d) p In)"
  have agree: "?agree d \<longleftrightarrow>
      (case strip_prefix ''transfer/channel-0'' d of
         None \<Rightarrow> True
       | Some rest \<Rightarrow>
           (case strip_prefix ''/'' rest of
              None \<Rightarrow> False
            | Some base \<Rightarrow> CHR ''/'' \<notin> set base \<or> Trace_Path example_denoms base \<noteq> '''' \<or> ''ibc/'' @ base = base))" for d
  proof -
    let ?packet = "example_PacketI\<lparr>GetData := d\<rparr>"
    obtain u p where u: "unwrapPacket denom_host ?packet = Ok u" "contract_packet example_amount u = Some p"
      by (simp add: unwrapPacket_def denom_host_def example_PacketI_def contract_packet_def example_amount_def)
    have dat: "Unmarshal_data denom_host (GetData ?packet) =
        Ok \<lparr>Denom = d, Amount = ''50'', Sender = ''alice'', Receiver = ''bob'', Memo = ''''\<rparr>"
      by (simp add: denom_host_def)
    have slash: "Trace_Path example_denoms d = ''''" if "CHR ''/'' \<notin> set d" for d
      using that by (auto simp: example_denoms_def prefix_def)
    have "MustExtractDenomFromPacketOnRecv example_denoms denom_host ?packet = Ok (local_denom (\<lambda>d. ''ibc/'' @ d) p In) \<longleftrightarrow>
      (case strip_prefix (''transfer/'' @ GetSourceChannel ?packet) (Denom \<lparr>Denom = d, Amount = ''50'', Sender = ''alice'', Receiver = ''bob'', Memo = ''''\<rparr>) of
         None \<Rightarrow> True
       | Some rest \<Rightarrow>
           (case strip_prefix ''/'' rest of
              None \<Rightarrow> False
            | Some base \<Rightarrow> CHR ''/'' \<notin> set base \<or> Trace_Path example_denoms base \<noteq> '''' \<or> ''ibc/'' @ base = base))"
      by (rule contract_and_chain_denoms[OF _ _ _ slash _ _ dat u]) (simp_all add: example_denoms_def example_PacketI_def)
    then show ?thesis using u by (simp add: example_PacketI_def)
  qed
  show ?thesis unfolding Let_def agree by (simp add: strip_prefix_def example_denoms_def)
qed

end
