(* ===== verification/Binary_Search.thy ===== *)
theory Binary_Search
  imports Big_Dec
begin

text \<open>
  \<^verbatim>\<open>src/osmomath/binary_search.go\<close> and \<^verbatim>\<open>src/osmomath/rounding_direction.go\<close>: comparison up to a tolerance,
  bisection over a function, and division of amounts by a scale. \<^verbatim>\<open>sdk.Int\<close>, \<^verbatim>\<open>sdk.Dec\<close> and
  \<^verbatim>\<open>sdk.Coins.AmountOf\<close> are the record \<open>sdk_num\<close>, an argument; the decimals of the repository itself
  are those of \<open>Big_Dec\<close>. A tolerance that is not set (\<^verbatim>\<open>sdk.Dec{}\<close>) is \<open>None\<close>.
\<close>

section \<open>Definitions\<close>

record ('i, 'd) sdk_num =
  Int_ToDec :: "'i \<Rightarrow> 'd outcome"
  Int_GT :: "'i \<Rightarrow> 'i \<Rightarrow> bool"
  Int_LT :: "'i \<Rightarrow> 'i \<Rightarrow> bool"
  Int_Equal :: "'i \<Rightarrow> 'i \<Rightarrow> bool"
  Int_Abs :: "'i \<Rightarrow> 'i"
  Int_Min :: "'i \<Rightarrow> 'i \<Rightarrow> 'i"
  Int_IsZero :: "'i \<Rightarrow> bool"
  Int_Add :: "'i \<Rightarrow> 'i \<Rightarrow> 'i outcome"
  Int_QuoRaw :: "'i \<Rightarrow> int64 \<Rightarrow> 'i outcome"
  Dec_Sub :: "'d \<Rightarrow> 'd \<Rightarrow> 'd outcome"
  Dec_Quo :: "'d \<Rightarrow> 'd \<Rightarrow> 'd outcome"
  Dec_Abs :: "'d \<Rightarrow> 'd"
  Dec_GT :: "'d \<Rightarrow> 'd \<Rightarrow> bool"
  Dec_IsZero :: "'d \<Rightarrow> bool"
  Dec_BigInt :: "'d \<Rightarrow> int"
  sdk_Precision :: nat
  Coins_AmountOf :: "(string \<times> 'i) list \<Rightarrow> string \<Rightarrow> 'i outcome"

type_synonym RoundingDirection = int64

definition RoundUnconstrained :: RoundingDirection where "RoundUnconstrained = 0"
definition RoundUp :: RoundingDirection where "RoundUp = 1"
definition RoundDown :: RoundingDirection where "RoundDown = 2"
definition RoundBankers :: RoundingDirection where "RoundBankers = 3"

record 'd ErrTolerance =
  AdditiveTolerance :: "'d option"
  MultiplicativeTolerance :: "'d option"
  RoundingDir :: RoundingDirection

text \<open>The last block of both comparisons, the check of the multiplicative tolerance.\<close>

definition Compare_multiplicative :: "('i, 'd) sdk_num \<Rightarrow> 'd option \<Rightarrow> 'i \<Rightarrow> 'i \<Rightarrow> 'd \<Rightarrow> int \<Rightarrow> int outcome" where
  "Compare_multiplicative L tol expected actual diff comparisonSign =
     (case tol of
        None \<Rightarrow> Ok 0
      | Some t \<Rightarrow>
          if Dec_IsZero L t then Ok 0
          else let minValue = Int_Min L (Int_Abs L expected) (Int_Abs L actual)
               in if Int_IsZero L minValue then Ok comparisonSign
                  else obind (Int_ToDec L minValue) (\<lambda>m. obind (Dec_Quo L diff m) (\<lambda>errTerm.
                         Ok (if Dec_GT L errTerm t then comparisonSign else 0))))"

definition Compare :: "('i, 'd) sdk_num \<Rightarrow> 'd ErrTolerance \<Rightarrow> 'i \<Rightarrow> 'i \<Rightarrow> int outcome" where
  "Compare L e expected actual =
     obind (Int_ToDec L expected) (\<lambda>ed. obind (Int_ToDec L actual) (\<lambda>ad. obind (Dec_Sub L ed ad) (\<lambda>d.
     let diff = Dec_Abs L d;
         comparisonSign = (if Int_GT L expected actual then 1 else - 1);
         multiplicative = Compare_multiplicative L (MultiplicativeTolerance e) expected actual diff comparisonSign
     in if RoundingDir e = RoundDown \<and> Int_LT L expected actual then Ok (- 1)
        else if RoundingDir e \<noteq> RoundDown \<and> RoundingDir e = RoundUp \<and> Int_GT L expected actual then Ok 1
        else case AdditiveTolerance e of
               None \<Rightarrow> multiplicative
             | Some t \<Rightarrow>
                 if Dec_IsZero L t \<and> Int_Equal L expected actual then Ok 0
                 else if Dec_GT L diff t then Ok comparisonSign
                 else multiplicative)))"

definition CompareBigDec_multiplicative ::
  "('i, 'd) sdk_num \<Rightarrow> 'd option \<Rightarrow> BigDec \<Rightarrow> BigDec \<Rightarrow> BigDec \<Rightarrow> int \<Rightarrow> int outcome" where
  "CompareBigDec_multiplicative L tol expected actual diff comparisonSign =
     (case tol of
        None \<Rightarrow> Ok 0
      | Some t \<Rightarrow>
          if Dec_IsZero L t then Ok 0
          else let minValue = MinDec (BigDec_Abs expected) (BigDec_Abs actual)
               in if BigDec_IsZero minValue then Ok comparisonSign
                  else obind (BigDec_Quo diff minValue) (\<lambda>errTerm.
                       obind (BigDecFromSDKDec (sdk_Precision L) (Dec_BigInt L) t) (\<lambda>tol.
                         Ok (if BigDec_GT errTerm tol then comparisonSign else 0))))"

definition CompareBigDec :: "('i, 'd) sdk_num \<Rightarrow> 'd ErrTolerance \<Rightarrow> BigDec \<Rightarrow> BigDec \<Rightarrow> int outcome" where
  "CompareBigDec L e expected actual =
     (if RoundingDir e = RoundDown \<and> BigDec_LT expected actual then Ok (- 1)
      else if RoundingDir e \<noteq> RoundDown \<and> RoundingDir e = RoundUp \<and> BigDec_GT expected actual then Ok 1
      else obind (BigDec_Sub expected actual) (\<lambda>d.
        let diff = BigDec_Abs d;
            comparisonSign = (if BigDec_GT expected actual then 1 else if BigDec_LT expected actual then - 1 else 0);
            multiplicative = CompareBigDec_multiplicative L (MultiplicativeTolerance e) expected actual diff comparisonSign
        in case AdditiveTolerance e of
             None \<Rightarrow> multiplicative
           | Some t \<Rightarrow>
               if Dec_IsZero L t \<and> BigDec_Equal expected actual then Ok 0
               else obind (BigDecFromSDKDec (sdk_Precision L) (Dec_BigInt L) t) (\<lambda>tol.
                      if BigDec_GT diff tol then Ok comparisonSign else multiplicative)))"

fun EqualCoins_loop ::
  "('i, 'd) sdk_num \<Rightarrow> 'd ErrTolerance \<Rightarrow> (string \<times> 'i) list \<Rightarrow> (string \<times> 'i) list \<Rightarrow> bool outcome" where
  "EqualCoins_loop L e [] actualCoins = Ok True"
| "EqualCoins_loop L e ((d, expectedAmount) # expectedCoins) actualCoins =
     obind (Coins_AmountOf L actualCoins d) (\<lambda>actualAmount.
     obind (Compare L e expectedAmount actualAmount) (\<lambda>curCoinEqual.
       if curCoinEqual \<noteq> 0 then Ok False else EqualCoins_loop L e expectedCoins actualCoins))"

definition EqualCoins ::
  "('i, 'd) sdk_num \<Rightarrow> 'd ErrTolerance \<Rightarrow> (string \<times> 'i) list \<Rightarrow> (string \<times> 'i) list \<Rightarrow> bool outcome" where
  "EqualCoins L e expectedCoins actualCoins =
     (if length expectedCoins < length actualCoins then Ok False
      else EqualCoins_loop L e expectedCoins actualCoins)"

definition notConverged :: string where
  "notConverged = ''hit maximum iterations, did not converge fast enough''"

text \<open>The loops run \<open>maxIterations\<close> times at most; the remaining iterations are the first argument.\<close>

fun BinarySearch_loop ::
  "('i, 'd) sdk_num \<Rightarrow> ('i \<Rightarrow> 'i outcome) \<Rightarrow> 'i \<Rightarrow> 'd ErrTolerance \<Rightarrow> nat \<Rightarrow> 'i \<Rightarrow> 'i \<Rightarrow> 'i outcome" where
  "BinarySearch_loop L f targetOutput errTolerance 0 lowerbound upperbound = Err notConverged"
| "BinarySearch_loop L f targetOutput errTolerance (Suc n) lowerbound upperbound =
     obind (obind (Int_Add L lowerbound upperbound) (\<lambda>s. Int_QuoRaw L s 2)) (\<lambda>curEstimate.
     obind (obind (f curEstimate) (\<lambda>curOutput. Compare L errTolerance targetOutput curOutput)) (\<lambda>compRes.
       if compRes < 0 then BinarySearch_loop L f targetOutput errTolerance n lowerbound curEstimate
       else if compRes > 0 then BinarySearch_loop L f targetOutput errTolerance n curEstimate upperbound
       else Ok curEstimate))"

definition BinarySearch ::
  "('i, 'd) sdk_num \<Rightarrow> ('i \<Rightarrow> 'i outcome) \<Rightarrow> 'i \<Rightarrow> 'i \<Rightarrow> 'i \<Rightarrow> 'd ErrTolerance \<Rightarrow> int64 \<Rightarrow> 'i outcome" where
  "BinarySearch L f lowerbound upperbound targetOutput errTolerance maxIterations =
     BinarySearch_loop L f targetOutput errTolerance (nat (sint maxIterations)) lowerbound upperbound"

fun BinarySearchBigDec_loop ::
  "('i, 'd) sdk_num \<Rightarrow> (BigDec \<Rightarrow> BigDec outcome) \<Rightarrow> BigDec \<Rightarrow> 'd ErrTolerance \<Rightarrow> nat \<Rightarrow> BigDec \<Rightarrow> BigDec \<Rightarrow> BigDec outcome" where
  "BinarySearchBigDec_loop L f targetOutput errTolerance 0 lowerbound upperbound = Err notConverged"
| "BinarySearchBigDec_loop L f targetOutput errTolerance (Suc n) lowerbound upperbound =
     obind (obind (BigDec_Add lowerbound upperbound) (\<lambda>s. obind (NewBigDec 2) (\<lambda>two. BigDec_Quo s two))) (\<lambda>curEstimate.
     obind (obind (f curEstimate) (\<lambda>curOutput. CompareBigDec L errTolerance targetOutput curOutput)) (\<lambda>compRes.
       if compRes < 0 then BinarySearchBigDec_loop L f targetOutput errTolerance n lowerbound curEstimate
       else if compRes > 0 then BinarySearchBigDec_loop L f targetOutput errTolerance n curEstimate upperbound
       else Ok curEstimate))"

definition BinarySearchBigDec ::
  "('i, 'd) sdk_num \<Rightarrow> (BigDec \<Rightarrow> BigDec outcome) \<Rightarrow> BigDec \<Rightarrow> BigDec \<Rightarrow> BigDec \<Rightarrow> 'd ErrTolerance \<Rightarrow> int64 \<Rightarrow> BigDec outcome" where
  "BinarySearchBigDec L f lowerbound upperbound targetOutput errTolerance maxIterations =
     BinarySearchBigDec_loop L f targetOutput errTolerance (nat (sint maxIterations)) lowerbound upperbound"

definition DivIntByU64ToBigDec :: "('i, 'd) sdk_num \<Rightarrow> 'i \<Rightarrow> uint64 \<Rightarrow> RoundingDirection \<Rightarrow> BigDec outcome" where
  "DivIntByU64ToBigDec L i u round =
     (if u = 0 then Err ''div by zero''
      else obind (obind (Int_ToDec L i) (BigDecFromSDKDec (sdk_Precision L) (Dec_BigInt L))) (\<lambda>d.
        if round = RoundUp then obind (NewBigDec u) (BigDec_QuoRoundUp d)
        else if round = RoundDown then BigDec_QuoInt64 d u
        else if round = RoundBankers then obind (NewBigDec u) (BigDec_Quo d)
        else Err ''invalid rounding mode''))"

text \<open>The loop indexes \<^verbatim>\<open>scales\<close> with the position of the coin: a missing scale is an index out of range.\<close>

fun DivCoinAmts_loop ::
  "('i, 'd) sdk_num \<Rightarrow> (string \<times> 'i) list \<Rightarrow> uint64 list \<Rightarrow> RoundingDirection \<Rightarrow> BigDec list outcome" where
  "DivCoinAmts_loop L [] scales round = Ok []"
| "DivCoinAmts_loop L (c # coins) [] round = Panic ''index out of range''"
| "DivCoinAmts_loop L (c # coins) (u # scales) round =
     obind (DivIntByU64ToBigDec L (snd c) u round) (\<lambda>res.
     obind (DivCoinAmts_loop L coins scales round) (\<lambda>rest. Ok (res # rest)))"

definition DivCoinAmtsByU64ToBigDec ::
  "('i, 'd) sdk_num \<Rightarrow> (string \<times> 'i) list \<Rightarrow> uint64 list \<Rightarrow> RoundingDirection \<Rightarrow> BigDec list outcome" where
  "DivCoinAmtsByU64ToBigDec L coins scales round = DivCoinAmts_loop L coins scales round"

section \<open>Bisection\<close>

text \<open>The common loop: \<open>mid\<close> is the estimate between two bounds, \<open>test\<close> its comparison with the target.\<close>

locale bisection =
  fixes loop :: "nat \<Rightarrow> 'x \<Rightarrow> 'x \<Rightarrow> 'x outcome"
    and mid :: "'x \<Rightarrow> 'x \<Rightarrow> 'x outcome"
    and test :: "'x \<Rightarrow> int outcome"
  assumes loop_0: "loop 0 lo hi = Err notConverged"
    and loop_Suc: "loop (Suc n) lo hi = obind (mid lo hi) (\<lambda>x. obind (test x) (\<lambda>c.
      if c < 0 then loop n lo x else if c > 0 then loop n x hi else Ok x))"
begin

lemma result_passes: "loop n lo hi = Ok x \<Longrightarrow> test x = Ok 0"
proof (induction n arbitrary: lo hi)
  case (Suc n)
  then obtain m c where "mid lo hi = Ok m" "test m = Ok c"
    and "(if c < 0 then loop n lo m else if c > 0 then loop n m hi else Ok m) = Ok x"
    by (auto simp: loop_Suc go_simps)
  then show ?case using Suc.IH by (cases "c = 0") (auto split: if_splits)
qed (simp add: loop_0)

end

text \<open>
  Over the integers, with an estimate that halves the interval up to rounding: two adjacent points
  that the test accepts, and a test that points towards them from everywhere else, are found.
\<close>

locale int_bisection = bisection loop mid test
  for loop :: "nat \<Rightarrow> int \<Rightarrow> int \<Rightarrow> int outcome" and mid :: "int \<Rightarrow> int \<Rightarrow> int outcome" and test :: "int \<Rightarrow> int outcome" +
  fixes bound :: int
  assumes mid_law: "\<bar>lo\<bar> \<le> bound \<Longrightarrow> \<bar>hi\<bar> \<le> bound \<Longrightarrow> \<exists>m. mid lo hi = Ok m \<and> \<bar>2 * m - (lo + hi)\<bar> \<le> 1"
begin

lemma converges:
  assumes "\<bar>lo\<bar> \<le> bound" "\<bar>hi\<bar> \<le> bound" "lo \<le> a" "a + 1 \<le> hi" "hi - lo \<le> 2 ^ k" "k < n"
    and test: "\<And>x. lo \<le> x \<Longrightarrow> x \<le> hi \<Longrightarrow> \<exists>c. test x = Ok c \<and> (c < 0 \<longrightarrow> a + 1 < x) \<and> (c > 0 \<longrightarrow> x < a)"
  shows "\<exists>x. loop n lo hi = Ok x \<and> lo \<le> x \<and> x \<le> hi"
  using assms
proof (induction k arbitrary: lo hi n)
  case 0
  obtain n' where n: "n = Suc n'" using 0 by (cases n) auto
  obtain m where m: "mid lo hi = Ok m" "\<bar>2 * m - (lo + hi)\<bar> \<le> 1" using mid_law 0 by blast
  have lohi: "lo = a" "hi = a + 1" using 0 by auto
  then have "m = a \<or> m = a + 1" using m(2) by linarith
  moreover obtain c where "test m = Ok c" "c < 0 \<longrightarrow> a + 1 < m" "c > 0 \<longrightarrow> m < a"
    using 0(7)[of m] calculation lohi by auto
  ultimately show ?case using m(1) lohi by (auto simp: n loop_Suc)
next
  case (Suc k)
  obtain n' where n: "n = Suc n'" using Suc.prems by (cases n) auto
  obtain m where m: "mid lo hi = Ok m" "\<bar>2 * m - (lo + hi)\<bar> \<le> 1" using mid_law Suc.prems by blast
  have r: "lo \<le> m" "m \<le> hi" using m(2) Suc.prems(3,4) by linarith+
  obtain c where c: "test m = Ok c" "c < 0 \<longrightarrow> a + 1 < m" "c > 0 \<longrightarrow> m < a" using Suc.prems(7)[OF r] by blast
  have w: "hi - lo \<le> 2 * 2 ^ k" using Suc.prems(5) by simp
  have b: "\<bar>m\<bar> \<le> bound" using r Suc.prems(1,2) by linarith
  have k: "k < n'" using Suc.prems(6) n by simp
  have h: "m - lo \<le> 2 ^ k" "hi - m \<le> 2 ^ k" using w m(2) by linarith+
  consider "c = 0" | "c < 0" | "c > 0" by linarith
  then show ?case
  proof cases
    case 1
    then show ?thesis using m(1) c(1) r by (simp add: n loop_Suc)
  next
    case 2
    have "\<exists>x. loop n' lo m = Ok x \<and> lo \<le> x \<and> x \<le> m"
      using Suc.prems(1,3,7) r b k h c(2) 2 by (intro Suc.IH) auto
    then show ?thesis using m(1) c(1) r 2 by (auto simp: n loop_Suc)
  next
    case 3
    have "\<exists>x. loop n' m hi = Ok x \<and> m \<le> x \<and> x \<le> hi"
      using Suc.prems(2,4,7) r b k h c(3) 3 by (intro Suc.IH) auto
    then show ?thesis using m(1) c(1) r 3 by (auto simp: n loop_Suc)
  qed
qed

end

interpretation sb: bisection "BinarySearch_loop L f targetOutput e"
  "\<lambda>lo hi. obind (Int_Add L lo hi) (\<lambda>s. Int_QuoRaw L s 2)"
  "\<lambda>x. obind (f x) (Compare L e targetOutput)"
  by unfold_locales simp_all

section \<open>Bisection over decimals\<close>

definition midpoint :: "BigDec \<Rightarrow> BigDec \<Rightarrow> BigDec outcome" where
  "midpoint lo hi = obind (BigDec_Add lo hi) (\<lambda>s. obind (NewBigDec 2) (\<lambda>two. BigDec_Quo s two))"

definition search_bound :: int where "search_bound = 2 ^ 1142"

lemma in_bits_search_bound: "\<bar>s\<bar> \<le> 2 * search_bound \<Longrightarrow> in_bits maxDecBitLen s"
proof -
  assume "\<bar>s\<bar> \<le> 2 * search_bound"
  moreover have "(2::int) ^ 1144 = 4 * search_bound" unfolding search_bound_def by (simp flip: power_Suc)
  moreover have "0 < search_bound" by (simp add: search_bound_def)
  ultimately show ?thesis by (simp add: in_bits_def maxDecBitLen_eq)
qed

lemma midpoint_law:
  assumes "\<bar>lo\<bar> \<le> search_bound" "\<bar>hi\<bar> \<le> search_bound"
  shows "\<exists>m. midpoint lo hi = Ok m \<and> \<bar>2 * m - (lo + hi)\<bar> \<le> 1"
proof -
  let ?s = "lo + hi"
  have s: "\<bar>?s\<bar> \<le> 2 * search_bound" using assms by linarith
  have q: "quo (?s * precisionReuse * precisionReuse) (2 * precisionReuse) = ?s * fivePrecision"
  proof -
    have "?s * precisionReuse * precisionReuse = (2 * precisionReuse) * (?s * fivePrecision)"
      using two_fivePrecision by (simp add: algebra_simps) (metis mult.assoc mult.commute)
    then show ?thesis by (simp only:) (rule quo_exact, simp)
  qed
  let ?m = "chopPrecisionAndRound (?s * fivePrecision)"
  have "\<bar>?m * precisionReuse - ?s * fivePrecision\<bar> < precisionReuse" by (rule bankers.chop_error)
  moreover have "(2 * ?m - ?s) * fivePrecision = ?m * precisionReuse - ?s * fivePrecision"
    unfolding two_fivePrecision[symmetric] left_diff_distrib by simp
  ultimately have "\<bar>(2 * ?m - ?s) * fivePrecision\<bar> < 2 * fivePrecision" by (simp add: two_fivePrecision)
  moreover have five: "0 < fivePrecision" using two_fivePrecision precisionReuse_pos by linarith
  ultimately have "\<bar>2 * ?m - ?s\<bar> * fivePrecision < 2 * fivePrecision" by (simp add: abs_mult)
  then have e: "\<bar>2 * ?m - ?s\<bar> < 2" using mult_less_cancel_right_pos[OF five] by blast
  then have "\<bar>?m\<bar> \<le> 2 * search_bound" using s by (simp add: search_bound_def)
  then have "BigDec_Quo ?s (2 * precisionReuse) = Ok ?m"
    using q in_bits_search_bound[of ?m] by (simp add: quot.quot_Ok_iff)
  moreover have "BigDec_Add lo hi = Ok ?s" using in_bits_search_bound[OF s] by (simp add: big_dec.add_Ok_iff)
  moreover have "NewBigDec 2 = Ok (2 * precisionReuse)" by (simp add: NewBigDec_eq)
  ultimately have "midpoint lo hi = Ok ?m" by (simp add: midpoint_def)
  with e show ?thesis by auto
qed

interpretation bb: int_bisection "BinarySearchBigDec_loop L f targetOutput e" midpoint
  "\<lambda>x. obind (f x) (CompareBigDec L e targetOutput)" search_bound
  by unfold_locales (simp_all add: midpoint_def[symmetric] midpoint_law)

section \<open>What a comparison means\<close>

text \<open>The value of a tolerance in units of a \<^verbatim>\<open>BigDec\<close>, and the rounded relative error.\<close>

definition tolerance :: "('i, 'd) sdk_num \<Rightarrow> 'd \<Rightarrow> int" where
  "tolerance L t = Dec_BigInt L t * 10 ^ (36 - sdk_Precision L)"

definition relative_error :: "int \<Rightarrow> int \<Rightarrow> int" where
  "relative_error x y =
     chopPrecisionAndRound (quo (\<bar>x - y\<bar> * precisionReuse * precisionReuse) (min \<bar>x\<bar> \<bar>y\<bar>))"

definition within :: "('i, 'd) sdk_num \<Rightarrow> 'd ErrTolerance \<Rightarrow> int \<Rightarrow> int \<Rightarrow> bool" where
  "within L e x y \<longleftrightarrow>
     (RoundingDir e = RoundDown \<longrightarrow> y \<le> x) \<and> (RoundingDir e = RoundUp \<longrightarrow> x \<le> y) \<and>
     (\<forall>t. AdditiveTolerance e = Some t \<longrightarrow> \<bar>x - y\<bar> \<le> tolerance L t) \<and>
     (\<forall>t. MultiplicativeTolerance e = Some t \<longrightarrow> \<not> Dec_IsZero L t \<longrightarrow>
        x = y \<or> min \<bar>x\<bar> \<bar>y\<bar> \<noteq> 0 \<and> relative_error x y \<le> tolerance L t)"

text \<open>What the comparison relies on of \<^verbatim>\<open>sdk.Dec\<close>, and tolerances that are not negative.\<close>

definition tolerances_ok :: "('i, 'd) sdk_num \<Rightarrow> 'd ErrTolerance \<Rightarrow> bool" where
  "tolerances_ok L e \<longleftrightarrow> sdk_Precision L \<le> 36 \<and>
     (\<forall>t. AdditiveTolerance e = Some t \<or> MultiplicativeTolerance e = Some t \<longrightarrow> 0 \<le> Dec_BigInt L t) \<and>
     (\<forall>t. Dec_IsZero L t \<longleftrightarrow> Dec_BigInt L t = 0)"

lemma BigDecFromSDKDec_eq:
  "sdk_Precision L \<le> 36 \<Longrightarrow> BigDecFromSDKDec (sdk_Precision L) (Dec_BigInt L) t = Ok (tolerance L t)"
  by (simp add: BigDecFromSDKDec_def NewDecFromBigIntWithPrec_def precisionMultiplier_eq tolerance_def Precision_def
      sint_of_nat_64)

lemma RoundingDirections_distinct [simp]:
  "RoundUp \<noteq> RoundDown" "RoundDown \<noteq> RoundUp"
  by (simp_all add: RoundUp_def RoundDown_def)

lemma relative_error_same: "relative_error x x = 0"
  by (simp add: relative_error_def)

definition mult_within :: "('i, 'd) sdk_num \<Rightarrow> 'd option \<Rightarrow> int \<Rightarrow> int \<Rightarrow> bool" where
  "mult_within L tol x y \<longleftrightarrow> (\<forall>t. tol = Some t \<longrightarrow> \<not> Dec_IsZero L t \<longrightarrow>
     x = y \<or> min \<bar>x\<bar> \<bar>y\<bar> \<noteq> 0 \<and> relative_error x y \<le> tolerance L t)"

lemma multiplicative_part:
  assumes "sdk_Precision L \<le> 36" "\<And>t. tol = Some t \<Longrightarrow> 0 \<le> tolerance L t"
    and "CompareBigDec_multiplicative L tol x y \<bar>x - y\<bar> (sgn (x - y)) = Ok c"
  shows "c = (if mult_within L tol x y then 0 else sgn (x - y))"
proof (cases tol)
  case (Some t)
  have "0 \<le> tolerance L t" using assms(2) Some by simp
  then show ?thesis
    using assms(3) Some
    by (auto simp: CompareBigDec_multiplicative_def mult_within_def big_simps Let_def BigDec_Abs_def
        BigDecFromSDKDec_eq[OF assms(1)] go_simps quot.quot_Ok_iff relative_error_def split: if_splits)
qed (use assms(3) in \<open>simp add: CompareBigDec_multiplicative_def mult_within_def\<close>)

text \<open>The comparison once the direction of rounding has been checked.\<close>

lemma CompareBigDec_undirected:
  assumes "\<not> (RoundingDir e = RoundDown \<and> x < y)" "\<not> (RoundingDir e = RoundUp \<and> y < x)" "CompareBigDec L e x y = Ok c"
  shows "case AdditiveTolerance e of
      None \<Rightarrow> CompareBigDec_multiplicative L (MultiplicativeTolerance e) x y \<bar>x - y\<bar> (sgn (x - y)) = Ok c
    | Some t \<Rightarrow> (if Dec_IsZero L t \<and> x = y then c = 0
        else obind (BigDecFromSDKDec (sdk_Precision L) (Dec_BigInt L) t) (\<lambda>tol.
          if \<bar>x - y\<bar> > tol then Ok (sgn (x - y))
          else CompareBigDec_multiplicative L (MultiplicativeTolerance e) x y \<bar>x - y\<bar> (sgn (x - y))) = Ok c)"
proof -
  have s: "(if BigDec_GT x y then 1 else if BigDec_LT x y then - 1 else 0) = sgn (x - y)" by (simp add: big_simps)
  have r: "\<not> (RoundingDir e = RoundDown \<and> BigDec_LT x y)"
    "\<not> (RoundingDir e \<noteq> RoundDown \<and> RoundingDir e = RoundUp \<and> BigDec_GT x y)" using assms(1,2) by (auto simp: big_simps)
  have "obind (BigDec_Sub x y) (\<lambda>d. case AdditiveTolerance e of
             None \<Rightarrow> CompareBigDec_multiplicative L (MultiplicativeTolerance e) x y (BigDec_Abs d) (sgn (x - y))
           | Some t \<Rightarrow>
               if Dec_IsZero L t \<and> BigDec_Equal x y then Ok 0
               else obind (BigDecFromSDKDec (sdk_Precision L) (Dec_BigInt L) t) (\<lambda>tol.
                      if BigDec_GT (BigDec_Abs d) tol then Ok (sgn (x - y))
                      else CompareBigDec_multiplicative L (MultiplicativeTolerance e) x y (BigDec_Abs d) (sgn (x - y)))) = Ok c"
    using assms(3) unfolding CompareBigDec_def s Let_def if_not_P[OF r(1)] if_not_P[OF r(2)] .
  then show ?thesis
    by (cases "AdditiveTolerance e") (auto simp: go_simps big_dec.sub_Ok_iff BigDec_Abs_def BigDec_comparisons split: if_splits)
qed

lemma within_eq: "within L e x y \<longleftrightarrow>
     (RoundingDir e = RoundDown \<longrightarrow> y \<le> x) \<and> (RoundingDir e = RoundUp \<longrightarrow> x \<le> y) \<and>
     (\<forall>t. AdditiveTolerance e = Some t \<longrightarrow> \<bar>x - y\<bar> \<le> tolerance L t) \<and> mult_within L (MultiplicativeTolerance e) x y"
  unfolding within_def mult_within_def ..

lemma CompareBigDec_sound:
  assumes "tolerances_ok L e" "CompareBigDec L e x y = Ok c"
  shows "c = (if within L e x y then 0 else sgn (x - y))"
proof -
  have P: "sdk_Precision L \<le> 36"
    and n: "\<And>t. AdditiveTolerance e = Some t \<or> MultiplicativeTolerance e = Some t \<Longrightarrow> 0 \<le> tolerance L t"
    using assms(1) by (auto simp: tolerances_ok_def tolerance_def)
  note mult = multiplicative_part[OF P, of "MultiplicativeTolerance e" x y c]
  show ?thesis
  proof (cases "(RoundingDir e = RoundDown \<and> x < y) \<or> (RoundingDir e = RoundUp \<and> y < x)")
    case True
    then show ?thesis using assms(2) by (auto simp: CompareBigDec_def big_simps within_eq)
  next
    case False
    then have d: "\<not> (RoundingDir e = RoundDown \<and> x < y)" "\<not> (RoundingDir e = RoundUp \<and> y < x)" by auto
    show ?thesis
    proof (cases "AdditiveTolerance e")
      case None
      then show ?thesis using CompareBigDec_undirected[OF d assms(2)] mult n d by (auto simp: within_eq)
    next
      case (Some t)
      have same: "x = y \<Longrightarrow> mult_within L (MultiplicativeTolerance e) x y" by (simp add: mult_within_def)
      have "0 \<le> tolerance L t" using n Some by blast
      then show ?thesis
        using CompareBigDec_undirected[OF d assms(2)] mult n d same Some
        by (auto simp: within_eq BigDecFromSDKDec_eq[OF P] split: if_splits)
    qed
  qed
qed

text \<open>Moving the actual value towards the expected one keeps it within the tolerance.\<close>

lemma mult_within_closer:
  assumes "0 \<le> x" "0 \<le> y" "x \<le> y' \<and> y' \<le> y \<or> y \<le> y' \<and> y' \<le> x" "mult_within L tol x y"
  shows "mult_within L tol x y'"
proof -
  have e: "relative_error x y' \<le> relative_error x y" if "min \<bar>x\<bar> \<bar>y\<bar> \<noteq> 0"
  proof -
    let ?n = "\<bar>x - y\<bar> * precisionReuse * precisionReuse" and ?n' = "\<bar>x - y'\<bar> * precisionReuse * precisionReuse"
    have m: "0 < min \<bar>x\<bar> \<bar>y\<bar>" "min \<bar>x\<bar> \<bar>y\<bar> \<le> min \<bar>x\<bar> \<bar>y'\<bar>" using that assms by auto
    have n: "0 \<le> ?n'" "?n' \<le> ?n" using assms(3) by (auto intro!: mult_right_mono)
    have "?n' div min \<bar>x\<bar> \<bar>y'\<bar> \<le> ?n' div min \<bar>x\<bar> \<bar>y\<bar>" using zdiv_mono2[OF n(1) m] .
    also have "\<dots> \<le> ?n div min \<bar>x\<bar> \<bar>y\<bar>" using zdiv_mono1[OF n(2) m(1)] .
    finally have "quo ?n' (min \<bar>x\<bar> \<bar>y'\<bar>) \<le> quo ?n (min \<bar>x\<bar> \<bar>y\<bar>)"
      using quo_nonneg_eq[OF n(1), of "min \<bar>x\<bar> \<bar>y'\<bar>"] quo_nonneg_eq[OF order_trans[OF n], of "min \<bar>x\<bar> \<bar>y\<bar>"] m by linarith
    then show ?thesis unfolding relative_error_def by (rule chopPrecisionAndRound_mono)
  qed
  show ?thesis
    unfolding mult_within_def
  proof (intro allI impI)
    fix t assume t: "tol = Some t" "\<not> Dec_IsZero L t"
    then consider "x = y" | "min \<bar>x\<bar> \<bar>y\<bar> \<noteq> 0" "relative_error x y \<le> tolerance L t"
      using assms(4) unfolding mult_within_def by blast
    then show "x = y' \<or> min \<bar>x\<bar> \<bar>y'\<bar> \<noteq> 0 \<and> relative_error x y' \<le> tolerance L t"
    proof cases
      case 1
      then show ?thesis using assms(3) by auto
    next
      case 2
      then show ?thesis using e assms(1-3) by fastforce
    qed
  qed
qed

lemma within_closer:
  assumes "0 \<le> x" "0 \<le> y" "x \<le> y' \<and> y' \<le> y \<or> y \<le> y' \<and> y' \<le> x" "within L e x y"
  shows "within L e x y'"
proof -
  have "\<bar>x - y'\<bar> \<le> \<bar>x - y\<bar>" using assms(3) by auto
  then show ?thesis
    using assms(3,4) mult_within_closer[OF assms(1-3)] unfolding within_eq by (meson order_trans)
qed

lemma within_same: "tolerances_ok L e \<Longrightarrow> within L e x x"
  by (auto simp: within_def tolerances_ok_def tolerance_def)

lemma CompareBigDec_0_iff:
  assumes "tolerances_ok L e" "CompareBigDec L e x y = Ok c"
  shows "c = 0 \<longleftrightarrow> within L e x y"
proof (cases "x = y")
  case True
  then show ?thesis using CompareBigDec_sound[OF assms] within_same[OF assms(1)] by simp
next
  case False
  then show ?thesis using CompareBigDec_sound[OF assms] by (auto simp: sgn_if split: if_splits)
qed

section \<open>Properties\<close>

text \<open>
  C32 A comparison of decimals returns 0 exactly if the actual value is on the right side of the
  expected one and within both tolerances of it, and else the sign of their difference.
\<close>

theorem CompareBigDec_correct:
  assumes "tolerances_ok L e" "CompareBigDec L e x y = Ok c"
  shows "(c = 0 \<longleftrightarrow> within L e x y) \<and> (c \<noteq> 0 \<longrightarrow> c = sgn (x - y))"
  using CompareBigDec_sound[OF assms] CompareBigDec_0_iff[OF assms] by (simp split: if_splits)

text \<open>A library of plain integers, decimals with 18 places, and a tolerance of five of its units.\<close>

definition example_num :: "(int, int) sdk_num" where
  "example_num = \<lparr>Int_ToDec = (\<lambda>i. Ok (i * 10 ^ 18)), Int_GT = (>), Int_LT = (<), Int_Equal = (=), Int_Abs = abs,
     Int_Min = min, Int_IsZero = (\<lambda>i. i = 0), Int_Add = (\<lambda>a b. Ok (a + b)), Int_QuoRaw = (\<lambda>a b. Ok (quo a (sint b))),
     Dec_Sub = (\<lambda>a b. Ok (a - b)), Dec_Quo = (\<lambda>a b. Ok (quo (a * 10 ^ 18) b)), Dec_Abs = abs, Dec_GT = (>),
     Dec_IsZero = (\<lambda>d. d = 0), Dec_BigInt = (\<lambda>d. d), sdk_Precision = 18,
     Coins_AmountOf = (\<lambda>cs d. Ok (case map_of cs d of None \<Rightarrow> 0 | Some a \<Rightarrow> a))\<rparr>"

definition example_tolerance :: "int ErrTolerance" where
  "example_tolerance = \<lparr>AdditiveTolerance = Some 5, MultiplicativeTolerance = None, RoundingDir = RoundDown\<rparr>"

lemma example_tolerances_ok: "tolerances_ok example_num example_tolerance"
  by (simp add: tolerances_ok_def example_num_def example_tolerance_def)

lemma example_within: "within example_num example_tolerance x y \<longleftrightarrow> y \<le> x \<and> x - y \<le> 5 * 10 ^ 18"
  by (auto simp: within_def example_num_def example_tolerance_def tolerance_def)

lemma example_compare:
  assumes "\<bar>x\<bar> \<le> search_bound" "\<bar>y\<bar> \<le> search_bound"
  shows "\<exists>c. CompareBigDec example_num example_tolerance x y = Ok c"
proof -
  have "in_bits maxDecBitLen (x - y)" using assms by (intro in_bits_search_bound) linarith
  then have "BigDec_Sub x y = Ok (x - y)" by (simp add: big_dec.sub_Ok_iff)
  moreover have "BigDecFromSDKDec (sdk_Precision example_num) (Dec_BigInt example_num) t = Ok (tolerance example_num t)" for t
    by (rule BigDecFromSDKDec_eq) (simp add: example_num_def)
  ultimately show ?thesis
    by (simp add: CompareBigDec_def CompareBigDec_multiplicative_def Let_def example_tolerance_def)
qed

theorem CompareBigDec_correct_witness:
  "CompareBigDec example_num example_tolerance 7 9 = Ok (- 1)"
proof -
  obtain c where c: "CompareBigDec example_num example_tolerance 7 9 = Ok c"
    using example_compare[of 7 9] by (auto simp: search_bound_def)
  with CompareBigDec_correct[OF example_tolerances_ok c] show ?thesis by (simp add: example_within)
qed

text \<open>
  C20 The search converges: over a function that does not decrease and has no negative values, with
  two adjacent decimals of the interval whose values are within the tolerance of the target, k + 1
  iterations find an input within the tolerance in every interval of at most 2^k units, if no
  comparison overflows.
\<close>

theorem BinarySearchBigDec_converges:
  assumes "tolerances_ok L e" "\<bar>lo\<bar> \<le> search_bound" "\<bar>hi\<bar> \<le> search_bound" "0 \<le> target"
    and f: "\<And>x. f x = Ok (g x)" and mono: "\<And>x y. lo \<le> x \<Longrightarrow> x \<le> y \<Longrightarrow> y \<le> hi \<Longrightarrow> g x \<le> g y" and pos: "\<And>x. 0 \<le> g x"
    and total: "\<And>x. lo \<le> x \<Longrightarrow> x \<le> hi \<Longrightarrow> \<exists>c. CompareBigDec L e target (g x) = Ok c"
    and a: "lo \<le> a" "a + 1 \<le> hi" "within L e target (g a)" "within L e target (g (a + 1))"
    and k: "hi - lo \<le> 2 ^ k" "int k < sint maxIterations"
  shows "\<exists>x. BinarySearchBigDec L f lo hi target e maxIterations = Ok x \<and> lo \<le> x \<and> x \<le> hi \<and>
    within L e target (g x)"
proof -
  have test: "\<exists>c. obind (f x) (CompareBigDec L e target) = Ok c \<and> (c < 0 \<longrightarrow> a + 1 < x) \<and> (c > 0 \<longrightarrow> x < a)"
    if x: "lo \<le> x" "x \<le> hi" for x
  proof -
    obtain c where c: "CompareBigDec L e target (g x) = Ok c" using total[OF x] by blast
    note s = CompareBigDec_sound[OF assms(1) c]
    have "a + 1 < x" if "c < 0"
    proof (rule ccontr)
      assume "\<not> a + 1 < x"
      then have "target \<le> g x \<and> g x \<le> g (a + 1)" using that s mono[OF x(1) _ a(2)] by (auto split: if_splits)
      then show False using within_closer[OF assms(4) pos _ a(4)] s that by auto
    qed
    moreover have "x < a" if "c > 0"
    proof (rule ccontr)
      assume "\<not> x < a"
      then have "g a \<le> g x \<and> g x \<le> target" using that s mono[OF a(1) _ x(2)] by (auto split: if_splits)
      then show False using within_closer[OF assms(4) pos _ a(3)] s that by auto
    qed
    ultimately show ?thesis using c f by auto
  qed
  have n: "k < nat (sint maxIterations)" using k(2) by linarith
  obtain x where x: "BinarySearchBigDec_loop L f target e (nat (sint maxIterations)) lo hi = Ok x" "lo \<le> x" "x \<le> hi"
    using bb.converges[OF assms(2,3) a(1,2) k(1) n test] by blast
  have "CompareBigDec L e target (g x) = Ok 0" using bb.result_passes[OF x(1)] f by simp
  then have "within L e target (g x)" using CompareBigDec_0_iff[OF assms(1)] by blast
  then show ?thesis using x by (auto simp: BinarySearchBigDec_def)
qed

theorem BinarySearchBigDec_converges_witness:
  "\<exists>x. BinarySearchBigDec example_num (\<lambda>x. Ok (max 0 x)) 0 (2 ^ 70) (10 ^ 20) example_tolerance 100 = Ok x \<and>
     0 \<le> x \<and> x \<le> 2 ^ 70 \<and> within example_num example_tolerance (10 ^ 20) (max 0 x)"
proof (rule BinarySearchBigDec_converges[OF example_tolerances_ok, where k = 70 and a = "10 ^ 20 - 1"])
  fix x :: int
  assume "0 \<le> x" "x \<le> 2 ^ 70"
  then have "\<bar>max 0 x\<bar> \<le> search_bound" by (simp add: search_bound_def)
  then show "\<exists>c. CompareBigDec example_num example_tolerance (10 ^ 20) (max 0 x) = Ok c"
    by (rule example_compare[rotated]) (simp add: search_bound_def)
qed (auto simp: search_bound_def example_within)

end
