(* ===== verification/Sumtree.thy ===== *)
theory Sumtree
  imports KV_Store
begin

text \<open>
  \<^verbatim>\<open>src/osmoutils/sumtree/{tree,node,constants}.go\<close>: a B+ tree in a key-value store whose inner nodes hold,
  for every child, the sum of the leaves below it. A node is the list of its children; a leaf holds
  one child, itself. Keys are byte strings, a pointer's key may be nil (\<open>None\<close>), which only matters for
  the end of an iteration. An amount is the value of its \<^verbatim>\<open>sdk.Int\<close>; the arithmetic of the SDK, which
  panics on overflow, is the argument \<open>amounts\<close>. Levels count up to \<open>65535\<close>, the range of \<^verbatim>\<open>uint16\<close>.
\<close>

section \<open>Data\<close>

record amounts =
  amt_Add :: "int \<Rightarrow> int \<Rightarrow> int outcome"
  amt_Sub :: "int \<Rightarrow> int \<Rightarrow> int outcome"
  amt_Neg :: "int \<Rightarrow> int"

record Child =
  Index :: string
  Accumulation :: int

type_synonym Node = "Child list"
type_synonym tree_store = "Node store"
type_synonym ptr = "nat \<times> string option"

definition nodeKeyPrefix :: string where "nodeKeyPrefix = ''node/''"

definition nodeKey :: "nat \<Rightarrow> string \<Rightarrow> string" where
  "nodeKey level key = nodeKeyPrefix @ [char_of (level div 256), char_of (level mod 256)] @ key"

definition leafKey :: "string \<Rightarrow> string" where
  "leafKey key = nodeKey 0 key"

definition key_bytes :: "string option \<Rightarrow> string" where
  "key_bytes k = (case k of None \<Rightarrow> [] | Some b \<Rightarrow> b)"

section \<open>Nodes (\<^verbatim>\<open>node.go\<close>)\<close>

definition NewLeaf :: "string \<Rightarrow> int \<Rightarrow> Node" where
  "NewLeaf key acc = [\<lparr>Index = key, Accumulation = acc\<rparr>]"

definition accumulate :: "amounts \<Rightarrow> Node \<Rightarrow> int outcome" where
  "accumulate A node = ofold (\<lambda>child res. amt_Add A res (Accumulation child)) node 0"

fun find_from :: "nat \<Rightarrow> Node \<Rightarrow> string \<Rightarrow> nat \<times> bool" where
  "find_from idx [] key = (idx, False)"
| "find_from idx (child # cs) key =
     (if Index child = key then (idx, True)
      else if Index child > key then (idx, False)
      else find_from (Suc idx) cs key)"

definition node_find :: "Node \<Rightarrow> string \<Rightarrow> nat \<times> bool" where
  "node_find node key = find_from 0 node key"

definition setAcc :: "Node \<Rightarrow> nat \<Rightarrow> int \<Rightarrow> Node" where
  "setAcc node idx acc = node[idx := \<lparr>Index = Index (node ! idx), Accumulation = acc\<rparr>]"

definition node_insert :: "Node \<Rightarrow> nat \<Rightarrow> Child \<Rightarrow> Node" where
  "node_insert node idx c = take idx node @ [c] @ drop idx node"

definition node_delete :: "Node \<Rightarrow> nat \<Rightarrow> Node" where
  "node_delete node idx = take idx node @ drop (Suc idx) node"

definition node_split :: "Node \<Rightarrow> nat \<Rightarrow> Node \<times> Node" where
  "node_split node idx = (take idx node, drop idx node)"

definition node_merge :: "Node \<Rightarrow> Node \<Rightarrow> Node" where
  "node_merge node node2 = node @ node2"

section \<open>Pointers\<close>

definition isLeaf :: "ptr \<Rightarrow> bool" where "isLeaf p \<longleftrightarrow> fst p = 0"

definition ptr_at :: "ptr \<Rightarrow> string" where "ptr_at p = nodeKey (fst p) (key_bytes (snd p))"

definition ptr_node :: "tree_store \<Rightarrow> ptr \<Rightarrow> Node" where
  "ptr_node s p = (case store_get s (ptr_at p) of None \<Rightarrow> [] | Some n \<Rightarrow> n)"

definition ptr_set :: "ptr \<Rightarrow> Node \<Rightarrow> tree_store \<Rightarrow> tree_store" where
  "ptr_set p node s = store_set (ptr_at p) node s"

definition ptr_create :: "ptr \<Rightarrow> Node \<Rightarrow> tree_store \<Rightarrow> tree_store" where
  "ptr_create p node s = store_set (ptr_at p) node s"

definition setLeaf :: "ptr \<Rightarrow> Node \<Rightarrow> tree_store \<Rightarrow> tree_store outcome" where
  "setLeaf p leaf s =
     (if \<not> isLeaf p then Panic ''setLeaf should only be called on pointers to leaf nodes. This ptr is a branch''
      else Ok (store_set (leafKey (key_bytes (snd p))) leaf s))"

definition ptr_delete :: "ptr \<Rightarrow> tree_store \<Rightarrow> tree_store" where
  "ptr_delete p s = store_delete (ptr_at p) s"

definition ptr_exists :: "tree_store \<Rightarrow> ptr option \<Rightarrow> bool" where
  "ptr_exists s p = (case p of None \<Rightarrow> False | Some q \<Rightarrow> store_has s (ptr_at q))"

text \<open>
  The keys that an iterator over a level visits. Without an end it goes to the end of the prefix of the
  level.
\<close>

definition ptrIterator :: "tree_store \<Rightarrow> nat \<Rightarrow> string option \<Rightarrow> string option \<Rightarrow> string list" where
  "ptrIterator s level begin end =
     filter (\<lambda>k. nodeKey level (key_bytes begin) \<le> k \<and>
                 (case end of None \<Rightarrow> prefix (nodeKey level []) k | Some e \<Rightarrow> k < nodeKey level e)) (map fst s)"

definition ptrReverseIterator :: "tree_store \<Rightarrow> nat \<Rightarrow> string option \<Rightarrow> string option \<Rightarrow> string list" where
  "ptrReverseIterator s level begin end = rev (ptrIterator s level begin end)"

definition iter_ptr :: "nat \<Rightarrow> string list \<Rightarrow> ptr option" where
  "iter_ptr level ks = (case ks of [] \<Rightarrow> None | k # _ \<Rightarrow> Some (level, Some (drop 7 k)))"

definition leftSibling :: "tree_store \<Rightarrow> ptr \<Rightarrow> ptr option" where
  "leftSibling s p = iter_ptr (fst p) (ptrReverseIterator s (fst p) None (snd p))"

definition rightSibling :: "tree_store \<Rightarrow> ptr \<Rightarrow> ptr option" where
  "rightSibling s p =
     (let iter = ptrIterator s (fst p) (snd p) None
      in if iter = [] then None else iter_ptr (fst p) (if ptr_exists s (Some p) then tl iter else iter))"

definition ptr_child :: "tree_store \<Rightarrow> ptr \<Rightarrow> nat \<Rightarrow> ptr option outcome" where
  "ptr_child s p n =
     (if n \<ge> length (ptr_node s p) then Panic ''index out of range''
      else Ok (iter_ptr (fst p - 1) (ptrIterator s (fst p - 1) (Some (Index (ptr_node s p ! n))) None)))"

definition parent :: "tree_store \<Rightarrow> ptr \<Rightarrow> ptr" where
  "parent s p =
     (let up = (Suc (fst p), snd p)
      in if ptr_exists s (Some up) then up
         else case leftSibling s up of
                Some q \<Rightarrow> if ptr_exists s (Some q) then q else (Suc (fst p), None)
              | None \<Rightarrow> (Suc (fst p), None))"

section \<open>Changes\<close>

text \<open>A level above \<open>65535\<close> does not exist: the recursion stops there.\<close>

definition levelOverflow :: string where "levelOverflow = ''level overflow''"

function updateAccumulation :: "amounts \<Rightarrow> nat \<Rightarrow> string option \<Rightarrow> Child \<Rightarrow> tree_store \<Rightarrow> tree_store outcome" where
  "updateAccumulation A level key c s =
     (if \<not> ptr_exists s (Some (level, key)) then Ok s
      else let node0 = ptr_node s (level, key); (idx, match) = node_find node0 (Index c)
      in if \<not> match then Panic ''non existing key pushed from the child''
      else let node = setAcc node0 idx (Accumulation c); s1 = ptr_set (level, key) node s
      in if level \<ge> 65535 then Panic levelOverflow
      else obind (accumulate A node) (\<lambda>acc.
             updateAccumulation A (Suc level) (snd (parent s1 (level, key))) \<lparr>Index = key_bytes key, Accumulation = acc\<rparr> s1))"
  by pat_completeness auto
termination
  by (relation "measure (\<lambda>(A, level, key, c, s). 65535 - level)") auto

declare updateAccumulation.simps [simp del]

function push :: "amounts \<Rightarrow> 8 word \<Rightarrow> nat \<Rightarrow> string option \<Rightarrow> Child \<Rightarrow> tree_store \<Rightarrow> tree_store outcome" where
  "push A m level key c s =
     (if \<not> ptr_exists s (Some (level, key)) then Ok (ptr_create (level, key) [c] s)
      else let cs0 = ptr_node s (level, key); (idx, match) = node_find cs0 (Index c)
      in if match then updateAccumulation A level key c s
      else let cs = node_insert cs0 idx c; up = parent s (level, key)
      in if level \<ge> 65535 then Panic levelOverflow
      else if length cs > unat m then
        let split = unat (m div 2 + 1)
        in if split \<ge> length cs then Panic ''index out of range''
        else let (leftnode, rightnode) = node_split cs split; rightkey = Index (cs ! split);
                 s1 = ptr_create (level, Some rightkey) rightnode s
        in if \<not> ptr_exists s1 (Some up)
           then obind (accumulate A leftnode) (\<lambda>leftacc. obind (accumulate A rightnode) (\<lambda>rightacc.
                  Ok (ptr_set (level, key) leftnode
                       (ptr_create up [\<lparr>Index = key_bytes key, Accumulation = leftacc\<rparr>,
                                       \<lparr>Index = rightkey, Accumulation = rightacc\<rparr>] s1))))
           else obind (accumulate A rightnode) (\<lambda>rightacc.
                obind (push A m (Suc level) (snd up) \<lparr>Index = rightkey, Accumulation = rightacc\<rparr> s1) (\<lambda>s2.
                obind (accumulate A leftnode) (\<lambda>leftacc.
                obind (updateAccumulation A (Suc level) (snd (parent s2 (level, key)))
                         \<lparr>Index = key_bytes key, Accumulation = leftacc\<rparr> s2) (\<lambda>s3.
                  Ok (ptr_set (level, key) leftnode s3)))))
      else obind (accumulate A cs) (\<lambda>acc.
           obind (updateAccumulation A (Suc level) (snd up) \<lparr>Index = key_bytes key, Accumulation = acc\<rparr> s) (\<lambda>s1.
             Ok (ptr_set (level, key) cs s1))))"
  by pat_completeness auto
termination
  by (relation "measure (\<lambda>(A, m, level, key, c, s). 65535 - level)") auto

declare push.simps [simp del]

function pull :: "amounts \<Rightarrow> 8 word \<Rightarrow> nat \<Rightarrow> string option \<Rightarrow> string \<Rightarrow> tree_store \<Rightarrow> tree_store outcome" where
  "pull A m level pkey key s =
     (if \<not> ptr_exists s (Some (level, pkey)) then Ok s
      else let node0 = ptr_node s (level, pkey); (idx, match) = node_find node0 key
      in if \<not> match then Panic ''pulling non existing child''
      else if level \<ge> 65535 then Panic levelOverflow
      else let node = node_delete node0 idx
      in if length node > 0 then
           let s1 = ptr_set (level, pkey) node s
           in obind (accumulate A node) (\<lambda>acc.
                updateAccumulation A (Suc level) (snd (parent s1 (level, pkey))) \<lparr>Index = key_bytes pkey, Accumulation = acc\<rparr> s1)
         else
           let left = leftSibling s (level, pkey); right = rightSibling s (level, pkey); up = parent s (level, pkey)
           in obind (pull A m (Suc level) (snd up) (key_bytes pkey) (ptr_delete (level, pkey) s)) (\<lambda>s2.
                case (left, right) of
                  (Some lp, Some rp) \<Rightarrow>
                    if ptr_exists s2 left \<and> ptr_exists s2 right then
                      let up2 = parent s2 lp
                      in if key_bytes (snd up2) = key_bytes (snd (parent s2 rp)) then
                           let leftnode = ptr_node s2 lp; rightnode = ptr_node s2 rp
                           in if length leftnode + length rightnode < unat m then
                                obind (pull A m (Suc level) (snd up2) (key_bytes (snd rp))
                                         (ptr_delete rp (ptr_set lp (node_merge leftnode rightnode) s2))) (\<lambda>s3.
                                obind (accumulate A leftnode) (\<lambda>acc.
                                  updateAccumulation A (Suc level) (snd up2)
                                    \<lparr>Index = key_bytes (snd lp), Accumulation = acc\<rparr> s3))
                              else Ok s2
                         else Ok s2
                    else Ok s2
                | _ \<Rightarrow> Ok s2))"
  by pat_completeness auto
termination
  by (relation "measure (\<lambda>(A, m, level, pkey, key, s). 65535 - level)") auto

declare pull.simps [simp del]

section \<open>The tree (\<^verbatim>\<open>tree.go\<close>)\<close>

definition IsEmpty :: "tree_store \<Rightarrow> bool" where
  "IsEmpty s \<longleftrightarrow> \<not> store_has s (leafKey [])"

definition tree_Get :: "tree_store \<Rightarrow> string \<Rightarrow> int outcome" where
  "tree_Get s key =
     (case store_get s (leafKey key) of
        None \<Rightarrow> Ok 0
      | Some leaf \<Rightarrow> (case leaf of [] \<Rightarrow> Panic ''nil pointer dereference'' | c # _ \<Rightarrow> Ok (Accumulation c)))"

definition tree_Set :: "amounts \<Rightarrow> 8 word \<Rightarrow> string option \<Rightarrow> int \<Rightarrow> tree_store \<Rightarrow> tree_store outcome" where
  "tree_Set A m key acc s =
     (let leaf = NewLeaf (key_bytes key) acc
      in obind (setLeaf (0, key) leaf s) (\<lambda>s1.
           push A m 1 (snd (parent s1 (0, key))) (hd leaf) s1))"

definition NewTree :: "amounts \<Rightarrow> 8 word \<Rightarrow> tree_store \<Rightarrow> tree_store outcome" where
  "NewTree A m s = (if IsEmpty s then tree_Set A m None 0 s else Ok s)"

definition tree_Remove :: "amounts \<Rightarrow> 8 word \<Rightarrow> string option \<Rightarrow> tree_store \<Rightarrow> tree_store outcome" where
  "tree_Remove A m key s =
     (if \<not> ptr_exists s (Some (0, key)) then Ok s
      else pull A m 1 (snd (parent s (0, key))) (key_bytes key) (ptr_delete (0, key) s))"

definition tree_Increase :: "amounts \<Rightarrow> 8 word \<Rightarrow> string option \<Rightarrow> int \<Rightarrow> tree_store \<Rightarrow> tree_store outcome" where
  "tree_Increase A m key amt s =
     obind (tree_Get s (key_bytes key)) (\<lambda>value. obind (amt_Add A value amt) (\<lambda>v. tree_Set A m key v s))"

definition tree_Decrease :: "amounts \<Rightarrow> 8 word \<Rightarrow> string option \<Rightarrow> int \<Rightarrow> tree_store \<Rightarrow> tree_store outcome" where
  "tree_Decrease A m key amt s = tree_Increase A m key (amt_Neg A amt) s"

definition tree_Clear :: "tree_store \<Rightarrow> tree_store" where
  "tree_Clear s = fold store_delete (map fst s) s"

definition root :: "tree_store \<Rightarrow> ptr option" where
  "root s =
     (case rev (map fst (store_prefix s nodeKeyPrefix)) of
        [] \<Rightarrow> None
      | k # _ \<Rightarrow> let key = drop 5 k in Some (of_char (key ! 0) * 256 + of_char (key ! 1), Some (drop 2 key)))"

fun accumulationSplit :: "amounts \<Rightarrow> tree_store \<Rightarrow> nat \<Rightarrow> string \<Rightarrow> string \<Rightarrow> (int \<times> int \<times> int) outcome" where
  "accumulationSplit A s 0 pkey key =
     (case store_get s (leafKey pkey) of
        Some (c # _) \<Rightarrow>
          Ok (if pkey < key then (Accumulation c, 0, 0) else if pkey = key then (0, Accumulation c, 0) else (0, 0, Accumulation c))
      | _ \<Rightarrow> Panic ''nil pointer dereference'')"
| "accumulationSplit A s (Suc level) pkey key =
     (let node = ptr_node s (Suc level, Some pkey); (i, match) = node_find node key
      in if \<not> match \<and> i = 0 then Panic ''index out of range [-1]''
      else let idx = (if match then i else i - 1)
      in if idx \<ge> length node then Panic ''index out of range''
      else obind (accumulationSplit A s level (Index (node ! idx)) key) (\<lambda>(left, exact, right).
           obind (obind (accumulate A (take idx node)) (amt_Add A left)) (\<lambda>left'.
           obind (obind (accumulate A (drop (Suc idx) node)) (amt_Add A right)) (\<lambda>right'.
             Ok (left', exact, right')))))"

definition SplitAcc :: "amounts \<Rightarrow> tree_store \<Rightarrow> string \<Rightarrow> (int \<times> int \<times> int) outcome" where
  "SplitAcc A s key =
     (case root s of
        None \<Rightarrow> Panic ''nil pointer dereference''
      | Some (level, pkey) \<Rightarrow> accumulationSplit A s level (key_bytes pkey) key)"

definition SubsetAccumulation :: "amounts \<Rightarrow> tree_store \<Rightarrow> string option \<Rightarrow> string option \<Rightarrow> int outcome" where
  "SubsetAccumulation A s start end =
     (case start of
        None \<Rightarrow> obind (SplitAcc A s (key_bytes end)) (\<lambda>(left, exact, _). amt_Add A left exact)
      | Some b \<Rightarrow>
          (case end of
             None \<Rightarrow> obind (SplitAcc A s b) (\<lambda>(_, exact, right). amt_Add A exact right)
           | Some e \<Rightarrow>
               obind (SplitAcc A s b) (\<lambda>(_, leftexact, leftrest).
               obind (SplitAcc A s e) (\<lambda>(_, _, rightest).
               obind (amt_Add A leftexact leftrest) (\<lambda>x. amt_Sub A x rightest)))))"

definition TotalAccumulatedValue :: "amounts \<Rightarrow> tree_store \<Rightarrow> int outcome" where
  "TotalAccumulatedValue A s = SubsetAccumulation A s None None"

definition PrefixSum :: "amounts \<Rightarrow> tree_store \<Rightarrow> string option \<Rightarrow> int outcome" where
  "PrefixSum A s key = SubsetAccumulation A s None key"

definition tree_Iterator :: "tree_store \<Rightarrow> string option \<Rightarrow> string option \<Rightarrow> string list" where
  "tree_Iterator s begin end = ptrIterator s 0 begin end"

definition tree_ReverseIterator :: "tree_store \<Rightarrow> string option \<Rightarrow> string option \<Rightarrow> string list" where
  "tree_ReverseIterator s begin end = ptrReverseIterator s 0 begin end"

end
