(* ===== verification/Sumtree_Nodes.thy ===== *)
theory Sumtree_Nodes
  imports Sumtree
begin

text \<open>
  The keys under which \<^verbatim>\<open>sumtree\<close> stores its nodes, the levels they form, and the nodes as lists of children
  sorted by key: what \<^verbatim>\<open>find\<close>, \<^verbatim>\<open>insert\<close>, \<^verbatim>\<open>setAcc\<close>, \<^verbatim>\<open>split\<close> and \<^verbatim>\<open>parent\<close> compute on them.
\<close>

section \<open>Keys\<close>

lemma nodeKey_inj:
  assumes "l < 65536" "l' < 65536"
  shows "nodeKey l k = nodeKey l' k' \<longleftrightarrow> l = l' \<and> k = k'"
proof -
  have c: "(char_of (n::nat) = (char_of m :: char)) \<longleftrightarrow> n mod 256 = m mod 256" for n m
    by (simp add: char_of_eq_iff take_bit_eq_mod)
  have "l div 256 < 256" "l' div 256 < 256" using assms by auto
  then show ?thesis by (auto simp: nodeKey_def c) (metis div_mult_mod_eq)
qed

lemma nodeKey_le_iff [simp]: "nodeKey l k \<le> nodeKey l k' \<longleftrightarrow> k \<le> k'"
  by (simp add: nodeKey_def nodeKeyPrefix_def)

lemma nodeKey_less_iff [simp]: "nodeKey l k < nodeKey l k' \<longleftrightarrow> k < k'"
  by (simp add: nodeKey_def nodeKeyPrefix_def)

lemma prefix_nodeKey: "prefix (nodeKey l []) x \<longleftrightarrow> (\<exists>k. x = nodeKey l k)"
  by (auto simp: nodeKey_def prefix_def)

lemma drop_nodeKey [simp]: "drop 7 (nodeKey l k) = k"
  by (simp add: nodeKey_def nodeKeyPrefix_def)

lemma between_prefix:
  fixes p x e :: string
  shows "p \<le> x \<Longrightarrow> x < p @ e \<Longrightarrow> prefix p x"
proof (induction p arbitrary: x)
  case (Cons a p)
  then show ?case by (cases x) auto
qed simp

lemma between_nodeKey: "nodeKey l k \<le> x \<Longrightarrow> x < nodeKey l e \<Longrightarrow> \<exists>k'. x = nodeKey l k'"
proof -
  assume "nodeKey l k \<le> x" "x < nodeKey l e"
  moreover have "nodeKey l [] \<le> nodeKey l k" by simp
  moreover have "nodeKey l e = nodeKey l [] @ e" by (simp add: nodeKey_def)
  ultimately have "prefix (nodeKey l []) x" using between_prefix[of "nodeKey l []" x e] order_trans by metis
  then show ?thesis by (simp add: prefix_nodeKey)
qed

lemma nodeKey_level_less:
  assumes "l < l'" "l' < 65536"
  shows "nodeKey l k < nodeKey l' k'"
proof -
  have "l div 256 < 256" "l' div 256 < 256" "l mod 256 < 256" "l' mod 256 < 256" using assms by auto
  moreover have "l div 256 < l' div 256 \<or> l div 256 = l' div 256 \<and> l mod 256 < l' mod 256"
    using assms(1) by (metis div_le_mono div_mult_mod_eq le_neq_implies_less less_imp_le nat_add_left_cancel_less)
  ultimately show ?thesis by (auto simp: nodeKey_def nodeKeyPrefix_def less_char_def)
qed

section \<open>Levels\<close>

definition lvl :: "tree_store \<Rightarrow> nat \<Rightarrow> string \<Rightarrow> Node option" where
  "lvl s l k = store_get s (nodeKey l k)"

definition level_keys :: "tree_store \<Rightarrow> nat \<Rightarrow> string set" where
  "level_keys s l = {k. lvl s l k \<noteq> None}"

text \<open>The largest key of a set that is not above the given one: the node under which it belongs.\<close>

definition floor_key :: "string set \<Rightarrow> string \<Rightarrow> string" where
  "floor_key K k = Max {x \<in> K. x \<le> k}"

lemma key_bytes_simps [simp]: "key_bytes None = []" "key_bytes (Some b) = b"
  by (simp_all add: key_bytes_def)

lemma ptr_exists_lvl [simp]: "ptr_exists s (Some (l, k)) \<longleftrightarrow> key_bytes k \<in> level_keys s l"
  by (simp add: ptr_exists_def store_has_def lvl_def level_keys_def ptr_at_def)

lemma ptr_node_lvl: "ptr_node s (l, k) = (case lvl s l (key_bytes k) of None \<Rightarrow> [] | Some n \<Rightarrow> n)"
  by (simp add: ptr_node_def lvl_def ptr_at_def)

lemma lvl_set:
  assumes "store_ok s" "l < 65536" "j < 65536"
  shows "lvl (store_set (nodeKey l x) n s) j k = (if j = l \<and> k = x then Some n else lvl s j k)"
  using assms by (simp add: lvl_def store_get_set nodeKey_inj)

lemma ptr_set_eq: "ptr_set (l, k) n s = store_set (nodeKey l (key_bytes k)) n s"
  and ptr_create_eq: "ptr_create (l, k) n s = store_set (nodeKey l (key_bytes k)) n s"
  by (simp_all add: ptr_set_def ptr_create_def ptr_at_def)

lemma level_keys_in: "k \<in> level_keys s l \<longleftrightarrow> nodeKey l k \<in> fst ` set s"
  by (simp add: level_keys_def lvl_def store_get_def map_of_eq_None_iff)

lemma finite_level_keys: "finite (level_keys s l)"
proof (rule finite_subset)
  show "level_keys s l \<subseteq> drop 7 ` fst ` set s"
  proof
    fix k assume "k \<in> level_keys s l"
    then have "drop 7 (nodeKey l k) \<in> drop 7 ` fst ` set s" by (simp only: level_keys_in imageI)
    then show "k \<in> drop 7 ` fst ` set s" by simp
  qed
qed simp

lemma iterate_below:
  assumes "store_ok s"
  shows "ptrIterator s l None (Some e) = map (nodeKey l) (sorted_list_of_set {k \<in> level_keys s l. k < e})"
proof -
  let ?S = "{k \<in> level_keys s l. k < e}" and ?P = "\<lambda>x. nodeKey l [] \<le> x \<and> x < nodeKey l e"
  have it: "ptrIterator s l None (Some e) = filter ?P (map fst s)" unfolding ptrIterator_def by simp
  have s: "sorted (map fst s)" "distinct (map fst s)" using assms by (simp_all add: store_ok_def strict_sorted_iff)
  have inj: "inj_on (nodeKey l) X" for X by (simp add: inj_on_def nodeKey_def)
  have "nodeKey l ` ?S = {x \<in> fst ` set s. ?P x}"
  proof (intro set_eqI iffI)
    fix x assume "x \<in> nodeKey l ` ?S"
    then show "x \<in> {x \<in> fst ` set s. ?P x}" unfolding level_keys_in by auto
  next
    fix x assume x: "x \<in> {x \<in> fst ` set s. ?P x}"
    then obtain k where "x = nodeKey l k" using between_nodeKey[of l "[]" x e] by blast
    then show "x \<in> nodeKey l ` ?S" using x by (simp add: level_keys_in)
  qed
  then have set: "set (filter ?P (map fst s)) = set (map (nodeKey l) (sorted_list_of_set ?S))"
    using finite_level_keys[of s l] by simp
  show ?thesis unfolding it
  proof (rule sorted_distinct_set_unique)
    show "sorted (filter ?P (map fst s))" by (rule sorted_wrt_filter[OF s(1)])
    show "distinct (filter ?P (map fst s))" by (rule distinct_filter[OF s(2)])
    show "sorted (map (nodeKey l) (sorted_list_of_set ?S))" by (simp add: sorted_map)
    show "distinct (map (nodeKey l) (sorted_list_of_set ?S))" by (simp add: distinct_map inj)
  qed (rule set)
qed

lemma last_sorted_list_of_set:
  assumes "finite S" "S \<noteq> {}"
  shows "last (sorted_list_of_set S) = Max S"
proof -
  let ?xs = "sorted_list_of_set S"
  have n: "?xs \<noteq> []" using assms by simp
  have "x \<le> last ?xs" if "x \<in> S" for x
  proof -
    have "x \<in> set ?xs" using that assms(1) by simp
    then obtain i where "i < length ?xs" "x = ?xs ! i" by (metis in_set_conv_nth)
    then show ?thesis using n by (simp add: last_conv_nth sorted_nth_mono)
  qed
  moreover have "last ?xs \<in> S" using last_in_set[OF n] assms(1) by simp
  ultimately show ?thesis using assms(1) by (metis Max_eqI)
qed

lemma leftSibling_Max:
  assumes "store_ok s"
  shows "leftSibling s (l, Some e) =
    (if {k \<in> level_keys s l. k < e} = {} then None else Some (l, Some (Max {k \<in> level_keys s l. k < e})))"
proof -
  let ?S = "{k \<in> level_keys s l. k < e}"
  have f: "finite ?S" using finite_level_keys[of s l] by simp
  show ?thesis
  proof (cases "?S = {}")
    case True
    have "ptrIterator s l None (Some e) = []" unfolding iterate_below[OF assms] True by simp
    then show ?thesis using True by (simp add: leftSibling_def ptrReverseIterator_def iter_ptr_def)
  next
    case False
    let ?xs = "sorted_list_of_set ?S"
    have n: "?xs \<noteq> []" using False f by simp
    then obtain ys where "rev ?xs = last ?xs # ys" by (metis append_butlast_last_id rev_eq_Cons_iff rev_rev_ident)
    then have "rev ?xs = Max ?S # ys" using last_sorted_list_of_set[OF f False] by simp
    then show ?thesis
      using False iterate_below[OF assms, of l e] by (simp add: leftSibling_def ptrReverseIterator_def iter_ptr_def rev_map)
  qed
qed

lemma leftSibling_empty:
  assumes "level_keys s l = {}"
  shows "leftSibling s (l, k) = None"
proof -
  have "ptrIterator s l None k = []"
    unfolding ptrIterator_def filter_empty_conv
  proof (intro ballI notI)
    fix x
    assume x: "x \<in> set (map fst s)"
      and c: "nodeKey l (key_bytes None) \<le> x \<and> (case k of None \<Rightarrow> prefix (nodeKey l []) x | Some e \<Rightarrow> x < nodeKey l e)"
    have "\<exists>y. x = nodeKey l y"
    proof (cases k)
      case None
      with c show ?thesis by (simp add: prefix_nodeKey)
    next
      case (Some e)
      with c show ?thesis using between_nodeKey[of l "[]" x e] by simp
    qed
    then obtain y where "x = nodeKey l y" ..
    with x have "y \<in> level_keys s l" unfolding level_keys_in by simp
    with assms show False by simp
  qed
  then show ?thesis by (simp add: leftSibling_def ptrReverseIterator_def iter_ptr_def)
qed

lemma parent_level [simp]: "fst (parent s p) = Suc (fst p)"
  by (auto simp: parent_def Let_def leftSibling_def iter_ptr_def split: option.splits list.splits)

lemma parent_floor:
  assumes "store_ok s" "[] \<in> level_keys s (Suc l)"
  shows "key_bytes (snd (parent s (l, k))) = floor_key (level_keys s (Suc l)) (key_bytes k)"
proof (cases "key_bytes k \<in> level_keys s (Suc l)")
  case True
  have "Max {x \<in> level_keys s (Suc l). x \<le> key_bytes k} = key_bytes k"
    using True finite_level_keys[of s "Suc l"] by (intro Max_eqI) auto
  then show ?thesis using True by (simp add: parent_def Let_def floor_key_def)
next
  case False
  then obtain e where e: "k = Some e" "e \<noteq> []" using assms(2) by (cases k) auto
  have S: "{x \<in> level_keys s (Suc l). x \<le> e} = {x \<in> level_keys s (Suc l). x < e}"
    using False e by (auto simp: order_le_less)
  have n: "[] \<in> {x \<in> level_keys s (Suc l). x < e}" using assms(2) e by (cases e) auto
  have "Max {x \<in> level_keys s (Suc l). x < e} \<in> {x \<in> level_keys s (Suc l). x < e}"
    using n finite_level_keys[of s "Suc l"] by (intro Max_in) auto
  then show ?thesis
    using False n e S leftSibling_Max[OF assms(1), of "Suc l" e] by (auto simp: parent_def Let_def floor_key_def)
qed

lemma parent_none: "level_keys s (Suc l) = {} \<Longrightarrow> parent s (l, k) = (Suc l, None)"
  by (simp add: parent_def Let_def leftSibling_empty)

lemma empty_le [simp]: "([] :: string) \<le> x"
  by (cases x) auto

lemma floor_key_props:
  assumes "finite K" "[] \<in> K"
  shows "floor_key K x \<in> K" "floor_key K x \<le> x" "y \<in> K \<Longrightarrow> y \<le> x \<Longrightarrow> y \<le> floor_key K x"
proof -
  have f: "finite {z \<in> K. z \<le> x}" using assms(1) by simp
  have "Max {z \<in> K. z \<le> x} \<in> {z \<in> K. z \<le> x}" using assms by (intro Max_in[OF f]) auto
  then show "floor_key K x \<in> K" "floor_key K x \<le> x" by (auto simp: floor_key_def)
  show "y \<le> floor_key K x" if "y \<in> K" "y \<le> x" using that f by (simp add: floor_key_def)
qed

lemma floor_key_eqI:
  assumes "finite K" "p \<in> K" "p \<le> x" "\<And>y. y \<in> K \<Longrightarrow> y \<le> x \<Longrightarrow> y \<le> p"
  shows "floor_key K x = p"
  unfolding floor_key_def using assms by (intro Max_eqI) auto

lemma floor_key_id: "finite K \<Longrightarrow> x \<in> K \<Longrightarrow> floor_key K x = x"
  by (rule floor_key_eqI) auto

lemma floor_key_insert:
  assumes "finite K" "[] \<in> K"
  shows "floor_key (insert r K) x = (if r \<le> x \<and> floor_key K x \<le> r then r else floor_key K x)"
proof -
  note p = floor_key_props[OF assms, of x] floor_key_props(3)[OF assms]
  show ?thesis
  proof (cases "r \<le> x \<and> floor_key K x \<le> r")
    case True
    then have "floor_key (insert r K) x = r"
      using assms(1) p(4) by (intro floor_key_eqI) (auto intro: order_trans)
    then show ?thesis using True by simp
  next
    case False
    then have "floor_key (insert r K) x = floor_key K x"
      using assms(1) p by (intro floor_key_eqI) (auto dest: not_le_imp_less)
    then show ?thesis unfolding if_not_P[OF False] .
  qed
qed

lemma floor_key_floor_key:
  assumes "finite K" "[] \<in> K'" "K' \<subseteq> K"
  shows "floor_key K' (floor_key K x) = floor_key K' x"
proof -
  have K': "finite K'" and K: "[] \<in> K" using assms finite_subset by auto
  note p = floor_key_props[OF assms(1) K] and p' = floor_key_props[OF K' assms(2)]
  show ?thesis
    using p'(1,2)[of x] p(3)[of "floor_key K' x" x] p(2)[of x] p'(3)[of _ x] assms(3)
    by (intro floor_key_eqI[OF K']) (auto intro: order_trans)
qed

section \<open>Children of a node\<close>

definition kid :: "(string \<Rightarrow> int) \<Rightarrow> string \<Rightarrow> Child" where
  "kid a x = \<lparr>Index = x, Accumulation = a x\<rparr>"

definition kids :: "(string \<Rightarrow> int) \<Rightarrow> string set \<Rightarrow> Node" where
  "kids a S = map (kid a) (sorted_list_of_set S)"

lemma kid_simps [simp]: "Index (kid a x) = x" "Accumulation (kid a x) = a x"
  by (simp_all add: kid_def)

lemma sorted_list_eqI: "sorted_wrt (<) xs \<Longrightarrow> set xs = S \<Longrightarrow> sorted_list_of_set S = xs"
  by (rule sorted_distinct_set_unique) (auto simp: strict_sorted_iff)

lemma kids_eqI: "sorted_wrt (<) xs \<Longrightarrow> set xs = S \<Longrightarrow> kids a S = map (kid a) xs"
  by (simp add: kids_def sorted_list_eqI)

lemma find_from_sorted:
  "sorted_wrt (<) xs \<Longrightarrow> find_from i (map (kid a) xs) x = (i + length (takeWhile (\<lambda>y. y < x) xs), x \<in> set xs)"
proof (induction xs arbitrary: i)
  case (Cons y ys)
  then show ?case by (cases y x rule: linorder_cases) auto
qed simp

lemma takeWhile_sorted:
  "sorted_wrt (<) xs \<Longrightarrow> takeWhile (\<lambda>y. y < x) xs = filter (\<lambda>y. y < x) xs \<and> dropWhile (\<lambda>y. y < x) xs = filter (\<lambda>y. x \<le> y) xs"
  for x :: "'a :: linorder"
proof (induction xs)
  case (Cons y ys)
  show ?case
  proof (cases "y < x")
    case True
    then show ?thesis using Cons by simp
  next
    case False
    then have "\<forall>z \<in> set ys. x \<le> z" using Cons.prems by auto
    then have "filter (\<lambda>y. y < x) ys = []" "filter (\<lambda>y. x \<le> y) ys = ys"
      by (auto simp: filter_empty_conv not_less)
    then show ?thesis using False by simp
  qed
qed simp

lemma sorted_list_of_set_filter:
  "finite S \<Longrightarrow> sorted_list_of_set {x \<in> S. P x} = filter P (sorted_list_of_set S)"
  by (rule sorted_list_eqI) (auto simp: sorted_wrt_filter)

lemma find_kids:
  assumes "finite S"
  shows "node_find (kids a S) x = (card {y \<in> S. y < x}, x \<in> S)"
proof -
  let ?xs = "sorted_list_of_set S"
  have "takeWhile (\<lambda>y. y < x) ?xs = sorted_list_of_set {y \<in> S. y < x}"
    using takeWhile_sorted[of ?xs x] sorted_list_of_set_filter[OF assms, of "\<lambda>y. y < x"] by simp
  then have "length (takeWhile (\<lambda>y. y < x) ?xs) = card {y \<in> S. y < x}" by simp
  then show ?thesis using find_from_sorted[of ?xs 0 a x] assms by (simp add: node_find_def kids_def)
qed

lemma length_kids [simp]: "length (kids a S) = card S"
  by (simp add: kids_def)

lemma take_kids:
  assumes "finite S"
  shows "take (card {y \<in> S. y < x}) (kids a S) = kids a {y \<in> S. y < x}"
    and "drop (card {y \<in> S. y < x}) (kids a S) = kids a {y \<in> S. x \<le> y}"
proof -
  let ?xs = "sorted_list_of_set S"
  have t: "takeWhile (\<lambda>y. y < x) ?xs = sorted_list_of_set {y \<in> S. y < x}"
    "dropWhile (\<lambda>y. y < x) ?xs = sorted_list_of_set {y \<in> S. x \<le> y}"
    using takeWhile_sorted[of ?xs x] sorted_list_of_set_filter[OF assms] by simp_all
  have l: "length (takeWhile (\<lambda>y. y < x) ?xs) = card {y \<in> S. y < x}" unfolding t by simp
  show "take (card {y \<in> S. y < x}) (kids a S) = kids a {y \<in> S. y < x}"
    unfolding kids_def take_map t(1)[symmetric] l[symmetric] by (metis takeWhile_eq_take)
  show "drop (card {y \<in> S. y < x}) (kids a S) = kids a {y \<in> S. x \<le> y}"
    unfolding kids_def drop_map t(2)[symmetric] l[symmetric] by (metis dropWhile_eq_drop)
qed

lemma kids_Cons: "finite S \<Longrightarrow> x \<in> S \<Longrightarrow> \<forall>y \<in> S. x \<le> y \<Longrightarrow> kids a S = kid a x # kids a {y \<in> S. x < y}"
proof -
  assume f: "finite S" "x \<in> S" "\<forall>y \<in> S. x \<le> y"
  have "kids a S = map (kid a) (x # sorted_list_of_set {y \<in> S. x < y})"
    using f by (intro kids_eqI) auto
  then show ?thesis by (simp add: kids_def)
qed

text \<open>The parts of a node before, at and after a child.\<close>

lemma kids_at:
  assumes "finite S" "x \<in> S"
  shows "kids a S = kids a {y \<in> S. y < x} @ kid a x # kids a {y \<in> S. x < y}"
    and "card {y \<in> S. y < x} < card S"
proof -
  have r: "{y \<in> {y \<in> S. x \<le> y}. x < y} = {y \<in> S. x < y}" by auto
  have e: "kids a {y \<in> S. x \<le> y} = kid a x # kids a {y \<in> S. x < y}"
    by (rule kids_Cons[of "{y \<in> S. x \<le> y}" x a, unfolded r]) (use assms in auto)
  show "kids a S = kids a {y \<in> S. y < x} @ kid a x # kids a {y \<in> S. x < y}"
    using append_take_drop_id[of "card {y \<in> S. y < x}" "kids a S"] unfolding take_kids[OF assms(1)] e by (rule sym)
  show "card {y \<in> S. y < x} < card S" by (rule psubset_card_mono[OF assms(1)]) (use assms(2) in blast)
qed

lemma kids_nth:
  assumes "finite S" "x \<in> S"
  shows "kids a S ! card {y \<in> S. y < x} = kid a x" "drop (Suc (card {y \<in> S. y < x})) (kids a S) = kids a {y \<in> S. x < y}"
  unfolding kids_at(1)[OF assms] by (simp_all add: nth_append)

lemma kids_cong: "finite S \<Longrightarrow> (\<And>x. x \<in> S \<Longrightarrow> a x = b x) \<Longrightarrow> kids a S = kids b S"
  by (simp add: kids_def kid_def)

lemma setAcc_kids:
  assumes "finite S" "x \<in> S"
  shows "setAcc (kids a S) (card {y \<in> S. y < x}) v = kids (a(x := v)) S"
proof -
  have "kids (a(x := v)) {y \<in> S. y < x} = kids a {y \<in> S. y < x}" "kids (a(x := v)) {y \<in> S. x < y} = kids a {y \<in> S. x < y}"
    using assms(1) by (auto intro!: kids_cong)
  then have "kids (a(x := v)) S = kids a {y \<in> S. y < x} @ kid (a(x := v)) x # kids a {y \<in> S. x < y}"
    using kids_at(1)[OF assms, of "a(x := v)"] by simp
  moreover have "setAcc (kids a S) (card {y \<in> S. y < x}) v = kids a {y \<in> S. y < x} @ kid (a(x := v)) x # kids a {y \<in> S. x < y}"
    unfolding setAcc_def kids_nth(1)[OF assms] by (subst kids_at(1)[OF assms]) (simp add: list_update_append kid_def)
  ultimately show ?thesis by simp
qed

lemma insert_kids:
  assumes "finite S" "x \<notin> S"
  shows "node_insert (kids a S) (card {y \<in> S. y < x}) \<lparr>Index = x, Accumulation = v\<rparr> = kids (a(x := v)) (insert x S)"
proof -
  have "{y \<in> insert x S. y < x} = {y \<in> S. y < x}" "{y \<in> insert x S. x < y} = {y \<in> S. x \<le> y}" using assms(2) by (auto simp: order_le_less)
  moreover have "kids (a(x := v)) {y \<in> S. y < x} = kids a {y \<in> S. y < x}" "kids (a(x := v)) {y \<in> S. x \<le> y} = kids a {y \<in> S. x \<le> y}"
    using assms by (auto intro!: kids_cong)
  ultimately show ?thesis
    using kids_at(1)[of "insert x S" x "a(x := v)"] take_kids[OF assms(1), of x a] assms(1) by (simp add: node_insert_def kid_def)
qed

lemma split_kids:
  assumes "finite S" "n < card S"
  obtains r where "r \<in> S" "kids a S ! n = kid a r" "take n (kids a S) = kids a {y \<in> S. y < r}" "drop n (kids a S) = kids a {y \<in> S. r \<le> y}"
    "n = 0 \<or> (\<exists>y \<in> S. y < r)"
proof -
  let ?xs = "sorted_list_of_set S"
  let ?r = "?xs ! n"
  have n: "n < length ?xs" using assms by simp
  have r: "?r \<in> S" using nth_mem[OF n] assms(1) by simp
  have s: "sorted_wrt (<) ?xs" by simp
  have "{y \<in> S. y < ?r} = (!) ?xs ` {..<n}"
  proof (intro set_eqI iffI)
    fix y assume y: "y \<in> {y \<in> S. y < ?r}"
    then have "y \<in> set ?xs" using assms(1) by simp
    then obtain i where i: "i < length ?xs" "y = ?xs ! i" by (metis in_set_conv_nth)
    have "i < n"
    proof (rule ccontr)
      assume "\<not> i < n"
      then have "?r \<le> ?xs ! i" using i(1) by (intro sorted_nth_mono) auto
      with y i(2) show False by (auto dest: leD)
    qed
    with i show "y \<in> (!) ?xs ` {..<n}" by blast
  next
    fix y assume "y \<in> (!) ?xs ` {..<n}"
    then obtain i where i: "i < n" "y = ?xs ! i" by blast
    then have "y < ?r" using sorted_wrt_nth_less[OF s _ n] by simp
    moreover have "y \<in> S" using i n nth_mem[of i ?xs] assms(1) by simp
    ultimately show "y \<in> {y \<in> S. y < ?r}" by simp
  qed
  moreover have "inj_on ((!) ?xs) {..<n}" using n by (auto simp: inj_on_def nth_eq_iff_index_eq)
  ultimately have c: "card {y \<in> S. y < ?r} = n" by (simp add: card_image)
  have k: "n = 0 \<or> (\<exists>y \<in> S. y < ?r)" using c by (cases "{y \<in> S. y < ?r} = {}") auto
  show ?thesis using that[OF r _ _ _ k] kids_nth(1)[OF assms(1) r, of a] take_kids[OF assms(1), of ?r a] unfolding c by blast
qed

end
