(* ===== verification/Sumtree_Tower.thy ===== *)
theory Sumtree_Tower
  imports Sumtree_Nodes Checked_Arith
begin

text \<open>
  What a well-formed tree is: a tower of levels, each holding the sums of the level below. Updating a value
  and inserting a key, with the node splits up to a new root, keep it, and no sum on the way overflows when
  the magnitudes of the values, times the height, stay in the range of the amounts.
\<close>

section \<open>The tower of levels\<close>

text \<open>
  \<open>seg\<close>: the keys of a level that belong under a key of the level above. A store has a tower over a
  level with the keys \<open>K\<close> and the values \<open>a\<close> when every level above it, up to the root at \<open>h\<close>, holds
  exactly the nodes for these segments, with the sums of the values as accumulations, and no node but the root has fewer than \<open>c\<close> children.
\<close>

definition seg :: "string set \<Rightarrow> string set \<Rightarrow> string \<Rightarrow> string set" where
  "seg K' K k = {x \<in> K. floor_key K' x = k}"

inductive tower :: "nat \<Rightarrow> tree_store \<Rightarrow> nat \<Rightarrow> nat \<Rightarrow> string set \<Rightarrow> (string \<Rightarrow> int) \<Rightarrow> bool" for c s h where
  top: "(\<And>j k. h < j \<Longrightarrow> j < 65536 \<Longrightarrow> lvl s j k = None) \<Longrightarrow> tower c s h h {[]} a"
| step: "finite K \<Longrightarrow> K' \<subseteq> K \<Longrightarrow> [] \<in> K' \<Longrightarrow> l < h \<Longrightarrow>
    (\<And>k. lvl s (Suc l) k = (if k \<in> K' then Some (kids a (seg K' K k)) else None)) \<Longrightarrow>
    (\<forall>k \<in> K'. Suc l < h \<longrightarrow> c \<le> card (seg K' K k)) \<Longrightarrow>
    tower c s h (Suc l) K' (\<lambda>k. \<Sum>x\<in>seg K' K k. a x) \<Longrightarrow> tower c s h l K a"

inductive_cases towerE: "tower c s h l K a"

definition tree_shape :: "tree_store \<Rightarrow> bool" where
  "tree_shape s \<longleftrightarrow> store_ok s \<and> (\<forall>x \<in> fst ` set s. \<exists>j k. j < 65536 \<and> x = nodeKey j k)"

lemma tree_shape_set: "tree_shape s \<Longrightarrow> j < 65536 \<Longrightarrow> tree_shape (store_set (nodeKey j k) n s)"
  by (auto simp: tree_shape_def store_set_ok simp del: fst_conv image_iff simp: set_keys_store_set)

lemma tower_facts: "tower c s h l K a \<Longrightarrow> l \<le> h \<and> [] \<in> K \<and> finite K"
  by (induction rule: tower.induct) auto

lemma tower_cong:
  assumes "tower c s h l K a" "h < 65536" "\<And>j k. l < j \<Longrightarrow> j < 65536 \<Longrightarrow> lvl s' j k = lvl s j k"
  shows "tower c s' h l K a"
  using assms(1,3)
proof (induction rule: tower.induct)
  case (top a)
  then show ?case by (intro tower.top) simp
next
  case (step K K' l a)
  have "lvl s' (Suc l) k = lvl s (Suc l) k" for k using step.prems step.hyps(4) assms(2) by simp
  then show ?case using step by (intro tower.step[of K K']) auto
qed

lemma seg_finite: "finite K \<Longrightarrow> finite (seg K' K k)"
  by (simp add: seg_def)

lemma level_keys_tower: "(\<And>k. lvl s l k = (if k \<in> K' then Some (f k) else None)) \<Longrightarrow> level_keys s l = K'"
  by (simp add: level_keys_def)

text \<open>Changing a value changes one sum; a new key belongs to one segment; a key that becomes a node splits one.\<close>

lemma sum_seg_update:
  assumes "finite K" "x \<in> K"
  shows "(\<lambda>k. \<Sum>y\<in>seg K' K k. (a(x := v)) y) =
    (\<lambda>k. \<Sum>y\<in>seg K' K k. a y)(floor_key K' x := \<Sum>y\<in>seg K' K (floor_key K' x). (a(x := v)) y)"
proof
  fix k
  show "(\<Sum>y\<in>seg K' K k. (a(x := v)) y) =
    ((\<lambda>k. \<Sum>y\<in>seg K' K k. a y)(floor_key K' x := \<Sum>y\<in>seg K' K (floor_key K' x). (a(x := v)) y)) k"
    by (cases "k = floor_key K' x") (auto simp: seg_def intro!: sum.cong)
qed

lemma kids_seg_update:
  assumes "finite K" "k \<noteq> floor_key K' x"
  shows "kids (a(x := v)) (seg K' K k) = kids a (seg K' K k)"
  using assms by (intro kids_cong) (auto simp: seg_def)

lemma seg_insert: "seg K' (insert x K) k = (if k = floor_key K' x then insert x (seg K' K k) else seg K' K k)"
  by (auto simp: seg_def)

lemma sum_seg_insert:
  assumes "finite K" "x \<notin> K"
  shows "(\<lambda>k. \<Sum>y\<in>seg K' (insert x K) k. (a(x := v)) y) =
    (\<lambda>k. \<Sum>y\<in>seg K' K k. a y)(floor_key K' x := \<Sum>y\<in>seg K' (insert x K) (floor_key K' x). (a(x := v)) y)"
proof
  fix k
  show "(\<Sum>y\<in>seg K' (insert x K) k. (a(x := v)) y) =
    ((\<lambda>k. \<Sum>y\<in>seg K' K k. a y)(floor_key K' x := \<Sum>y\<in>seg K' (insert x K) (floor_key K' x). (a(x := v)) y)) k"
    using assms(2) by (cases "k = floor_key K' x") (auto simp: seg_insert seg_def intro!: sum.cong)
qed

lemma seg_split:
  assumes "finite K'" "[] \<in> K'" "r \<in> seg K' K p" "p < r"
  shows "seg (insert r K') K k =
    (if k = p then {y \<in> seg K' K p. y < r} else if k = r then {y \<in> seg K' K p. r \<le> y} else seg K' K k)"
proof -
  have fr: "floor_key K' r = p" using assms(3) by (simp add: seg_def)
  note P = floor_key_props[OF assms(1,2)]
  have p: "p \<in> K'" using P(1)[of r] fr by simp
  have mono: "p \<le> floor_key K' y" if "r \<le> y" for y
    using p that assms(4) by (intro P(3)) auto
  have low: "floor_key K' y = p" if "floor_key K' y \<le> r" "r \<le> y" for y
    using P(3)[OF P(1) that(1)] mono[OF that(2)] fr by simp
  have r: "r \<notin> K'" using fr assms(4) floor_key_id[OF assms(1), of r] by auto
  then have nr: "floor_key K' y \<noteq> r" for y using P(1)[of y] by metis
  have e: "floor_key (insert r K') y = (if r \<le> y \<and> floor_key K' y = p then r else floor_key K' y)" for y
  proof (cases "r \<le> y")
    case True
    then have "floor_key K' y \<le> r \<longleftrightarrow> floor_key K' y = p" using low[of y] assms(4) by auto
    then show ?thesis unfolding floor_key_insert[OF assms(1,2), of r y] by simp
  next
    case False
    then show ?thesis unfolding floor_key_insert[OF assms(1,2), of r y] by simp
  qed
  have pr: "p \<noteq> r" using assms(4) by blast
  consider "k = p" | "k = r" | "k \<noteq> p" "k \<noteq> r" by blast
  then show ?thesis
  proof cases
    case 1
    have "seg (insert r K') K p = {y \<in> seg K' K p. y < r}"
    proof (intro set_eqI)
      fix y
      show "y \<in> seg (insert r K') K p \<longleftrightarrow> y \<in> {y \<in> seg K' K p. y < r}"
        unfolding seg_def mem_Collect_eq e using pr by (simp add: not_le) (metis leD leI)
    qed
    with 1 show ?thesis by simp
  next
    case 2
    have "seg (insert r K') K r = {y \<in> seg K' K p. r \<le> y}"
    proof (intro set_eqI)
      fix y
      show "y \<in> seg (insert r K') K r \<longleftrightarrow> y \<in> {y \<in> seg K' K p. r \<le> y}"
        unfolding seg_def mem_Collect_eq e using nr[of y] by auto
    qed
    with 2 pr show ?thesis by simp
  next
    case 3
    have "seg (insert r K') K k = seg K' K k"
    proof (intro set_eqI)
      fix y
      show "y \<in> seg (insert r K') K k \<longleftrightarrow> y \<in> seg K' K k"
        unfolding seg_def mem_Collect_eq e using 3 by simp
    qed
    with 3 show ?thesis by simp
  qed
qed

section \<open>Results\<close>

definition yields :: "'a outcome \<Rightarrow> ('a \<Rightarrow> bool) \<Rightarrow> bool" where
  "yields r P \<longleftrightarrow> (\<exists>x. r = Ok x \<and> P x)"

lemma yields_Ok_iff [simp]: "yields (Ok x) P \<longleftrightarrow> P x"
  by (simp add: yields_def)

lemma yields_eq_iff: "yields r (\<lambda>x. x = y) \<longleftrightarrow> r = Ok y"
  by (auto simp: yields_def)

lemma yields_bind: "yields r P \<Longrightarrow> (\<And>x. P x \<Longrightarrow> yields (f x) Q) \<Longrightarrow> yields (obind r f) Q"
  by (auto simp: yields_def)

lemma yields_mono: "yields r P \<Longrightarrow> (\<And>x. P x \<Longrightarrow> Q x) \<Longrightarrow> yields r Q"
  by (auto simp: yields_def)

lemma tower_stepE:
  assumes "tower c s h l K a" "l < h"
  obtains K' where "finite K" "K' \<subseteq> K" "[] \<in> K'" "finite K'" "level_keys s (Suc l) = K'"
    "\<And>k. lvl s (Suc l) k = (if k \<in> K' then Some (kids a (seg K' K k)) else None)"
    "\<forall>k \<in> K'. Suc l < h \<longrightarrow> c \<le> card (seg K' K k)"
    "tower c s h (Suc l) K' (\<lambda>k. \<Sum>x\<in>seg K' K k. a x)"
proof -
  from assms obtain K' where K': "finite K" "K' \<subseteq> K" "[] \<in> K'"
    and L: "\<And>k. lvl s (Suc l) k = (if k \<in> K' then Some (kids a (seg K' K k)) else None)"
    and C: "\<forall>k \<in> K'. Suc l < h \<longrightarrow> c \<le> card (seg K' K k)"
    and T: "tower c s h (Suc l) K' (\<lambda>k. \<Sum>x\<in>seg K' K k. a x)"
    by (auto elim: towerE)
  have "finite K'" using K' finite_subset by blast
  from that[OF K' this level_keys_tower[OF L] L C T] show ?thesis by blast
qed

lemma tower_topE:
  assumes "tower c s h h K a" "h < 65535"
  shows "K = {[]}" "level_keys s (Suc h) = {}"
proof -
  from assms(1) have "K = {[]} \<and> (\<forall>j k. h < j \<longrightarrow> j < 65536 \<longrightarrow> lvl s j k = None)" by (auto elim: towerE)
  then show "K = {[]}" "level_keys s (Suc h) = {}" using assms(2) by (auto simp: level_keys_def)
qed

lemma parent_in_tower:
  assumes "tower c s h l K a" "h < 65535" "tree_shape s" "level_keys s (Suc l) \<noteq> {}"
  shows "key_bytes (snd (parent s (l, pk))) = floor_key (level_keys s (Suc l)) (key_bytes pk)"
proof -
  have "l < h" using assms tower_topE tower_facts[OF assms(1)] by (metis le_neq_implies_less)
  then obtain K' where "[] \<in> K'" "level_keys s (Suc l) = K'" using tower_stepE[OF assms(1)] by metis
  then show ?thesis using parent_floor[of s l pk] assms(3) by (simp add: tree_shape_def)
qed

section \<open>Sums without overflow\<close>

text \<open>The sum of the magnitudes: no sum over a part of the keys exceeds it.\<close>

definition mass :: "string set \<Rightarrow> (string \<Rightarrow> int) \<Rightarrow> int" where
  "mass K a = (\<Sum>x\<in>K. \<bar>a x\<bar>)"

lemma mass_nonneg [simp]: "0 \<le> mass K a"
  by (simp add: mass_def sum_nonneg)

lemma mass_subset: "finite K \<Longrightarrow> S \<subseteq> K \<Longrightarrow> mass S a \<le> mass K a"
  unfolding mass_def by (rule sum_mono2) auto

lemma abs_sum_mass: "finite K \<Longrightarrow> S \<subseteq> K \<Longrightarrow> \<bar>\<Sum>x\<in>S. a x\<bar> \<le> mass K a"
  using mass_subset[of K S a] sum_abs[of a S] unfolding mass_def by linarith

lemma mass_le_times: "mass K a \<le> (int n + 1) * mass K a"
  by (simp add: algebra_simps)

lemma mass_seg: "finite K \<Longrightarrow> mass (seg K' K k) a \<le> mass K a"
  by (rule mass_subset) (auto simp: seg_def)

lemma mass_insert: "finite K \<Longrightarrow> x \<notin> K \<Longrightarrow> mass (insert x K) (a(x := v)) = mass K a + \<bar>v\<bar>"
  unfolding mass_def by (subst sum.insert) (auto intro!: sum.cong)

lemma mass_update: "finite K \<Longrightarrow> mass (insert x K) (a(x := v)) \<le> mass K a + \<bar>v\<bar>"
  unfolding mass_def by (cases "x \<in> K") (auto simp: sum.insert_if insert_absorb sum.remove intro!: sum_mono)

lemma mass_sums:
  assumes "finite K" "finite K'" "[] \<in> K'"
  shows "mass K' (\<lambda>k. \<Sum>x\<in>seg K' K k. a x) \<le> mass K a"
proof -
  have "mass K' (\<lambda>k. \<Sum>x\<in>seg K' K k. a x) \<le> (\<Sum>k\<in>K'. \<Sum>x\<in>seg K' K k. \<bar>a x\<bar>)"
    unfolding mass_def by (intro sum_mono sum_abs)
  also have "\<dots> = mass K a"
    unfolding mass_def seg_def using assms floor_key_props(1)[OF assms(2,3)] by (intro sum.group) auto
  finally show ?thesis .
qed

text \<open>The amounts of the tree are integers with a checked range.\<close>

locale sum_amounts = checked_arith bits "amt_Add A" "amt_Sub A" "amt_Neg A"
  for bits :: nat and A :: amounts
begin

lemma add_exact: "\<bar>x + y\<bar> < 2 ^ bits \<Longrightarrow> amt_Add A x y = Ok (x + y)"
  by (simp add: add_Ok_iff in_bits_def)

lemma accumulate_list:
  "\<bar>s\<bar> + (\<Sum>c\<leftarrow>cs. \<bar>Accumulation c\<bar>) < 2 ^ bits \<Longrightarrow>
    ofold (\<lambda>c r. amt_Add A r (Accumulation c)) cs s = Ok (s + (\<Sum>c\<leftarrow>cs. Accumulation c))"
proof (induction cs arbitrary: s)
  case (Cons c cs)
  have "0 \<le> (\<Sum>c\<leftarrow>cs. \<bar>Accumulation c\<bar>)" by (intro sum_list_nonneg) auto
  then have "\<bar>s + Accumulation c\<bar> < 2 ^ bits" "\<bar>s + Accumulation c\<bar> + (\<Sum>c\<leftarrow>cs. \<bar>Accumulation c\<bar>) < 2 ^ bits"
    using Cons.prems abs_triangle_ineq[of s "Accumulation c"] by auto
  then show ?case using Cons.IH[of "s + Accumulation c"] add_exact by simp
qed simp

lemma accumulate_kids:
  assumes "finite S" "mass S a < 2 ^ bits"
  shows "yields (accumulate A (kids a S)) (\<lambda>t. t = (\<Sum>x\<in>S. a x))"
proof -
  have "(\<Sum>c\<leftarrow>kids a S. f (Accumulation c)) = (\<Sum>x\<in>S. f (a x))" for f :: "int \<Rightarrow> int"
    using assms(1) by (simp add: kids_def o_def sum_list_distinct_conv_sum_set)
  from this[of "\<lambda>x. \<bar>x\<bar>"] this[of "\<lambda>x. x"]
  show ?thesis using accumulate_list[of 0 "kids a S"] assms(2) by (simp add: accumulate_def yields_def mass_def)
qed

text \<open>Updating the value of a child: the levels below are untouched and the tower c stands over the new value.\<close>

lemma updateAccumulation_tower:
  assumes "tower c s h l K a" "h < 65535" "tree_shape s" "x \<in> K"
    and "level_keys s (Suc l) \<noteq> {} \<Longrightarrow> key_bytes pk = floor_key (level_keys s (Suc l)) x"
    and "mass K (a(x := v)) < 2 ^ bits"
  shows "yields (updateAccumulation A (Suc l) pk \<lparr>Index = x, Accumulation = v\<rparr> s)
    (\<lambda>s'. tree_shape s' \<and> (\<forall>j k. j \<le> l \<longrightarrow> lvl s' j k = lvl s j k) \<and> tower c s' h l K (a(x := v)))"
  using assms
proof (induction "h - l" arbitrary: s l K a x v pk)
  case 0
  have lh: "l = h" using 0 tower_facts by fastforce
  note t = tower_topE[OF 0(2)[unfolded lh] 0(3)]
  have e: "lvl s j k = None" if "h < j" "j < 65536" for j k using 0(2) that unfolding lh by (auto elim: towerE)
  from t have "updateAccumulation A (Suc l) pk \<lparr>Index = x, Accumulation = v\<rparr> s = Ok s"
    unfolding lh by (simp add: updateAccumulation.simps)
  moreover have "tower c s h h {[]} (a(x := v))" by (rule tower.top) (rule e)
  ultimately show ?case using 0(4) lh t(1) by (simp del: fun_upd_apply)
next
  case (Suc n)
  have "l < h" using Suc(2) by simp
  with Suc.prems(1) obtain K' where K': "finite K" "K' \<subseteq> K" "[] \<in> K'" and fK': "finite K'"
    and lk: "level_keys s (Suc l) = K'"
    and L: "\<And>k. lvl s (Suc l) k = (if k \<in> K' then Some (kids a (seg K' K k)) else None)"
    and C: "\<forall>k \<in> K'. Suc l < h \<longrightarrow> c \<le> card (seg K' K k)"
    and T: "tower c s h (Suc l) K' (\<lambda>k. \<Sum>x\<in>seg K' K k. a x)"
    by (rule tower_stepE) blast
  define p where "p = floor_key K' x"
  have p: "p \<in> K'" unfolding p_def by (rule floor_key_props(1)[OF fK' K'(3)])
  have kb: "key_bytes pk = p" using Suc.prems(5) lk K'(3) p_def by auto
  let ?S = "seg K' K p"
  have S: "finite ?S" "x \<in> ?S" using K'(1) Suc.prems(4) by (auto simp: seg_def p_def)
  let ?n = "kids (a(x := v)) ?S"
  let ?s1 = "store_set (nodeKey (Suc l) p) ?n s"
  have lim: "Suc l < 65536" "\<not> Suc l \<ge> 65535" using \<open>l < h\<close> Suc.prems(2) by auto
  have ok: "store_ok s" using Suc.prems(3) by (simp add: tree_shape_def)
  have lv: "lvl ?s1 j k = (if j = Suc l \<and> k = p then Some ?n else lvl s j k)" if "j < 65536" for j k
    using lvl_set[OF ok lim(1) that] .
  have shape1: "tree_shape ?s1" by (rule tree_shape_set[OF Suc.prems(3) lim(1)])
  have T1: "tower c ?s1 h (Suc l) K' (\<lambda>k. \<Sum>x\<in>seg K' K k. a x)"
    using Suc.prems(2) lv by (intro tower_cong[OF T]) auto
  have unf: "updateAccumulation A (Suc l) pk \<lparr>Index = x, Accumulation = v\<rparr> s =
      obind (accumulate A ?n) (\<lambda>acc. updateAccumulation A (Suc (Suc l)) (snd (parent ?s1 (Suc l, pk)))
        \<lparr>Index = p, Accumulation = acc\<rparr> ?s1)"
    using p lim(2) S
    by (subst updateAccumulation.simps)
       (simp add: lk kb ptr_node_lvl L find_kids setAcc_kids ptr_set_eq Let_def)
  have m1: "mass ?S (a(x := v)) < 2 ^ bits"
    using mass_seg[OF K'(1), of K' p "a(x := v)"] Suc.prems(6) by simp
  show ?case
    unfolding unf
  proof (rule yields_bind[OF accumulate_kids[OF S(1) m1]])
    fix acc assume acc: "acc = (\<Sum>y\<in>?S. (a(x := v)) y)"
    let ?a1 = "(\<lambda>k. \<Sum>y\<in>seg K' K k. a y)(p := acc)"
    have par: "key_bytes (snd (parent ?s1 (Suc l, pk))) = floor_key (level_keys ?s1 (Suc (Suc l))) p"
      if "level_keys ?s1 (Suc (Suc l)) \<noteq> {}"
      using parent_in_tower[OF T1 Suc.prems(2) shape1 that, of pk] kb by simp
    have a1: "?a1 = (\<lambda>k. \<Sum>y\<in>seg K' K k. (a(x := v)) y)"
      unfolding sum_seg_update[OF K'(1) Suc.prems(4)] p_def[symmetric] acc ..
    have "mass K' ?a1 < 2 ^ bits"
      unfolding a1 using mass_sums[OF K'(1) fK' K'(3), of "a(x := v)"] Suc.prems(6) by simp
    moreover have "n = h - Suc l" using Suc(2) by simp
    ultimately have "yields (updateAccumulation A (Suc (Suc l)) (snd (parent ?s1 (Suc l, pk))) \<lparr>Index = p, Accumulation = acc\<rparr> ?s1)
      (\<lambda>s'. tree_shape s' \<and> (\<forall>j k. j \<le> Suc l \<longrightarrow> lvl s' j k = lvl ?s1 j k) \<and> tower c s' h (Suc l) K' ?a1)"
      by (intro Suc(1)[OF _ T1 Suc.prems(2) shape1 p par])
    then
    show "yields (updateAccumulation A (Suc (Suc l)) (snd (parent ?s1 (Suc l, pk))) \<lparr>Index = p, Accumulation = acc\<rparr> ?s1)
      (\<lambda>s'. tree_shape s' \<and> (\<forall>j k. j \<le> l \<longrightarrow> lvl s' j k = lvl s j k) \<and> tower c s' h l K (a(x := v)))"
    proof (rule yields_mono)
      fix s'
      assume A: "tree_shape s' \<and> (\<forall>j k. j \<le> Suc l \<longrightarrow> lvl s' j k = lvl ?s1 j k) \<and> tower c s' h (Suc l) K' ?a1"
      have "lvl s' (Suc l) k = (if k \<in> K' then Some (kids (a(x := v)) (seg K' K k)) else None)" for k
        using A lv[OF lim(1)] p L kids_seg_update[OF K'(1), of k K' x a v] by (auto simp: p_def)
      then have "tower c s' h l K (a(x := v))"
        using K' \<open>l < h\<close> A C unfolding a1 by (intro tower.step[of K K']) auto
      moreover have "lvl s' j k = lvl s j k" if "j \<le> l" for j k
        using that A lv[of j k] lim(1) by simp
      ultimately show "tree_shape s' \<and> (\<forall>j k. j \<le> l \<longrightarrow> lvl s' j k = lvl s j k) \<and> tower c s' h l K (a(x := v))"
        using A by blast
    qed
  qed
qed

end

text \<open>Writing the last node of a level completes the tower over the level below.\<close>

lemma tower_rebuild:
  assumes "tower c s h (Suc l) Q (\<lambda>k. \<Sum>y\<in>seg Q K k. a y)" "h < 65535" "l < h" "tree_shape s"
    and "finite K" "Q \<subseteq> K" "[] \<in> Q" "p \<in> Q"
    and "\<And>k. k \<noteq> p \<Longrightarrow> lvl s (Suc l) k = (if k \<in> Q then Some (kids a (seg Q K k)) else None)"
    and "\<forall>k \<in> Q. Suc l < h \<longrightarrow> c \<le> card (seg Q K k)"
  shows "tree_shape (store_set (nodeKey (Suc l) p) (kids a (seg Q K p)) s) \<and>
    (\<forall>j k. j \<le> l \<longrightarrow> lvl (store_set (nodeKey (Suc l) p) (kids a (seg Q K p)) s) j k = lvl s j k) \<and>
    tower c (store_set (nodeKey (Suc l) p) (kids a (seg Q K p)) s) h l K a"
proof -
  let ?s = "store_set (nodeKey (Suc l) p) (kids a (seg Q K p)) s"
  have lim: "Suc l < 65536" using assms(2,3) by simp
  have ok: "store_ok s" using assms(4) by (simp add: tree_shape_def)
  have lv: "lvl ?s j k = (if j = Suc l \<and> k = p then Some (kids a (seg Q K p)) else lvl s j k)" if "j < 65536" for j k
    using lvl_set[OF ok lim that] .
  have "h < 65536" using assms(2) by simp
  then have "tower c ?s h (Suc l) Q (\<lambda>k. \<Sum>y\<in>seg Q K k. a y)" by (rule tower_cong[OF assms(1)]) (simp add: lv)
  moreover have "lvl ?s (Suc l) k = (if k \<in> Q then Some (kids a (seg Q K k)) else None)" for k
    using lv[OF lim, of k] assms(8) assms(9)[of k] by (cases "k = p") simp_all
  ultimately have "tower c ?s h l K a" by (intro tower.step[OF assms(5-7,3) _ assms(10)])
  moreover have "lvl ?s j k = lvl s j k" if "j \<le> l" for j k using that lv[of j k] lim by simp
  ultimately show ?thesis using tree_shape_set[OF assms(4) lim] by blast
qed

lemma seg_subset_insert: "seg K' K k \<subseteq> seg K' (insert x K) k"
  by (auto simp: seg_def)

text \<open>A node that receives a new child.\<close>

lemma seg_new:
  assumes "finite K" "x \<notin> K" "p = floor_key K' x"
  shows "finite (seg K' K p)" "x \<notin> seg K' K p" "finite (seg K' (insert x K) p)" "seg K' (insert x K) p = insert x (seg K' K p)"
    "node_find (kids a (seg K' K p)) x = (card {y \<in> seg K' K p. y < x}, False)"
    "node_insert (kids a (seg K' K p)) (card {y \<in> seg K' K p. y < x}) \<lparr>Index = x, Accumulation = v\<rparr> =
       kids (a(x := v)) (seg K' (insert x K) p)"
    "k \<noteq> p \<Longrightarrow> kids (a(x := v)) (seg K' (insert x K) k) = kids a (seg K' K k)"
proof -
  show f: "finite (seg K' K p)" "x \<notin> seg K' K p" and "finite (seg K' (insert x K) p)"
    and e: "seg K' (insert x K) p = insert x (seg K' K p)" using assms by (auto simp: seg_def)
  show "node_find (kids a (seg K' K p)) x = (card {y \<in> seg K' K p. y < x}, False)"
    using find_kids[OF f(1)] f(2) by simp
  show "node_insert (kids a (seg K' K p)) (card {y \<in> seg K' K p. y < x}) \<lparr>Index = x, Accumulation = v\<rparr> =
       kids (a(x := v)) (seg K' (insert x K) p)" unfolding e by (rule insert_kids[OF f])
  show "kids (a(x := v)) (seg K' (insert x K) k) = kids a (seg K' K k)" if "k \<noteq> p"
    using that kids_seg_update[OF assms(1), of k K' x a v] assms(3) by (simp add: seg_insert)
qed

lemma floor_key_mem_seg: "finite K' \<Longrightarrow> K' \<subseteq> K \<Longrightarrow> p \<in> K' \<Longrightarrow> p \<in> seg K' K p"
  by (auto simp: seg_def floor_key_id)

text \<open>What the operations on a level leave below it.\<close>

definition rises :: "nat \<Rightarrow> tree_store \<Rightarrow> nat \<Rightarrow> nat \<Rightarrow> string set \<Rightarrow> (string \<Rightarrow> int) \<Rightarrow> tree_store \<Rightarrow> bool" where
  "rises c s h l K a s' \<longleftrightarrow> tree_shape s' \<and> (\<forall>j k. j \<le> l \<longrightarrow> lvl s' j k = lvl s j k) \<and>
     (\<exists>h'. (h' = h \<or> h' = Suc h) \<and> tower c s' h' l K a)"

context sum_amounts
begin

lemma push_no_split:
  assumes "tower c s h l K a" "l < h" "h < 65534" "tree_shape s" "x \<notin> K"
    and K': "finite K" "K' \<subseteq> K" "[] \<in> K'" and fK': "finite K'"
    and lk: "level_keys s (Suc l) = K'"
    and L: "\<And>k. lvl s (Suc l) k = (if k \<in> K' then Some (kids a (seg K' K k)) else None)"
    and C: "\<forall>k \<in> K'. Suc l < h \<longrightarrow> c \<le> card (seg K' K k)"
    and T: "tower c s h (Suc l) K' (\<lambda>k. \<Sum>x\<in>seg K' K k. a x)"
    and p: "p = floor_key K' x" and kb: "key_bytes pk = p"
    and few: "card (seg K' (insert x K) p) \<le> unat m" and mass: "mass K a + \<bar>v\<bar> < 2 ^ bits"
  shows "yields (push A m (Suc l) pk \<lparr>Index = x, Accumulation = v\<rparr> s) (rises c s h l (insert x K) (a(x := v)))"
proof -
  let ?Kx = "insert x K" and ?ax = "a(x := v)" and ?up = "parent s (Suc l, pk)"
  let ?cs = "kids ?ax (seg K' ?Kx p)"
  have pK: "p \<in> K'" unfolding p by (rule floor_key_props(1)[OF fK' K'(3)])
  have lim: "Suc l < 65536" "\<not> Suc l \<ge> 65535" and h: "h < 65535" using assms(2,3) by auto
  note S = seg_new[OF K'(1) assms(5) p]
  have sums: "(\<lambda>k. \<Sum>y\<in>seg K' ?Kx k. ?ax y) = (\<lambda>k. \<Sum>y\<in>seg K' K k. a y)(p := \<Sum>y\<in>seg K' ?Kx p. ?ax y)"
    unfolding p by (rule sum_seg_insert[OF K'(1) assms(5)])
  have up: "key_bytes (snd ?up) = floor_key (level_keys s (Suc (Suc l))) p" if "level_keys s (Suc (Suc l)) \<noteq> {}"
    using parent_in_tower[OF T h assms(4) that, of pk] kb by simp
  have unf: "push A m (Suc l) pk \<lparr>Index = x, Accumulation = v\<rparr> s =
      obind (accumulate A ?cs) (\<lambda>acc.
        obind (updateAccumulation A (Suc (Suc l)) (snd ?up) \<lparr>Index = p, Accumulation = acc\<rparr> s) (\<lambda>s1.
          Ok (store_set (nodeKey (Suc l) p) ?cs s1)))"
    using pK lim(2) few
    by (subst push.simps) (simp add: lk kb ptr_node_lvl L S(5,6) ptr_set_eq Let_def del: fun_upd_apply)
  have mx: "mass ?Kx ?ax < 2 ^ bits" using mass mass_insert[OF K'(1) assms(5), of a v] by simp
  have C': "\<forall>k \<in> K'. Suc l < h \<longrightarrow> c \<le> card (seg K' ?Kx k)"
    using C card_mono[OF seg_finite[of ?Kx K'] seg_subset_insert[of K' K _ x]] K'(1) by (meson finite_insert order_trans)
  have mp: "mass (seg K' ?Kx p) ?ax < 2 ^ bits" using mass_seg[of ?Kx K' p ?ax] mx K'(1) by simp
  have m1: "mass K' ((\<lambda>k. \<Sum>y\<in>seg K' K k. a y)(p := \<Sum>y\<in>seg K' ?Kx p. ?ax y)) < 2 ^ bits"
    unfolding sums[symmetric] using mass_sums[of ?Kx K' ?ax] mx K' fK' by simp
  show ?thesis
    unfolding unf
  proof (rule yields_bind[OF accumulate_kids[OF S(3) mp]])
    fix acc assume acc: "acc = (\<Sum>y\<in>seg K' ?Kx p. ?ax y)"
    show "yields (obind (updateAccumulation A (Suc (Suc l)) (snd ?up) \<lparr>Index = p, Accumulation = acc\<rparr> s) (\<lambda>s1.
          Ok (store_set (nodeKey (Suc l) p) ?cs s1))) (rises c s h l ?Kx ?ax)"
    proof (rule yields_bind[OF updateAccumulation_tower[OF T h assms(4) pK up m1[folded acc]]])
      fix s1
      assume s1: "tree_shape s1 \<and> (\<forall>j k. j \<le> Suc l \<longrightarrow> lvl s1 j k = lvl s j k) \<and>
          tower c s1 h (Suc l) K' ((\<lambda>k. \<Sum>x\<in>seg K' K k. a x)(p := acc))"
      have "tower c s1 h (Suc l) K' (\<lambda>k. \<Sum>y\<in>seg K' ?Kx k. ?ax y)" unfolding sums using s1 acc by blast
      moreover have "lvl s1 (Suc l) k = (if k \<in> K' then Some (kids ?ax (seg K' ?Kx k)) else None)" if "k \<noteq> p" for k
        using s1 L S(7)[OF that] by simp
      ultimately have "tree_shape (store_set (nodeKey (Suc l) p) ?cs s1) \<and>
          (\<forall>j k. j \<le> l \<longrightarrow> lvl (store_set (nodeKey (Suc l) p) ?cs s1) j k = lvl s1 j k) \<and>
          tower c (store_set (nodeKey (Suc l) p) ?cs s1) h l ?Kx ?ax"
        using K' pK s1 assms(2) h C' by (intro tower_rebuild) auto
      then show "yields (Ok (store_set (nodeKey (Suc l) p) ?cs s1)) (rises c s h l ?Kx ?ax)"
        using s1 by (simp add: rises_def del: fun_upd_apply) blast
    qed
  qed
qed
end

lemma split_index: "unat (m div 2 + 1 :: 8 word) = unat m div 2 + 1"
proof -
  have "unat m < 256" using unsigned_less[of m] by simp
  then show ?thesis by (simp add: unat_word_ariths unat_div_distrib)
qed

text \<open>A node with too many children, split at its middle key \<open>r\<close>.\<close>

lemma split_node:
  assumes "finite K" "finite K'" "[] \<in> K'" "p \<in> K'" "K' \<subseteq> K" "x \<in> seg K' K p" "x \<notin> K'"
    and "card (seg K' K p) > unat (m :: 8 word)"
  obtains r where "r \<in> seg K' K p" "p < r" "r \<notin> K'" "unat (m div 2 + 1) < card (seg K' K p)"
    "kids a (seg K' K p) ! unat (m div 2 + 1) = kid a r"
    "node_split (kids a (seg K' K p)) (unat (m div 2 + 1)) =
       (kids a (seg (insert r K') K p), kids a (seg (insert r K') K r))"
    "\<forall>k. k \<noteq> p \<longrightarrow> k \<noteq> r \<longrightarrow> seg (insert r K') K k = seg K' K k"
    "insert r K' \<subseteq> K" "floor_key K' r = p"
    "unat m - unat m div 2 \<le> card (seg (insert r K') K p)" "unat m - unat m div 2 \<le> card (seg (insert r K') K r)"
proof -
  let ?T = "seg K' K p" and ?n = "unat (m div 2 + 1)"
  have T: "finite ?T" by (rule seg_finite[OF assms(1)])
  have "{p, x} \<subseteq> ?T" using assms(6) floor_key_mem_seg[OF assms(2,5,4)] by simp
  moreover have "card {p, x} = 2" using assms(4,7) by (cases "p = x") auto
  ultimately have "2 \<le> card ?T" using card_mono[OF T] by metis
  then have n: "?n < card ?T" using assms(8) unfolding split_index by linarith
  have n0: "?n \<noteq> 0" unfolding split_index by simp
  obtain r where r: "r \<in> ?T" "kids a ?T ! ?n = kid a r" "take ?n (kids a ?T) = kids a {y \<in> ?T. y < r}"
    "drop ?n (kids a ?T) = kids a {y \<in> ?T. r \<le> y}" "?n = 0 \<or> (\<exists>y \<in> ?T. y < r)"
    by (rule split_kids[OF T n, of a])
  from r(5) n0 obtain y where y: "y \<in> ?T" "y < r" by blast
  have "p \<le> y" using y(1) floor_key_props(2)[OF assms(2,3), of y] by (simp add: seg_def)
  then have pr: "p < r" using y(2) by simp
  have fr: "floor_key K' r = p" using r(1) by (simp add: seg_def)
  then have rK: "r \<notin> K'" using pr floor_key_id[OF assms(2), of r] by auto
  have e: "seg (insert r K') K k = (if k = p then {y \<in> ?T. y < r} else if k = r then {y \<in> ?T. r \<le> y} else seg K' K k)" for k
    by (rule seg_split[OF assms(2,3) r(1) pr])
  have sub: "insert r K' \<subseteq> K" using r(1) assms(5) by (auto simp: seg_def)
  have sp: "node_split (kids a ?T) ?n = (kids a (seg (insert r K') K p), kids a (seg (insert r K') K r))"
    unfolding e node_split_def using pr[THEN less_imp_neq, THEN not_sym] r(3,4) by simp
  have ot: "\<forall>k. k \<noteq> p \<longrightarrow> k \<noteq> r \<longrightarrow> seg (insert r K') K k = seg K' K k" unfolding e by simp
  have "length (take ?n (kids a ?T)) = card (seg (insert r K') K p)" "length (drop ?n (kids a ?T)) = card (seg (insert r K') K r)"
    using sp by (simp_all add: node_split_def)
  then have "unat m - unat m div 2 \<le> card (seg (insert r K') K p)" "unat m - unat m div 2 \<le> card (seg (insert r K') K r)"
    using n assms(8) unfolding split_index by auto
  then show ?thesis by (rule that[OF r(1) pr rK n r(2) sp ot sub fr])
qed

lemma floor_key_between:
  assumes "finite K'" "K'' \<subseteq> K'" "[] \<in> K''" "floor_key K' r = p"
  shows "floor_key K'' r = floor_key K'' p"
  using floor_key_floor_key[OF assms(1,3,2), of r] assms(4) by simp

lemma floor_key_root [simp]: "floor_key {[]} k = []"
  by (rule floor_key_eqI) auto

text \<open>A new root over two nodes.\<close>

lemma new_root_tower:
  assumes "tower c s (Suc l) (Suc l) K0 a0" "Suc l < 65534" "tree_shape s" "[] < r"
    and node: "node = [\<lparr>Index = [], Accumulation = b []\<rparr>, \<lparr>Index = r, Accumulation = b r\<rparr>]"
  shows "tree_shape (store_set (nodeKey (Suc (Suc l)) []) node s) \<and>
    (\<forall>j k. j \<le> Suc l \<longrightarrow> lvl (store_set (nodeKey (Suc (Suc l)) []) node s) j k = lvl s j k) \<and>
    tower c (store_set (nodeKey (Suc (Suc l)) []) node s) (Suc (Suc l)) (Suc l) {r, []} b"
proof -
  let ?s = "store_set (nodeKey (Suc (Suc l)) []) node s"
  have lim: "Suc (Suc l) < 65536" using assms(2) by simp
  have ok: "store_ok s" using assms(3) by (simp add: tree_shape_def)
  have lv: "lvl ?s j k = (if j = Suc (Suc l) \<and> k = [] then Some node else lvl s j k)" if "j < 65536" for j k
    using lvl_set[OF ok lim that] .
  have e: "lvl s j k = None" if "Suc l < j" "j < 65536" for j k
    using assms(1) that by (auto elim: towerE)
  have "seg {[]} {r, []} [] = {r, []}" by (auto simp: seg_def)
  then have k: "kids b (seg {[]} {r, []} []) = node"
    using kids_eqI[of "[[], r]" "{r, []}" b] assms(4) unfolding node by (simp add: kid_def insert_commute)
  have top: "tower c ?s (Suc (Suc l)) (Suc (Suc l)) {[]} b'" for b'
    by (rule tower.top) (use lv e in simp)
  have "lvl ?s (Suc (Suc l)) k = (if k \<in> {[]} then Some (kids b (seg {[]} {r, []} k)) else None)" for k
    using lv[OF lim, of k] e[of "Suc (Suc l)" k] lim k by (cases "k = []") simp_all
  then have "tower c ?s (Suc (Suc l)) (Suc l) {r, []} b"
    by (intro tower.step[OF _ _ _ _ _ _ top]) auto
  moreover have "lvl ?s j k = lvl s j k" if "j \<le> Suc l" for j k using that lv[of j k] lim by simp
  ultimately show ?thesis using tree_shape_set[OF assms(3) lim] by blast
qed

context sum_amounts
begin

lemma push_split_root:
  assumes "h = Suc l" "h < 65534" "tree_shape s" "x \<notin> K"
    and K': "finite K" and lk: "level_keys s (Suc l) = {[]}"
    and L: "\<And>k. lvl s (Suc l) k = (if k \<in> {[]} then Some (kids a (seg {[]} K k)) else None)"
    and T: "tower c s h (Suc l) {[]} (\<lambda>k. \<Sum>x\<in>seg {[]} K k. a x)" "[] \<in> K"
    and p: "[] = floor_key {[]} x" and kb: "key_bytes pk = []"
    and many: "card (seg {[]} (insert x K) []) > unat m" and c: "c \<le> unat m - unat m div 2"
    and mass: "mass K a + \<bar>v\<bar> < 2 ^ bits"
  shows "yields (push A m (Suc l) pk \<lparr>Index = x, Accumulation = v\<rparr> s) (rises c s h l (insert x K) (a(x := v)))"
proof -
  let ?Kx = "insert x K" and ?ax = "a(x := v)" and ?up = "parent s (Suc l, pk)" and ?n = "unat (m div 2 + 1)"
  let ?cs = "kids ?ax (seg {[]} ?Kx [])"
  note S = seg_new[OF K' assms(4) p]
  have x: "x \<in> seg {[]} ?Kx []" "x \<notin> {[]}" unfolding S(4) using assms(4) T(2) by auto
  have fx: "finite ?Kx" and sx: "{[]} \<subseteq> ?Kx" using K' T(2) by auto
  obtain r where r: "r \<in> seg {[]} ?Kx []" "[] < r" "r \<notin> {[]}" "?n < card (seg {[]} ?Kx [])" "?cs ! ?n = kid ?ax r"
    "node_split ?cs ?n = (kids ?ax (seg {r, []} ?Kx []), kids ?ax (seg {r, []} ?Kx r))"
    "\<forall>k. k \<noteq> [] \<longrightarrow> k \<noteq> r \<longrightarrow> seg {r, []} ?Kx k = seg {[]} ?Kx k" "{r, []} \<subseteq> ?Kx" "floor_key {[]} r = []"
    "unat m - unat m div 2 \<le> card (seg {r, []} ?Kx [])" "unat m - unat m div 2 \<le> card (seg {r, []} ?Kx r)"
    by (rule split_node[OF fx _ _ _ sx x many, of ?ax]) simp_all
  let ?left = "kids ?ax (seg {r, []} ?Kx [])" and ?right = "kids ?ax (seg {r, []} ?Kx r)"
  let ?s1 = "store_set (nodeKey (Suc l) r) ?right s"
  have lim: "Suc l < 65536" "Suc (Suc l) < 65536" "\<not> Suc l \<ge> 65535" and h: "h < 65535" using assms(1,2) by auto
  have top: "level_keys s (Suc (Suc l)) = {}" using tower_topE(2)[of c s h] T(1) h assms(1) by simp
  then have up: "?up = (Suc (Suc l), None)" by (rule parent_none)
  have ok: "store_ok s" using assms(3) by (simp add: tree_shape_def)
  have lv1: "lvl ?s1 j k = (if j = Suc l \<and> k = r then Some ?right else lvl s j k)" if "j < 65536" for j k
    using lvl_set[OF ok lim(1) that] .
  have top1: "level_keys ?s1 (Suc (Suc l)) = {}" using top lv1[OF lim(2)] by (simp add: level_keys_def)
  have unf: "push A m (Suc l) pk \<lparr>Index = x, Accumulation = v\<rparr> s =
      obind (accumulate A ?left) (\<lambda>leftacc. obind (accumulate A ?right) (\<lambda>rightacc.
        Ok (store_set (nodeKey (Suc l) []) ?left
             (store_set (nodeKey (Suc (Suc l)) []) [\<lparr>Index = [], Accumulation = leftacc\<rparr>, \<lparr>Index = r, Accumulation = rightacc\<rparr>] ?s1))))"
    using lim(3) many r(4,5)
    by (subst push.simps)
       (simp add: lk kb ptr_node_lvl L S(5,6) r(6) ptr_set_eq ptr_create_eq up top1 Let_def del: fun_upd_apply)
  have fin: "finite (seg {r, []} ?Kx k)" for k using K' by (simp add: seg_def)
  have mp: "mass (seg {r, []} ?Kx k) ?ax < 2 ^ bits" for k
    using mass_seg[of ?Kx "{r, []}" k ?ax] mass mass_insert[OF K' assms(4), of a v] fx by simp
  show ?thesis
    unfolding unf
  proof (rule yields_bind[OF accumulate_kids[OF fin mp]], rule yields_bind[OF accumulate_kids[OF fin mp]])
    fix leftacc rightacc
    assume acc: "leftacc = (\<Sum>y\<in>seg {r, []} ?Kx []. ?ax y)" "rightacc = (\<Sum>y\<in>seg {r, []} ?Kx r. ?ax y)"
    let ?b = "\<lambda>k. \<Sum>y\<in>seg {r, []} ?Kx k. ?ax y"
    let ?node = "[\<lparr>Index = [], Accumulation = leftacc\<rparr>, \<lparr>Index = r, Accumulation = rightacc\<rparr>]"
    let ?s2 = "store_set (nodeKey (Suc (Suc l)) []) ?node ?s1"
    have s1: "tree_shape ?s1" by (rule tree_shape_set[OF assms(3) lim(1)])
    have T1: "tower c ?s1 (Suc l) (Suc l) {[]} (\<lambda>k. \<Sum>x\<in>seg {[]} K k. a x)"
      using T(1) unfolding assms(1) by (rule tower_cong) (use lim lv1 in auto)
    have s2: "tree_shape ?s2 \<and> (\<forall>j k. j \<le> Suc l \<longrightarrow> lvl ?s2 j k = lvl ?s1 j k) \<and> tower c ?s2 (Suc h) (Suc l) {r, []} ?b"
      using new_root_tower[OF T1 _ s1 r(2), of ?node ?b] assms(1,2) acc by simp
    have "lvl ?s2 (Suc l) k = (if k \<in> {r, []} then Some (kids ?ax (seg {r, []} ?Kx k)) else None)" if "k \<noteq> []" for k
      using s2 lv1[OF lim(1), of k] L[of k] that by simp
    then have "tree_shape (store_set (nodeKey (Suc l) []) ?left ?s2) \<and>
        (\<forall>j k. j \<le> l \<longrightarrow> lvl (store_set (nodeKey (Suc l) []) ?left ?s2) j k = lvl ?s2 j k) \<and>
        tower c (store_set (nodeKey (Suc l) []) ?left ?s2) (Suc h) l ?Kx ?ax"
      using s2 K' r(8,10,11) assms(1,2) c by (intro tower_rebuild) auto
    moreover have "lvl ?s2 j k = lvl s j k" if "j \<le> l" for j k using s2 lv1[of j k] that lim(1) by simp
    ultimately show "yields (Ok (store_set (nodeKey (Suc l) []) ?left ?s2)) (rises c s h l ?Kx ?ax)"
      unfolding yields_Ok_iff rises_def by (metis (no_types, lifting))
  qed
qed
end

context sum_amounts
begin

lemma push_split_inner:
  assumes "Suc l < h" "h < 65534" "tree_shape s" "x \<notin> K"
    and K': "finite K" "K' \<subseteq> K" "[] \<in> K'" and fK': "finite K'"
    and lk: "level_keys s (Suc l) = K'"
    and L: "\<And>k. lvl s (Suc l) k = (if k \<in> K' then Some (kids a (seg K' K k)) else None)"
    and C: "\<forall>k \<in> K'. Suc l < h \<longrightarrow> c \<le> card (seg K' K k)"
    and T: "tower c s h (Suc l) K' (\<lambda>k. \<Sum>x\<in>seg K' K k. a x)"
    and p: "p = floor_key K' x" and kb: "key_bytes pk = p"
    and many: "card (seg K' (insert x K) p) > unat m" and c: "c \<le> unat m - unat m div 2"
    and mass: "(int (h - l) + 1) * mass K a + \<bar>v\<bar> < 2 ^ bits"
    and IH: "\<And>s b r v pk. tower c s h (Suc l) K' b \<Longrightarrow> tree_shape s \<Longrightarrow> r \<notin> K' \<Longrightarrow>
      key_bytes pk = floor_key (level_keys s (Suc (Suc l))) r \<Longrightarrow>
      (int (h - Suc l) + 1) * mass K' b + \<bar>v\<bar> < 2 ^ bits \<Longrightarrow> yields (push A m (Suc (Suc l)) pk \<lparr>Index = r, Accumulation = v\<rparr> s) (rises c s h (Suc l) (insert r K') (b(r := v)))"
  shows "yields (push A m (Suc l) pk \<lparr>Index = x, Accumulation = v\<rparr> s) (rises c s h l (insert x K) (a(x := v)))"
proof -
  let ?Kx = "insert x K" and ?ax = "a(x := v)" and ?up = "parent s (Suc l, pk)" and ?n = "unat (m div 2 + 1)"
  let ?cs = "kids ?ax (seg K' ?Kx p)" and ?base = "\<lambda>k. \<Sum>x\<in>seg K' K k. a x"
  have pK: "p \<in> K'" unfolding p by (rule floor_key_props(1)[OF fK' K'(3)])
  have lim: "Suc l < 65536" "Suc (Suc l) < 65536" "\<not> Suc l \<ge> 65535" and h: "h < 65535" "h < 65536" using assms(1,2) by auto
  note S = seg_new[OF K'(1) assms(4) p]
  have x: "x \<in> seg K' ?Kx p" "x \<notin> K'" unfolding S(4) using assms(4) K'(2) by auto
  have fx: "finite ?Kx" and sx: "K' \<subseteq> ?Kx" using K'(1,2) by auto
  obtain r where r: "r \<in> seg K' ?Kx p" "p < r" "r \<notin> K'" "?n < card (seg K' ?Kx p)" "?cs ! ?n = kid ?ax r"
    "node_split ?cs ?n = (kids ?ax (seg (insert r K') ?Kx p), kids ?ax (seg (insert r K') ?Kx r))"
    "\<forall>k. k \<noteq> p \<longrightarrow> k \<noteq> r \<longrightarrow> seg (insert r K') ?Kx k = seg K' ?Kx k" "insert r K' \<subseteq> ?Kx" "floor_key K' r = p"
    "unat m - unat m div 2 \<le> card (seg (insert r K') ?Kx p)" "unat m - unat m div 2 \<le> card (seg (insert r K') ?Kx r)"
    by (rule split_node[OF fx fK' K'(3) pK sx x many, of ?ax])
  let ?Q = "insert r K'"
  have r7: "seg ?Q ?Kx k = seg K' ?Kx k" if "k \<noteq> p" "k \<noteq> r" for k using r(7) that by blast
  let ?left = "kids ?ax (seg ?Q ?Kx p)" and ?right = "kids ?ax (seg ?Q ?Kx r)"
  let ?s1 = "store_set (nodeKey (Suc l) r) ?right s"
  have ok: "store_ok s" using assms(3) by (simp add: tree_shape_def)
  have lv1: "lvl ?s1 j k = (if j = Suc l \<and> k = r then Some ?right else lvl s j k)" if "j < 65536" for j k
    using lvl_set[OF ok lim(1) that] .
  have s1: "tree_shape ?s1" by (rule tree_shape_set[OF assms(3) lim(1)])
  have T1: "tower c ?s1 h (Suc l) K' ?base" using T h(2) by (rule tower_cong) (use lv1 in auto)
  obtain K'' where K'': "K'' \<subseteq> K'" "[] \<in> K''" "level_keys s (Suc (Suc l)) = K''"
    by (rule tower_stepE[OF T assms(1)]) blast
  have lk1: "level_keys ?s1 (Suc (Suc l)) = K''" using K''(3) lv1[OF lim(2)] by (simp add: level_keys_def)
  have up: "key_bytes (snd ?up) = floor_key K'' p" "fst ?up = Suc (Suc l)"
    using parent_in_tower[OF T h(1) assms(3), of pk] K'' kb by auto
  have "floor_key K'' p \<in> K''" by (rule floor_key_props(1)[OF finite_subset[OF K''(1) fK'] K''(2)])
  then have ex: "ptr_exists ?s1 (Some ?up)" using up lk1 by (cases ?up) simp
  have unf: "push A m (Suc l) pk \<lparr>Index = x, Accumulation = v\<rparr> s =
      obind (accumulate A ?right) (\<lambda>rightacc.
      obind (push A m (Suc (Suc l)) (snd ?up) \<lparr>Index = r, Accumulation = rightacc\<rparr> ?s1) (\<lambda>s2.
      obind (accumulate A ?left) (\<lambda>leftacc.
      obind (updateAccumulation A (Suc (Suc l)) (snd (parent s2 (Suc l, pk))) \<lparr>Index = p, Accumulation = leftacc\<rparr> s2) (\<lambda>s3.
        Ok (store_set (nodeKey (Suc l) p) ?left s3)))))"
    using pK lim(3) many r(4,5) ex
    by (subst push.simps)
       (simp add: lk kb ptr_node_lvl L S(5,6) r(6) ptr_set_eq ptr_create_eq Let_def del: fun_upd_apply ptr_exists_lvl
         split: prod.splits, simp add: lk kb)
  have fin: "finite (seg ?Q ?Kx k)" for k using K' by (simp add: seg_def)
  have pushup: "key_bytes (snd ?up) = floor_key (level_keys ?s1 (Suc (Suc l))) r"
    unfolding lk1 up(1) by (rule floor_key_between[OF fK' K''(1,2) r(9), symmetric])
  let ?b = "\<lambda>k. \<Sum>y\<in>seg ?Q ?Kx k. ?ax y"
  have sums: "?b = ?base(r := ?b r, p := ?b p)"
  proof
    fix k
    have "?b k = ?base k" if "k \<noteq> p" "k \<noteq> r"
      unfolding r7[OF that] using fun_cong[OF sum_seg_insert[OF K'(1) assms(4), where K' = K' and a = a and v = v], of k] that(1)
      unfolding p by simp
    then show "?b k = (?base(r := ?b r, p := ?b p)) k" by (cases "k = p"; cases "k = r") simp_all
  qed
  have "int (h - l) = int (h - Suc l) + 1" using assms(1) by simp
  then have m0: "(int (h - Suc l) + 1) * mass K a + mass K a + \<bar>v\<bar> < 2 ^ bits" using mass by (simp add: algebra_simps)
  moreover have "0 \<le> (int (h - Suc l) + 1) * mass K a" by simp
  ultimately have mx: "mass ?Kx ?ax < 2 ^ bits" using mass_insert[OF K'(1) assms(4), of a v] by linarith
  have mp: "mass (seg ?Q ?Kx k) ?ax < 2 ^ bits" for k using mass_seg[OF fx, of ?Q k ?ax] mx by simp
  have mb: "mass ?Q ?b < 2 ^ bits" using mass_sums[OF fx, of ?Q ?ax] fK' K'(3) mx by simp
  have "\<bar>?b r\<bar> \<le> mass K a + \<bar>v\<bar>"
    using abs_sum_mass[OF fx, of "seg ?Q ?Kx r" ?ax] mass_insert[OF K'(1) assms(4), of a v] by (auto simp: seg_def)
  moreover have "(int (h - Suc l) + 1) * mass K' ?base \<le> (int (h - Suc l) + 1) * mass K a"
    by (rule mult_left_mono[OF mass_sums[OF K'(1) fK' K'(3)]]) simp
  ultimately have mu: "(int (h - Suc l) + 1) * mass K' ?base + \<bar>?b r\<bar> < 2 ^ bits" using m0 by linarith
  show ?thesis
    unfolding unf
  proof (rule yields_bind[OF accumulate_kids[OF fin mp]])
    fix rightacc assume ra: "rightacc = ?b r"
    show "yields (obind (push A m (Suc (Suc l)) (snd ?up) \<lparr>Index = r, Accumulation = rightacc\<rparr> ?s1) (\<lambda>s2.
      obind (accumulate A ?left) (\<lambda>leftacc.
      obind (updateAccumulation A (Suc (Suc l)) (snd (parent s2 (Suc l, pk))) \<lparr>Index = p, Accumulation = leftacc\<rparr> s2) (\<lambda>s3.
        Ok (store_set (nodeKey (Suc l) p) ?left s3))))) (rises c s h l ?Kx ?ax)"
    proof (rule yields_bind[OF IH[OF T1 s1 r(3) pushup mu[folded ra]]])
      fix s2 assume "rises c ?s1 h (Suc l) ?Q (?base(r := rightacc)) s2"
      then obtain h' where s2: "tree_shape s2" "\<And>j k. j \<le> Suc l \<Longrightarrow> lvl s2 j k = lvl ?s1 j k"
        "h' = h \<or> h' = Suc h" "tower c s2 h' (Suc l) ?Q (?base(r := rightacc))" unfolding rises_def by blast
      have h': "h' < 65535" "l < h'" using s2(3) assms(1,2) by auto
      have up2: "key_bytes (snd (parent s2 (Suc l, pk))) = floor_key (level_keys s2 (Suc (Suc l))) p"
        if "level_keys s2 (Suc (Suc l)) \<noteq> {}"
        using parent_in_tower[OF s2(4) h'(1) s2(1) that, of pk] kb by simp
      have pQ: "p \<in> ?Q" using pK by simp
      show "yields (obind (accumulate A ?left) (\<lambda>leftacc.
        obind (updateAccumulation A (Suc (Suc l)) (snd (parent s2 (Suc l, pk))) \<lparr>Index = p, Accumulation = leftacc\<rparr> s2) (\<lambda>s3.
          Ok (store_set (nodeKey (Suc l) p) ?left s3)))) (rises c s h l ?Kx ?ax)"
      proof (rule yields_bind[OF accumulate_kids[OF fin mp]])
        fix leftacc assume la: "leftacc = ?b p"
        show "yields (obind (updateAccumulation A (Suc (Suc l)) (snd (parent s2 (Suc l, pk))) \<lparr>Index = p, Accumulation = leftacc\<rparr> s2)
          (\<lambda>s3. Ok (store_set (nodeKey (Suc l) p) ?left s3))) (rises c s h l ?Kx ?ax)"
      proof (rule yields_bind[OF updateAccumulation_tower[OF s2(4) h'(1) s2(1) pQ up2 mb[unfolded sums, folded ra la]]])
        fix s3
        assume s3: "tree_shape s3 \<and> (\<forall>j k. j \<le> Suc l \<longrightarrow> lvl s3 j k = lvl s2 j k) \<and>
          tower c s3 h' (Suc l) ?Q (?base(r := rightacc, p := leftacc))"
        have "?base(r := rightacc, p := leftacc) = ?b" unfolding ra la by (rule sums[symmetric])
        then have T3: "tower c s3 h' (Suc l) ?Q ?b" using s3 by simp
        have L3: "lvl s3 (Suc l) k = (if k \<in> ?Q then Some (kids ?ax (seg ?Q ?Kx k)) else None)" if "k \<noteq> p" for k
        proof (cases "k = r")
          case True
          then show ?thesis using s3 s2(2)[of "Suc l" k] lv1[OF lim(1), of k] by simp
        next
          case False
          then show ?thesis using s3 s2(2)[of "Suc l" k] lv1[OF lim(1), of k] L[of k] S(7)[OF that, of a v] r7[OF that False] by simp
        qed
        have "c \<le> card (seg ?Q ?Kx k)" if "k \<in> ?Q" for k
        proof (cases "k = p \<or> k = r")
          case True
          then show ?thesis using r(10,11) c by auto
        next
          case False
          then have "c \<le> card (seg K' K k)" "seg ?Q ?Kx k = seg K' ?Kx k" using C that assms(1) r7 by auto
          then show ?thesis using card_mono[OF seg_finite[OF fx] seg_subset_insert[of K' K k x]] by simp
        qed
        then have C': "\<forall>k \<in> ?Q. Suc l < h' \<longrightarrow> c \<le> card (seg ?Q ?Kx k)" by blast
        have s3': "tree_shape s3" and nQ: "[] \<in> ?Q" using s3 K'(3) by blast+
        have "tree_shape (store_set (nodeKey (Suc l) p) ?left s3) \<and>
          (\<forall>j k. j \<le> l \<longrightarrow> lvl (store_set (nodeKey (Suc l) p) ?left s3) j k = lvl s3 j k) \<and>
          tower c (store_set (nodeKey (Suc l) p) ?left s3) h' l ?Kx ?ax"
          by (rule tower_rebuild[OF T3 h' s3' fx r(8) nQ pQ L3 C'])
        moreover have "lvl s3 j k = lvl s j k" if "j \<le> l" for j k using s3 s2(2)[of j k] lv1[of j k] that lim(1) by simp
        ultimately show "yields (Ok (store_set (nodeKey (Suc l) p) ?left s3)) (rises c s h l ?Kx ?ax)"
          using s2(3) unfolding yields_Ok_iff rises_def by (intro conjI exI[of _ h']) simp_all
      qed
      qed
    qed
  qed
qed

lemma push_tower:
  assumes "tower c s h l K a" "l < h" "h < 65534" "tree_shape s" "x \<notin> K"
    and "key_bytes pk = floor_key (level_keys s (Suc l)) x"
    and "(int (h - l) + 1) * mass K a + \<bar>v\<bar> < 2 ^ bits" and c: "c \<le> unat m - unat m div 2"
  shows "yields (push A m (Suc l) pk \<lparr>Index = x, Accumulation = v\<rparr> s) (rises c s h l (insert x K) (a(x := v)))"
  using assms(1-7)
proof (induction "h - l" arbitrary: s l K a x v pk)
  case (Suc n)
  from Suc.prems(1,2) obtain K' where K': "finite K" "K' \<subseteq> K" "[] \<in> K'" "finite K'" "level_keys s (Suc l) = K'"
    and L: "\<And>k. lvl s (Suc l) k = (if k \<in> K' then Some (kids a (seg K' K k)) else None)"
    and C: "\<forall>k \<in> K'. Suc l < h \<longrightarrow> c \<le> card (seg K' K k)"
    and T: "tower c s h (Suc l) K' (\<lambda>k. \<Sum>x\<in>seg K' K k. a x)"
    by (rule tower_stepE) blast
  have kb: "key_bytes pk = floor_key K' x" using Suc.prems(6) K'(5) by simp
  consider (few) "card (seg K' (insert x K) (floor_key K' x)) \<le> unat m"
    | (root) "card (seg K' (insert x K) (floor_key K' x)) > unat m" "h = Suc l"
    | (inner) "card (seg K' (insert x K) (floor_key K' x)) > unat m" "Suc l < h" using Suc.prems(2) by linarith
  moreover have mass: "mass K a + \<bar>v\<bar> < 2 ^ bits"
    using Suc.prems(7) mass_le_times[of K a "h - l"] by linarith
  ultimately show ?case
  proof cases
    case few
    then show ?thesis by (intro push_no_split[OF Suc.prems(1-5) K' L C T refl kb _ mass])
  next
    case root
    have K0: "K' = {[]}" using tower_topE(1)[of c s h] T root(2) Suc.prems(3) by simp
    show ?thesis
      using push_split_root[OF root(2) Suc.prems(3-5) K'(1) K'(5)[unfolded K0] L[unfolded K0] T[unfolded K0] _ _ _ root(1)[unfolded K0 floor_key_root] c mass]
        K'(2,3) kb K0 by auto
  next
    case inner
    have n: "n = h - Suc l" using Suc(2) by simp
    show ?thesis
      by (rule push_split_inner[OF inner(2) Suc.prems(3-5) K' L C T refl kb inner(1) c Suc.prems(7)])
         (rule Suc(1)[OF n _ inner(2) Suc.prems(3)])
  qed
qed simp

end

end
