(* ===== verification/Sumtree_Queries.thy ===== *)
theory Sumtree_Queries
  imports Sumtree_Tower
begin

text \<open>
  The operations and queries of the tree over the representation: \<^verbatim>\<open>Set\<close> and \<^verbatim>\<open>Increase\<close> change one value, \<^verbatim>\<open>Get\<close>
  reads it, \<^verbatim>\<open>SplitAcc\<close> returns the sums of the values below, at and above a key.
\<close>

section \<open>Queries\<close>

text \<open>What a query promises: the sums of the values below, at and above a key.\<close>

definition split_sums :: "string set \<Rightarrow> (string \<Rightarrow> int) \<Rightarrow> string \<Rightarrow> int \<times> int \<times> int" where
  "split_sums U a key =
     (\<Sum>y | y \<in> U \<and> y < key. a y, if key \<in> U then a key else 0, \<Sum>y | y \<in> U \<and> key < y. a y)"

text \<open>The leaves of the set \<open>U\<close> that belong under a key of a level.\<close>

definition under :: "string set \<Rightarrow> string set \<Rightarrow> string set \<Rightarrow> string set" where
  "under U K C = {y \<in> U. floor_key K y \<in> C}"

lemma sum_under:
  assumes "finite U" "finite C"
  shows "(\<Sum>c\<in>C. \<Sum>y\<in>under U K {c}. a y) = (\<Sum>y\<in>under U K C. a y)"
proof -
  have "(\<Sum>y\<in>under U K C. a y) = (\<Sum>c\<in>C. \<Sum>y | y \<in> under U K C \<and> floor_key K y = c. a y)"
    using assms by (intro sum.group[symmetric]) (auto simp: under_def)
  also have "\<dots> = (\<Sum>c\<in>C. \<Sum>y\<in>under U K {c}. a y)"
    by (intro sum.cong) (auto simp: under_def)
  finally show ?thesis by simp
qed

lemma under_seg:
  assumes "finite K" "[] \<in> K'" "K' \<subseteq> K"
  shows "under U K (seg K' K k) = under U K' {k}"
proof -
  have "[] \<in> K" using assms by auto
  then show ?thesis
    using floor_key_floor_key[OF assms] floor_key_props(1)[OF assms(1)] by (auto simp: under_def seg_def)
qed

text \<open>The child on the path to the key, and how the sums of the node split at it.\<close>

lemma path_child:
  fixes S :: "string set"
  assumes "finite S" "k \<in> S" "k \<le> key"
  obtains d where "d \<in> S" "d \<le> key" "\<And>y. y \<in> S \<Longrightarrow> y \<le> key \<Longrightarrow> y \<le> d"
    "(if key \<in> S then card {y \<in> S. y < key} else card {y \<in> S. y < key} - 1) = card {y \<in> S. y < d}"
    "key \<notin> S \<Longrightarrow> card {y \<in> S. y < key} \<noteq> 0"
proof -
  let ?d = "Max {y \<in> S. y \<le> key}"
  have f: "finite {y \<in> S. y \<le> key}" "{y \<in> S. y \<le> key} \<noteq> {}" using assms by auto
  have d: "?d \<in> S" "?d \<le> key" using Max_in[OF f] by auto
  have m: "y \<le> ?d" if "y \<in> S" "y \<le> key" for y using that f(1) by simp
  have c: "card {y \<in> S. y < key} = Suc (card {y \<in> S. y < ?d})" if "key \<notin> S"
  proof -
    have "{y \<in> S. y < key} = insert ?d {y \<in> S. y < ?d}"
      using that d m by (auto simp: order_le_less)
    then show ?thesis using assms(1) by simp
  qed
  have e: "?d = key" if "key \<in> S" using m[OF that] d(2) by simp
  show ?thesis by (rule that[OF d m]) (use c e in auto)
qed

lemma split_sums_node:
  assumes U: "finite U" and K: "finite K" "[] \<in> K" "S \<subseteq> K" and d: "d \<in> S" "d \<le> key" "\<And>y. y \<in> S \<Longrightarrow> y \<le> key \<Longrightarrow> y \<le> d"
  shows "split_sums (under U K S) a key =
    (case split_sums (under U K {d}) a key of (left, exact, right) \<Rightarrow>
       (left + (\<Sum>y\<in>under U K {c \<in> S. c < d}. a y), exact, right + (\<Sum>y\<in>under U K {c \<in> S. d < c}. a y)))"
proof -
  note P = floor_key_props[OF K(1,2)]
  have dK: "d \<in> K" using d(1) K(3) by blast
  have lo: "y < d" if "floor_key K y < d" for y using P(3)[OF dK, of y] that by (meson not_le)
  have hi: "key < y" if "floor_key K y \<in> S" "d < floor_key K y" for y
    using d(3)[OF that(1)] that(2) P(2)[of y] by (meson not_le order_less_le_trans)
  have L: "{y. y \<in> under U K S \<and> y < key} = {y. y \<in> under U K {d} \<and> y < key} \<union> under U K {c \<in> S. c < d}"
  proof (intro set_eqI iffI)
    fix y assume y: "y \<in> {y. y \<in> under U K S \<and> y < key}"
    then have "\<not> d < floor_key K y" using hi[of y] by (auto simp: under_def)
    then show "y \<in> {y. y \<in> under U K {d} \<and> y < key} \<union> under U K {c \<in> S. c < d}" using y by (auto simp: under_def)
  next
    fix y assume "y \<in> {y. y \<in> under U K {d} \<and> y < key} \<union> under U K {c \<in> S. c < d}"
    then show "y \<in> {y. y \<in> under U K S \<and> y < key}" using d(1,2) lo[of y] by (auto simp: under_def)
  qed
  have R: "{y. y \<in> under U K S \<and> key < y} = {y. y \<in> under U K {d} \<and> key < y} \<union> under U K {c \<in> S. d < c}"
  proof (intro set_eqI iffI)
    fix y assume y: "y \<in> {y. y \<in> under U K S \<and> key < y}"
    then have "\<not> floor_key K y < d" using lo[of y] d(2) by auto
    then show "y \<in> {y. y \<in> under U K {d} \<and> key < y} \<union> under U K {c \<in> S. d < c}" using y by (auto simp: under_def)
  next
    fix y assume "y \<in> {y. y \<in> under U K {d} \<and> key < y} \<union> under U K {c \<in> S. d < c}"
    then show "y \<in> {y. y \<in> under U K S \<and> key < y}" using d(1) hi[of y] by (auto simp: under_def)
  qed
  have E: "key \<in> under U K S \<longleftrightarrow> key \<in> under U K {d}"
    using d(1) d(3)[of "floor_key K key"] P(2)[of key] P(3)[OF dK d(2)] by (auto simp: under_def)
  have "(\<Sum>y | y \<in> under U K S \<and> y < key. a y) = (\<Sum>y | y \<in> under U K {d} \<and> y < key. a y) + (\<Sum>y\<in>under U K {c \<in> S. c < d}. a y)"
    unfolding L using U by (intro sum.union_disjoint) (auto simp: under_def)
  moreover have "(\<Sum>y | y \<in> under U K S \<and> key < y. a y) = (\<Sum>y | y \<in> under U K {d} \<and> key < y. a y) + (\<Sum>y\<in>under U K {c \<in> S. d < c}. a y)"
    unfolding R using U by (intro sum.union_disjoint) (auto simp: under_def)
  ultimately show ?thesis using E by (simp add: split_sums_def)
qed

context sum_amounts
begin

lemma accumulationSplit_node:
  assumes "finite K" "[] \<in> K" "S \<subseteq> K" "k \<in> S" "k \<le> key" "finite U" "lvl s (Suc l) k = Some (kids b S)"
    and IH: "\<And>d. d \<in> S \<Longrightarrow> d \<le> key \<Longrightarrow> yields (accumulationSplit A s l d key) (\<lambda>r. r = split_sums (under U K {d}) a key)"
    and b: "\<And>c. c \<in> S \<Longrightarrow> b c = (\<Sum>y\<in>under U K {c}. a y)"
    and mass: "mass U a < 2 ^ bits"
  shows "yields (accumulationSplit A s (Suc l) k key) (\<lambda>r. r = split_sums (under U K S) a key)"
proof -
  have S: "finite S" using assms(1,3) finite_subset by blast
  obtain d where d: "d \<in> S" "d \<le> key" "\<forall>y. y \<in> S \<longrightarrow> y \<le> key \<longrightarrow> y \<le> d"
    "(if key \<in> S then card {y \<in> S. y < key} else card {y \<in> S. y < key} - 1) = card {y \<in> S. y < d}"
    "key \<in> S \<or> card {y \<in> S. y < key} \<noteq> 0"
    by (rule path_child[OF S assms(4,5)]) blast
  let ?lo = "{c \<in> S. c < d}" and ?hi = "{c \<in> S. d < c}"
  have node: "ptr_node s (Suc l, Some k) = kids b S" by (simp add: ptr_node_lvl assms(7))
  have lt: "card ?lo < card S" by (rule kids_at(2)[OF S d(1)])
  have unf: "accumulationSplit A s (Suc l) k key =
      obind (accumulationSplit A s l d key) (\<lambda>(left, exact, right).
        obind (obind (accumulate A (kids b ?lo)) (amt_Add A left)) (\<lambda>left'.
        obind (obind (accumulate A (kids b ?hi)) (amt_Add A right)) (\<lambda>right'.
          Ok (left', exact, right'))))"
    using d(5) lt
    by (simp add: node find_kids[OF S] d(4) Let_def kids_nth[OF S d(1)] take_kids(1)[OF S]) auto
  have sums: "(\<Sum>c\<in>C. b c) = (\<Sum>y\<in>under U K C. a y)" if "C \<subseteq> S" for C
  proof -
    have "(\<Sum>c\<in>C. b c) = (\<Sum>c\<in>C. \<Sum>y\<in>under U K {c}. a y)" using that b by (intro sum.cong) auto
    then show ?thesis using sum_under[OF assms(6) finite_subset[OF that S]] by simp
  qed
  have un: "under U K C \<subseteq> U" for C by (auto simp: under_def)
  have small: "mass C b < 2 ^ bits" if "C \<subseteq> S" for C
  proof -
    have "mass C b \<le> (\<Sum>c\<in>C. \<Sum>y\<in>under U K {c}. \<bar>a y\<bar>)"
      unfolding mass_def using that b by (intro sum_mono) (auto intro: sum_abs)
    also have "\<dots> = mass (under U K C) a"
      unfolding mass_def by (rule sum_under[OF assms(6) finite_subset[OF that S]])
    also have "\<dots> \<le> mass U a" by (rule mass_subset[OF assms(6) un])
    finally show ?thesis using mass by simp
  qed
  have acc: "yields (obind (accumulate A (kids b C)) (amt_Add A z)) (\<lambda>t. t = z + (\<Sum>y\<in>under U K C. a y))"
    if C: "C \<subseteq> S" and z: "z = (\<Sum>y\<in>Z. a y)" "Z \<subseteq> U" "Z \<inter> under U K C = {}" for C z Z
  proof (rule yields_bind[OF accumulate_kids[OF finite_subset[OF C S] small[OF C]]])
    fix t assume t: "t = (\<Sum>c\<in>C. b c)"
    have "finite Z" "finite (under U K C)" using z(2) un assms(6) finite_subset by blast+
    then have "z + t = (\<Sum>y\<in>Z \<union> under U K C. a y)" unfolding t sums[OF C] z(1) using z(3) by (simp add: sum.union_disjoint)
    then have "\<bar>z + t\<bar> \<le> mass U a" using abs_sum_mass[OF assms(6), of "Z \<union> under U K C" a] z(2) un by simp
    then show "yields (amt_Add A z t) (\<lambda>t. t = z + (\<Sum>y\<in>under U K C. a y))"
      using add_exact[of z t] mass sums[OF C] t by simp
  qed
  have sub: "?lo \<subseteq> S" "?hi \<subseteq> S" by auto
  show ?thesis
    unfolding unf
  proof (rule yields_bind[OF IH[OF d(1,2)]])
    fix r assume r: "r = split_sums (under U K {d}) a key"
    obtain left exact right where lr: "r = (left, exact, right)" by (cases r)
    have spec: "split_sums (under U K S) a key =
        (left + (\<Sum>y\<in>under U K ?lo. a y), exact, right + (\<Sum>y\<in>under U K ?hi. a y))"
      using split_sums_node[OF assms(6,1-3) d(1,2), of a] d(3) unfolding r[symmetric] lr by simp
    have z: "left = (\<Sum>y | y \<in> under U K {d} \<and> y < key. a y)" "right = (\<Sum>y | y \<in> under U K {d} \<and> key < y. a y)"
      using r lr by (simp_all add: split_sums_def)
    have "yields (obind (obind (accumulate A (kids b ?lo)) (amt_Add A left)) (\<lambda>left'.
        obind (obind (accumulate A (kids b ?hi)) (amt_Add A right)) (\<lambda>right'. Ok (left', exact, right'))))
      (\<lambda>r. r = split_sums (under U K S) a key)"
      unfolding spec
      by (rule yields_bind[OF acc[OF sub(1) z(1)]], use un in \<open>auto simp: under_def\<close>)
         (rule yields_bind[OF acc[OF sub(2) z(2)]], use un in \<open>auto simp: under_def\<close>)
    then show "yields (case r of (left, exact, right) \<Rightarrow> obind (obind (accumulate A (kids b ?lo)) (amt_Add A left)) (\<lambda>left'.
        obind (obind (accumulate A (kids b ?hi)) (amt_Add A right)) (\<lambda>right'. Ok (left', exact, right'))))
      (\<lambda>r. r = split_sums (under U K S) a key)" by (simp add: lr)
  qed
qed

lemma accumulationSplit_tower:
  assumes "tower c s h l K b" "finite U"
    and "\<And>k key. k \<in> K \<Longrightarrow> k \<le> key \<Longrightarrow> yields (accumulationSplit A s l k key) (\<lambda>r. r = split_sums (under U K {k}) a key)"
    and "\<And>k. k \<in> K \<Longrightarrow> b k = (\<Sum>y\<in>under U K {k}. a y)"
    and mass: "mass U a < 2 ^ bits"
  shows "yields (accumulationSplit A s h [] key) (\<lambda>r. r = split_sums U a key)"
  using assms(1,3,4)
proof (induction rule: tower.induct)
  case (top b)
  have "under U {[]} {[]} = U" by (auto simp: under_def)
  then show ?case using top.prems(1)[of "[]" key] by simp
next
  case (step K K' l b)
  have K: "finite K" "[] \<in> K" and K': "finite K'" using step.hyps finite_subset by auto
  have us: "under U K (seg K' K k) = under U K' {k}" for k by (rule under_seg[OF step.hyps(1,3,2)])
  have "yields (accumulationSplit A s (Suc l) k key) (\<lambda>r. r = split_sums (under U K' {k}) a key)" if k: "k \<in> K'" "k \<le> key" for k key
  proof -
    have S: "seg K' K k \<subseteq> K" "k \<in> seg K' K k" using floor_key_mem_seg[OF K' step.hyps(2) k(1)] by (auto simp: seg_def)
    have lv: "lvl s (Suc l) k = Some (kids b (seg K' K k))" using step.hyps(5) k(1) by simp
    show ?thesis
      unfolding us[symmetric]
    proof (rule accumulationSplit_node[OF K S k(2) assms(2) lv])
      fix d assume "d \<in> seg K' K k" "d \<le> key"
      then show "yields (accumulationSplit A s l d key) (\<lambda>r. r = split_sums (under U K {d}) a key)"
        using S(1) by (intro step.prems(1)) auto
    next
      fix c assume "c \<in> seg K' K k"
      then show "b c = (\<Sum>y\<in>under U K {c}. a y)" using S(1) by (intro step.prems(2)) auto
    qed (rule mass)
  qed
  moreover have "(\<Sum>x\<in>seg K' K k. b x) = (\<Sum>y\<in>under U K' {k}. a y)" if "k \<in> K'" for k
  proof -
    have "(\<Sum>x\<in>seg K' K k. b x) = (\<Sum>x\<in>seg K' K k. \<Sum>y\<in>under U K {x}. a y)"
      using step.prems(2) by (intro sum.cong) (auto simp: seg_def)
    also have "\<dots> = (\<Sum>y\<in>under U K (seg K' K k). a y)" by (rule sum_under[OF assms(2) seg_finite[OF K(1)]])
    finally show ?thesis unfolding us .
  qed
  ultimately show ?case by (rule step.IH)
qed

end

text \<open>
  A store represents the values \<open>a\<close> at the keys \<open>K\<close>: its leaves hold them and a tower of height \<open>h\<close>
  stands over them.
\<close>

definition tree_rep :: "nat \<Rightarrow> tree_store \<Rightarrow> nat \<Rightarrow> string set \<Rightarrow> (string \<Rightarrow> int) \<Rightarrow> bool" where
  "tree_rep c s h K a \<longleftrightarrow> tree_shape s \<and> 0 < h \<and> tower c s h 0 K a \<and>
     (\<forall>k. lvl s 0 k = (if k \<in> K then Some [kid a k] else None)) \<and> (\<forall>k. k \<notin> K \<longrightarrow> a k = 0)"

lemma tower_levels:
  assumes "tower c s h l K a" "l < j" "j < 65536" "lvl s j k \<noteq> None"
  shows "j \<le> h \<and> (j = h \<longrightarrow> k = [])"
  using assms
proof (induction rule: tower.induct)
  case (top a)
  then show ?case by auto
next
  case (step K K' l a)
  show ?case
  proof (cases "j = Suc l")
    case True
    then have k: "k \<in> K'" using step.prems step.hyps(5) by (auto split: if_splits)
    have "K' = {[]}" if "Suc l = h" using step.hyps(7) that by (auto elim: towerE)
    then show ?thesis using True step.hyps(4) k by auto
  next
    case False
    then show ?thesis using step by auto
  qed
qed

lemma tower_root:
  assumes "tower c s h l K a" "l < h"
  shows "lvl s h [] \<noteq> None"
  using assms
proof (induction rule: tower.induct)
  case (step K K' l a)
  then show ?case by (cases "Suc l = h") auto
qed simp

text \<open>The height is logarithmic in the number of keys.\<close>

lemma tower_capacity:
  assumes "tower c s h l K a" "l < h"
  shows "c ^ (h - Suc l) \<le> card K"
  using assms
proof (induction rule: tower.induct)
  case (step K K' l a)
  show ?case
  proof (cases "Suc l = h")
    case True
    have "K \<noteq> {}" using step.hyps(2,3) by blast
    then have "0 < card K" using step.hyps(1) by (simp add: card_gt_0_iff)
    then show ?thesis using True by simp
  next
    case False
    then have lt: "Suc l < h" using step.hyps(4) by simp
    have fK': "finite K'" using step.hyps(1,2) finite_subset by blast
    have "h - Suc l = Suc (h - Suc (Suc l))" using lt by simp
    then have "c ^ (h - Suc l) = c ^ (h - Suc (Suc l)) * c" by simp
    also have "\<dots> \<le> card K' * c" using step.IH[OF lt] by (rule mult_right_mono) simp
    also have "\<dots> \<le> (\<Sum>k\<in>K'. card (seg K' K k))" using step.hyps(6) lt sum_bounded_below[of K' c "\<lambda>k. card (seg K' K k)"] by simp
    also have "\<dots> = card K"
    proof -
      have "(\<Sum>k\<in>K'. \<Sum>x | x \<in> K \<and> floor_key K' x = k. 1) = (\<Sum>x\<in>K. 1::nat)"
        using step.hyps(1,3) fK' floor_key_props(1)[OF fK' step.hyps(3)] by (intro sum.group) auto
      then show ?thesis by (simp add: seg_def)
    qed
    finally show ?thesis .
  qed
qed simp

lemma height_bound:
  assumes "tree_rep c s h K a" "2 \<le> c" "card K < 2 ^ n"
  shows "h \<le> n"
proof -
  have "tower c s h 0 K a" "0 < h" using assms(1) by (auto simp: tree_rep_def)
  then have "c ^ (h - Suc 0) \<le> card K" by (rule tower_capacity)
  then have "(2 :: nat) ^ (h - 1) < 2 ^ n"
    using assms(3) power_mono[OF assms(2), of "h - 1"] by (simp add: order_le_less_trans)
  then show ?thesis by simp
qed

lemma root_rep:
  assumes "tree_rep c s h K a" "h < 65536"
  shows "root s = Some (h, Some [])"
proof -
  have shape: "store_ok s" "\<And>x. x \<in> fst ` set s \<Longrightarrow> \<exists>j k. j < 65536 \<and> x = nodeKey j k"
    and T: "tower c s h 0 K a" "0 < h" using assms(1) by (auto simp: tree_rep_def tree_shape_def)
  let ?ks = "map fst (store_prefix s nodeKeyPrefix)"
  have ks: "?ks = map fst s"
    using shape(2) unfolding store_prefix_def by (intro arg_cong[of _ _ "map fst"] filter_True) (force simp: nodeKey_def prefix_def)
  have "lvl s h [] \<noteq> None" by (rule tower_root[OF T])
  then have mem: "nodeKey h [] \<in> set (map fst s)" by (simp add: lvl_def store_get_def map_of_eq_None_iff)
  have max: "x \<le> nodeKey h []" if x: "x \<in> set (map fst s)" for x
  proof -
    from x have "x \<in> fst ` set s" by simp
    from shape(2)[OF this] obtain j k where jk: "j < 65536" "x = nodeKey j k" by blast
    then have "lvl s j k \<noteq> None" using x by (simp add: lvl_def store_get_def map_of_eq_None_iff)
    then have "j = 0 \<or> j \<le> h \<and> (j = h \<longrightarrow> k = [])" using tower_levels[OF T(1) _ jk(1)] by blast
    then show ?thesis using jk T(2) nodeKey_level_less[of j h k "[]"] assms(2) by (cases "j = h") auto
  qed
  have ne: "map fst s \<noteq> []" using mem by auto
  have srt: "sorted (map fst s)" using shape(1) by (simp add: store_ok_def strict_sorted_iff)
  have "last (map fst s) = nodeKey h []"
  proof (rule antisym)
    show "last (map fst s) \<le> nodeKey h []" by (rule max[OF last_in_set[OF ne]])
    obtain i where "i < length (map fst s)" "map fst s ! i = nodeKey h []" using mem by (metis in_set_conv_nth)
    then show "nodeKey h [] \<le> last (map fst s)"
      using sorted_nth_mono[OF srt, of i "length (map fst s) - 1"] ne by (simp add: last_conv_nth)
  qed
  then obtain ys where "rev ?ks = nodeKey h [] # ys" unfolding ks using ne by (metis append_butlast_last_id rev_eq_Cons_iff rev_rev_ident)
  moreover have "of_char (char_of (h div 256) :: char) * 256 + of_char (char_of (h mod 256) :: char) = h"
    using assms(2) by (simp add: div_mult_mod_eq)
  ultimately show ?thesis by (simp add: root_def nodeKey_def nodeKeyPrefix_def Let_def)
qed

lemma tree_Get_rep: "tree_rep c s h K a \<Longrightarrow> tree_Get s k = Ok (a k)"
  by (auto simp: tree_rep_def tree_Get_def leafKey_def lvl_def kid_def)

context sum_amounts
begin

lemma tree_Set_rep:
  assumes "tree_rep c s h K a" "h < 65534" "k = key_bytes key"
    and mass: "(int h + 1) * mass K a + \<bar>v\<bar> < 2 ^ bits" and c: "c \<le> unat m - unat m div 2"
  shows "yields (tree_Set A m key v s) (\<lambda>s'. \<exists>h'. (h' = h \<or> h' = Suc h) \<and> tree_rep c s' h' (insert k K) (a(k := v)))"
proof -
  have R: "tree_shape s" "0 < h" "tower c s h 0 K a" "\<And>k. lvl s 0 k = (if k \<in> K then Some [kid a k] else None)"
    "\<And>k. k \<notin> K \<Longrightarrow> a k = 0" using assms(1) by (auto simp: tree_rep_def)
  have ok: "store_ok s" and h: "h < 65535" "h < 65536" using R(1) assms(2) by (auto simp: tree_shape_def)
  let ?s1 = "store_set (nodeKey 0 k) [\<lparr>Index = k, Accumulation = v\<rparr>] s" and ?c = "\<lparr>Index = k, Accumulation = v\<rparr>"
  have lv: "lvl ?s1 j x = (if j = 0 \<and> x = k then Some [?c] else lvl s j x)" if "j < 65536" for j x
    using lvl_set[OF ok _ that, of 0] by simp
  have s1: "tree_shape ?s1" by (rule tree_shape_set[OF R(1)]) simp
  have T1: "tower c ?s1 h 0 K a" using R(3) h(2) by (rule tower_cong) (use lv in auto)
  have leaves: "lvl ?s1 0 x = (if x \<in> insert k K then Some [kid (a(k := v)) x] else None)" for x
    using lv[of 0 x] R(4)[of x] by (simp add: kid_def)
  let ?up = "snd (parent ?s1 (0, key))"
  obtain K' where K': "K' \<subseteq> K" "[] \<in> K'" "finite K'" "finite K" "level_keys ?s1 (Suc 0) = K'"
    "\<forall>k. lvl ?s1 (Suc 0) k = (if k \<in> K' then Some (kids a (seg K' K k)) else None)"
    by (rule tower_stepE[OF T1 R(2)]) blast
  have up: "key_bytes ?up = floor_key (level_keys ?s1 (Suc 0)) k"
    using parent_in_tower[OF T1 h(1) s1, of key] K'(2,5) assms(3) by auto
  have unf: "tree_Set A m key v s = push A m (Suc 0) ?up ?c ?s1"
    by (simp add: tree_Set_def NewLeaf_def setLeaf_def isLeaf_def leafKey_def assms(3) Let_def)
  have fin: "tree_rep c s' h' (insert k K) (a(k := v))"
    if "tree_shape s'" "\<forall>j x. j \<le> 0 \<longrightarrow> lvl s' j x = lvl ?s1 j x" "tower c s' h' 0 (insert k K) (a(k := v))" "0 < h'" for s' h'
    using that leaves R(5) by (simp add: tree_rep_def)
  show ?thesis
  proof (cases "k \<in> K")
    case True
    have m1: "mass K (a(k := v)) < 2 ^ bits"
      using mass mass_update[OF K'(4), of k a v] mass_le_times[of K a h] unfolding insert_absorb[OF True] by linarith
    let ?p = "floor_key K' k"
    have p: "?p \<in> K'" by (rule floor_key_props(1)[OF K'(3,2)])
    have mem: "finite (seg K' K ?p)" "k \<in> seg K' K ?p" using K'(4) True by (auto simp: seg_def)
    have "push A m (Suc 0) ?up ?c ?s1 = updateAccumulation A (Suc 0) ?up ?c ?s1"
      using p up mem K'(5,6)
      by (subst push.simps) (simp add: ptr_node_lvl find_kids Let_def)
    moreover have "yields (updateAccumulation A (Suc 0) ?up ?c ?s1)
      (\<lambda>s'. tree_shape s' \<and> (\<forall>j k. j \<le> 0 \<longrightarrow> lvl s' j k = lvl ?s1 j k) \<and> tower c s' h 0 K (a(k := v)))"
      by (rule updateAccumulation_tower[OF T1 h(1) s1 True up m1])
    ultimately show ?thesis
      unfolding unf using fin[of _ h] R(2) insert_absorb[OF True] by (auto elim!: yields_mono simp del: fun_upd_apply)
  next
    case False
    have mass0: "(int (h - 0) + 1) * mass K a + \<bar>v\<bar> < 2 ^ bits" using mass by simp
    show ?thesis
      unfolding unf
    proof (rule yields_mono[OF push_tower[OF T1 R(2) assms(2) s1 False up mass0 c]])
      fix s' assume "rises c ?s1 h 0 (insert k K) (a(k := v)) s'"
      then obtain h' where "tree_shape s'" "\<forall>j x. j \<le> 0 \<longrightarrow> lvl s' j x = lvl ?s1 j x" "h' = h \<or> h' = Suc h"
        "tower c s' h' 0 (insert k K) (a(k := v))" unfolding rises_def by blast
      then show "\<exists>h'. (h' = h \<or> h' = Suc h) \<and> tree_rep c s' h' (insert k K) (a(k := v))"
        using fin[of s' h'] R(2) by auto
    qed
  qed
qed

lemma tree_Increase_rep:
  assumes "tree_rep c s h K a" "h < 65534" "(int h + 2) * mass K a + \<bar>amt\<bar> < 2 ^ bits" "c \<le> unat m - unat m div 2"
  shows "yields (tree_Increase A m key amt s) (\<lambda>s'. \<exists>h'. (h' = h \<or> h' = Suc h) \<and>
    tree_rep c s' h' (insert (key_bytes key) K) (a(key_bytes key := a (key_bytes key) + amt)))"
proof -
  let ?k = "key_bytes key"
  have K: "finite K" "a ?k = 0 \<or> ?k \<in> K" using assms(1) tower_facts by (auto simp: tree_rep_def)
  have "\<bar>a ?k\<bar> \<le> mass K a" using abs_sum_mass[OF K(1), of "{?k}" a] K(2) by auto
  then have "(int h + 1) * mass K a + \<bar>a ?k + amt\<bar> < 2 ^ bits" using assms(3) by (simp add: algebra_simps)
  moreover from this have "\<bar>a ?k + amt\<bar> < 2 ^ bits" using mass_le_times[of K a h] mass_nonneg[of K a] by linarith
  ultimately show ?thesis
    using tree_Set_rep[OF assms(1,2) refl _ assms(4), of "a ?k + amt" key] add_exact[of "a ?k" amt]
    by (simp add: tree_Increase_def tree_Get_rep[OF assms(1)] del: fun_upd_apply)
qed

lemma SplitAcc_rep:
  assumes "tree_rep c s h K a" "h < 65536" "mass K a < 2 ^ bits"
  shows "yields (SplitAcc A s key) (\<lambda>r. r = split_sums K a key)"
proof -
  have T: "tower c s h 0 K a" and L: "\<And>k. lvl s 0 k = (if k \<in> K then Some [kid a k] else None)"
    using assms(1) by (auto simp: tree_rep_def)
  note F = tower_facts[OF T]
  have u: "under K K {k} = {k}" if "k \<in> K" for k
    using F that floor_key_id[of K] by (auto simp: under_def)
  have leaf: "accumulationSplit A s 0 k key = Ok (split_sums {k} a key)" if "k \<in> K" for k key
  proof -
    have "store_get s (leafKey k) = Some [kid a k]" using L[of k] that by (simp add: lvl_def leafKey_def)
    moreover have "{y. y = k \<and> y < key} = (if k < key then {k} else {})" "{y. y = k \<and> key < y} = (if key < k then {k} else {})" by auto
    ultimately show ?thesis by (auto simp: split_sums_def)
  qed
  have "yields (accumulationSplit A s h [] key) (\<lambda>r. r = split_sums K a key)"
    by (rule accumulationSplit_tower[OF T]) (use F u leaf assms(3) in auto)
  then show ?thesis by (simp add: SplitAcc_def root_rep[OF assms(1,2)])
qed

end

lemma NewTree_rep: "\<exists>s. NewTree A m [] = Ok s \<and> tree_rep c s 1 {[]} (\<lambda>_. 0)"
proof -
  let ?c = "[kid (\<lambda>_. 0) []]"
  define t where "t = store_set (nodeKey 0 []) ?c []"
  define s where "s = store_set (nodeKey 1 []) ?c t"
  have e: "tree_shape []" "store_ok ([] :: tree_store)" by (simp_all add: tree_shape_def store_ok_def)
  have st: "tree_shape t" unfolding t_def by (rule tree_shape_set[OF e(1)]) simp
  have ss: "tree_shape s" unfolding s_def by (rule tree_shape_set[OF st]) simp
  have ok: "store_ok t" using st by (simp add: tree_shape_def)
  have n: "lvl ([] :: tree_store) j k = None" for j k by (simp add: lvl_def store_get_def)
  have lvt: "lvl t j k = (if j = 0 \<and> k = [] then Some ?c else None)" if "j < 65536" for j k
    using lvl_set[OF e(2) _ that, of 0 "[]" ?c k] n[of j k] unfolding t_def by (metis zero_less_numeral)
  have lv: "lvl s j k = (if j \<le> 1 \<and> k = [] then Some ?c else None)" if "j < 65536" for j k
    unfolding s_def using lvl_set[OF ok _ that, of 1 "[]" ?c k] lvt[OF that, of k] by (cases "j = 1") auto
  have top: "level_keys t (Suc 0) = {}" using lvt[of "Suc 0"] by (simp add: level_keys_def)
  have sg: "seg {[]} {[]} k = (if k = [] then {[]} else {})" for k by (auto simp: seg_def)
  have T: "tower c s 1 (Suc 0) {[]} (\<lambda>k. \<Sum>x\<in>seg {[]} {[]} k. (\<lambda>_. 0) x)"
    unfolding One_nat_def by (rule tower.top) (simp add: lv)
  have "lvl s (Suc 0) k = (if k \<in> {[]} then Some (kids (\<lambda>_. 0) (seg {[]} {[]} k)) else None)" for k
    using lv[of "Suc 0" k] by (simp add: sg kids_def)
  then have "tower c s 1 0 {[]} (\<lambda>_. 0)" by (intro tower.step[OF _ _ _ _ _ _ T]) simp_all
  then have "tree_rep c s 1 {[]} (\<lambda>_. 0)" using ss lv[of 0] by (simp add: tree_rep_def)
  moreover have "NewTree A m [] = tree_Set A m None 0 []"
    by (simp add: NewTree_def IsEmpty_def store_has_def store_get_def)
  moreover have "tree_Set A m None 0 [] = push A m 1 (snd (parent t (0, None))) (kid (\<lambda>_. 0) []) t"
    by (simp add: tree_Set_def NewLeaf_def setLeaf_def isLeaf_def leafKey_def kid_def t_def Let_def)
  moreover have "push A m 1 (snd (parent t (0, None))) (kid (\<lambda>_. 0) []) t = Ok s"
    using top by (simp add: parent_none push.simps ptr_create_eq s_def)
  ultimately show ?thesis by simp
qed

end
