(* ===== verification/Sumtree_Spec.thy ===== *)
theory Sumtree_Spec
  imports Sumtree_Queries Big_Int
begin

text \<open>
  The tree against its specification: a function from keys to amounts, changed by every operation at one
  key. Runs of operations from a new tree are exactly that function, and the range queries are its sums.
  At the end, what \<^verbatim>\<open>Remove\<close> does to the sums.
\<close>

section \<open>Operations and their specification\<close>

datatype tree_op = SetOp "string option" int | IncreaseOp "string option" int | DecreaseOp "string option" int

fun op_key :: "tree_op \<Rightarrow> string" where
  "op_key (SetOp k v) = key_bytes k"
| "op_key (IncreaseOp k v) = key_bytes k"
| "op_key (DecreaseOp k v) = key_bytes k"

fun op_amount :: "tree_op \<Rightarrow> int" where
  "op_amount (SetOp k v) = \<bar>v\<bar>"
| "op_amount (IncreaseOp k v) = \<bar>v\<bar>"
| "op_amount (DecreaseOp k v) = \<bar>v\<bar>"

fun run_op :: "amounts \<Rightarrow> 8 word \<Rightarrow> tree_op \<Rightarrow> tree_store \<Rightarrow> tree_store outcome" where
  "run_op A m (SetOp k v) s = tree_Set A m k v s"
| "run_op A m (IncreaseOp k v) s = tree_Increase A m k v s"
| "run_op A m (DecreaseOp k v) s = tree_Decrease A m k v s"

fun op_spec :: "tree_op \<Rightarrow> (string \<Rightarrow> int) \<Rightarrow> string \<Rightarrow> int" where
  "op_spec (SetOp k v) a = a(key_bytes k := v)"
| "op_spec (IncreaseOp k v) a = a(key_bytes k := a (key_bytes k) + v)"
| "op_spec (DecreaseOp k v) a = a(key_bytes k := a (key_bytes k) - v)"

definition run_tree :: "amounts \<Rightarrow> 8 word \<Rightarrow> tree_op list \<Rightarrow> tree_store outcome" where
  "run_tree A m ops = obind (NewTree A m []) (ofold (run_op A m) ops)"

definition ops_keys :: "tree_op list \<Rightarrow> string set" where
  "ops_keys ops = insert [] (op_key ` set ops)"

definition ops_spec :: "tree_op list \<Rightarrow> string \<Rightarrow> int" where
  "ops_spec ops = fold op_spec ops (\<lambda>_. 0)"

text \<open>
  With fewer than \<open>2 ^ 60\<close> operations the height is at most 61, since a split leaves both halves with at
  least two children, and no sum on the way exceeds 64 times the sum of all amounts.
\<close>

definition ops_fit :: "nat \<Rightarrow> tree_op list \<Rightarrow> bool" where
  "ops_fit bits ops \<longleftrightarrow> length ops < 2 ^ 60 \<and> 64 * (\<Sum>p\<leftarrow>ops. op_amount p) < 2 ^ bits"

lemma op_amount_nonneg [simp]: "0 \<le> op_amount p"
  by (cases p) auto

lemma mass_op_spec:
  assumes "finite K" "\<forall>k. k \<notin> K \<longrightarrow> a k = 0"
  shows "mass (insert (op_key p) K) (op_spec p a) \<le> mass K a + op_amount p"
proof -
  let ?x = "op_key p" and ?L = "insert (op_key p) K"
  have L: "finite ?L" "?x \<in> ?L" using assms(1) by auto
  have "mass K a = mass ?L a" unfolding mass_def using assms by (intro sum.mono_neutral_left) auto
  also have "\<dots> = \<bar>a ?x\<bar> + mass (?L - {?x}) a" unfolding mass_def by (rule sum.remove[OF L])
  finally have a: "mass K a = \<bar>a ?x\<bar> + mass (?L - {?x}) a" .
  have "mass ?L (op_spec p a) = \<bar>op_spec p a ?x\<bar> + mass (?L - {?x}) (op_spec p a)"
    unfolding mass_def by (rule sum.remove[OF L])
  moreover have "mass (?L - {?x}) (op_spec p a) = mass (?L - {?x}) a"
    unfolding mass_def by (intro sum.cong) (cases p; auto)+
  moreover have "\<bar>op_spec p a ?x\<bar> \<le> \<bar>a ?x\<bar> + op_amount p" by (cases p) auto
  ultimately show ?thesis using a by linarith
qed

lemma ops_snoc: "ops_keys (ops @ [p]) = insert (op_key p) (ops_keys ops)" "ops_spec (ops @ [p]) = op_spec p (ops_spec ops)"
  by (auto simp: ops_keys_def ops_spec_def)

lemma finite_ops_keys [simp]: "finite (ops_keys ops)"
  by (simp add: ops_keys_def)

lemma ops_spec_outside: "\<forall>k. k \<notin> ops_keys ops \<longrightarrow> ops_spec ops k = 0"
proof (induction ops rule: rev_induct)
  case (snoc p ops)
  then show ?case unfolding ops_snoc by (cases p) auto
qed (simp add: ops_spec_def)

lemma mass_ops: "mass (ops_keys ops) (ops_spec ops) \<le> (\<Sum>p\<leftarrow>ops. op_amount p)"
proof (induction ops rule: rev_induct)
  case Nil
  show ?case by (simp add: mass_def ops_spec_def)
next
  case (snoc p ops)
  have "mass (ops_keys (ops @ [p])) (ops_spec (ops @ [p])) \<le> mass (ops_keys ops) (ops_spec ops) + op_amount p"
    unfolding ops_snoc by (rule mass_op_spec[OF finite_ops_keys ops_spec_outside])
  then show ?case using snoc by simp
qed

lemma sum_amounts_nonneg: "0 \<le> (\<Sum>p\<leftarrow>ops. op_amount p)"
  by (intro sum_list_nonneg) auto

lemma ops_fit_mass:
  assumes "ops_fit bits ops" "n \<le> 64"
  shows "int n * (\<Sum>p\<leftarrow>ops. op_amount p) < 2 ^ bits"
proof -
  have "int n * (\<Sum>p\<leftarrow>ops. op_amount p) \<le> 64 * (\<Sum>p\<leftarrow>ops. op_amount p)"
    using assms(2) sum_amounts_nonneg[of ops] by (intro mult_right_mono) auto
  then show ?thesis using assms(1) by (simp add: ops_fit_def)
qed

lemma ops_fit_butlast: "ops_fit bits (ops @ [p]) \<Longrightarrow> ops_fit bits ops"
  using op_amount_nonneg[of p] by (auto simp: ops_fit_def simp del: op_amount_nonneg)

lemma card_ops_keys: "card (ops_keys ops) \<le> length ops + 1"
proof -
  have "card (op_key ` set ops) \<le> length ops" using card_image_le[of "set ops" op_key] card_length[of ops] by simp
  then show ?thesis unfolding ops_keys_def using card_insert_le_m1[of "length ops + 1"] by (simp add: card_insert_if)
qed

lemma ops_height:
  assumes "tree_rep 2 s h (ops_keys ops) a" "length ops < 2 ^ 60"
  shows "h \<le> 61"
  by (rule height_bound[OF assms(1)]) (use assms(2) card_ops_keys[of ops] in simp_all)

lemma run_tree_snoc: "run_tree A m (ops @ [p]) = obind (run_tree A m ops) (run_op A m p)"
proof -
  have "ofold (run_op A m) [p] = run_op A m p"
  proof
    show "ofold (run_op A m) [p] s = run_op A m p s" for s by (cases "run_op A m p s") simp_all
  qed
  then show ?thesis by (cases "NewTree A m []") (simp_all add: run_tree_def ofold_append)
qed

context sum_amounts
begin

lemma run_op_rep:
  assumes "tree_rep c s h K a" "h < 65534" "(int h + 2) * mass K a + op_amount p < 2 ^ bits" "c \<le> unat m - unat m div 2"
  shows "yields (run_op A m p s) (\<lambda>s'. \<exists>h'. (h' = h \<or> h' = Suc h) \<and> tree_rep c s' h' (insert (op_key p) K) (op_spec p a))"
proof (cases p)
  case (SetOp k v)
  have "(int h + 2) * mass K a = (int h + 1) * mass K a + mass K a" by (simp add: algebra_simps)
  then have "(int h + 1) * mass K a + \<bar>v\<bar> < 2 ^ bits"
    using assms(3) mass_nonneg[of K a] unfolding SetOp op_amount.simps by linarith
  then show ?thesis using tree_Set_rep[OF assms(1,2) refl _ assms(4)] SetOp by simp
next
  case (IncreaseOp k v)
  then show ?thesis using tree_Increase_rep[OF assms(1,2) _ assms(4), of v k] assms(3) by simp
next
  case (DecreaseOp k v)
  then show ?thesis using tree_Increase_rep[OF assms(1,2) _ assms(4), of "- v" k] assms(3) by (simp add: tree_Decrease_def neg_law)
qed

lemma run_tree_rep:
  assumes m: "2 \<le> unat m - unat m div 2"
  shows "ops_fit bits ops \<Longrightarrow> yields (run_tree A m ops) (\<lambda>s. \<exists>h. tree_rep 2 s h (ops_keys ops) (ops_spec ops))"
proof (induction ops rule: rev_induct)
  case Nil
  show ?case using NewTree_rep[of A m 2] by (auto simp: run_tree_def yields_def ops_keys_def ops_spec_def)
next
  case (snoc p ops)
  show ?case
    unfolding run_tree_snoc
  proof (rule yields_bind[OF snoc.IH[OF ops_fit_butlast[OF snoc.prems]]])
    fix s assume "\<exists>h. tree_rep 2 s h (ops_keys ops) (ops_spec ops)"
    then obtain h where r: "tree_rep 2 s h (ops_keys ops) (ops_spec ops)" by blast
    have h: "h \<le> 61" using snoc.prems by (intro ops_height[OF r]) (simp add: ops_fit_def)
    then have lim: "h < 65534" by simp
    let ?M = "mass (ops_keys ops) (ops_spec ops)" and ?S = "\<Sum>p\<leftarrow>ops. op_amount p"
    have "int (h + 2) * ?M + op_amount p \<le> int (h + 2) * ?S + int (h + 2) * op_amount p"
      using mult_left_mono[OF mass_ops[of ops], of "int (h + 2)"] mult_right_mono[of 1 "int (h + 2)" "op_amount p"]
      by (intro add_mono) simp_all
    also have "\<dots> = int (h + 2) * (\<Sum>p\<leftarrow>ops @ [p]. op_amount p)" by (simp add: algebra_simps)
    also have "\<dots> < 2 ^ bits" by (rule ops_fit_mass[OF snoc.prems]) (use h in simp)
    finally have "(int h + 2) * ?M + op_amount p < 2 ^ bits" by (simp add: add.commute)
    from run_op_rep[OF r lim this m]
    show "yields (run_op A m p s) (\<lambda>s. \<exists>h. tree_rep 2 s h (ops_keys (ops @ [p])) (ops_spec (ops @ [p])))"
      unfolding ops_snoc by (rule yields_mono) blast
  qed
qed

lemma run_tree_queries:
  assumes "2 \<le> unat m - unat m div 2" "ops_fit bits ops"
  obtains s where "run_tree A m ops = Ok s" "\<forall>key. tree_Get s key = Ok (ops_spec ops key)"
    "\<forall>key. SplitAcc A s key = Ok (split_sums (ops_keys ops) (ops_spec ops) key)"
proof -
  obtain s h where s: "run_tree A m ops = Ok s" and r: "tree_rep 2 s h (ops_keys ops) (ops_spec ops)"
    using run_tree_rep[OF assms] by (auto simp: yields_def)
  have "h \<le> 61" using assms(2) by (intro ops_height[OF r]) (simp add: ops_fit_def)
  moreover have "mass (ops_keys ops) (ops_spec ops) < 2 ^ bits" using mass_ops[of ops] ops_fit_mass[OF assms(2), of 1] by simp
  ultimately have "SplitAcc A s key = Ok (split_sums (ops_keys ops) (ops_spec ops) key)" for key
    using SplitAcc_rep[OF r, of key] by (simp add: yields_eq_iff)
  then show ?thesis using that s tree_Get_rep[OF r] by blast
qed

text \<open>The range queries take their sums from two splits.\<close>

lemma SubsetAccumulation_sums:
  assumes fit: "mass K a < 2 ^ bits" and K: "finite K" "\<forall>k. k \<notin> K \<longrightarrow> a k = 0"
    and split: "\<And>key. SplitAcc A s key = Ok (split_sums K a key)"
  shows "SubsetAccumulation A s None end = Ok (\<Sum>y | y \<in> K \<and> y \<le> key_bytes end. a y)"
    and "SubsetAccumulation A s (Some b) None = Ok (\<Sum>y | y \<in> K \<and> b \<le> y. a y)"
    and "b \<le> e \<Longrightarrow> SubsetAccumulation A s (Some b) (Some e) = Ok (\<Sum>y | y \<in> K \<and> b \<le> y \<and> y \<le> e. a y)"
proof -
  have at: "(if key \<in> K then a key else 0) = (\<Sum>y | y \<in> K \<and> y = key. a y)" for key
  proof -
    have "{y. y \<in> K \<and> y = key} = (if key \<in> K then {key} else {})" by auto
    then show ?thesis by simp
  qed
  have add: "amt_Add A (\<Sum>y | y \<in> K \<and> P y. a y) (\<Sum>y | y \<in> K \<and> Q y. a y) = Ok (\<Sum>y | y \<in> K \<and> (P y \<or> Q y). a y)"
    if "\<And>y. \<not> (P y \<and> Q y)" for P Q
  proof -
    have un: "{y. y \<in> K \<and> (P y \<or> Q y)} = {y. y \<in> K \<and> P y} \<union> {y. y \<in> K \<and> Q y}" by blast
    have "(\<Sum>y | y \<in> K \<and> (P y \<or> Q y). a y) = (\<Sum>y | y \<in> K \<and> P y. a y) + (\<Sum>y | y \<in> K \<and> Q y. a y)"
      unfolding un by (rule sum.union_disjoint) (use K(1) that in auto)
    moreover have "\<bar>\<Sum>y | y \<in> K \<and> (P y \<or> Q y). a y\<bar> \<le> mass K a" by (rule abs_sum_mass[OF K(1)]) auto
    ultimately have f: "\<bar>(\<Sum>y | y \<in> K \<and> P y. a y) + (\<Sum>y | y \<in> K \<and> Q y. a y)\<bar> < 2 ^ bits"
      and e: "(\<Sum>y | y \<in> K \<and> P y. a y) + (\<Sum>y | y \<in> K \<and> Q y. a y) = (\<Sum>y | y \<in> K \<and> (P y \<or> Q y). a y)"
      using fit by linarith+
    show ?thesis unfolding e[symmetric] by (rule add_exact[OF f])
  qed
  have le: "y < k \<or> y = k \<longleftrightarrow> y \<le> k" "y = k \<or> k < y \<longleftrightarrow> k \<le> y" for y k :: string by auto
  show "SubsetAccumulation A s None end = Ok (\<Sum>y | y \<in> K \<and> y \<le> key_bytes end. a y)"
    using add[of "\<lambda>y. y < key_bytes end" "\<lambda>y. y = key_bytes end"]
    by (simp only: SubsetAccumulation_def split split_sums_def at le option.case obind.simps prod.case) blast
  have ge: "amt_Add A (\<Sum>y | y \<in> K \<and> y = b. a y) (\<Sum>y | y \<in> K \<and> b < y. a y) = Ok (\<Sum>y | y \<in> K \<and> b \<le> y. a y)"
    using add[of "\<lambda>y. y = b" "\<lambda>y. b < y"] by (simp only: le) blast
  show "SubsetAccumulation A s (Some b) None = Ok (\<Sum>y | y \<in> K \<and> b \<le> y. a y)"
    by (simp only: SubsetAccumulation_def split split_sums_def at ge option.case obind.simps prod.case)
  show "SubsetAccumulation A s (Some b) (Some e) = Ok (\<Sum>y | y \<in> K \<and> b \<le> y \<and> y \<le> e. a y)" if "b \<le> e"
  proof -
    have "{y. y \<in> K \<and> b \<le> y} = {y. y \<in> K \<and> b \<le> y \<and> y \<le> e} \<union> {y. y \<in> K \<and> e < y}" using that by auto
    then have "(\<Sum>y | y \<in> K \<and> b \<le> y. a y) = (\<Sum>y\<in>{y. y \<in> K \<and> b \<le> y \<and> y \<le> e} \<union> {y. y \<in> K \<and> e < y}. a y)" by simp
    also have "\<dots> = (\<Sum>y | y \<in> K \<and> b \<le> y \<and> y \<le> e. a y) + (\<Sum>y | y \<in> K \<and> e < y. a y)"
      by (rule sum.union_disjoint) (use K(1) in auto)
    finally have "(\<Sum>y | y \<in> K \<and> b \<le> y. a y) = (\<Sum>y | y \<in> K \<and> b \<le> y \<and> y \<le> e. a y) + (\<Sum>y | y \<in> K \<and> e < y. a y)" .
    moreover have "\<bar>\<Sum>y | y \<in> K \<and> b \<le> y \<and> y \<le> e. a y\<bar> < 2 ^ bits"
      by (rule order_le_less_trans[OF abs_sum_mass[OF K(1)] fit]) auto
    ultimately have "amt_Sub A (\<Sum>y | y \<in> K \<and> b \<le> y. a y) (\<Sum>y | y \<in> K \<and> e < y. a y) = Ok (\<Sum>y | y \<in> K \<and> b \<le> y \<and> y \<le> e. a y)"
      by (simp add: sub_Ok_iff in_bits_def)
    then show ?thesis by (simp only: SubsetAccumulation_def split split_sums_def at ge option.case obind.simps prod.case)
  qed
qed

end

section \<open>The amounts\<close>

text \<open>The repository's own checked integers, and integers of the 256 bits of the SDK.\<close>

definition big_amounts :: amounts where
  "big_amounts = \<lparr>amt_Add = BigInt_Add, amt_Sub = BigInt_Sub, amt_Neg = BigInt_Neg\<rparr>"

definition int256_amounts :: amounts where
  "int256_amounts = \<lparr>amt_Add = (\<lambda>a b. checked 256 ''Int overflow'' (a + b)),
     amt_Sub = (\<lambda>a b. checked 256 ''Int overflow'' (a - b)), amt_Neg = uminus\<rparr>"

interpretation big_amounts: sum_amounts maxBitLen big_amounts
  unfolding sum_amounts_def big_amounts_def amounts.simps by (rule big_int.checked_arith_axioms)

interpretation int256_amounts: sum_amounts 256 int256_amounts
  by unfold_locales (simp_all add: int256_amounts_def)

section \<open>Properties\<close>

lemma order_three: "3 \<le> m \<Longrightarrow> 2 \<le> unat m - unat m div 2" for m :: "8 word"
proof -
  assume "3 \<le> m"
  then have "3 \<le> unat m" by (simp add: word_le_nat_alt)
  then show ?thesis by linarith
qed

lemma order_four: "(3 :: 8 word) \<le> 4"
  by simp

text \<open>
  C8 Refinement of a map from keys to amounts: after creating a tree over an empty store and any sequence of
  \<^verbatim>\<open>Set\<close>, \<^verbatim>\<open>Increase\<close> and \<^verbatim>\<open>Decrease\<close> (fewer than \<open>2 ^ 60\<close> of them, with amounts that fit the range, in a tree of
  order three or more), with whatever node splits this takes, \<^verbatim>\<open>Get\<close> returns the value of every key and \<^verbatim>\<open>SplitAcc\<close> the sums of the values
  below, at and above every key. No panic is reached.
\<close>
theorem sumtree_refines_map:
  assumes "checked_arith bits (amt_Add A) (amt_Sub A) (amt_Neg A)" "ops_fit bits ops" "3 \<le> m"
  shows "\<exists>s. run_tree A m ops = Ok s \<and> (\<forall>key. tree_Get s key = Ok (ops_spec ops key)) \<and>
    (\<forall>key. SplitAcc A s key = Ok (split_sums (ops_keys ops) (ops_spec ops) key))"
proof -
  have "sum_amounts bits A" using assms(1) by (simp add: sum_amounts_def)
  then show ?thesis using sum_amounts.run_tree_queries[OF _ order_three[OF assms(3)] assms(2), of A] by metis
qed

lemma string_order_example: "\<not> (''b'' :: string) \<le> ''a''" "(''a'' :: string) \<le> ''b''" "(''a'' :: string) < ''b''" "\<not> (''b'' :: string) < ''a''"
  by (simp_all add: less_char_def less_eq_char_def)

theorem sumtree_refines_map_witness:
  "\<exists>s. run_tree int256_amounts 4 [IncreaseOp (Some ''a'') 5, SetOp (Some ''b'') 7, DecreaseOp (Some ''a'') 2] = Ok s \<and>
    tree_Get s ''a'' = Ok 3 \<and> SplitAcc int256_amounts s ''b'' = Ok (3, 7, 0)"
proof -
  let ?ops = "[IncreaseOp (Some ''a'') 5, SetOp (Some ''b'') 7, DecreaseOp (Some ''a'') 2]"
  have "ops_fit 256 ?ops" by (simp add: ops_fit_def)
  then obtain s where s: "run_tree int256_amounts 4 ?ops = Ok s" "\<forall>key. tree_Get s key = Ok (ops_spec ?ops key)"
    "\<forall>key. SplitAcc int256_amounts s key = Ok (split_sums (ops_keys ?ops) (ops_spec ?ops) key)"
    using sumtree_refines_map[OF int256_amounts.checked_arith_axioms _ order_four, of ?ops] by blast
  have "ops_keys ?ops = {[], ''a'', ''b''}" by (auto simp: ops_keys_def)
  moreover have "{y. y \<in> {[], ''a'', ''b''} \<and> y < ''b''} = {[], ''a''}" "{y. y \<in> {[], ''a'', ''b''} \<and> ''b'' < y} = {}"
    by (auto simp: string_order_example)
  ultimately have "split_sums (ops_keys ?ops) (ops_spec ?ops) ''b'' = (3, 7, 0)"
    unfolding split_sums_def by (simp only: sum.empty) (simp add: ops_spec_def)
  moreover have "ops_spec ?ops ''a'' = 3" by (simp add: ops_spec_def)
  ultimately show ?thesis using s by metis
qed

text \<open>
  C25 The range queries on every branch: between two keys, both included, from a key to the end, and from the
  start up to a key the sum is the sum of the values in the range. Without both ends, as \<^verbatim>\<open>TotalAccumulatedValue\<close>
  asks for it, only the value at the empty key is returned instead of the sum of all.
\<close>
theorem SubsetAccumulation_ranges:
  assumes "checked_arith bits (amt_Add A) (amt_Sub A) (amt_Neg A)" "ops_fit bits ops" "3 \<le> m"
  shows "\<exists>s. run_tree A m ops = Ok s \<and>
    (\<forall>b e. b \<le> e \<longrightarrow> SubsetAccumulation A s (Some b) (Some e) = Ok (\<Sum>y | y \<in> ops_keys ops \<and> b \<le> y \<and> y \<le> e. ops_spec ops y)) \<and>
    (\<forall>b. SubsetAccumulation A s (Some b) None = Ok (\<Sum>y | y \<in> ops_keys ops \<and> b \<le> y. ops_spec ops y)) \<and>
    (\<forall>e. PrefixSum A s (Some e) = Ok (\<Sum>y | y \<in> ops_keys ops \<and> y \<le> e. ops_spec ops y)) \<and>
    TotalAccumulatedValue A s = Ok (ops_spec ops [])"
proof -
  have A: "sum_amounts bits A" using assms(1) by (simp add: sum_amounts_def)
  obtain s where s: "run_tree A m ops = Ok s" "\<forall>key. tree_Get s key = Ok (ops_spec ops key)"
    "\<forall>key. SplitAcc A s key = Ok (split_sums (ops_keys ops) (ops_spec ops) key)"
    by (rule sum_amounts.run_tree_queries[OF A order_three[OF assms(3)] assms(2)])
  have "mass (ops_keys ops) (ops_spec ops) < 2 ^ bits" using mass_ops[of ops] ops_fit_mass[OF assms(2), of 1] by simp
  note q = sum_amounts.SubsetAccumulation_sums[OF A this finite_ops_keys ops_spec_outside spec[OF s(3)]]
  have "{y. y \<in> ops_keys ops \<and> y \<le> key_bytes None} = {[]}" by (auto simp: ops_keys_def)
  then have "TotalAccumulatedValue A s = Ok (ops_spec ops [])" unfolding TotalAccumulatedValue_def q(1) by simp
  then show ?thesis using s(1) q by (simp add: PrefixSum_def)
qed

theorem SubsetAccumulation_ranges_witness:
  "\<exists>s. run_tree int256_amounts 4 [IncreaseOp (Some ''a'') 5, SetOp (Some ''b'') 7] = Ok s \<and>
    SubsetAccumulation int256_amounts s (Some ''a'') (Some ''b'') = Ok 12 \<and> TotalAccumulatedValue int256_amounts s = Ok 0"
proof -
  let ?ops = "[IncreaseOp (Some ''a'') 5, SetOp (Some ''b'') 7]"
  have "ops_fit 256 ?ops" by (simp add: ops_fit_def)
  then obtain s where s: "run_tree int256_amounts 4 ?ops = Ok s" "TotalAccumulatedValue int256_amounts s = Ok (ops_spec ?ops [])"
    "SubsetAccumulation int256_amounts s (Some ''a'') (Some ''b'') = Ok (\<Sum>y | y \<in> ops_keys ?ops \<and> ''a'' \<le> y \<and> y \<le> ''b''. ops_spec ?ops y)"
    using SubsetAccumulation_ranges[OF int256_amounts.checked_arith_axioms _ order_four, of ?ops] string_order_example(2) by blast
  have "{y. y \<in> ops_keys ?ops \<and> ''a'' \<le> y \<and> y \<le> ''b''} = {''a'', ''b''}" by (auto simp: ops_keys_def string_order_example)
  then show ?thesis using s by (simp add: ops_spec_def)
qed

section \<open>Removal\<close>

definition set_all :: "amounts \<Rightarrow> 8 word \<Rightarrow> string list \<Rightarrow> tree_store outcome" where
  "set_all A m ks = obind (NewTree A m []) (ofold (\<lambda>k s. tree_Set A m (Some k) 1 s) ks)"

definition remove_all :: "amounts \<Rightarrow> 8 word \<Rightarrow> string list \<Rightarrow> tree_store \<Rightarrow> tree_store outcome" where
  "remove_all A m ks s = ofold (\<lambda>k s. tree_Remove A m (Some k) s) ks s"

text \<open>Evaluation on concrete stores, with the node keys left as they are.\<close>

lemma nodeKey_less_levels:
  "l < 65536 \<Longrightarrow> l' < 65536 \<Longrightarrow> nodeKey l k < nodeKey l' k' \<longleftrightarrow> l < l' \<or> l = l' \<and> k < k'"
proof (cases l l' rule: linorder_cases)
  case greater
  assume "l < 65536" "l' < 65536"
  with greater have "nodeKey l' k' < nodeKey l k" by (intro nodeKey_level_less)
  then show ?thesis using greater order_less_asym by auto
qed (simp_all add: nodeKey_level_less)

lemma nodeKey_le_levels:
  "l < 65536 \<Longrightarrow> l' < 65536 \<Longrightarrow> nodeKey l k \<le> nodeKey l' k' \<longleftrightarrow> l < l' \<or> l = l' \<and> k \<le> k'"
  by (auto simp: order_le_less nodeKey_less_levels nodeKey_inj)

lemma nodeKey_prefix_levels: "l < 65536 \<Longrightarrow> l' < 65536 \<Longrightarrow> prefix (nodeKey l []) (nodeKey l' k) \<longleftrightarrow> l = l'"
  by (auto simp: prefix_nodeKey nodeKey_inj)

lemma nodeKey_all_prefix: "prefix nodeKeyPrefix (nodeKey l k)"
  by (simp add: nodeKey_def)

lemma nodeKey_level_bytes: "drop 5 (nodeKey l k) = char_of (l div 256) # char_of (l mod 256) # k"
  by (simp add: nodeKey_def nodeKeyPrefix_def)

lemma add_int256: "\<bar>x + y\<bar> < 2 ^ 256 \<Longrightarrow> amt_Add int256_amounts x y = Ok (x + y)"
  by (rule int256_amounts.add_exact)

lemmas tree_eval =
  nodeKey_less_levels nodeKey_le_levels nodeKey_prefix_levels nodeKey_all_prefix nodeKey_inj nodeKey_level_bytes root_def
  less_char_def less_eq_char_def add_int256
  tree_Get_def tree_Set_def tree_Remove_def NewTree_def IsEmpty_def SplitAcc_def NewLeaf_def setLeaf_def isLeaf_def leafKey_def
  push.simps pull.simps updateAccumulation.simps accumulate_def node_find_def node_insert_def node_split_def node_delete_def
  node_merge_def setAcc_def ptr_exists_def ptr_at_def ptr_node_def ptr_set_def ptr_create_def ptr_delete_def parent_def
  leftSibling_def rightSibling_def ptrIterator_def ptrReverseIterator_def iter_ptr_def
  store_has_def store_get_def store_delete_def store_prefix_def unat_word_ariths unat_div_distrib Let_def

text \<open>
  \<^verbatim>\<open>Remove\<close> does not keep the tree correct. First: removing the first key of a node leaves the node's key in
  place, and a query for the removed key then indexes the children at -1 and panics. Second: merging two nodes
  reports the sum of the left one alone to the parent, so that the amounts of the right one are lost; here four
  keys with the value 1 are left and a query past them returns the sum 2.
\<close>
theorem Remove_breaks_queries:
  "obind (set_all int256_amounts 2 [''a'', ''b'', ''c'']) (\<lambda>s. obind (remove_all int256_amounts 2 [''b''] s) (\<lambda>s'.
     SplitAcc int256_amounts s' ''b'')) = Panic ''index out of range [-1]'' \<and>
   obind (set_all int256_amounts 4 [''z'', ''y'', ''x'', ''w'', ''v'', ''u'', ''t'', ''s'']) (\<lambda>s.
     obind (remove_all int256_amounts 4 [''s'', ''t'', ''u'', ''v''] s) (\<lambda>s'.
     Ok (map (tree_Get s') [''w'', ''x'', ''y'', ''z''], SplitAcc int256_amounts s' ''zz''))) =
   Ok ([Ok 1, Ok 1, Ok 1, Ok 1], Ok (2, 0, 0))"
  by (rule conjI; simp add: tree_eval set_all_def remove_all_def del: ptr_exists_lvl)

end
