(* ===== verification/Byte_Keys.thy ===== *)
theory Byte_Keys
  imports KV_Store
begin

text \<open>
  Big-endian bytes of unsigned integers, which the stores use in their keys: of a fixed length, injective, and ordered
  like the integers.
\<close>

fun be_bytes :: "nat \<Rightarrow> nat \<Rightarrow> string" where
  "be_bytes 0 n = []"
| "be_bytes (Suc k) n = be_bytes k (n div 256) @ [char_of (n mod 256)]"

definition Uint64ToBigEndian :: "uint64 \<Rightarrow> string" where
  "Uint64ToBigEndian i = be_bytes 8 (unat i)"

lemma length_be_bytes [simp]: "length (be_bytes k n) = k"
  by (induction k arbitrary: n) auto

lemma snoc_less:
  fixes xs ys :: string
  shows "length xs = length ys \<Longrightarrow> xs @ [x] < ys @ [y] \<longleftrightarrow> xs < ys \<or> xs = ys \<and> x < y"
proof (induction xs arbitrary: ys)
  case (Cons a xs)
  then show ?case by (cases ys) auto
qed simp

lemma char_of_less: "n < 256 \<Longrightarrow> m < 256 \<Longrightarrow> (char_of n :: char) < char_of m \<longleftrightarrow> n < m" for n m :: nat
  by (simp add: less_char_def)

lemma be_bytes_inj: "n < 256 ^ k \<Longrightarrow> m < 256 ^ k \<Longrightarrow> be_bytes k n = be_bytes k m \<longleftrightarrow> n = m"
proof (induction k arbitrary: n m)
  case (Suc k)
  have c: "(char_of (n mod 256) = (char_of (m mod 256) :: char)) \<longleftrightarrow> n mod 256 = m mod 256"
    by (simp add: char_of_eq_iff take_bit_eq_mod)
  have "n div 256 < 256 ^ k" "m div 256 < 256 ^ k" using Suc.prems by (auto simp: less_mult_imp_div_less mult.commute)
  then have "be_bytes k (n div 256) = be_bytes k (m div 256) \<longleftrightarrow> n div 256 = m div 256" by (rule Suc.IH)
  then show ?case using c by (auto simp del: of_char_eq_iff) (metis div_mult_mod_eq)
qed simp

lemma be_bytes_less: "n < 256 ^ k \<Longrightarrow> m < 256 ^ k \<Longrightarrow> be_bytes k n < be_bytes k m \<longleftrightarrow> n < m"
proof (induction k arbitrary: n m)
  case (Suc k)
  have d: "n div 256 < 256 ^ k" "m div 256 < 256 ^ k" using Suc.prems by (auto simp: less_mult_imp_div_less mult.commute)
  have "be_bytes (Suc k) n < be_bytes (Suc k) m \<longleftrightarrow>
      be_bytes k (n div 256) < be_bytes k (m div 256) \<or>
      be_bytes k (n div 256) = be_bytes k (m div 256) \<and> n mod 256 < m mod 256"
    using snoc_less[of "be_bytes k (n div 256)" "be_bytes k (m div 256)"] char_of_less[OF mod_less_divisor mod_less_divisor, of n m, OF zero_less_numeral zero_less_numeral]
    by (simp only: be_bytes.simps length_be_bytes)
  also have "\<dots> \<longleftrightarrow> n div 256 < m div 256 \<or> n div 256 = m div 256 \<and> n mod 256 < m mod 256"
    using Suc.IH[OF d] be_bytes_inj[OF d] by simp
  also have "\<dots> \<longleftrightarrow> n < m"
    using div_mult_mod_eq[of n 256] div_mult_mod_eq[of m 256] mod_less_divisor[of 256 n] mod_less_divisor[of 256 m] by linarith
  finally show ?case .
qed simp

lemma unat_lt_256: "unat (x :: 64 word) < 256 ^ 8"
  using unsigned_less[of x] by simp

lemma Uint64ToBigEndian_inj [simp]: "Uint64ToBigEndian i = Uint64ToBigEndian j \<longleftrightarrow> i = j"
  using be_bytes_inj[OF unat_lt_256 unat_lt_256, of i j] by (simp add: Uint64ToBigEndian_def word_unat_eq_iff)

lemma Uint64ToBigEndian_less: "Uint64ToBigEndian i < Uint64ToBigEndian j \<longleftrightarrow> i < j"
  using be_bytes_less[OF unat_lt_256 unat_lt_256, of i j] by (simp add: Uint64ToBigEndian_def word_less_nat_alt)

lemma length_Uint64ToBigEndian [simp]: "length (Uint64ToBigEndian i) = 8"
  by (simp add: Uint64ToBigEndian_def)

text \<open>\<^verbatim>\<open>sdk.BigEndianToUint64\<close>: zero for the empty slice; shorter slices panic, and of longer ones the first eight bytes count.\<close>

fun be_value :: "string \<Rightarrow> nat" where
  "be_value bs = fold (\<lambda>b n. n * 256 + of_char b) bs 0"

definition BigEndianToUint64 :: "string \<Rightarrow> uint64 outcome" where
  "BigEndianToUint64 bz =
     (if bz = [] then Ok 0 else if length bz < 8 then Panic ''index out of range'' else Ok (of_nat (be_value (take 8 bz))))"

lemma be_value_bytes: "n < 256 ^ k \<Longrightarrow> be_value (be_bytes k n) = n"
proof (induction k arbitrary: n)
  case (Suc k)
  have "n div 256 < 256 ^ k" using Suc.prems by (auto simp: less_mult_imp_div_less mult.commute)
  then have "be_value (be_bytes k (n div 256)) = n div 256" by (rule Suc.IH)
  then show ?case by (simp add: take_bit_eq_mod)
qed simp

lemma BigEndianToUint64_inverse [simp]: "BigEndianToUint64 (Uint64ToBigEndian i) = Ok i"
proof -
  have "Uint64ToBigEndian i \<noteq> []" by (metis length_0_conv length_Uint64ToBigEndian zero_neq_numeral)
  then show ?thesis using be_value_bytes[OF unat_lt_256, of i]
    by (simp add: BigEndianToUint64_def Uint64ToBigEndian_def)
qed

end
