(* ===== verification/Lockup.thy ===== *)
theory Lockup
  imports Sumtree_Spec Byte_Keys
begin

text \<open>
  \<^verbatim>\<open>src/x/lockup\<close>: locks of coins for a duration, the queues of lock references, synthetic locks, and the
  accumulation stores, which are the sum trees of \<open>Sumtree\<close>. The keys of the module fall apart by their first
  byte into the stores of the state; the trees of different denominations are separate, since no
  denomination in use has another one followed by \<^verbatim>\<open>/node/\<close> as a prefix. Times are nanoseconds since the zero
  time of Go. The bank, the addresses and coins of the SDK and the hooks of other modules are the record
  \<open>lockup_env\<close>; events and logging are left out.
\<close>

section \<open>Data (\<^verbatim>\<open>types\<close>)\<close>

record Coin =
  Denom :: string
  Amount :: int

type_synonym Coins = "Coin list"

record PeriodLock =
  ID :: uint64
  Owner :: string
  RewardReceiverAddress :: string
  Duration :: int64
  EndTime :: int
  Coins :: Coins

record SyntheticLock =
  UnderlyingLockId :: uint64
  SynthDenom :: string
  SynthEndTime :: int
  SynthDuration :: int64

text \<open>The calls of \<^verbatim>\<open>LockupHooks\<close>.\<close>

datatype lockup_hook =
    AfterAddTokensToLock string uint64 Coins
  | OnTokenLocked string uint64 Coins int64 int
  | OnStartUnlock string uint64 Coins int64 int
  | OnTokenUnlocked string uint64 Coins int64 int
  | OnTokenSlashed uint64 Coins
  | OnLockupExtend uint64 int64 int64

record 'b lockup_state =
  last_lock_id :: uint64
  lock_store :: "PeriodLock store"
  ref_store :: "uint64 store"
  synth_store :: "SyntheticLock store"
  synth_time_store :: "SyntheticLock store"
  acc_store :: "string \<Rightarrow> tree_store"
  force_unlock_allowed :: "string list"
  outside :: 'b

record 'b lockup_env =
  AccAddressFromBech32 :: "string \<Rightarrow> string outcome"
  AccAddress_String :: "string \<Rightarrow> string"
  NewCoins :: "Coin list \<Rightarrow> Coins outcome"
  Coins_Add :: "Coins \<Rightarrow> Coins \<Rightarrow> Coins outcome"
  Coins_Sub :: "Coins \<Rightarrow> Coins \<Rightarrow> Coins outcome"
  Coins_IsAllLTE :: "Coins \<Rightarrow> Coins \<Rightarrow> bool"
  Coins_IsEqual :: "Coins \<Rightarrow> Coins \<Rightarrow> bool"
  FormatTimeBytes :: "int \<Rightarrow> string"
  PrefixEndBytes :: "string \<Rightarrow> string option"
  int_lib :: amounts
  SendCoinsFromAccountToModule :: "'b \<Rightarrow> string \<Rightarrow> Coins \<Rightarrow> 'b outcome"
  SendCoinsFromModuleToAccount :: "'b \<Rightarrow> string \<Rightarrow> Coins \<Rightarrow> 'b outcome"
  BurnCoins :: "'b \<Rightarrow> Coins \<Rightarrow> 'b outcome"
  FundCommunityPool :: "'b \<Rightarrow> Coins \<Rightarrow> string \<Rightarrow> 'b outcome"
  module_address :: string
  hooks :: "(lockup_hook \<Rightarrow> 'b \<Rightarrow> 'b) option"

definition time_zero :: int where "time_zero = 0"

definition DefaultOwnerReceiverPlaceholder :: string where "DefaultOwnerReceiverPlaceholder = ''''"

definition NewPeriodLock :: "'b lockup_env \<Rightarrow> uint64 \<Rightarrow> string \<Rightarrow> string \<Rightarrow> int64 \<Rightarrow> int \<Rightarrow> Coins \<Rightarrow> PeriodLock" where
  "NewPeriodLock E i owner reward_address duration endTime coins =
     \<lparr>ID = i, Owner = AccAddress_String E owner,
      RewardReceiverAddress = (if AccAddress_String E owner = reward_address then DefaultOwnerReceiverPlaceholder else reward_address),
      Duration = duration, EndTime = endTime, Coins = coins\<rparr>"

definition IsUnlocking :: "PeriodLock \<Rightarrow> bool" where "IsUnlocking p \<longleftrightarrow> EndTime p \<noteq> time_zero"

definition Synth_IsUnlocking :: "SyntheticLock \<Rightarrow> bool" where "Synth_IsUnlocking p \<longleftrightarrow> SynthEndTime p \<noteq> time_zero"

definition SyntheticLock_zero :: SyntheticLock where
  "SyntheticLock_zero = \<lparr>UnderlyingLockId = 0, SynthDenom = '''', SynthEndTime = time_zero, SynthDuration = 0\<rparr>"

definition Synth_IsNil :: "SyntheticLock \<Rightarrow> bool" where "Synth_IsNil p \<longleftrightarrow> p = SyntheticLock_zero"

definition OwnerAddress :: "'b lockup_env \<Rightarrow> PeriodLock \<Rightarrow> string outcome" where
  "OwnerAddress E p = panic_on_err (AccAddressFromBech32 E (Owner p))"

definition SingleCoin :: "PeriodLock \<Rightarrow> Coin outcome" where
  "SingleCoin p = (case Coins p of [c] \<Rightarrow> Ok c | _ \<Rightarrow> Err ''PeriodLock has no single coin'')"

fun before_first :: "string \<Rightarrow> string \<Rightarrow> string option" where
  "before_first sep [] = (if sep = [] then Some [] else None)"
| "before_first sep (c # cs) = (if prefix sep (c # cs) then Some [] else map_option ((#) c) (before_first sep cs))"

definition NativeDenom :: "string \<Rightarrow> string" where
  "NativeDenom denom =
     (case before_first ''/superbonding'' denom of
        Some native \<Rightarrow> native
      | None \<Rightarrow> (case before_first ''/superunbonding'' denom of Some native \<Rightarrow> native | None \<Rightarrow> denom))"

definition IsSyntheticDenom :: "string \<Rightarrow> bool" where
  "IsSyntheticDenom denom \<longleftrightarrow> NativeDenom denom \<noteq> denom"

definition ErrNotLockOwner :: string where "ErrNotLockOwner = ''msg sender is not the owner of specified lock''"
definition ErrSyntheticLockupAlreadyExists :: string where
  "ErrSyntheticLockupAlreadyExists = ''synthetic lockup already exists for same lock''"
definition ErrSyntheticDurationLongerThanNative :: string where
  "ErrSyntheticDurationLongerThanNative = ''synthetic lockup duration should be shorter than native lockup duration''"
definition ErrLockupNotFound :: string where "ErrLockupNotFound = ''lockup not found''"
definition ErrRewardReceiverIsSame :: string where "ErrRewardReceiverIsSame = ''reward receiver is the same''"

section \<open>Keys (\<^verbatim>\<open>types/keys.go\<close>, \<^verbatim>\<open>utils.go\<close>, \<^verbatim>\<open>store.go\<close>)\<close>

definition KeyPrefixPeriodLock :: string where "KeyPrefixPeriodLock = [CHR 0x02]"
definition KeyPrefixNotUnlocking :: string where "KeyPrefixNotUnlocking = [CHR 0x03]"
definition KeyPrefixUnlocking :: string where "KeyPrefixUnlocking = [CHR 0x04]"
definition KeyPrefixTimestamp :: string where "KeyPrefixTimestamp = [CHR 0x05]"
definition KeyPrefixDuration :: string where "KeyPrefixDuration = [CHR 0x06]"
definition KeyPrefixLockDuration :: string where "KeyPrefixLockDuration = [CHR 0x07]"
definition KeyPrefixAccountLockDuration :: string where "KeyPrefixAccountLockDuration = [CHR 0x08]"
definition KeyPrefixDenomLockDuration :: string where "KeyPrefixDenomLockDuration = [CHR 0x09]"
definition KeyPrefixAccountDenomLockDuration :: string where "KeyPrefixAccountDenomLockDuration = [CHR 0x0A]"
definition KeyPrefixLockTimestamp :: string where "KeyPrefixLockTimestamp = [CHR 0x0B]"
definition KeyPrefixAccountLockTimestamp :: string where "KeyPrefixAccountLockTimestamp = [CHR 0x0C]"
definition KeyPrefixDenomLockTimestamp :: string where "KeyPrefixDenomLockTimestamp = [CHR 0x0D]"
definition KeyPrefixAccountDenomLockTimestamp :: string where "KeyPrefixAccountDenomLockTimestamp = [CHR 0x0E]"
definition KeyPrefixSyntheticLockup :: string where "KeyPrefixSyntheticLockup = [CHR 0x0F]"
definition KeyPrefixSyntheticLockTimestamp :: string where "KeyPrefixSyntheticLockTimestamp = [CHR 0x10]"
definition KeyPrefixLockAccumulation :: string where "KeyPrefixLockAccumulation = [CHR 0x20]"
definition KeyIndexSeparator :: string where "KeyIndexSeparator = [CHR 0xFF]"

fun combineKeys :: "string list \<Rightarrow> string" where
  "combineKeys [] = []"
| "combineKeys [k] = k"
| "combineKeys (k # ks) = k @ KeyIndexSeparator @ combineKeys ks"

definition getTimeKey :: "'b lockup_env \<Rightarrow> int \<Rightarrow> string" where
  "getTimeKey E timestamp =
     (let timeBz = FormatTimeBytes E timestamp
      in KeyPrefixTimestamp @ Uint64ToBigEndian (of_nat (length timeBz)) @ timeBz)"

definition getDurationKey :: "int64 \<Rightarrow> string" where
  "getDurationKey duration =
     (let d = (if sint duration < 0 then 0 else duration) in combineKeys [KeyPrefixDuration, Uint64ToBigEndian d])"

definition durationLockRefKeys :: "'b lockup_env \<Rightarrow> PeriodLock \<Rightarrow> string list outcome" where
  "durationLockRefKeys E lock =
     (let durationKey = getDurationKey (Duration lock)
      in obind (AccAddressFromBech32 E (Owner lock)) (\<lambda>owner.
         Ok ([combineKeys [KeyPrefixLockDuration, durationKey], combineKeys [KeyPrefixAccountLockDuration, owner, durationKey]] @
             concat (map (\<lambda>coin. [combineKeys [KeyPrefixDenomLockDuration, Denom coin, durationKey],
                                   combineKeys [KeyPrefixAccountDenomLockDuration, owner, Denom coin, durationKey]]) (Coins lock)))))"

definition lockRefKeys :: "'b lockup_env \<Rightarrow> PeriodLock \<Rightarrow> string list outcome" where
  "lockRefKeys E lock =
     (let refKeys = (case durationLockRefKeys E lock of Ok ks \<Rightarrow> ks | _ \<Rightarrow> []); timeKey = getTimeKey E (EndTime lock)
      in obind (AccAddressFromBech32 E (Owner lock)) (\<lambda>owner.
         Ok (refKeys @ [combineKeys [KeyPrefixLockTimestamp, timeKey], combineKeys [KeyPrefixAccountLockTimestamp, owner, timeKey]] @
             concat (map (\<lambda>coin. [combineKeys [KeyPrefixDenomLockTimestamp, Denom coin, timeKey],
                                   combineKeys [KeyPrefixAccountDenomLockTimestamp, owner, Denom coin, timeKey]]) (Coins lock)))))"

definition syntheticLockRefKeys :: "'b lockup_env \<Rightarrow> PeriodLock \<Rightarrow> SyntheticLock \<Rightarrow> string list outcome" where
  "syntheticLockRefKeys E lock synthLock =
     (let timeKey = getTimeKey E (SynthEndTime synthLock); durationKey = getDurationKey (SynthDuration synthLock)
      in obind (AccAddressFromBech32 E (Owner lock)) (\<lambda>owner.
         Ok [combineKeys [KeyPrefixDenomLockTimestamp, SynthDenom synthLock, timeKey],
             combineKeys [KeyPrefixDenomLockDuration, SynthDenom synthLock, durationKey],
             combineKeys [KeyPrefixAccountDenomLockTimestamp, owner, SynthDenom synthLock, timeKey],
             combineKeys [KeyPrefixAccountDenomLockDuration, owner, SynthDenom synthLock, durationKey]]))"

definition combineLocks :: "PeriodLock list \<Rightarrow> PeriodLock list \<Rightarrow> PeriodLock list" where
  "combineLocks pl1 pl2 = pl1 @ pl2"

definition lockStoreKey :: "uint64 \<Rightarrow> string" where
  "lockStoreKey i = combineKeys [KeyPrefixPeriodLock, Uint64ToBigEndian i]"

definition syntheticLockStoreKey :: "uint64 \<Rightarrow> string \<Rightarrow> string" where
  "syntheticLockStoreKey lockID synthDenom =
     combineKeys [combineKeys [KeyPrefixSyntheticLockup, Uint64ToBigEndian lockID], synthDenom]"

definition syntheticLockTimeStoreKey :: "'b lockup_env \<Rightarrow> uint64 \<Rightarrow> string \<Rightarrow> int \<Rightarrow> string" where
  "syntheticLockTimeStoreKey E lockID synthDenom endTime =
     combineKeys [combineKeys [combineKeys [KeyPrefixSyntheticLockTimestamp, getTimeKey E endTime], Uint64ToBigEndian lockID], synthDenom]"

definition accumulationStorePrefix :: "string \<Rightarrow> string" where
  "accumulationStorePrefix denom = KeyPrefixLockAccumulation @ denom @ ''/''"

definition accumulationKey :: "int64 \<Rightarrow> string" where
  "accumulationKey duration = be_bytes 8 (unat duration)"

section \<open>Stored locks and references (\<^verbatim>\<open>store.go\<close>, \<^verbatim>\<open>lock_refs.go\<close>)\<close>

definition GetLastLockID :: "'b lockup_state \<Rightarrow> uint64" where "GetLastLockID s = last_lock_id s"

definition SetLastLockID :: "uint64 \<Rightarrow> 'b lockup_state \<Rightarrow> 'b lockup_state" where
  "SetLastLockID i s = s\<lparr>last_lock_id := i\<rparr>"

definition GetLockByID :: "'b lockup_state \<Rightarrow> uint64 \<Rightarrow> PeriodLock outcome" where
  "GetLockByID s lockID =
     (case store_get (lock_store s) (lockStoreKey lockID) of None \<Rightarrow> Err ErrLockupNotFound | Some lock \<Rightarrow> Ok lock)"

definition setLock :: "PeriodLock \<Rightarrow> 'b lockup_state \<Rightarrow> 'b lockup_state" where
  "setLock lock s = s\<lparr>lock_store := store_set (lockStoreKey (ID lock)) lock (lock_store s)\<rparr>"

definition deleteLock :: "uint64 \<Rightarrow> 'b lockup_state \<Rightarrow> 'b lockup_state" where
  "deleteLock i s = s\<lparr>lock_store := store_delete (lockStoreKey i) (lock_store s)\<rparr>"

definition getLockRefs :: "'b lockup_state \<Rightarrow> string \<Rightarrow> uint64 list" where
  "getLockRefs s key = map snd (store_prefix (ref_store s) key)"

definition addLockRefByKey :: "string \<Rightarrow> uint64 \<Rightarrow> 'b lockup_state \<Rightarrow> 'b lockup_state outcome" where
  "addLockRefByKey key lockID s =
     (let endKey = combineKeys [key, Uint64ToBigEndian lockID]
      in if store_has (ref_store s) endKey then Err ''lock with same ID exist''
         else Ok (s\<lparr>ref_store := store_set endKey lockID (ref_store s)\<rparr>))"

definition deleteLockRefByKey :: "string \<Rightarrow> uint64 \<Rightarrow> 'b lockup_state \<Rightarrow> 'b lockup_state" where
  "deleteLockRefByKey key lockID s =
     s\<lparr>ref_store := store_delete (combineKeys [key, Uint64ToBigEndian lockID]) (ref_store s)\<rparr>"

definition unlockingPrefix :: "bool \<Rightarrow> string" where
  "unlockingPrefix isUnlocking = (if isUnlocking then KeyPrefixUnlocking else KeyPrefixNotUnlocking)"

definition addLockRefs :: "'b lockup_env \<Rightarrow> PeriodLock \<Rightarrow> 'b lockup_state \<Rightarrow> 'b lockup_state outcome" where
  "addLockRefs E lock s =
     obind (if IsUnlocking lock then lockRefKeys E lock else durationLockRefKeys E lock) (\<lambda>refKeys.
       ofold (\<lambda>refKey. addLockRefByKey (combineKeys [unlockingPrefix (IsUnlocking lock), refKey]) (ID lock)) refKeys s)"

definition deleteLockRefs :: "'b lockup_env \<Rightarrow> string \<Rightarrow> PeriodLock \<Rightarrow> 'b lockup_state \<Rightarrow> 'b lockup_state outcome" where
  "deleteLockRefs E lockRefPrefix lock s =
     obind (lockRefKeys E lock) (\<lambda>refKeys.
       Ok (fold (\<lambda>refKey. deleteLockRefByKey (combineKeys [lockRefPrefix, refKey]) (ID lock)) refKeys s))"

definition addSyntheticLockRefs ::
  "'b lockup_env \<Rightarrow> PeriodLock \<Rightarrow> SyntheticLock \<Rightarrow> 'b lockup_state \<Rightarrow> 'b lockup_state outcome" where
  "addSyntheticLockRefs E lock synthLock s =
     obind (syntheticLockRefKeys E lock synthLock) (\<lambda>refKeys.
       ofold (\<lambda>refKey. addLockRefByKey (combineKeys [unlockingPrefix (Synth_IsUnlocking synthLock), refKey])
                         (UnderlyingLockId synthLock)) refKeys s)"

definition deleteSyntheticLockRefs ::
  "'b lockup_env \<Rightarrow> PeriodLock \<Rightarrow> SyntheticLock \<Rightarrow> 'b lockup_state \<Rightarrow> 'b lockup_state outcome" where
  "deleteSyntheticLockRefs E lock synthLock s =
     obind (syntheticLockRefKeys E lock synthLock) (\<lambda>refKeys.
       Ok (fold (\<lambda>refKey. deleteLockRefByKey (combineKeys [unlockingPrefix (Synth_IsUnlocking synthLock), refKey])
                            (UnderlyingLockId synthLock)) refKeys s))"

definition setLockAndAddLockRefs :: "'b lockup_env \<Rightarrow> PeriodLock \<Rightarrow> 'b lockup_state \<Rightarrow> 'b lockup_state outcome" where
  "setLockAndAddLockRefs E lock s = addLockRefs E lock (setLock lock s)"

section \<open>Accumulation\<close>

text \<open>\<^verbatim>\<open>accumulationStore\<close> opens the tree of a denomination, which creates its empty leaf when it is missing.\<close>

definition accumulationStore :: "'b lockup_env \<Rightarrow> string \<Rightarrow> 'b lockup_state \<Rightarrow> tree_store outcome" where
  "accumulationStore E denom s = NewTree (int_lib E) 10 (acc_store s denom)"

definition acc_Increase :: "'b lockup_env \<Rightarrow> string \<Rightarrow> int64 \<Rightarrow> int \<Rightarrow> 'b lockup_state \<Rightarrow> 'b lockup_state outcome" where
  "acc_Increase E denom duration amt s =
     obind (accumulationStore E denom s) (\<lambda>t.
     obind (tree_Increase (int_lib E) 10 (Some (accumulationKey duration)) amt t) (\<lambda>t'.
       Ok (s\<lparr>acc_store := (acc_store s)(denom := t')\<rparr>)))"

definition acc_Decrease :: "'b lockup_env \<Rightarrow> string \<Rightarrow> int64 \<Rightarrow> int \<Rightarrow> 'b lockup_state \<Rightarrow> 'b lockup_state outcome" where
  "acc_Decrease E denom duration amt s =
     obind (accumulationStore E denom s) (\<lambda>t.
     obind (tree_Decrease (int_lib E) 10 (Some (accumulationKey duration)) amt t) (\<lambda>t'.
       Ok (s\<lparr>acc_store := (acc_store s)(denom := t')\<rparr>)))"

definition GetPeriodLocksAccumulation :: "'b lockup_env \<Rightarrow> string \<Rightarrow> int64 \<Rightarrow> 'b lockup_state \<Rightarrow> (int \<times> 'b lockup_state) outcome" where
  "GetPeriodLocksAccumulation E denom duration s =
     obind (accumulationStore E denom s) (\<lambda>t.
     obind (SubsetAccumulation (int_lib E) t (Some (accumulationKey duration)) None) (\<lambda>sum.
       Ok (sum, s\<lparr>acc_store := (acc_store s)(denom := t)\<rparr>)))"

section \<open>Synthetic locks (\<^verbatim>\<open>synthetic_lock.go\<close>)\<close>

definition GetSyntheticLockup :: "'b lockup_state \<Rightarrow> uint64 \<Rightarrow> string \<Rightarrow> SyntheticLock outcome" where
  "GetSyntheticLockup s lockID synthdenom =
     (case store_get (synth_store s) (syntheticLockStoreKey lockID synthdenom) of
        None \<Rightarrow> Err ''synthetic lock does not exist'' | Some synthLock \<Rightarrow> Ok synthLock)"

definition GetSyntheticLockupByUnderlyingLockId :: "'b lockup_state \<Rightarrow> uint64 \<Rightarrow> (SyntheticLock \<times> bool) outcome" where
  "GetSyntheticLockupByUnderlyingLockId s lockID =
     (let synthLocks = map snd (store_prefix (synth_store s) (combineKeys [KeyPrefixSyntheticLockup, Uint64ToBigEndian lockID]))
      in if length synthLocks > 1 then Err ''synthetic lockup with same lock id should not exist''
         else case synthLocks of [] \<Rightarrow> Ok (SyntheticLock_zero, False) | synthLock # _ \<Rightarrow> Ok (synthLock, True))"

definition HasAnySyntheticLockups :: "'b lockup_state \<Rightarrow> uint64 \<Rightarrow> bool" where
  "HasAnySyntheticLockups s lockID \<longleftrightarrow>
     store_prefix (synth_store s) (combineKeys [KeyPrefixSyntheticLockup, Uint64ToBigEndian lockID]) \<noteq> []"

definition GetAllSyntheticLockups :: "'b lockup_state \<Rightarrow> SyntheticLock list" where
  "GetAllSyntheticLockups s = map snd (store_prefix (synth_store s) KeyPrefixSyntheticLockup)"

definition setSyntheticLockupObject :: "'b lockup_env \<Rightarrow> SyntheticLock \<Rightarrow> 'b lockup_state \<Rightarrow> 'b lockup_state" where
  "setSyntheticLockupObject E synthLock s =
     (let s1 = s\<lparr>synth_store := store_set (syntheticLockStoreKey (UnderlyingLockId synthLock) (SynthDenom synthLock)) synthLock (synth_store s)\<rparr>
      in if SynthEndTime synthLock \<noteq> time_zero
         then s1\<lparr>synth_time_store :=
                store_set (syntheticLockTimeStoreKey E (UnderlyingLockId synthLock) (SynthDenom synthLock) (SynthEndTime synthLock))
                  synthLock (synth_time_store s1)\<rparr>
         else s1)"

definition deleteSyntheticLockupObject :: "'b lockup_env \<Rightarrow> uint64 \<Rightarrow> string \<Rightarrow> 'b lockup_state \<Rightarrow> 'b lockup_state" where
  "deleteSyntheticLockupObject E lockID synthdenom s =
     (let s1 = (case GetSyntheticLockup s lockID synthdenom of
                  Ok synthLock \<Rightarrow>
                    if SynthEndTime synthLock \<noteq> time_zero
                    then s\<lparr>synth_time_store := store_delete (syntheticLockTimeStoreKey E lockID synthdenom (SynthEndTime synthLock)) (synth_time_store s)\<rparr>
                    else s
                | _ \<Rightarrow> s)
      in s1\<lparr>synth_store := store_delete (syntheticLockStoreKey lockID synthdenom) (synth_store s1)\<rparr>)"

definition setSyntheticLockAndResetRefs ::
  "'b lockup_env \<Rightarrow> PeriodLock \<Rightarrow> SyntheticLock \<Rightarrow> 'b lockup_state \<Rightarrow> 'b lockup_state outcome" where
  "setSyntheticLockAndResetRefs E lock synthLock s = addSyntheticLockRefs E lock synthLock (setSyntheticLockupObject E synthLock s)"

definition CreateSyntheticLockup ::
  "'b lockup_env \<Rightarrow> int \<Rightarrow> uint64 \<Rightarrow> string \<Rightarrow> int64 \<Rightarrow> bool \<Rightarrow> 'b lockup_state \<Rightarrow> 'b lockup_state outcome" where
  "CreateSyntheticLockup E now lockID synthDenom unlockDuration isUnlocking s =
     obind (GetSyntheticLockupByUnderlyingLockId s lockID) (\<lambda>(synthLock0, _).
       if \<not> Synth_IsNil synthLock0 then Err ErrSyntheticLockupAlreadyExists
       else obind (GetLockByID s lockID) (\<lambda>lock.
         if isUnlocking \<and> sint (Duration lock) < sint unlockDuration then Err ErrSyntheticDurationLongerThanNative
         else
           let endTime = (if isUnlocking then now + sint unlockDuration else time_zero);
               synthLock = \<lparr>UnderlyingLockId = lockID, SynthDenom = synthDenom, SynthEndTime = endTime, SynthDuration = unlockDuration\<rparr>
           in obind (addSyntheticLockRefs E lock synthLock (setSyntheticLockupObject E synthLock s)) (\<lambda>s1.
              obind (SingleCoin lock) (\<lambda>coin.
                acc_Increase E (SynthDenom synthLock) unlockDuration (Amount coin) s1))))"

definition DeleteSyntheticLockup :: "'b lockup_env \<Rightarrow> uint64 \<Rightarrow> string \<Rightarrow> 'b lockup_state \<Rightarrow> 'b lockup_state outcome" where
  "DeleteSyntheticLockup E lockID synthdenom s =
     obind (GetSyntheticLockup s lockID synthdenom) (\<lambda>synthLock.
     obind (GetLockByID s lockID) (\<lambda>lock0.
       let lock = lock0\<lparr>EndTime := SynthEndTime synthLock\<rparr>
       in obind (deleteSyntheticLockRefs E lock synthLock (deleteSyntheticLockupObject E lockID synthdenom s)) (\<lambda>s1.
          obind (SingleCoin lock) (\<lambda>coin.
            acc_Decrease E (SynthDenom synthLock) (Duration lock) (Amount coin) s1))))"

definition GetUnderlyingLock :: "'b lockup_state \<Rightarrow> SyntheticLock \<Rightarrow> PeriodLock outcome" where
  "GetUnderlyingLock s synthlock = panic_on_err (GetLockByID s (UnderlyingLockId synthlock))"

section \<open>Iterators (\<^verbatim>\<open>iterator.go\<close>)\<close>

text \<open>An iterator is the list of the values it visits.\<close>

definition iteratorAfterTime :: "'b lockup_env \<Rightarrow> 'v store \<Rightarrow> string \<Rightarrow> int \<Rightarrow> 'v list" where
  "iteratorAfterTime E st pre t =
     (let start = (case PrefixEndBytes E (combineKeys [pre, getTimeKey E t]) of None \<Rightarrow> [] | Some b \<Rightarrow> b)
      in map snd (store_range st start (PrefixEndBytes E pre)))"

definition iteratorBeforeTime :: "'b lockup_env \<Rightarrow> 'v store \<Rightarrow> string \<Rightarrow> int \<Rightarrow> 'v list" where
  "iteratorBeforeTime E st pre maxTime =
     map snd (store_range st pre (PrefixEndBytes E (combineKeys [pre, getTimeKey E maxTime])))"

definition iteratorDuration :: "'v store \<Rightarrow> string \<Rightarrow> int64 \<Rightarrow> 'v list" where
  "iteratorDuration st pre duration = map snd (store_prefix st (combineKeys [pre, getDurationKey duration]))"

definition iteratorLongerDuration :: "'b lockup_env \<Rightarrow> 'v store \<Rightarrow> string \<Rightarrow> int64 \<Rightarrow> 'v list" where
  "iteratorLongerDuration E st pre duration =
     map snd (store_range st (combineKeys [pre, getDurationKey duration]) (PrefixEndBytes E pre))"

definition iteratorShorterDuration :: "'v store \<Rightarrow> string \<Rightarrow> int64 \<Rightarrow> 'v list" where
  "iteratorShorterDuration st pre duration =
     map snd (store_range st pre (Some (combineKeys [pre, getDurationKey duration])))"

definition prefix_iterator :: "'v store \<Rightarrow> string \<Rightarrow> 'v list" where
  "prefix_iterator st pre = map snd (store_prefix st pre)"

definition LockIteratorAfterTime :: "'b lockup_env \<Rightarrow> 'b lockup_state \<Rightarrow> int \<Rightarrow> uint64 list" where
  "LockIteratorAfterTime E s t = iteratorAfterTime E (ref_store s) (combineKeys [unlockingPrefix True, KeyPrefixLockTimestamp]) t"

definition LockIteratorBeforeTime :: "'b lockup_env \<Rightarrow> 'b lockup_state \<Rightarrow> int \<Rightarrow> uint64 list" where
  "LockIteratorBeforeTime E s t = iteratorBeforeTime E (ref_store s) (combineKeys [unlockingPrefix True, KeyPrefixLockTimestamp]) t"

definition LockIterator :: "'b lockup_state \<Rightarrow> bool \<Rightarrow> uint64 list" where
  "LockIterator s isUnlocking = prefix_iterator (ref_store s) (combineKeys [unlockingPrefix isUnlocking, KeyPrefixLockDuration])"

definition LockIteratorAfterTimeDenom :: "'b lockup_env \<Rightarrow> 'b lockup_state \<Rightarrow> string \<Rightarrow> int \<Rightarrow> uint64 list" where
  "LockIteratorAfterTimeDenom E s denom t =
     iteratorAfterTime E (ref_store s) (combineKeys [unlockingPrefix True, KeyPrefixDenomLockTimestamp, denom]) t"

definition LockIteratorBeforeTimeDenom :: "'b lockup_env \<Rightarrow> 'b lockup_state \<Rightarrow> string \<Rightarrow> int \<Rightarrow> uint64 list" where
  "LockIteratorBeforeTimeDenom E s denom t =
     iteratorBeforeTime E (ref_store s) (combineKeys [unlockingPrefix True, KeyPrefixDenomLockTimestamp, denom]) t"

definition LockIteratorLongerThanDurationDenom :: "'b lockup_env \<Rightarrow> 'b lockup_state \<Rightarrow> bool \<Rightarrow> string \<Rightarrow> int64 \<Rightarrow> uint64 list" where
  "LockIteratorLongerThanDurationDenom E s isUnlocking denom duration =
     iteratorLongerDuration E (ref_store s) (combineKeys [unlockingPrefix isUnlocking, KeyPrefixDenomLockDuration, denom]) duration"

definition LockIteratorDenom :: "'b lockup_state \<Rightarrow> bool \<Rightarrow> string \<Rightarrow> uint64 list" where
  "LockIteratorDenom s isUnlocking denom =
     prefix_iterator (ref_store s) (combineKeys [unlockingPrefix isUnlocking, KeyPrefixDenomLockDuration, denom])"

definition AccountLockIteratorAfterTime :: "'b lockup_env \<Rightarrow> 'b lockup_state \<Rightarrow> string \<Rightarrow> int \<Rightarrow> uint64 list" where
  "AccountLockIteratorAfterTime E s addr t =
     iteratorAfterTime E (ref_store s) (combineKeys [unlockingPrefix True, KeyPrefixAccountLockTimestamp, addr]) t"

definition AccountLockIteratorBeforeTime :: "'b lockup_env \<Rightarrow> 'b lockup_state \<Rightarrow> string \<Rightarrow> int \<Rightarrow> uint64 list" where
  "AccountLockIteratorBeforeTime E s addr t =
     iteratorBeforeTime E (ref_store s) (combineKeys [unlockingPrefix True, KeyPrefixAccountLockTimestamp, addr]) t"

definition AccountLockIterator :: "'b lockup_state \<Rightarrow> bool \<Rightarrow> string \<Rightarrow> uint64 list" where
  "AccountLockIterator s isUnlocking addr =
     prefix_iterator (ref_store s) (combineKeys [unlockingPrefix isUnlocking, KeyPrefixAccountLockDuration, addr])"

definition AccountLockIteratorAfterTimeDenom :: "'b lockup_env \<Rightarrow> 'b lockup_state \<Rightarrow> string \<Rightarrow> string \<Rightarrow> int \<Rightarrow> uint64 list" where
  "AccountLockIteratorAfterTimeDenom E s addr denom t =
     iteratorAfterTime E (ref_store s) (combineKeys [unlockingPrefix True, KeyPrefixAccountDenomLockTimestamp, addr, denom]) t"

definition AccountLockIteratorBeforeTimeDenom :: "'b lockup_env \<Rightarrow> 'b lockup_state \<Rightarrow> string \<Rightarrow> string \<Rightarrow> int \<Rightarrow> uint64 list" where
  "AccountLockIteratorBeforeTimeDenom E s addr denom t =
     iteratorBeforeTime E (ref_store s) (combineKeys [unlockingPrefix True, KeyPrefixAccountDenomLockTimestamp, addr, denom]) t"

definition AccountLockIteratorDenom :: "'b lockup_state \<Rightarrow> bool \<Rightarrow> string \<Rightarrow> string \<Rightarrow> uint64 list" where
  "AccountLockIteratorDenom s isUnlocking addr denom =
     prefix_iterator (ref_store s) (combineKeys [unlockingPrefix isUnlocking, KeyPrefixAccountDenomLockDuration, addr, denom])"

definition AccountLockIteratorLongerDuration :: "'b lockup_env \<Rightarrow> 'b lockup_state \<Rightarrow> bool \<Rightarrow> string \<Rightarrow> int64 \<Rightarrow> uint64 list" where
  "AccountLockIteratorLongerDuration E s isUnlocking addr duration =
     iteratorLongerDuration E (ref_store s) (combineKeys [unlockingPrefix isUnlocking, KeyPrefixAccountLockDuration, addr]) duration"

definition AccountLockIteratorDuration :: "'b lockup_state \<Rightarrow> bool \<Rightarrow> string \<Rightarrow> int64 \<Rightarrow> uint64 list" where
  "AccountLockIteratorDuration s isUnlocking addr duration =
     iteratorDuration (ref_store s) (combineKeys [unlockingPrefix isUnlocking, KeyPrefixAccountLockDuration, addr]) duration"

definition AccountLockIteratorShorterThanDuration :: "'b lockup_state \<Rightarrow> bool \<Rightarrow> string \<Rightarrow> int64 \<Rightarrow> uint64 list" where
  "AccountLockIteratorShorterThanDuration s isUnlocking addr duration =
     iteratorShorterDuration (ref_store s) (combineKeys [unlockingPrefix isUnlocking, KeyPrefixAccountLockDuration, addr]) duration"

definition AccountLockIteratorLongerDurationDenom ::
  "'b lockup_env \<Rightarrow> 'b lockup_state \<Rightarrow> bool \<Rightarrow> string \<Rightarrow> string \<Rightarrow> int64 \<Rightarrow> uint64 list" where
  "AccountLockIteratorLongerDurationDenom E s isUnlocking addr denom duration =
     iteratorLongerDuration E (ref_store s) (combineKeys [unlockingPrefix isUnlocking, KeyPrefixAccountDenomLockDuration, addr, denom]) duration"

definition AccountLockIteratorDurationDenom :: "'b lockup_state \<Rightarrow> bool \<Rightarrow> string \<Rightarrow> string \<Rightarrow> int64 \<Rightarrow> uint64 list" where
  "AccountLockIteratorDurationDenom s isUnlocking addr denom duration =
     iteratorDuration (ref_store s) (combineKeys [unlockingPrefix isUnlocking, KeyPrefixAccountDenomLockDuration, addr, denom]) duration"

definition getLocksFromIterator :: "'b lockup_state \<Rightarrow> uint64 list \<Rightarrow> PeriodLock list outcome" where
  "getLocksFromIterator s ids = omap (\<lambda>lockID. panic_on_err (GetLockByID s lockID)) ids"

definition getCoinsFromLocks :: "'b lockup_env \<Rightarrow> PeriodLock list \<Rightarrow> Coins outcome" where
  "getCoinsFromLocks E locks = ofold (\<lambda>lock coins. Coins_Add E coins (Coins lock)) locks []"

definition getCoinsFromIterator :: "'b lockup_env \<Rightarrow> 'b lockup_state \<Rightarrow> uint64 list \<Rightarrow> Coins outcome" where
  "getCoinsFromIterator E s ids = obind (getLocksFromIterator s ids) (getCoinsFromLocks E)"

section \<open>Locks (\<^verbatim>\<open>lock.go\<close>)\<close>

text \<open>A call of another keeper, and a call of the hooks with and without the test that they are set.\<close>

definition with_outside :: "('b \<Rightarrow> 'b outcome) \<Rightarrow> 'b lockup_state \<Rightarrow> 'b lockup_state outcome" where
  "with_outside f s = obind (f (outside s)) (\<lambda>b. Ok (s\<lparr>outside := b\<rparr>))"

definition call_hooks :: "'b lockup_env \<Rightarrow> lockup_hook \<Rightarrow> 'b lockup_state \<Rightarrow> 'b lockup_state outcome" where
  "call_hooks E h s =
     (case hooks E of None \<Rightarrow> Panic ''nil pointer dereference'' | Some f \<Rightarrow> Ok (s\<lparr>outside := f h (outside s)\<rparr>))"

definition call_hooks_if_set :: "'b lockup_env \<Rightarrow> lockup_hook \<Rightarrow> 'b lockup_state \<Rightarrow> 'b lockup_state outcome" where
  "call_hooks_if_set E h s = (if hooks E = None then Ok s else call_hooks E h s)"

definition GetModuleLockedCoins :: "'b lockup_env \<Rightarrow> int \<Rightarrow> 'b lockup_state \<Rightarrow> Coins outcome" where
  "GetModuleLockedCoins E now s =
     obind (getCoinsFromIterator E s (LockIterator s False)) (\<lambda>notUnlockingCoins.
     obind (getCoinsFromIterator E s (LockIteratorAfterTime E s now)) (\<lambda>unlockingCoins.
       Coins_Add E notUnlockingCoins unlockingCoins))"

definition lock_coins :: "'b lockup_env \<Rightarrow> PeriodLock \<Rightarrow> Coins \<Rightarrow> 'b lockup_state \<Rightarrow> 'b lockup_state outcome" where
  "lock_coins E lock tokensToLock s =
     obind (AccAddressFromBech32 E (Owner lock)) (\<lambda>owner.
     obind (ofold (\<lambda>coin. acc_Increase E (Denom coin) (Duration lock) (Amount coin)) tokensToLock (setLock lock s)) (\<lambda>s1.
       call_hooks E (OnTokenLocked owner (ID lock) (Coins lock) (Duration lock) (EndTime lock)) s1))"

definition AddTokensToLockByID ::
  "'b lockup_env \<Rightarrow> uint64 \<Rightarrow> string \<Rightarrow> Coin \<Rightarrow> 'b lockup_state \<Rightarrow> (PeriodLock \<times> 'b lockup_state) outcome" where
  "AddTokensToLockByID E lockID owner tokensToAdd s =
     obind (GetLockByID s lockID) (\<lambda>lock0.
       if Owner lock0 \<noteq> AccAddress_String E owner then Err ErrNotLockOwner
       else obind (Coins_Add E (Coins lock0) [tokensToAdd]) (\<lambda>coins.
            obind (NewCoins E [tokensToAdd]) (\<lambda>added.
            let lock = lock0\<lparr>Coins := coins\<rparr>
            in obind (with_outside (\<lambda>b. SendCoinsFromAccountToModule E b owner added) s) (\<lambda>s1.
               obind (lock_coins E lock added s1) (\<lambda>s2.
               obind (GetSyntheticLockupByUnderlyingLockId s2 (ID lock)) (\<lambda>(synthlock, _).
               obind (acc_Increase E (SynthDenom synthlock) (SynthDuration synthlock) (Amount tokensToAdd) s2) (\<lambda>s3.
                 if hooks E = None then Ok (lock, s3)
                 else obind (OwnerAddress E lock) (\<lambda>addr.
                      obind (call_hooks E (AfterAddTokensToLock addr (ID lock) added) s3) (\<lambda>s4.
                        Ok (lock, s4))))))))))"

definition GetAccountLockedDurationNotUnlockingOnly ::
  "'b lockup_state \<Rightarrow> string \<Rightarrow> string \<Rightarrow> int64 \<Rightarrow> PeriodLock list outcome" where
  "GetAccountLockedDurationNotUnlockingOnly s addr denom duration =
     getLocksFromIterator s (AccountLockIteratorDurationDenom s False addr denom duration)"

definition AddToExistingLock ::
  "'b lockup_env \<Rightarrow> string \<Rightarrow> Coin \<Rightarrow> int64 \<Rightarrow> 'b lockup_state \<Rightarrow> (uint64 \<times> 'b lockup_state) outcome" where
  "AddToExistingLock E owner coin duration s =
     obind (GetAccountLockedDurationNotUnlockingOnly s owner (Denom coin) duration) (\<lambda>locks.
       case locks of
         [] \<Rightarrow> Err ErrLockupNotFound
       | lock # _ \<Rightarrow> obind (AddTokensToLockByID E (ID lock) owner coin s) (\<lambda>(_, s1). Ok (ID lock, s1)))"

definition HasLock :: "'b lockup_state \<Rightarrow> string \<Rightarrow> string \<Rightarrow> int64 \<Rightarrow> bool outcome" where
  "HasLock s owner denom duration =
     obind (GetAccountLockedDurationNotUnlockingOnly s owner denom duration) (\<lambda>locks. Ok (length locks > 0))"

definition CreateLockNoSend ::
  "'b lockup_env \<Rightarrow> string \<Rightarrow> Coins \<Rightarrow> int64 \<Rightarrow> 'b lockup_state \<Rightarrow> (PeriodLock \<times> 'b lockup_state) outcome" where
  "CreateLockNoSend E owner coins duration s =
     (let i = GetLastLockID s + 1; lock = NewPeriodLock E i owner '''' duration time_zero coins
      in obind (lock_coins E lock (Coins lock) s) (\<lambda>s1.
         obind (addLockRefs E lock s1) (\<lambda>s2.
           Ok (lock, SetLastLockID (ID lock) s2))))"

definition CreateLock ::
  "'b lockup_env \<Rightarrow> string \<Rightarrow> Coins \<Rightarrow> int64 \<Rightarrow> 'b lockup_state \<Rightarrow> (PeriodLock \<times> 'b lockup_state) outcome" where
  "CreateLock E owner coins duration s =
     obind (with_outside (\<lambda>b. SendCoinsFromAccountToModule E b owner coins) s) (\<lambda>s1.
       CreateLockNoSend E owner coins duration s1)"

definition SplitLock ::
  "'b lockup_env \<Rightarrow> PeriodLock \<Rightarrow> Coins \<Rightarrow> bool \<Rightarrow> 'b lockup_state \<Rightarrow> (PeriodLock \<times> 'b lockup_state) outcome" where
  "SplitLock E lock0 coins forceUnlock s =
     (if \<not> forceUnlock \<and> IsUnlocking lock0 then Err ''cannot split unlocking lock''
      else obind (Coins_Sub E (Coins lock0) coins) (\<lambda>rest.
           let lock = lock0\<lparr>Coins := rest\<rparr>; s1 = setLock lock s; splitLockID = GetLastLockID s1 + 1; s2 = SetLastLockID splitLockID s1
           in obind (OwnerAddress E lock) (\<lambda>addr.
              let splitLock = NewPeriodLock E splitLockID addr (RewardReceiverAddress lock) (Duration lock) (EndTime lock) coins
              in Ok (splitLock, setLock splitLock s2))))"

definition start_unlocking ::
  "'b lockup_env \<Rightarrow> PeriodLock \<Rightarrow> int \<Rightarrow> 'b lockup_state \<Rightarrow> (PeriodLock \<times> 'b lockup_state) outcome" where
  "start_unlocking E lock0 endTime s =
     obind (deleteLockRefs E KeyPrefixNotUnlocking lock0 s) (\<lambda>s1.
     let lock = lock0\<lparr>EndTime := endTime\<rparr>
     in obind (addLockRefs E lock (setLock lock s1)) (\<lambda>s2.
        if hooks E = None then Ok (lock, s2)
        else obind (OwnerAddress E lock) (\<lambda>addr.
             obind (call_hooks E (OnStartUnlock addr (ID lock) (Coins lock) (Duration lock) (EndTime lock)) s2) (\<lambda>s3.
               Ok (lock, s3)))))"

definition beginUnlock ::
  "'b lockup_env \<Rightarrow> int \<Rightarrow> PeriodLock \<Rightarrow> Coins \<Rightarrow> 'b lockup_state \<Rightarrow> (uint64 \<times> 'b lockup_state) outcome" where
  "beginUnlock E now lock0 coins s =
     (if \<not> Coins_IsAllLTE E coins (Coins lock0) then Err ''requested amount to unlock exceeds locked tokens''
      else if IsUnlocking lock0 then Err ''trying to unlock a lock that is already unlocking''
      else obind (if coins \<noteq> [] \<and> \<not> Coins_IsEqual E coins (Coins lock0) then SplitLock E lock0 coins False s else Ok (lock0, s)) (\<lambda>(lock, s1).
           obind (start_unlocking E lock (now + sint (Duration lock)) s1) (\<lambda>(lock', s2).
             Ok (ID lock', s2))))"

definition BeginUnlock ::
  "'b lockup_env \<Rightarrow> int \<Rightarrow> uint64 \<Rightarrow> Coins \<Rightarrow> 'b lockup_state \<Rightarrow> (uint64 \<times> 'b lockup_state) outcome" where
  "BeginUnlock E now lockID coins s =
     obind (GetLockByID s lockID) (\<lambda>lock.
       if HasAnySyntheticLockups s (ID lock) then Err ''cannot BeginUnlocking a lock with synthetic lockup''
       else beginUnlock E now lock coins s)"

definition BeginForceUnlock ::
  "'b lockup_env \<Rightarrow> int \<Rightarrow> uint64 \<Rightarrow> Coins \<Rightarrow> 'b lockup_state \<Rightarrow> (uint64 \<times> 'b lockup_state) outcome" where
  "BeginForceUnlock E now lockID coins s = obind (GetLockByID s lockID) (\<lambda>lock. beginUnlock E now lock coins s)"

definition beginForceUnlockWithEndTime :: "'b lockup_env \<Rightarrow> PeriodLock \<Rightarrow> int \<Rightarrow> 'b lockup_state \<Rightarrow> 'b lockup_state outcome" where
  "beginForceUnlockWithEndTime E lock endTime s = obind (start_unlocking E lock endTime s) (\<lambda>(_, s1). Ok s1)"

definition BeginForceUnlockWithEndTime :: "'b lockup_env \<Rightarrow> uint64 \<Rightarrow> int \<Rightarrow> 'b lockup_state \<Rightarrow> 'b lockup_state outcome" where
  "BeginForceUnlockWithEndTime E lockID endTime s =
     obind (GetLockByID s lockID) (\<lambda>lock. beginForceUnlockWithEndTime E lock endTime s)"

definition ConcentratedLiquidityTokenPrefix :: string where "ConcentratedLiquidityTokenPrefix = ''cl/pool''"

definition unlock_coin :: "'b lockup_env \<Rightarrow> Coin \<Rightarrow> Coins \<times> 'b lockup_state \<Rightarrow> (Coins \<times> 'b lockup_state) outcome" where
  "unlock_coin E coin = (\<lambda>(final, s).
     if prefix ConcentratedLiquidityTokenPrefix (Denom coin)
     then obind (NewCoins E [coin]) (\<lambda>cs. obind (with_outside (\<lambda>b. BurnCoins E b cs) s) (\<lambda>s1. Ok (final, s1)))
     else obind (Coins_Add E final [coin]) (\<lambda>final'. Ok (final', s)))"

definition unlockMaturedLockInternalLogic :: "'b lockup_env \<Rightarrow> PeriodLock \<Rightarrow> 'b lockup_state \<Rightarrow> 'b lockup_state outcome" where
  "unlockMaturedLockInternalLogic E lock s =
     obind (AccAddressFromBech32 E (Owner lock)) (\<lambda>owner.
     obind (NewCoins E []) (\<lambda>none.
     obind (ofold (unlock_coin E) (Coins lock) (none, s)) (\<lambda>(final, s1).
     obind (if final = [] then Ok s1 else with_outside (\<lambda>b. SendCoinsFromModuleToAccount E b owner final) s1) (\<lambda>s2.
     obind (deleteLockRefs E KeyPrefixUnlocking lock (deleteLock (ID lock) s2)) (\<lambda>s3.
     obind (ofold (\<lambda>coin. acc_Decrease E (Denom coin) (Duration lock) (Amount coin)) (Coins lock) s3) (\<lambda>s4.
       call_hooks E (OnTokenUnlocked owner (ID lock) (Coins lock) (Duration lock) (EndTime lock)) s4))))))"

definition UnlockMaturedLock :: "'b lockup_env \<Rightarrow> int \<Rightarrow> uint64 \<Rightarrow> 'b lockup_state \<Rightarrow> 'b lockup_state outcome" where
  "UnlockMaturedLock E now lockID s =
     obind (GetLockByID s lockID) (\<lambda>lock.
       if \<not> IsUnlocking lock then Err ''lock hasn't started unlocking yet''
       else if now < EndTime lock then Err ''lock is not unlockable yet''
       else unlockMaturedLockInternalLogic E lock s)"

definition ForceUnlock :: "'b lockup_env \<Rightarrow> int \<Rightarrow> PeriodLock \<Rightarrow> 'b lockup_state \<Rightarrow> 'b lockup_state outcome" where
  "ForceUnlock E now lock s =
     obind (GetSyntheticLockupByUnderlyingLockId s (ID lock)) (\<lambda>(synthLock, _).
     obind (if Synth_IsNil synthLock then Ok s else DeleteSyntheticLockup E (ID lock) (SynthDenom synthLock) s) (\<lambda>s1.
     obind (if IsUnlocking lock then Ok s1 else obind (BeginUnlock E now (ID lock) [] s1) (\<lambda>(_, s'). Ok s')) (\<lambda>s2.
     obind (GetLockByID s2 (ID lock)) (\<lambda>lock'. unlockMaturedLockInternalLogic E lock' s2))))"

definition PartialForceUnlock :: "'b lockup_env \<Rightarrow> int \<Rightarrow> PeriodLock \<Rightarrow> Coins \<Rightarrow> 'b lockup_state \<Rightarrow> 'b lockup_state outcome" where
  "PartialForceUnlock E now lock0 coins s =
     (if \<not> Coins_IsAllLTE E coins (Coins lock0) then Err ''requested amount to unlock exceeds locked tokens''
      else obind (if coins \<noteq> [] \<and> \<not> Coins_IsEqual E coins (Coins lock0) then SplitLock E lock0 coins True s else Ok (lock0, s)) (\<lambda>(lock, s1).
             ForceUnlock E now lock s1))"

definition SetLockRewardReceiverAddress :: "'b lockup_env \<Rightarrow> uint64 \<Rightarrow> string \<Rightarrow> string \<Rightarrow> 'b lockup_state \<Rightarrow> 'b lockup_state outcome" where
  "SetLockRewardReceiverAddress E lockID owner newReceiverAddress s =
     obind (GetLockByID s lockID) (\<lambda>lock.
       if Owner lock \<noteq> AccAddress_String E owner then Err ErrNotLockOwner
       else let receiver = (if Owner lock = newReceiverAddress then DefaultOwnerReceiverPlaceholder else newReceiverAddress)
            in if RewardReceiverAddress lock = receiver then Err ErrRewardReceiverIsSame
               else Ok (setLock (lock\<lparr>RewardReceiverAddress := receiver\<rparr>) s))"

definition ExtendLockup :: "'b lockup_env \<Rightarrow> uint64 \<Rightarrow> string \<Rightarrow> int64 \<Rightarrow> 'b lockup_state \<Rightarrow> 'b lockup_state outcome" where
  "ExtendLockup E lockID owner newDuration s =
     obind (GetLockByID s lockID) (\<lambda>lock.
       if Owner lock \<noteq> AccAddress_String E owner then Err ErrNotLockOwner
       else if IsUnlocking lock then Err ''cannot edit unlocking lockup''
       else if HasAnySyntheticLockups s (ID lock) then Err ''cannot edit lockup with synthetic lock''
       else obind (deleteLockRefs E (unlockingPrefix (IsUnlocking lock)) lock s) (\<lambda>s1.
            obind (if newDuration = 0 then Ok (lock, s1)
                   else if sint newDuration \<le> sint (Duration lock) then Err ''new duration should be greater than the original''
                   else obind (ofold (\<lambda>coin s. obind (acc_Decrease E (Denom coin) (Duration lock) (Amount coin) s)
                                                 (acc_Increase E (Denom coin) newDuration (Amount coin))) (Coins lock) s1) (\<lambda>s2.
                          Ok (lock\<lparr>Duration := newDuration\<rparr>, s2))) (\<lambda>(lock', s2).
            obind (addLockRefs E lock' s2) (\<lambda>s3.
              call_hooks E (OnLockupExtend (ID lock') (Duration lock) (Duration lock')) (setLock lock' s3)))))"

definition removeTokensFromLock :: "'b lockup_env \<Rightarrow> PeriodLock \<Rightarrow> Coins \<Rightarrow> 'b lockup_state \<Rightarrow> (PeriodLock \<times> 'b lockup_state) outcome" where
  "removeTokensFromLock E lock0 coins s =
     obind (Coins_Sub E (Coins lock0) coins) (\<lambda>rest.
     let lock = lock0\<lparr>Coins := rest\<rparr>
     in obind (ofold (\<lambda>coin. acc_Decrease E (Denom coin) (Duration lock) (Amount coin)) coins (setLock lock s)) (\<lambda>s1.
        obind (GetSyntheticLockupByUnderlyingLockId s1 (ID lock)) (\<lambda>(synthLock, _).
          case coins of
            [] \<Rightarrow> Panic ''index out of range''
          | c # _ \<Rightarrow> obind (acc_Decrease E (SynthDenom synthLock) (SynthDuration synthLock) (Amount c) s1) (\<lambda>s2. Ok (lock, s2)))))"

definition SlashTokensFromLockByID ::
  "'b lockup_env \<Rightarrow> uint64 \<Rightarrow> Coins \<Rightarrow> 'b lockup_state \<Rightarrow> (PeriodLock \<times> 'b lockup_state) outcome" where
  "SlashTokensFromLockByID E lockID coins s =
     obind (GetLockByID s lockID) (\<lambda>lock.
     obind (with_outside (\<lambda>b. FundCommunityPool E b coins (module_address E)) s) (\<lambda>s1.
     obind (removeTokensFromLock E lock coins s1) (\<lambda>(lock', s2).
     obind (call_hooks_if_set E (OnTokenSlashed (ID lock') coins) s2) (\<lambda>s3.
       Ok (lock', s3)))))"

definition SlashTokensFromLockByIDSendUnderlyingAndBurn ::
  "'b lockup_env \<Rightarrow> uint64 \<Rightarrow> Coins \<Rightarrow> Coins \<Rightarrow> string \<Rightarrow> 'b lockup_state \<Rightarrow> (PeriodLock \<times> 'b lockup_state) outcome" where
  "SlashTokensFromLockByIDSendUnderlyingAndBurn E lockID liquiditySharesToSlash underlyingPositionAssets poolAddress s =
     obind (GetLockByID s lockID) (\<lambda>lock.
     obind (with_outside (\<lambda>b. FundCommunityPool E b underlyingPositionAssets poolAddress) s) (\<lambda>s1.
     obind (with_outside (\<lambda>b. BurnCoins E b liquiditySharesToSlash) s1) (\<lambda>s2.
     obind (removeTokensFromLock E lock liquiditySharesToSlash s2) (\<lambda>(lock', s3).
     obind (call_hooks_if_set E (OnTokenSlashed (ID lock') liquiditySharesToSlash) s3) (\<lambda>s4.
       Ok (lock', s4))))))"

text \<open>Loops over the queues: all matured locks, all locks of an account, all matured synthetic locks.\<close>

definition unlockFromIterator :: "'b lockup_env \<Rightarrow> int \<Rightarrow> uint64 list \<Rightarrow> 'b lockup_state \<Rightarrow> (PeriodLock list \<times> Coins \<times> 'b lockup_state) outcome" where
  "unlockFromIterator E now ids s =
     obind (getLocksFromIterator s ids) (\<lambda>locks.
     obind (ofold (\<lambda>lock (coins, s). obind (panic_on_err (UnlockMaturedLock E now (ID lock) s)) (\<lambda>s'.
                     obind (Coins_Add E coins (Coins lock)) (\<lambda>coins'. Ok (coins', s')))) locks ([], s)) (\<lambda>(coins, s').
       Ok (locks, coins, s')))"

definition WithdrawAllMaturedLocks :: "'b lockup_env \<Rightarrow> int \<Rightarrow> 'b lockup_state \<Rightarrow> 'b lockup_state outcome" where
  "WithdrawAllMaturedLocks E now s =
     obind (unlockFromIterator E now (LockIteratorBeforeTime E s now) s) (\<lambda>(_, _, s'). Ok s')"

definition beginUnlockFromIterator :: "'b lockup_env \<Rightarrow> int \<Rightarrow> uint64 list \<Rightarrow> 'b lockup_state \<Rightarrow> (PeriodLock list \<times> 'b lockup_state) outcome" where
  "beginUnlockFromIterator E now ids s =
     obind (getLocksFromIterator s ids) (\<lambda>locks.
     obind (ofold (\<lambda>lock s. obind (BeginUnlock E now (ID lock) [] s) (\<lambda>(_, s'). Ok s')) locks s) (\<lambda>s'. Ok (locks, s')))"

definition BeginUnlockAllNotUnlockings :: "'b lockup_env \<Rightarrow> int \<Rightarrow> string \<Rightarrow> 'b lockup_state \<Rightarrow> (PeriodLock list \<times> 'b lockup_state) outcome" where
  "BeginUnlockAllNotUnlockings E now account s = beginUnlockFromIterator E now (AccountLockIterator s False account) s"

definition DeleteAllMaturedSyntheticLocks :: "'b lockup_env \<Rightarrow> int \<Rightarrow> 'b lockup_state \<Rightarrow> 'b lockup_state outcome" where
  "DeleteAllMaturedSyntheticLocks E now s =
     ofold (\<lambda>synthLock s. panic_on_err (DeleteSyntheticLockup E (UnderlyingLockId synthLock) (SynthDenom synthLock) s))
       (iteratorBeforeTime E (synth_time_store s) (combineKeys [KeyPrefixSyntheticLockTimestamp]) now) s"

section \<open>Administration (\<^verbatim>\<open>admin_keeper.go\<close>)\<close>

definition Relock :: "'b lockup_env \<Rightarrow> uint64 \<Rightarrow> Coins \<Rightarrow> 'b lockup_state \<Rightarrow> 'b lockup_state outcome" where
  "Relock E lockID newCoins s =
     obind (GetLockByID s lockID) (\<lambda>lock.
     obind (AccAddressFromBech32 E (Owner lock)) (\<lambda>owner.
     obind (with_outside (\<lambda>b. SendCoinsFromModuleToAccount E b owner (Coins lock)) s) (\<lambda>s1.
     obind (with_outside (\<lambda>b. SendCoinsFromAccountToModule E b owner newCoins) s1) (\<lambda>s2.
       Ok (s2\<lparr>lock_store := store_set (lockStoreKey lockID) (lock\<lparr>Coins := newCoins\<rparr>) (lock_store s2)\<rparr>)))))"

definition BreakLock :: "'b lockup_env \<Rightarrow> uint64 \<Rightarrow> 'b lockup_state \<Rightarrow> 'b lockup_state outcome" where
  "BreakLock E lockID s =
     obind (GetLockByID s lockID) (\<lambda>lock.
     obind (AccAddressFromBech32 E (Owner lock)) (\<lambda>owner.
     obind (with_outside (\<lambda>b. SendCoinsFromModuleToAccount E b owner (Coins lock)) s) (\<lambda>s1.
     obind (lockRefKeys E lock) (\<lambda>refKeys.
       Ok (fold (\<lambda>refKey. deleteLockRefByKey refKey lockID) refKeys (deleteLock lockID s1))))))"

end
