(* ===== verification/Lockup_Books.thy ===== *)
theory Lockup_Books
  imports Lockup
begin

text \<open>
  The books of the lockup module: what the accumulation stores hold as functions from keys to amounts, the sum
  of the locks, the balance of the module account, and how each helper of the keeper changes them.
\<close>

section \<open>Keys\<close>

lemma accumulationKey_inj [simp]: "accumulationKey d = accumulationKey d' \<longleftrightarrow> d = d'"
  using be_bytes_inj[OF unat_lt_256 unat_lt_256, of d d'] by (simp add: accumulationKey_def word_unat_eq_iff)

lemma accumulationKey_le: "accumulationKey d \<le> accumulationKey d' \<longleftrightarrow> d \<le> d'"
  using be_bytes_less[OF unat_lt_256 unat_lt_256, of d' d]
  by (simp add: accumulationKey_def word_le_nat_alt linorder_not_less[symmetric])

lemma accumulationKey_nonempty [simp]: "accumulationKey d \<noteq> []"
  using length_be_bytes[of 8 "unat d"] unfolding accumulationKey_def by force

lemma lockStoreKey_inj [simp]: "lockStoreKey i = lockStoreKey j \<longleftrightarrow> i = j"
  using be_bytes_inj[OF unat_lt_256 unat_lt_256, of i j] by (simp add: lockStoreKey_def Uint64ToBigEndian_def word_unat_eq_iff)

section \<open>Accumulation stores as functions\<close>

definition acc_is :: "tree_store \<Rightarrow> (string \<Rightarrow> int) \<Rightarrow> bool" where
  "acc_is t f \<longleftrightarrow> t = [] \<and> f = (\<lambda>_. 0) \<or> (\<exists>h K. tree_rep 2 t h K f \<and> K \<subseteq> insert [] (range accumulationKey))"

text \<open>Room for a change of the given amount.\<close>

definition room :: "nat \<Rightarrow> (string \<Rightarrow> int) \<Rightarrow> int \<Rightarrow> bool" where
  "room bits f amt \<longleftrightarrow> (\<forall>K. finite K \<longrightarrow> 68 * mass K f + \<bar>amt\<bar> < 2 ^ bits)"

lemma acc_height:
  assumes "tree_rep 2 t h K f" "K \<subseteq> insert [] (range accumulationKey)"
  shows "h \<le> 65"
proof (rule height_bound[OF assms(1)])
  have fin: "finite (insert [] (range accumulationKey))" by simp
  have "card (range accumulationKey) \<le> card (UNIV :: int64 set)" by (rule card_image_le) simp
  then have "card (insert [] (range accumulationKey)) \<le> Suc (2 ^ 64)" by (simp add: card_word card_insert_if)
  moreover have "card K \<le> card (insert [] (range accumulationKey))" by (rule card_mono[OF fin assms(2)])
  ultimately show "card K < 2 ^ 65" by simp
qed simp

lemma NewTree_present: "tree_rep c t h K f \<Longrightarrow> NewTree A m t = Ok t"
proof -
  assume r: "tree_rep c t h K f"
  then have "[] \<in> K" using tower_facts by (auto simp: tree_rep_def)
  with r have "lvl t 0 [] \<noteq> None" by (simp add: tree_rep_def)
  then show ?thesis by (simp add: NewTree_def IsEmpty_def store_has_def leafKey_def lvl_def)
qed

lemma acc_is_open: "acc_is t f \<Longrightarrow> \<exists>t' h K. NewTree A m t = Ok t' \<and> tree_rep 2 t' h K f \<and> K \<subseteq> insert [] (range accumulationKey)"
  unfolding acc_is_def using NewTree_present NewTree_rep[of A m 2] by (elim disjE) (auto, blast)

context sum_amounts
begin

lemma acc_is_Increase:
  assumes "acc_is t f" "room bits f amt"
  shows "\<exists>t'. obind (NewTree A 10 t) (tree_Increase A 10 (Some (accumulationKey d)) amt) = Ok t' \<and>
    acc_is t' (f(accumulationKey d := f (accumulationKey d) + amt))"
proof -
  obtain t1 h K where t: "NewTree A 10 t = Ok t1" "tree_rep 2 t1 h K f" "K \<subseteq> insert [] (range accumulationKey)"
    using acc_is_open[OF assms(1)] by blast
  have h: "h \<le> 65" by (rule acc_height[OF t(2,3)])
  have K: "finite K" using t(2) tower_facts by (auto simp: tree_rep_def)
  have "(int h + 2) * mass K f \<le> 68 * mass K f" using h by (intro mult_right_mono) auto
  moreover have "68 * mass K f + \<bar>amt\<bar> < 2 ^ bits" using assms(2) K unfolding room_def by blast
  ultimately have fit: "(int h + 2) * mass K f + \<bar>amt\<bar> < 2 ^ bits" by linarith
  have c: "2 \<le> unat (10 :: 8 word) - unat (10 :: 8 word) div 2" by simp
  have "h < 65534" using h by simp
  from tree_Increase_rep[OF t(2) this fit c, of "Some (accumulationKey d)"]
  obtain t' h' where "tree_Increase A 10 (Some (accumulationKey d)) amt t1 = Ok t'"
    "tree_rep 2 t' h' (insert (accumulationKey d) K) (f(accumulationKey d := f (accumulationKey d) + amt))"
    by (auto simp: yields_def)
  moreover have "insert (accumulationKey d) K \<subseteq> insert [] (range accumulationKey)" using t(3) by auto
  ultimately have "acc_is t' (f(accumulationKey d := f (accumulationKey d) + amt))" unfolding acc_is_def by blast
  with \<open>tree_Increase A 10 (Some (accumulationKey d)) amt t1 = Ok t'\<close> t(1) show ?thesis by simp
qed

lemma acc_is_Decrease:
  assumes "acc_is t f" "room bits f amt"
  shows "\<exists>t'. obind (NewTree A 10 t) (tree_Decrease A 10 (Some (accumulationKey d)) amt) = Ok t' \<and>
    acc_is t' (f(accumulationKey d := f (accumulationKey d) - amt))"
  using acc_is_Increase[OF assms(1), of "- amt" d] assms(2) by (simp add: room_def tree_Decrease_def[abs_def] neg_law)

lemma acc_is_Subset:
  assumes "acc_is t f" "room bits f 0"
  shows "\<exists>t' K. NewTree A 10 t = Ok t' \<and> acc_is t' f \<and> finite K \<and> (\<forall>k. k \<notin> K \<longrightarrow> f k = 0) \<and>
    SubsetAccumulation A t' (Some b) None = Ok (\<Sum>y | y \<in> K \<and> b \<le> y. f y)"
proof -
  obtain t1 h K where t: "NewTree A 10 t = Ok t1" "tree_rep 2 t1 h K f" "K \<subseteq> insert [] (range accumulationKey)"
    using acc_is_open[OF assms(1)] by blast
  have "h \<le> 65" by (rule acc_height[OF t(2,3)])
  have K: "finite K" "\<forall>k. k \<notin> K \<longrightarrow> f k = 0" using t(2) tower_facts by (auto simp: tree_rep_def)
  have "68 * mass K f < 2 ^ bits" using assms(2) K(1) by (auto simp: room_def)
  then have m: "mass K f < 2 ^ bits" using mass_nonneg[of K f] by linarith
  have "SplitAcc A t1 key = Ok (split_sums K f key)" for key
    using SplitAcc_rep[OF t(2) _ m, of key] \<open>h \<le> 65\<close> by (simp add: yields_eq_iff)
  from SubsetAccumulation_sums(2)[OF m K this] t K show ?thesis unfolding acc_is_def by blast
qed

end

section \<open>Coins and sums of locks\<close>

lemma set_store_set: "set (store_set k v s) \<subseteq> insert (k, v) (set s)"
  by (induction k v s rule: store_set.induct) auto

definition coins_amount :: "Coins \<Rightarrow> string \<Rightarrow> int" where
  "coins_amount cs d = (\<Sum>c\<leftarrow>cs. if Denom c = d then Amount c else 0)"

definition coins_valid :: "Coins \<Rightarrow> bool" where
  "coins_valid cs \<longleftrightarrow> distinct (map Denom cs) \<and> (\<forall>c \<in> set cs. 0 < Amount c)"

lemma coins_amount_simps [simp]:
  "coins_amount [] d = 0"
  "coins_amount (c # cs) d = (if Denom c = d then Amount c else 0) + coins_amount cs d"
  by (simp_all add: coins_amount_def)

lemma coins_amount_absent: "d \<notin> Denom ` set cs \<Longrightarrow> coins_amount cs d = 0"
  by (induction cs) auto

lemma coins_amount_nonneg: "coins_valid cs \<Longrightarrow> 0 \<le> coins_amount cs d"
  by (induction cs) (auto simp: coins_valid_def)

lemma coins_amount_mem: "coins_valid cs \<Longrightarrow> c \<in> set cs \<Longrightarrow> coins_amount cs (Denom c) = Amount c"
  by (induction cs) (auto simp: coins_valid_def coins_amount_absent image_iff)

definition locked :: "PeriodLock store \<Rightarrow> (PeriodLock \<Rightarrow> bool) \<Rightarrow> string \<Rightarrow> int" where
  "locked L P d = (\<Sum>p\<leftarrow>L. if P (snd p) then coins_amount (Coins (snd p)) d else 0)"

text \<open>What the accumulation store of a denomination should hold.\<close>

definition acc_of :: "PeriodLock store \<Rightarrow> string \<Rightarrow> string \<Rightarrow> int" where
  "acc_of L d key = locked L (\<lambda>l. accumulationKey (Duration l) = key) d"

definition locks_ok :: "PeriodLock store \<Rightarrow> uint64 \<Rightarrow> bool" where
  "locks_ok L n \<longleftrightarrow> store_ok L \<and>
     (\<forall>p \<in> set L. fst p = lockStoreKey (ID (snd p)) \<and> coins_valid (Coins (snd p)) \<and> unat (ID (snd p)) \<le> unat n)"

lemma locked_nonneg: "locks_ok L n \<Longrightarrow> 0 \<le> locked L P d"
  unfolding locked_def locks_ok_def by (intro sum_list_nonneg) (auto simp: coins_amount_nonneg)

lemma locked_set:
  assumes "store_ok L"
  shows "locked (store_set k l L) P d =
    locked L P d - (case store_get L k of None \<Rightarrow> 0 | Some w \<Rightarrow> if P w then coins_amount (Coins w) d else 0)
    + (if P l then coins_amount (Coins l) d else 0)"
  using sum_store_set[OF assms, of "\<lambda>p. if P (snd p) then coins_amount (Coins (snd p)) d else 0" k l]
  by (simp add: locked_def split: option.splits)

lemma locked_delete:
  assumes "store_ok L"
  shows "locked (store_delete k L) P d =
    locked L P d - (case store_get L k of None \<Rightarrow> 0 | Some w \<Rightarrow> if P w then coins_amount (Coins w) d else 0)"
  using sum_store_delete[OF assms, of "\<lambda>p. if P (snd p) then coins_amount (Coins (snd p)) d else 0" k]
  by (simp add: locked_def split: option.splits)

lemma locked_mem:
  assumes "locks_ok L n" "store_get L k = Some l"
  shows "coins_amount (Coins l) d \<le> locked L (\<lambda>_. True) d"
proof -
  have "0 \<le> locked (store_delete k L) (\<lambda>_. True) d"
  proof -
    have "locks_ok (store_delete k L) n" using assms(1) by (auto simp: locks_ok_def store_delete_ok) (auto simp: store_delete_def)
    then show ?thesis by (rule locked_nonneg)
  qed
  then show ?thesis using locked_delete[of L k "\<lambda>_. True" d] assms by (simp add: locks_ok_def)
qed

lemma mass_acc_of:
  assumes "locks_ok L n" "finite K"
  shows "mass K (acc_of L d) \<le> locked L (\<lambda>_. True) d"
proof -
  have nn: "\<forall>p \<in> set L. 0 \<le> coins_amount (Coins (snd p)) d" using assms(1) by (auto simp: locks_ok_def coins_amount_nonneg)
  have "mass K (acc_of L d) = (\<Sum>k\<in>K. acc_of L d k)"
    unfolding mass_def using locked_nonneg[OF assms(1)] by (intro sum.cong) (auto simp: acc_of_def)
  also have "\<dots> = (\<Sum>p\<leftarrow>L. \<Sum>k\<in>K. if accumulationKey (Duration (snd p)) = k then coins_amount (Coins (snd p)) d else 0)"
    unfolding acc_of_def locked_def using assms(2) by (induction L) (auto simp: sum.distrib)
  also have "\<dots> \<le> (\<Sum>p\<leftarrow>L. coins_amount (Coins (snd p)) d)"
    using nn assms(2) by (intro sum_list_mono) (auto simp: sum.delta')
  finally show ?thesis by (simp add: locked_def)
qed

lemma room_acc_of:
  assumes "locks_ok L n" "locked L (\<lambda>_. True) d \<le> 2 ^ 248" "\<bar>x\<bar> \<le> 2 ^ 248"
  shows "room 256 (acc_of L d) x"
proof -
  have "68 * mass K (acc_of L d) + \<bar>x\<bar> < 2 ^ 256" if "finite K" for K
    using mass_acc_of[OF assms(1) that, of d] assms(2,3) by simp
  then show ?thesis by (simp add: room_def)
qed

lemma room_update:
  assumes "\<forall>K. finite K \<longrightarrow> mass K f \<le> 2 ^ 248" "\<bar>y\<bar> \<le> 2 ^ 248" "\<bar>x\<bar> \<le> 2 ^ 248"
  shows "room 256 (f(k := f k + y)) x"
proof -
  have "68 * mass K (f(k := f k + y)) + \<bar>x\<bar> < 2 ^ 256" if "finite K" for K
  proof -
    have "mass K (f(k := f k + y)) \<le> (\<Sum>z\<in>K. \<bar>f z\<bar> + (if z = k then \<bar>y\<bar> else 0))"
      unfolding mass_def by (intro sum_mono) auto
    also have "\<dots> \<le> mass K f + \<bar>y\<bar>" using that by (simp add: sum.distrib mass_def sum.delta)
    finally have "mass K (f(k := f k + y)) \<le> 2 ^ 249" using assms(1,2) that by fastforce
    then show ?thesis using assms(3) by simp
  qed
  then show ?thesis by (simp add: room_def)
qed

section \<open>Synthetic denominations\<close>

text \<open>The denominations whose store the code also changes for synthetic locks, or for the lack of one.\<close>

definition side_denom :: "string \<Rightarrow> bool" where
  "side_denom d \<longleftrightarrow> d = '''' \<or> IsSyntheticDenom d"

definition synths_ok :: "'b lockup_state \<Rightarrow> bool" where
  "synths_ok s \<longleftrightarrow> store_ok (synth_store s) \<and> (\<forall>p \<in> set (synth_store s). side_denom (SynthDenom (snd p)))"

end
