(* ===== verification/Lockup_Inv.thy ===== *)
theory Lockup_Inv
  imports Lockup_Books
begin

text \<open>
  The invariant of the lockup module over all sequences of its operations: the module account holds exactly the
  locked coins, and the accumulation store of every native denomination holds, for every duration, the
  sum of the locks of that duration.
\<close>

section \<open>The books of a state\<close>

definition books ::
  "('b \<Rightarrow> string \<Rightarrow> int) \<Rightarrow> 'b lockup_state \<Rightarrow> PeriodLock store \<Rightarrow> (string \<Rightarrow> string \<Rightarrow> int) \<Rightarrow> (string \<Rightarrow> int) \<Rightarrow> uint64 \<Rightarrow> bool" where
  "books bal s L a B n \<longleftrightarrow> lock_store s = L \<and> (\<forall>d. \<not> side_denom d \<longrightarrow> acc_is (acc_store s d) (a d)) \<and>
     bal (outside s) = B \<and> last_lock_id s = n \<and> synths_ok s"

definition lockup_inv :: "('b \<Rightarrow> string \<Rightarrow> int) \<Rightarrow> 'b lockup_state \<Rightarrow> bool" where
  "lockup_inv bal s \<longleftrightarrow> locks_ok (lock_store s) (last_lock_id s) \<and>
     books bal s (lock_store s) (acc_of (lock_store s)) (locked (lock_store s) (\<lambda>_. True)) (last_lock_id s)"

lemma books_setLock: "books bal s L a B n \<Longrightarrow> books bal (setLock l s) (store_set (lockStoreKey (ID l)) l L) a B n"
  by (simp add: books_def setLock_def synths_ok_def)

lemma books_deleteLock: "books bal s L a B n \<Longrightarrow> books bal (deleteLock i s) (store_delete (lockStoreKey i) L) a B n"
  by (simp add: books_def deleteLock_def synths_ok_def)

lemma books_SetLastLockID: "books bal s L a B n \<Longrightarrow> books bal (SetLastLockID i s) L a B i"
  by (simp add: books_def SetLastLockID_def synths_ok_def)

lemma books_refs: "books bal (s\<lparr>ref_store := r\<rparr>) L a B n \<longleftrightarrow> books bal s L a B n"
  by (simp add: books_def synths_ok_def)

lemma books_addLockRefByKey: "addLockRefByKey k i s = Ok s' \<Longrightarrow> books bal s L a B n \<Longrightarrow> books bal s' L a B n"
  by (auto simp: addLockRefByKey_def Let_def books_refs split: if_splits)

lemma books_deleteLockRefByKey: "books bal (deleteLockRefByKey k i s) L a B n \<longleftrightarrow> books bal s L a B n"
  by (simp add: deleteLockRefByKey_def books_refs)

lemma books_delete_refs: "books bal (fold (\<lambda>k. deleteLockRefByKey (f k) i) ks s) L a B n \<longleftrightarrow> books bal s L a B n"
  by (induction ks arbitrary: s) (simp_all add: books_deleteLockRefByKey)

lemma books_addLockRefs: "addLockRefs E l s = Ok s' \<Longrightarrow> books bal s L a B n \<Longrightarrow> books bal s' L a B n"
  unfolding addLockRefs_def go_simps
  by (elim exE conjE, rule ofold_invariant[where I = "\<lambda>s. books bal s L a B n"]) (auto intro: books_addLockRefByKey)

lemma books_addSyntheticLockRefs: "addSyntheticLockRefs E l y s = Ok s' \<Longrightarrow> books bal s L a B n \<Longrightarrow> books bal s' L a B n"
  unfolding addSyntheticLockRefs_def go_simps
  by (elim exE conjE, rule ofold_invariant[where I = "\<lambda>s. books bal s L a B n"]) (auto intro: books_addLockRefByKey)

lemma books_deleteLockRefs: "deleteLockRefs E p l s = Ok s' \<Longrightarrow> books bal s L a B n \<Longrightarrow> books bal s' L a B n"
  by (auto simp: deleteLockRefs_def go_simps books_delete_refs)

lemma books_deleteSyntheticLockRefs: "deleteSyntheticLockRefs E l y s = Ok s' \<Longrightarrow> books bal s L a B n \<Longrightarrow> books bal s' L a B n"
  by (auto simp: deleteSyntheticLockRefs_def go_simps books_delete_refs)

lemma books_setSynthetic:
  assumes "books bal s L a B n" "side_denom (SynthDenom y)"
  shows "books bal (setSyntheticLockupObject E y s) L a B n"
proof -
  have "store_ok (store_set k y (synth_store s)) \<and> (\<forall>p \<in> set (store_set k y (synth_store s)). side_denom (SynthDenom (snd p)))" for k
    using assms set_store_set[of k y "synth_store s"] by (auto simp: books_def synths_ok_def store_set_ok)
  then show ?thesis using assms by (auto simp: books_def setSyntheticLockupObject_def synths_ok_def Let_def)
qed

lemma books_deleteSynthetic: "books bal s L a B n \<Longrightarrow> books bal (deleteSyntheticLockupObject E i y s) L a B n"
  by (auto simp: books_def deleteSyntheticLockupObject_def synths_ok_def Let_def store_delete_ok split: outcome.splits)
    (auto simp: store_delete_def)

lemma books_synth: "books bal s L a B n \<Longrightarrow> GetSyntheticLockup s i y = Ok x \<Longrightarrow> side_denom (SynthDenom x)"
  by (auto simp: books_def synths_ok_def GetSyntheticLockup_def store_get_def dest!: map_of_SomeD split: option.splits)

lemma books_synth_of:
  assumes "books bal s L a B n" "GetSyntheticLockupByUnderlyingLockId s i = Ok (x, found)"
  shows "side_denom (SynthDenom x)"
proof -
  have "x = SyntheticLock_zero \<or> x \<in> snd ` set (synth_store s)"
    using assms(2) by (auto simp: GetSyntheticLockupByUnderlyingLockId_def Let_def store_prefix_def split: if_splits list.splits)
      (metis (mono_tags, lifting) filter_eq_ConsD image_iff in_set_conv_decomp map_eq_Cons_D set_filter mem_Collect_eq list.set_intros(1) snd_conv)
  then show ?thesis using assms(1) by (auto simp: books_def synths_ok_def SyntheticLock_zero_def side_denom_def)
qed

section \<open>The environment\<close>

text \<open>
  What the module relies on: coins are added and subtracted by denomination, the bank books what it moves, hooks
  do not move coins of the lockup account, and no balance exceeds \<open>2 ^ 248\<close>.
\<close>

locale lockup_laws =
  fixes E :: "'b lockup_env" and bal :: "'b \<Rightarrow> string \<Rightarrow> int"
  assumes ints: "checked_arith 256 (amt_Add (int_lib E)) (amt_Sub (int_lib E)) (amt_Neg (int_lib E))"
    and new_coins: "NewCoins E cs = Ok r \<Longrightarrow> coins_valid cs \<Longrightarrow> coins_valid r \<and> coins_amount r = coins_amount cs"
    and coins_add: "Coins_Add E x y = Ok r \<Longrightarrow> coins_valid x \<Longrightarrow> coins_valid y \<Longrightarrow>
      coins_valid r \<and> (\<forall>d. coins_amount r d = coins_amount x d + coins_amount y d)"
    and coins_sub: "Coins_Sub E x y = Ok r \<Longrightarrow> coins_valid x \<Longrightarrow> coins_valid y \<Longrightarrow>
      coins_valid r \<and> (\<forall>d. coins_amount r d = coins_amount x d - coins_amount y d)"
    and send_in: "SendCoinsFromAccountToModule E b addr cs = Ok b' \<Longrightarrow> bal b' d = bal b d + coins_amount cs d"
    and send_out: "SendCoinsFromModuleToAccount E b addr cs = Ok b' \<Longrightarrow> bal b' d = bal b d - coins_amount cs d"
    and burn: "BurnCoins E b cs = Ok b' \<Longrightarrow> bal b' d = bal b d - coins_amount cs d"
    and fund: "FundCommunityPool E b cs addr = Ok b' \<Longrightarrow>
      bal b' d = bal b d - (if addr = module_address E then coins_amount cs d else 0)"
    and hook_keeps: "hooks E = Some f \<Longrightarrow> bal (f h b) = bal b"
    and supply_bound: "0 \<le> bal b d \<and> bal b d \<le> 2 ^ 248"
begin

lemma amounts_ok: "sum_amounts 256 (int_lib E)"
  using ints by (simp add: sum_amounts_def)

lemma books_bound: "books bal s L a B n \<Longrightarrow> 0 \<le> B d \<and> B d \<le> 2 ^ 248"
  using supply_bound[of "outside s" d] by (auto simp: books_def)

lemma books_hooks: "call_hooks E h s = Ok s' \<Longrightarrow> books bal s L a B n \<Longrightarrow> books bal s' L a B n"
  by (auto simp: call_hooks_def books_def synths_ok_def hook_keeps split: option.splits)

lemma books_hooks_if_set: "call_hooks_if_set E h s = Ok s' \<Longrightarrow> books bal s L a B n \<Longrightarrow> books bal s' L a B n"
  by (auto simp: call_hooks_if_set_def books_hooks split: if_splits)

lemma books_outside:
  assumes "with_outside f s = Ok s'" "books bal s L a B n" "\<And>b b' d. f b = Ok b' \<Longrightarrow> bal b' d = bal b d + g d"
  shows "books bal s' L a (\<lambda>d. B d + g d) n"
proof -
  from assms(1) obtain b where b: "f (outside s) = Ok b" "s' = s\<lparr>outside := b\<rparr>"
    unfolding with_outside_def by (auto simp: go_simps)
  have "bal b = (\<lambda>d. B d + g d)" using assms(3)[OF b(1)] assms(2) by (auto simp: books_def)
  then show ?thesis using assms(2) b(2) by (simp add: books_def synths_ok_def)
qed

lemma acc_Increase_books:
  assumes "acc_Increase E d dur amt s = Ok s'" "books bal s L a B n" "side_denom d \<or> room 256 (a d) amt"
  shows "books bal s' L (a(d := (a d)(accumulationKey dur := a d (accumulationKey dur) + amt))) B n"
proof -
  from assms(1) obtain t where t: "obind (NewTree (int_lib E) 10 (acc_store s d))
      (tree_Increase (int_lib E) 10 (Some (accumulationKey dur)) amt) = Ok t" and s': "s' = s\<lparr>acc_store := (acc_store s)(d := t)\<rparr>"
    unfolding acc_Increase_def accumulationStore_def by (auto simp: go_simps)
  have "acc_is t ((a d)(accumulationKey dur := a d (accumulationKey dur) + amt))" if "\<not> side_denom d"
    using sum_amounts.acc_is_Increase[OF amounts_ok, of "acc_store s d" "a d" amt dur] that assms(2,3) t by (simp add: books_def)
  then show ?thesis using assms(2) unfolding s' by (auto simp: books_def synths_ok_def)
qed

lemma acc_Decrease_books:
  assumes "acc_Decrease E d dur amt s = Ok s'" "books bal s L a B n" "side_denom d \<or> room 256 (a d) amt"
  shows "books bal s' L (a(d := (a d)(accumulationKey dur := a d (accumulationKey dur) - amt))) B n"
proof -
  from assms(1) obtain t where t: "obind (NewTree (int_lib E) 10 (acc_store s d))
      (tree_Decrease (int_lib E) 10 (Some (accumulationKey dur)) amt) = Ok t" and s': "s' = s\<lparr>acc_store := (acc_store s)(d := t)\<rparr>"
    unfolding acc_Decrease_def accumulationStore_def by (auto simp: go_simps)
  have "acc_is t ((a d)(accumulationKey dur := a d (accumulationKey dur) - amt))" if "\<not> side_denom d"
    using sum_amounts.acc_is_Decrease[OF amounts_ok, of "acc_store s d" "a d" amt dur] that assms(2,3) t by (simp add: books_def)
  then show ?thesis using assms(2) unfolding s' by (auto simp: books_def synths_ok_def)
qed

lemma books_side: "side_denom d \<Longrightarrow> books bal s L (a(d := f)) B n \<Longrightarrow> books bal s L a B n"
  unfolding books_def by (metis fun_upd_other)

lemma books_cong: "books bal s L a B n \<Longrightarrow> (\<And>d. \<not> side_denom d \<Longrightarrow> a d = a' d) \<Longrightarrow> B = B' \<Longrightarrow> books bal s L a' B' n"
  by (auto simp: books_def)

text \<open>A loop over coins changes every store at most once.\<close>

definition shifted :: "(string \<Rightarrow> string \<Rightarrow> int) \<Rightarrow> int64 \<Rightarrow> (string \<Rightarrow> int) \<Rightarrow> string \<Rightarrow> string \<Rightarrow> int" where
  "shifted a dur x = (\<lambda>d. (a d)(accumulationKey dur := a d (accumulationKey dur) + x d))"

lemma acc_loop_books:
  assumes "ofold f cs s = Ok s'" "books bal s L a B n" "distinct (map Denom cs)"
    and "\<And>c s s' a. c \<in> set cs \<Longrightarrow> f c s = Ok s' \<Longrightarrow> books bal s L a B n \<Longrightarrow> side_denom (Denom c) \<or> ok c (a (Denom c)) \<Longrightarrow>
      books bal s' L (a(Denom c := g c (a (Denom c)))) B n"
    and "\<And>c. c \<in> set cs \<Longrightarrow> side_denom (Denom c) \<or> ok c (a (Denom c))"
  shows "books bal s' L (\<lambda>d. case find (\<lambda>c. Denom c = d) cs of None \<Rightarrow> a d | Some c \<Rightarrow> g c (a d)) B n"
  using assms
proof (induction cs arbitrary: s a)
  case (Cons c cs)
  from Cons.prems(1) obtain t where t: "f c s = Ok t" "ofold f cs t = Ok s'" by (auto simp: go_simps)
  let ?a = "a(Denom c := g c (a (Denom c)))"
  have b: "books bal t L ?a B n" using Cons.prems(4)[OF _ t(1) Cons.prems(2)] Cons.prems(5)[of c] by (simp del: fun_upd_apply)
  have "books bal s' L (\<lambda>d. case find (\<lambda>c. Denom c = d) cs of None \<Rightarrow> ?a d | Some c \<Rightarrow> g c (?a d)) B n"
    using Cons.prems(3-5) by (intro Cons.IH[OF t(2) b]) (auto simp: image_iff)
  moreover have "find (\<lambda>c'. Denom c' = Denom c) cs = None" using Cons.prems(3) unfolding find_None_iff
    by (metis distinct.simps(2) image_eqI list.simps(9) set_map)
  ultimately show ?case by (elim books_cong) (auto split: option.splits)
qed simp

lemma find_coin: "coins_valid cs \<Longrightarrow> (case find (\<lambda>c. Denom c = d) cs of None \<Rightarrow> 0 | Some c \<Rightarrow> Amount c) = coins_amount cs d"
  by (induction cs) (auto simp: coins_valid_def coins_amount_absent)

lemma find_coin_amount:
  assumes "coins_valid cs"
  shows "find (\<lambda>c. Denom c = d) cs = None \<Longrightarrow> coins_amount cs d = 0"
    and "find (\<lambda>c. Denom c = d) cs = Some c \<Longrightarrow> coins_amount cs d = Amount c"
  using find_coin[OF assms, of d] by auto

lemma acc_Increase_loop:
  assumes "ofold (\<lambda>coin. acc_Increase E (Denom coin) dur (Amount coin)) cs s = Ok s'" "books bal s L a B n" "coins_valid cs"
    and "\<And>c. c \<in> set cs \<Longrightarrow> \<not> side_denom (Denom c) \<Longrightarrow> room 256 (a (Denom c)) (Amount c)"
  shows "books bal s' L (shifted a dur (coins_amount cs)) B n"
proof -
  have "books bal s' L (\<lambda>d. case find (\<lambda>c. Denom c = d) cs of None \<Rightarrow> a d
      | Some c \<Rightarrow> (a d)(accumulationKey dur := a d (accumulationKey dur) + Amount c)) B n"
  proof (rule acc_loop_books[OF assms(1,2), where ok = "\<lambda>c f. room 256 f (Amount c)"])
    show "distinct (map Denom cs)" using assms(3) by (simp add: coins_valid_def)
    show "side_denom (Denom c) \<or> room 256 (a (Denom c)) (Amount c)" if "c \<in> set cs" for c using assms(4)[OF that] by blast
  qed (rule acc_Increase_books)
  then show ?thesis
    by (rule books_cong) (auto simp: shifted_def fun_eq_iff find_coin_amount[OF assms(3)] split: option.splits)
qed

lemma acc_Decrease_loop:
  assumes "ofold (\<lambda>coin. acc_Decrease E (Denom coin) dur (Amount coin)) cs s = Ok s'" "books bal s L a B n" "coins_valid cs"
    and "\<And>c. c \<in> set cs \<Longrightarrow> \<not> side_denom (Denom c) \<Longrightarrow> room 256 (a (Denom c)) (Amount c)"
  shows "books bal s' L (shifted a dur (\<lambda>d. - coins_amount cs d)) B n"
proof -
  have "books bal s' L (\<lambda>d. case find (\<lambda>c. Denom c = d) cs of None \<Rightarrow> a d
      | Some c \<Rightarrow> (a d)(accumulationKey dur := a d (accumulationKey dur) - Amount c)) B n"
  proof (rule acc_loop_books[OF assms(1,2), where ok = "\<lambda>c f. room 256 f (Amount c)"])
    show "distinct (map Denom cs)" using assms(3) by (simp add: coins_valid_def)
    show "side_denom (Denom c) \<or> room 256 (a (Denom c)) (Amount c)" if "c \<in> set cs" for c using assms(4)[OF that] by blast
  qed (rule acc_Decrease_books)
  then show ?thesis
    by (rule books_cong) (auto simp: shifted_def fun_eq_iff find_coin_amount[OF assms(3)] split: option.splits)
qed

end

end
