(* ===== verification/Lockup_Steps.thy ===== *)
theory Lockup_Steps
  imports Lockup_Inv
begin

text \<open>Every operation of the keeper that returns keeps the invariant of the lockup module.\<close>

section \<open>Changing one lock\<close>

lemma lockup_invI:
  "locks_ok L n \<Longrightarrow> books bal s L a B n \<Longrightarrow> (\<And>d. \<not> side_denom d \<Longrightarrow> a d = acc_of L d) \<Longrightarrow> (\<And>d. B d = locked L (\<lambda>_. True) d) \<Longrightarrow>
    lockup_inv bal s"
  by (auto simp: lockup_inv_def books_def)

lemma lockup_invD:
  assumes "lockup_inv bal s"
  shows "locks_ok (lock_store s) (last_lock_id s)"
    "books bal s (lock_store s) (acc_of (lock_store s)) (locked (lock_store s) (\<lambda>_. True)) (last_lock_id s)"
  using assms by (auto simp: lockup_inv_def)

lemma GetLockByID_iff: "GetLockByID s i = Ok l \<longleftrightarrow> store_get (lock_store s) (lockStoreKey i) = Some l"
  by (auto simp: GetLockByID_def split: option.splits)

lemma stored_lock:
  assumes "locks_ok L n" "store_get L (lockStoreKey i) = Some l"
  shows "ID l = i" "coins_valid (Coins l)" "unat i \<le> unat n"
proof -
  have m: "(lockStoreKey i, l) \<in> set L" using assms store_get_iff[of L] by (simp add: locks_ok_def)
  then show "ID l = i" using assms(1) by (fastforce simp: locks_ok_def)
  with m show "coins_valid (Coins l)" "unat i \<le> unat n" using assms(1) by (fastforce simp: locks_ok_def)+
qed

lemma locks_ok_set:
  assumes "locks_ok L n" "coins_valid (Coins l)" "unat (ID l) \<le> unat n'" "unat n \<le> unat n'"
  shows "locks_ok (store_set (lockStoreKey (ID l)) l L) n'"
  using assms set_store_set[of "lockStoreKey (ID l)" l L] by (fastforce simp: locks_ok_def store_set_ok)

lemma locks_ok_delete: "locks_ok L n \<Longrightarrow> locks_ok (store_delete k L) n"
  by (auto simp: locks_ok_def store_delete_ok) (auto simp: store_delete_def)

lemma fresh_id:
  assumes "locks_ok L n" "n + 1 \<noteq> 0"
  shows "unat (n + 1) = unat n + 1" "store_get L (lockStoreKey (n + 1)) = None"
proof -
  show u: "unat (n + 1) = unat n + 1" using assms(2) by (metis Suc_eq_plus1 add.commute unatSuc)
  show "store_get L (lockStoreKey (n + 1)) = None"
    using stored_lock(3)[OF assms(1), of "n + 1"] u by (cases "store_get L (lockStoreKey (n + 1))") auto
qed

lemma acc_of_set:
  assumes "store_ok L"
  shows "acc_of (store_set k l L) d key = acc_of L d key -
    (case store_get L k of None \<Rightarrow> 0 | Some w \<Rightarrow> if accumulationKey (Duration w) = key then coins_amount (Coins w) d else 0) +
    (if accumulationKey (Duration l) = key then coins_amount (Coins l) d else 0)"
  unfolding acc_of_def by (rule locked_set[OF assms])

lemma acc_of_delete:
  assumes "store_ok L"
  shows "acc_of (store_delete k L) d key = acc_of L d key -
    (case store_get L k of None \<Rightarrow> 0 | Some w \<Rightarrow> if accumulationKey (Duration w) = key then coins_amount (Coins w) d else 0)"
  unfolding acc_of_def by (rule locked_delete[OF assms])

lemma locks_ok_store: "locks_ok L n \<Longrightarrow> store_ok L"
  by (simp add: locks_ok_def)

section \<open>The operations\<close>

context lockup_laws
begin

lemma inv_room:
  assumes "lockup_inv bal s" "\<bar>x\<bar> \<le> 2 ^ 248"
  shows "room 256 (acc_of (lock_store s) d) x"
  using books_bound[OF lockup_invD(2)[OF assms(1)], of d] room_acc_of[OF lockup_invD(1)[OF assms(1)], of d x] assms(2) by simp

lemma lock_coins_books:
  assumes "lock_coins E l cs s = Ok s'" "books bal s L a B n" "coins_valid cs"
    and "\<And>c. c \<in> set cs \<Longrightarrow> \<not> side_denom (Denom c) \<Longrightarrow> room 256 (a (Denom c)) (Amount c)"
  shows "books bal s' (store_set (lockStoreKey (ID l)) l L) (shifted a (Duration l) (coins_amount cs)) B n"
proof -
  from assms(1) obtain s1 owner where
    1: "ofold (\<lambda>coin. acc_Increase E (Denom coin) (Duration l) (Amount coin)) cs (setLock l s) = Ok s1" and
    2: "call_hooks E (OnTokenLocked owner (ID l) (Coins l) (Duration l) (EndTime l)) s1 = Ok s'"
    unfolding lock_coins_def by (auto simp: go_simps)
  show ?thesis
    by (rule books_hooks[OF 2 acc_Increase_loop[OF 1 books_setLock[OF assms(2)] assms(3,4)]])
qed

lemma CreateLock_inv:
  assumes "lockup_inv bal s" "CreateLock E owner cs dur s = Ok (l, s')" "coins_valid cs" "last_lock_id s + 1 \<noteq> 0"
  shows "lockup_inv bal s'"
proof -
  let ?L = "lock_store s" and ?n = "last_lock_id s"
  let ?l = "NewPeriodLock E (?n + 1) owner '''' dur time_zero cs"
  note L = lockup_invD(1)[OF assms(1)] and b0 = lockup_invD(2)[OF assms(1)]
  from assms(2) obtain s1 s2 s3 where
    1: "with_outside (\<lambda>b. SendCoinsFromAccountToModule E b owner cs) s = Ok s1" and
    2: "lock_coins E (NewPeriodLock E (GetLastLockID s1 + 1) owner '''' dur time_zero cs) cs s1 = Ok s2" and
    3: "addLockRefs E (NewPeriodLock E (GetLastLockID s1 + 1) owner '''' dur time_zero cs) s2 = Ok s3" and
    4: "s' = SetLastLockID (GetLastLockID s1 + 1) s3"
    unfolding CreateLock_def CreateLockNoSend_def Let_def by (auto simp: go_simps NewPeriodLock_def)
  have b1: "books bal s1 ?L (acc_of ?L) (\<lambda>d. locked ?L (\<lambda>_. True) d + coins_amount cs d) ?n"
    by (rule books_outside[OF 1 b0]) (rule send_in)
  have n1: "GetLastLockID s1 = ?n" using b1 by (simp add: books_def GetLastLockID_def)
  have amt: "Amount c \<le> 2 ^ 248" "0 \<le> Amount c" if "c \<in> set cs" for c
    using books_bound[OF b1, of "Denom c"] locked_nonneg[OF L] coins_amount_mem[OF assms(3) that] assms(3) that
    by (auto simp: coins_valid_def intro: order_trans less_imp_le) (smt (verit))
  have "books bal s2 (store_set (lockStoreKey (ID ?l)) ?l ?L) (shifted (acc_of ?L) (Duration ?l) (coins_amount cs))
      (\<lambda>d. locked ?L (\<lambda>_. True) d + coins_amount cs d) ?n"
    by (rule lock_coins_books[OF 2[unfolded n1] b1 assms(3)]) (use amt in \<open>auto intro!: inv_room[OF assms(1)]\<close>)
  from books_SetLastLockID[OF books_addLockRefs[OF 3 this], of "?n + 1"]
  have b4: "books bal s' (store_set (lockStoreKey (?n + 1)) ?l ?L) (shifted (acc_of ?L) dur (coins_amount cs))
      (\<lambda>d. locked ?L (\<lambda>_. True) d + coins_amount cs d) (?n + 1)"
    unfolding 4 n1 by (simp add: NewPeriodLock_def)
  note f = fresh_id[OF L assms(4)]
  have "locks_ok (store_set (lockStoreKey (ID ?l)) ?l ?L) (?n + 1)"
    using f(1) assms(3) by (intro locks_ok_set[OF L]) (auto simp: NewPeriodLock_def)
  then show ?thesis
    using f(2) b4
    by (intro lockup_invI[OF _ b4])
       (auto simp: NewPeriodLock_def shifted_def fun_eq_iff acc_of_set[OF locks_ok_store[OF L]] locked_set[OF locks_ok_store[OF L]])
qed

text \<open>A stored lock gets other coins or another end; the stores follow the difference.\<close>

lemma replace_inv:
  assumes "locks_ok L n" "store_get L (lockStoreKey i) = Some w" "ID l = i" "Duration l = Duration w" "coins_valid (Coins l)"
    and b: "books bal s' (store_set (lockStoreKey (ID l)) l L) a B n"
    and a: "\<And>d. \<not> side_denom d \<Longrightarrow> a d = shifted (acc_of L) (Duration w) (\<lambda>d. coins_amount (Coins l) d - coins_amount (Coins w) d) d"
    and B: "\<And>d. B d = locked L (\<lambda>_. True) d + (coins_amount (Coins l) d - coins_amount (Coins w) d)"
  shows "lockup_inv bal s'"
proof (rule lockup_invI[OF _ b])
  note ok = locks_ok_store[OF assms(1)]
  show "locks_ok (store_set (lockStoreKey (ID l)) l L) n"
    using stored_lock[OF assms(1,2)] assms(3,5) by (intro locks_ok_set[OF assms(1)]) auto
  show "a d = acc_of (store_set (lockStoreKey (ID l)) l L) d" if "\<not> side_denom d" for d
    unfolding a[OF that] using assms(2,3,4) by (auto simp: shifted_def fun_eq_iff acc_of_set[OF ok])
  show "B d = locked (store_set (lockStoreKey (ID l)) l L) (\<lambda>_. True) d" for d
    unfolding B using assms(2,3) by (simp add: locked_set[OF ok])
qed

lemma AddTokensToLockByID_inv:
  assumes "lockup_inv bal s" "AddTokensToLockByID E i owner tok s = Ok (l', s')" "0 < Amount tok"
  shows "lockup_inv bal s'"
proof -
  let ?L = "lock_store s" and ?n = "last_lock_id s"
  note L = lockup_invD(1)[OF assms(1)] and b0 = lockup_invD(2)[OF assms(1)]
  from assms(2) obtain w coins added s1 s2 y found s3 where
    w: "GetLockByID s i = Ok w" and c: "Coins_Add E (Coins w) [tok] = Ok coins" and a: "NewCoins E [tok] = Ok added" and
    1: "with_outside (\<lambda>b. SendCoinsFromAccountToModule E b owner added) s = Ok s1" and
    2: "lock_coins E (w\<lparr>Coins := coins\<rparr>) added s1 = Ok s2" and
    y: "GetSyntheticLockupByUnderlyingLockId s2 (ID w) = Ok (y, found)" and
    3: "acc_Increase E (SynthDenom y) (SynthDuration y) (Amount tok) s2 = Ok s3" and
    4: "s' = s3 \<or> (\<exists>h. call_hooks E h s3 = Ok s')"
    unfolding AddTokensToLockByID_def Let_def by (fastforce simp: go_simps split: if_splits)
  note w' = stored_lock[OF L w[unfolded GetLockByID_iff]]
  have t: "coins_valid [tok]" using assms(3) by (simp add: coins_valid_def)
  note cv = coins_add[OF c w'(2) t] and av = new_coins[OF a t]
  have b1: "books bal s1 ?L (acc_of ?L) (\<lambda>d. locked ?L (\<lambda>_. True) d + coins_amount added d) ?n"
    by (rule books_outside[OF 1 b0]) (rule send_in)
  have amt: "\<bar>Amount c\<bar> \<le> 2 ^ 248" if "c \<in> set added" for c
    using books_bound[OF b1, of "Denom c"] locked_nonneg[OF L, of "\<lambda>_. True" "Denom c"]
      coins_amount_mem[OF conjunct1[OF av] that] coins_amount_nonneg[OF conjunct1[OF av], of "Denom c"] by simp
  have b2: "books bal s2 (store_set (lockStoreKey (ID w)) (w\<lparr>Coins := coins\<rparr>) ?L) (shifted (acc_of ?L) (Duration w) (coins_amount added))
      (\<lambda>d. locked ?L (\<lambda>_. True) d + coins_amount added d) ?n"
    using lock_coins_books[OF 2 b1 conjunct1[OF av]] amt inv_room[OF assms(1)] by simp
  have sd: "side_denom (SynthDenom y)" by (rule books_synth_of[OF b2 y])
  have b3: "books bal s3 (store_set (lockStoreKey (ID w)) (w\<lparr>Coins := coins\<rparr>) ?L) (shifted (acc_of ?L) (Duration w) (coins_amount added))
      (\<lambda>d. locked ?L (\<lambda>_. True) d + coins_amount added d) ?n"
    using books_side[OF sd acc_Increase_books[OF 3 b2]] sd by blast
  have "books bal s' (store_set (lockStoreKey (ID w)) (w\<lparr>Coins := coins\<rparr>) ?L) (shifted (acc_of ?L) (Duration w) (coins_amount added))
      (\<lambda>d. locked ?L (\<lambda>_. True) d + coins_amount added d) ?n"
    using 4 b3 books_hooks by blast
  then show ?thesis
    using w' cv av
    by (intro replace_inv[OF L w[unfolded GetLockByID_iff], of "w\<lparr>Coins := coins\<rparr>"]) (auto simp: shifted_def)
qed

lemma start_unlocking_inv:
  assumes "lockup_inv bal s" "start_unlocking E w t s = Ok (l, s')" "GetLockByID s (ID w) = Ok w"
  shows "lockup_inv bal s'" "l = w\<lparr>EndTime := t\<rparr>" "GetLockByID s' (ID w) = Ok l"
proof -
  let ?L = "lock_store s" and ?n = "last_lock_id s"
  note L = lockup_invD(1)[OF assms(1)] and b0 = lockup_invD(2)[OF assms(1)]
  from assms(2) obtain s1 s2 where
    1: "deleteLockRefs E KeyPrefixNotUnlocking w s = Ok s1" and
    2: "addLockRefs E (w\<lparr>EndTime := t\<rparr>) (setLock (w\<lparr>EndTime := t\<rparr>) s1) = Ok s2" and l: "l = w\<lparr>EndTime := t\<rparr>" and
    3: "s' = s2 \<or> (\<exists>h. call_hooks E h s2 = Ok s')"
    unfolding start_unlocking_def Let_def by (auto simp: go_simps split: if_splits)
  show "l = w\<lparr>EndTime := t\<rparr>" by (rule l)
  have b2: "books bal s2 (store_set (lockStoreKey (ID l)) l ?L) (acc_of ?L) (locked ?L (\<lambda>_. True)) ?n"
    using books_addLockRefs[OF 2 books_setLock[OF books_deleteLockRefs[OF 1 b0]]] l by simp
  then have b3: "books bal s' (store_set (lockStoreKey (ID l)) l ?L) (acc_of ?L) (locked ?L (\<lambda>_. True)) ?n"
    using 3 books_hooks by blast
  have w: "store_get ?L (lockStoreKey (ID w)) = Some w" using assms(3) by (simp add: GetLockByID_iff)
  show "lockup_inv bal s'"
    using stored_lock[OF L w] l by (intro replace_inv[OF L w _ _ _ b3]) (auto simp: shifted_def)
  show "GetLockByID s' (ID w) = Ok l"
    using b3 l by (simp add: books_def GetLockByID_iff store_get_set[OF locks_ok_store[OF L]])
qed

lemma SplitLock_inv:
  assumes "lockup_inv bal s" "SplitLock E w cs force s = Ok (l, s')" "GetLockByID s (ID w) = Ok w" "coins_valid cs" "last_lock_id s + 1 \<noteq> 0"
  shows "lockup_inv bal s'" "GetLockByID s' (ID l) = Ok l" "EndTime l = EndTime w"
proof -
  let ?L = "lock_store s" and ?n = "last_lock_id s"
  note L = lockup_invD(1)[OF assms(1)] and b0 = lockup_invD(2)[OF assms(1)]
  from assms(2) obtain rest addr where
    r: "Coins_Sub E (Coins w) cs = Ok rest" and
    l: "l = NewPeriodLock E (?n + 1) addr (RewardReceiverAddress w) (Duration w) (EndTime w) cs" and
    s': "s' = setLock l (SetLastLockID (?n + 1) (setLock (w\<lparr>Coins := rest\<rparr>) s))"
    unfolding SplitLock_def Let_def by (auto simp: go_simps GetLastLockID_def setLock_def split: if_splits)
  have w: "store_get ?L (lockStoreKey (ID w)) = Some w" using assms(3) by (simp add: GetLockByID_iff)
  note w' = stored_lock[OF L w] and rv = coins_sub[OF r stored_lock(2)[OF L w] assms(4)] and f = fresh_id[OF L assms(5)]
  let ?w = "w\<lparr>Coins := rest\<rparr>"
  let ?M = "store_set (lockStoreKey (ID w)) ?w ?L"
  have lid: "ID l = ?n + 1" "Duration l = Duration w" "Coins l = cs" "EndTime l = EndTime w" by (simp_all add: l NewPeriodLock_def)
  show "EndTime l = EndTime w" by (rule lid)
  have ne: "ID w \<noteq> ?n + 1" using f w by auto
  have M: "locks_ok ?M ?n" using locks_ok_set[OF L, of ?w ?n] rv w'(3) by simp
  note okM = locks_ok_store[OF M] and okL = locks_ok_store[OF L]
  have gM: "store_get ?M (lockStoreKey (?n + 1)) = None" using f(2) ne by (simp add: store_get_set[OF okL])
  have b: "books bal s' (store_set (lockStoreKey (ID l)) l ?M) (acc_of ?L) (locked ?L (\<lambda>_. True)) (?n + 1)"
    using books_setLock[OF books_SetLastLockID[OF books_setLock[OF b0, of ?w], of "?n + 1"], of l] unfolding s' by simp
  show "lockup_inv bal s'"
  proof (rule lockup_invI[OF _ b])
    show "locks_ok (store_set (lockStoreKey (ID l)) l ?M) (?n + 1)"
      using f(1) lid assms(4) by (intro locks_ok_set[OF M]) auto
    show "acc_of ?L d = acc_of (store_set (lockStoreKey (ID l)) l ?M) d" for d
      using w rv lid gM by (auto simp: fun_eq_iff acc_of_set[OF okM] acc_of_set[OF okL])
    show "locked ?L (\<lambda>_. True) d = locked (store_set (lockStoreKey (ID l)) l ?M) (\<lambda>_. True) d" for d
      using w rv lid gM by (simp add: locked_set[OF okM] locked_set[OF okL])
  qed
  show "GetLockByID s' (ID l) = Ok l"
    using b by (simp add: books_def GetLockByID_iff store_get_set[OF okM])
qed

lemma split_part_inv:
  assumes "lockup_inv bal s" "GetLockByID s (ID w) = Ok w" "coins_valid cs" "last_lock_id s + 1 \<noteq> 0"
    and "(if cs \<noteq> [] \<and> \<not> Coins_IsEqual E cs (Coins w) then SplitLock E w cs force s else Ok (w, s)) = Ok (l, s')"
  shows "lockup_inv bal s'" "GetLockByID s' (ID l) = Ok l"
  using assms SplitLock_inv[OF assms(1) _ assms(2-4)] by (auto split: if_splits)

lemma beginUnlock_inv:
  assumes "lockup_inv bal s" "beginUnlock E now w cs s = Ok (i, s')" "GetLockByID s (ID w) = Ok w" "coins_valid cs" "last_lock_id s + 1 \<noteq> 0"
  shows "lockup_inv bal s'"
proof -
  from assms(2) obtain l s1 l' where
    1: "(if cs \<noteq> [] \<and> \<not> Coins_IsEqual E cs (Coins w) then SplitLock E w cs False s else Ok (w, s)) = Ok (l, s1)" and
    2: "start_unlocking E l (now + sint (Duration l)) s1 = Ok (l', s')"
    unfolding beginUnlock_def by (auto simp: go_simps split: if_splits)
  note s1 = split_part_inv[OF assms(1,3-5) 1]
  show ?thesis by (rule start_unlocking_inv(1)[OF s1(1) 2 s1(2)])
qed

lemma GetLockByID_self: "lockup_inv bal s \<Longrightarrow> GetLockByID s i = Ok l \<Longrightarrow> ID l = i"
  using stored_lock(1)[OF lockup_invD(1)] by (simp add: GetLockByID_iff)

lemma BeginUnlock_inv:
  assumes "lockup_inv bal s" "BeginUnlock E now i cs s = Ok (j, s')" "coins_valid cs" "last_lock_id s + 1 \<noteq> 0"
  shows "lockup_inv bal s'"
proof -
  from assms(2) obtain w where "GetLockByID s i = Ok w" "beginUnlock E now w cs s = Ok (j, s')"
    unfolding BeginUnlock_def by (auto simp: go_simps split: if_splits)
  then show ?thesis using beginUnlock_inv[OF assms(1) _ _ assms(3,4)] GetLockByID_self[OF assms(1)] by blast
qed

lemma BeginForceUnlock_inv:
  assumes "lockup_inv bal s" "BeginForceUnlock E now i cs s = Ok (j, s')" "coins_valid cs" "last_lock_id s + 1 \<noteq> 0"
  shows "lockup_inv bal s'"
proof -
  from assms(2) obtain w where "GetLockByID s i = Ok w" "beginUnlock E now w cs s = Ok (j, s')"
    unfolding BeginForceUnlock_def by (auto simp: go_simps)
  then show ?thesis using beginUnlock_inv[OF assms(1) _ _ assms(3,4)] GetLockByID_self[OF assms(1)] by blast
qed

lemma BeginForceUnlockWithEndTime_inv:
  assumes "lockup_inv bal s" "BeginForceUnlockWithEndTime E i t s = Ok s'"
  shows "lockup_inv bal s'"
proof -
  from assms(2) obtain w l where "GetLockByID s i = Ok w" "start_unlocking E w t s = Ok (l, s')"
    unfolding BeginForceUnlockWithEndTime_def beginForceUnlockWithEndTime_def by (auto simp: go_simps)
  then show ?thesis using start_unlocking_inv(1)[OF assms(1)] GetLockByID_self[OF assms(1)] by blast
qed

text \<open>Paying out: what is burnt and what is sent together are the coins of the lock.\<close>

lemma unlock_coins_books:
  assumes "ofold (unlock_coin E) cs (final, s) = Ok (final', s')" "books bal s L a B n" "coins_valid cs" "coins_valid final"
  shows "\<exists>X. books bal s' L a (\<lambda>d. B d - X d) n \<and> coins_valid final' \<and>
    (\<forall>d. coins_amount final' d + X d = coins_amount final d + coins_amount cs d)"
  using assms
proof (induction cs arbitrary: final s B)
  case Nil
  then show ?case by (intro exI[of _ "\<lambda>_. 0"]) simp
next
  case (Cons c cs)
  have v: "coins_valid [c]" "coins_valid cs" using Cons.prems(3) by (auto simp: coins_valid_def)
  from Cons.prems(1) obtain final1 s1 where
    1: "unlock_coin E c (final, s) = Ok (final1, s1)" and 2: "ofold (unlock_coin E) cs (final1, s1) = Ok (final', s')"
    by (auto simp: go_simps)
  show ?case
  proof (cases "prefix ConcentratedLiquidityTokenPrefix (Denom c)")
    case True
    then obtain bs where b: "NewCoins E [c] = Ok bs" "with_outside (\<lambda>b. BurnCoins E b bs) s = Ok s1" "final1 = final"
      using 1 by (auto simp: unlock_coin_def go_simps)
    have "books bal s1 L a (\<lambda>d. B d + - coins_amount [c] d) n"
      using new_coins[OF b(1) v(1)] by (intro books_outside[OF b(2) Cons.prems(2)]) (simp add: burn)
    from Cons.IH[OF 2 this v(2)] Cons.prems(4) b(3) obtain X where
      "books bal s' L a (\<lambda>d. B d + - coins_amount [c] d - X d) n" "coins_valid final'"
      "\<forall>d. coins_amount final' d + X d = coins_amount final d + coins_amount cs d" by auto
    then show ?thesis by (intro exI[of _ "\<lambda>d. X d + coins_amount [c] d"]) (auto elim!: books_cong)
  next
    case False
    then have f: "Coins_Add E final [c] = Ok final1" "s1 = s" using 1 by (auto simp: unlock_coin_def go_simps)
    note fv = coins_add[OF f(1) Cons.prems(4) v(1)]
    from Cons.IH[OF 2 Cons.prems(2)[folded f(2)] v(2)] fv obtain X where
      "books bal s' L a (\<lambda>d. B d - X d) n" "coins_valid final'"
      "\<forall>d. coins_amount final' d + X d = coins_amount final1 d + coins_amount cs d" by auto
    then show ?thesis using fv by (intro exI[of _ X]) simp
  qed
qed

lemma unlockMatured_inv:
  assumes "lockup_inv bal s" "unlockMaturedLockInternalLogic E w s = Ok s'" "GetLockByID s (ID w) = Ok w"
  shows "lockup_inv bal s'"
proof -
  let ?L = "lock_store s" and ?n = "last_lock_id s" and ?x = "coins_amount (Coins w)"
  note L = lockup_invD(1)[OF assms(1)] and b0 = lockup_invD(2)[OF assms(1)]
  have w: "store_get ?L (lockStoreKey (ID w)) = Some w" using assms(3) by (simp add: GetLockByID_iff)
  note w' = stored_lock[OF L w] and okL = locks_ok_store[OF L]
  from assms(2) obtain owner none final s1 s2 s3 s4 h where
    0: "NewCoins E [] = Ok none" and
    1: "ofold (unlock_coin E) (Coins w) (none, s) = Ok (final, s1)" and
    2: "(if final = [] then Ok s1 else with_outside (\<lambda>b. SendCoinsFromModuleToAccount E b owner final) s1) = Ok s2" and
    3: "deleteLockRefs E KeyPrefixUnlocking w (deleteLock (ID w) s2) = Ok s3" and
    4: "ofold (\<lambda>coin. acc_Decrease E (Denom coin) (Duration w) (Amount coin)) (Coins w) s3 = Ok s4" and
    5: "call_hooks E h s4 = Ok s'"
    unfolding unlockMaturedLockInternalLogic_def by (auto simp: go_simps)
  have nv: "coins_valid none" "coins_amount none = (\<lambda>_. 0)" using new_coins[OF 0] by (auto simp: coins_valid_def fun_eq_iff)
  from unlock_coins_books[OF 1 b0 w'(2) nv(1)] obtain X where
    X: "books bal s1 ?L (acc_of ?L) (\<lambda>d. locked ?L (\<lambda>_. True) d - X d) ?n" "\<forall>d. coins_amount final d + X d = ?x d"
    using nv(2) by auto
  have b2: "books bal s2 ?L (acc_of ?L) (\<lambda>d. locked ?L (\<lambda>_. True) d - ?x d) ?n"
  proof (cases "final = []")
    case True
    then have "X = ?x" using X(2) by (simp add: fun_eq_iff)
    with X(1) 2 True show ?thesis by simp
  next
    case False
    with 2 have "with_outside (\<lambda>b. SendCoinsFromModuleToAccount E b owner final) s1 = Ok s2" by simp
    from books_outside[OF this X(1), of "\<lambda>d. - coins_amount final d"] send_out
    have "books bal s2 ?L (acc_of ?L) (\<lambda>d. locked ?L (\<lambda>_. True) d - X d + - coins_amount final d) ?n" by simp
    moreover have "(\<lambda>d. locked ?L (\<lambda>_. True) d - X d + - coins_amount final d) = (\<lambda>d. locked ?L (\<lambda>_. True) d - ?x d)"
      using X(2) by (auto simp: fun_eq_iff algebra_simps)
    ultimately show ?thesis by simp
  qed
  have room: "room 256 (acc_of ?L (Denom c)) (Amount c)" if "c \<in> set (Coins w)" for c
    using locked_mem[OF L w, of "Denom c"] coins_amount_mem[OF w'(2) that] w'(2) that books_bound[OF b0, of "Denom c"]
    by (intro inv_room[OF assms(1)]) (auto simp: coins_valid_def)
  have b5: "books bal s' (store_delete (lockStoreKey (ID w)) ?L) (shifted (acc_of ?L) (Duration w) (\<lambda>d. - ?x d))
      (\<lambda>d. locked ?L (\<lambda>_. True) d - ?x d) ?n"
    by (rule books_hooks[OF 5 acc_Decrease_loop[OF 4 books_deleteLockRefs[OF 3 books_deleteLock[OF b2]] w'(2) room]])
  show ?thesis
    using w by (intro lockup_invI[OF locks_ok_delete[OF L] b5])
      (auto simp: shifted_def fun_eq_iff acc_of_delete[OF okL] locked_delete[OF okL])
qed

lemma UnlockMaturedLock_inv:
  assumes "lockup_inv bal s" "UnlockMaturedLock E now i s = Ok s'"
  shows "lockup_inv bal s'"
proof -
  from assms(2) obtain w where "GetLockByID s i = Ok w" "unlockMaturedLockInternalLogic E w s = Ok s'"
    unfolding UnlockMaturedLock_def by (auto simp: go_simps split: if_splits)
  then show ?thesis using unlockMatured_inv[OF assms(1)] GetLockByID_self[OF assms(1)] by blast
qed

text \<open>Synthetic locks change only stores of side denominations.\<close>

lemma inv_books_same:
  assumes "lockup_inv bal s" "books bal s' (lock_store s) (acc_of (lock_store s)) (locked (lock_store s) (\<lambda>_. True)) (last_lock_id s)"
  shows "lockup_inv bal s'"
  using assms by (auto simp: lockup_inv_def books_def)

lemma CreateSyntheticLockup_inv:
  assumes "lockup_inv bal s" "CreateSyntheticLockup E now i y dur u s = Ok s'" "IsSyntheticDenom y"
  shows "lockup_inv bal s'"
proof -
  have sd: "side_denom y" using assms(3) by (simp add: side_denom_def)
  let ?y = "\<lambda>t. \<lparr>UnderlyingLockId = i, SynthDenom = y, SynthEndTime = t, SynthDuration = dur\<rparr>"
  from assms(2) obtain w amt s1 t where
    1: "addSyntheticLockRefs E w (?y t) (setSyntheticLockupObject E (?y t) s) = Ok s1" and
    2: "acc_Increase E y dur amt s1 = Ok s'"
    unfolding CreateSyntheticLockup_def Let_def by (fastforce simp: go_simps split: if_splits)
  note b1 = books_addSyntheticLockRefs[OF 1 books_setSynthetic[OF lockup_invD(2)[OF assms(1)]]]
  show ?thesis
    using books_side[OF sd acc_Increase_books[OF 2 b1]] sd by (intro inv_books_same[OF assms(1)]) simp
qed

lemma DeleteSyntheticLockup_books:
  assumes "DeleteSyntheticLockup E i y s = Ok s'" "books bal s L a B n"
  shows "books bal s' L a B n"
proof -
  from assms(1) obtain x w amt s1 where
    x: "GetSyntheticLockup s i y = Ok x" and
    1: "deleteSyntheticLockRefs E (w\<lparr>EndTime := SynthEndTime x\<rparr>) x (deleteSyntheticLockupObject E i y s) = Ok s1" and
    2: "acc_Decrease E (SynthDenom x) (Duration w) amt s1 = Ok s'"
    unfolding DeleteSyntheticLockup_def Let_def by (auto simp: go_simps)
  have sd: "side_denom (SynthDenom x)" by (rule books_synth[OF assms(2) x])
  note b1 = books_deleteSyntheticLockRefs[OF 1 books_deleteSynthetic[OF assms(2)]]
  show ?thesis using books_side[OF sd acc_Decrease_books[OF 2 b1]] sd by blast
qed

lemma DeleteSyntheticLockup_inv:
  "lockup_inv bal s \<Longrightarrow> DeleteSyntheticLockup E i y s = Ok s' \<Longrightarrow> lockup_inv bal s'"
  using DeleteSyntheticLockup_books lockup_invD(2) inv_books_same by blast

lemma DeleteSyntheticLockup_keeps: "lockup_inv bal s \<Longrightarrow> DeleteSyntheticLockup E i y s = Ok s' \<Longrightarrow>
    lock_store s' = lock_store s \<and> last_lock_id s' = last_lock_id s"
  using DeleteSyntheticLockup_books[OF _ lockup_invD(2)] by (fastforce simp: books_def)

lemma ForceUnlock_inv:
  assumes "lockup_inv bal s" "ForceUnlock E now w s = Ok s'" "last_lock_id s + 1 \<noteq> 0"
  shows "lockup_inv bal s'"
proof -
  from assms(2) obtain y found s1 s2 w' where
    1: "(if Synth_IsNil y then Ok s else DeleteSyntheticLockup E (ID w) (SynthDenom y) s) = Ok s1" and
    2: "IsUnlocking w \<and> s2 = s1 \<or> (\<exists>j. BeginUnlock E now (ID w) [] s1 = Ok (j, s2))" and
    3: "GetLockByID s2 (ID w) = Ok w'" "unlockMaturedLockInternalLogic E w' s2 = Ok s'"
    unfolding ForceUnlock_def by (fastforce simp: go_simps split: if_splits)
  have i1: "lockup_inv bal s1" "last_lock_id s1 = last_lock_id s"
    using 1 assms(1) DeleteSyntheticLockup_inv DeleteSyntheticLockup_keeps by (auto split: if_splits)
  have "coins_valid []" by (simp add: coins_valid_def)
  then have i2: "lockup_inv bal s2" using 2 i1 BeginUnlock_inv[OF i1(1)] assms(3) by auto
  show ?thesis using unlockMatured_inv[OF i2 3(2)] 3(1) GetLockByID_self[OF i2 3(1)] by simp
qed

lemma PartialForceUnlock_inv:
  assumes "lockup_inv bal s" "PartialForceUnlock E now w cs s = Ok s'" "GetLockByID s (ID w) = Ok w" "coins_valid cs"
    "last_lock_id s + 1 \<noteq> 0" "last_lock_id s + 1 + 1 \<noteq> 0"
  shows "lockup_inv bal s'"
proof -
  from assms(2) obtain l s1 where
    1: "(if cs \<noteq> [] \<and> \<not> Coins_IsEqual E cs (Coins w) then SplitLock E w cs True s else Ok (w, s)) = Ok (l, s1)" and
    2: "ForceUnlock E now l s1 = Ok s'"
    unfolding PartialForceUnlock_def by (auto simp: go_simps split: if_splits)
  have "last_lock_id s1 = last_lock_id s \<or> last_lock_id s1 = last_lock_id s + 1"
    using 1 by (auto simp: SplitLock_def Let_def go_simps GetLastLockID_def setLock_def SetLastLockID_def split: if_splits)
  then show ?thesis using ForceUnlock_inv[OF split_part_inv(1)[OF assms(1,3-5) 1] 2] assms(5,6) by auto
qed

lemma SetLockRewardReceiverAddress_inv:
  assumes "lockup_inv bal s" "SetLockRewardReceiverAddress E i owner r s = Ok s'"
  shows "lockup_inv bal s'"
proof -
  note L = lockup_invD(1)[OF assms(1)]
  from assms(2) obtain w r' where w: "GetLockByID s i = Ok w" "s' = setLock (w\<lparr>RewardReceiverAddress := r'\<rparr>) s"
    unfolding SetLockRewardReceiverAddress_def Let_def by (fastforce simp: go_simps split: if_splits)
  have g: "store_get (lock_store s) (lockStoreKey i) = Some w" using w(1) by (simp add: GetLockByID_iff)
  show ?thesis
    unfolding w(2)
    by (rule replace_inv[OF L g _ _ _ books_setLock[OF lockup_invD(2)[OF assms(1)]]])
       (use stored_lock[OF L g] in \<open>auto simp: shifted_def\<close>)
qed

lemma move_loop:
  assumes "ofold (\<lambda>coin s. obind (acc_Decrease E (Denom coin) dur (Amount coin) s) (acc_Increase E (Denom coin) dur' (Amount coin))) cs s = Ok s'"
    and "books bal s L a B n" "coins_valid cs" "\<And>c K. c \<in> set cs \<Longrightarrow> finite K \<Longrightarrow> mass K (a (Denom c)) \<le> 2 ^ 248"
    and "\<And>c. c \<in> set cs \<Longrightarrow> Amount c \<le> 2 ^ 248"
  shows "books bal s' L (shifted (shifted a dur (\<lambda>d. - coins_amount cs d)) dur' (coins_amount cs)) B n"
proof -
  define g where "g c f = (let f1 = f(accumulationKey dur := f (accumulationKey dur) - Amount c)
    in f1(accumulationKey dur' := f1 (accumulationKey dur') + Amount c))" for c :: Coin and f :: "string \<Rightarrow> int"
  define fits where "fits c f \<longleftrightarrow> room 256 f (Amount c) \<and> room 256 (f(accumulationKey dur := f (accumulationKey dur) - Amount c)) (Amount c)"
    for c :: Coin and f
  have "books bal s' L (\<lambda>d. case find (\<lambda>c. Denom c = d) cs of None \<Rightarrow> a d | Some c \<Rightarrow> g c (a d)) B n"
  proof (rule acc_loop_books[OF assms(1,2), where ok = fits])
    show "distinct (map Denom cs)" using assms(3) by (simp add: coins_valid_def)
    show "side_denom (Denom c) \<or> fits c (a (Denom c))" if c: "c \<in> set cs" for c
    proof -
      have x: "\<bar>Amount c\<bar> \<le> 2 ^ 248" using assms(3,5) c by (auto simp: coins_valid_def)
      have "68 * mass K (a (Denom c)) + \<bar>Amount c\<bar> < 2 ^ 256" if "finite K" for K using assms(4)[OF c that] x by simp
      moreover have "\<forall>K. finite K \<longrightarrow> mass K (a (Denom c)) \<le> 2 ^ 248" using assms(4)[OF c] by blast
      ultimately show ?thesis using room_update[of "a (Denom c)" "- Amount c" "Amount c" "accumulationKey dur"] x
        by (simp add: fits_def room_def)
    qed
    show "books bal s' L (a(Denom c := g c (a (Denom c)))) B n"
      if c: "obind (acc_Decrease E (Denom c) dur (Amount c) s) (acc_Increase E (Denom c) dur' (Amount c)) = Ok s'"
        and b: "books bal s L a B n" and f: "side_denom (Denom c) \<or> fits c (a (Denom c))" for c s s' a
    proof -
      from c obtain t where t: "acc_Decrease E (Denom c) dur (Amount c) s = Ok t" "acc_Increase E (Denom c) dur' (Amount c) t = Ok s'"
        by (auto simp: go_simps)
      have "books bal t L (a(Denom c := (a (Denom c))(accumulationKey dur := a (Denom c) (accumulationKey dur) - Amount c))) B n"
        using f by (intro acc_Decrease_books[OF t(1) b]) (auto simp: fits_def)
      from acc_Increase_books[OF t(2) this] f show ?thesis by (auto simp: g_def fits_def Let_def simp del: fun_upd_apply simp: fun_upd_same)
    qed
  qed
  then show ?thesis
    by (rule books_cong) (auto simp: shifted_def fun_eq_iff g_def Let_def find_coin_amount[OF assms(3)] split: option.splits)
qed

lemma ExtendLockup_inv:
  assumes "lockup_inv bal s" "ExtendLockup E i owner dur s = Ok s'"
  shows "lockup_inv bal s'"
proof -
  let ?L = "lock_store s" and ?n = "last_lock_id s"
  note L = lockup_invD(1)[OF assms(1)] and b0 = lockup_invD(2)[OF assms(1)]
  from assms(2) obtain w s1 l s2 s3 h where w: "GetLockByID s i = Ok w" and
    1: "deleteLockRefs E (unlockingPrefix (IsUnlocking w)) w s = Ok s1" and
    2: "dur = 0 \<and> l = w \<and> s2 = s1 \<or>
      ofold (\<lambda>coin s. obind (acc_Decrease E (Denom coin) (Duration w) (Amount coin) s)
                                                 (acc_Increase E (Denom coin) dur (Amount coin))) (Coins w) s1 = Ok s2 \<and> l = w\<lparr>Duration := dur\<rparr>" and
    3: "addLockRefs E l s2 = Ok s3" "call_hooks E h (setLock l s3) = Ok s'"
    unfolding ExtendLockup_def by (fastforce simp: go_simps split: if_splits)
  have g: "store_get ?L (lockStoreKey i) = Some w" using w by (simp add: GetLockByID_iff)
  note w' = stored_lock[OF L g] and ok = locks_ok_store[OF L]
  note b1 = books_deleteLockRefs[OF 1 b0]
  have b: "books bal s' (store_set (lockStoreKey (ID l)) l ?L) a B ?n" if "books bal s2 ?L a B ?n" for a B
    by (rule books_hooks[OF 3(2) books_setLock[OF books_addLockRefs[OF 3(1) that]]])
  from 2 show ?thesis
  proof
    assume l: "dur = 0 \<and> l = w \<and> s2 = s1"
    show ?thesis by (rule replace_inv[OF L g _ _ _ b]) (use l b1 w' in \<open>auto simp: shifted_def\<close>)
  next
    assume l: "ofold (\<lambda>coin s. obind (acc_Decrease E (Denom coin) (Duration w) (Amount coin) s)
        (acc_Increase E (Denom coin) dur (Amount coin))) (Coins w) s1 = Ok s2 \<and> l = w\<lparr>Duration := dur\<rparr>"
    have m: "mass K (acc_of ?L d) \<le> 2 ^ 248" if "finite K" for K d
      using mass_acc_of[OF L that, of d] books_bound[OF b0, of d] by simp
    have x: "Amount c \<le> 2 ^ 248" if "c \<in> set (Coins w)" for c
      using locked_mem[OF L g, of "Denom c"] coins_amount_mem[OF w'(2) that] books_bound[OF b0, of "Denom c"] by simp
    have b2: "books bal s2 ?L (shifted (shifted (acc_of ?L) (Duration w) (\<lambda>d. - coins_amount (Coins w) d)) dur (coins_amount (Coins w)))
        (locked ?L (\<lambda>_. True)) ?n"
      using move_loop[OF conjunct1[OF l] b1 w'(2)] m x by blast
    show ?thesis
    proof (rule lockup_invI[OF _ b[OF b2]])
      show "locks_ok (store_set (lockStoreKey (ID l)) l ?L) ?n" using l w' by (intro locks_ok_set[OF L]) auto
    qed (use l w' g in \<open>auto simp: shifted_def fun_eq_iff acc_of_set[OF ok] locked_set[OF ok]\<close>)
  qed
qed

lemma removeTokensFromLock_inv:
  assumes "lockup_inv bal s0" "GetLockByID s0 i = Ok w" "removeTokensFromLock E w cs s = Ok (l, s')" "coins_valid cs"
    and b0: "books bal s (lock_store s0) (acc_of (lock_store s0)) (\<lambda>d. locked (lock_store s0) (\<lambda>_. True) d - coins_amount cs d) (last_lock_id s0)"
  shows "lockup_inv bal s'"
proof -
  let ?L = "lock_store s0" and ?n = "last_lock_id s0"
  note L = lockup_invD(1)[OF assms(1)]
  have g: "store_get ?L (lockStoreKey i) = Some w" using assms(2) by (simp add: GetLockByID_iff)
  note w' = stored_lock[OF L g]
  from assms(3) obtain rest s1 y found amt where r: "Coins_Sub E (Coins w) cs = Ok rest" and
    1: "ofold (\<lambda>coin. acc_Decrease E (Denom coin) (Duration w) (Amount coin)) cs (setLock (w\<lparr>Coins := rest\<rparr>) s) = Ok s1" and
    2: "GetSyntheticLockupByUnderlyingLockId s1 (ID w) = Ok (y, found)" and
    3: "acc_Decrease E (SynthDenom y) (SynthDuration y) amt s1 = Ok s'"
    unfolding removeTokensFromLock_def Let_def by (cases cs; fastforce simp: go_simps simp del: ofold.simps)
  note rv = coins_sub[OF r w'(2) assms(4)]
  have room: "room 256 (acc_of ?L (Denom c)) (Amount c)" if "c \<in> set cs" for c
  proof -
    have "0 \<le> coins_amount rest (Denom c)" by (rule coins_amount_nonneg) (use rv in blast)
    then have "Amount c \<le> coins_amount (Coins w) (Denom c)" using rv coins_amount_mem[OF assms(4) that] by simp
    also have "\<dots> \<le> locked ?L (\<lambda>_. True) (Denom c)" by (rule locked_mem[OF L g])
    also have "\<dots> \<le> 2 ^ 248" using books_bound[OF lockup_invD(2)[OF assms(1)]] by blast
    finally show ?thesis using assms(4) that by (intro inv_room[OF assms(1)]) (auto simp: coins_valid_def)
  qed
  have b1: "books bal s1 (store_set (lockStoreKey (ID w)) (w\<lparr>Coins := rest\<rparr>) ?L) (shifted (acc_of ?L) (Duration w) (\<lambda>d. - coins_amount cs d))
      (\<lambda>d. locked ?L (\<lambda>_. True) d - coins_amount cs d) ?n"
    using acc_Decrease_loop[OF 1 books_setLock[OF b0] assms(4)] room by simp
  have sd: "side_denom (SynthDenom y)" by (rule books_synth_of[OF b1 2])
  have "books bal s' (store_set (lockStoreKey (ID w)) (w\<lparr>Coins := rest\<rparr>) ?L) (shifted (acc_of ?L) (Duration w) (\<lambda>d. - coins_amount cs d))
      (\<lambda>d. locked ?L (\<lambda>_. True) d - coins_amount cs d) ?n"
    using books_side[OF sd acc_Decrease_books[OF 3 b1]] sd by blast
  then show ?thesis
    using w' rv by (intro replace_inv[OF L g, of "w\<lparr>Coins := rest\<rparr>"]) (auto simp: shifted_def)
qed

lemma SlashTokensFromLockByID_inv:
  assumes "lockup_inv bal s" "SlashTokensFromLockByID E i cs s = Ok (l, s')" "coins_valid cs"
  shows "lockup_inv bal s'"
proof -
  note b0 = lockup_invD(2)[OF assms(1)]
  from assms(2) obtain w s1 s2 h where w: "GetLockByID s i = Ok w" and
    1: "with_outside (\<lambda>b. FundCommunityPool E b cs (module_address E)) s = Ok s1" and
    2: "removeTokensFromLock E w cs s1 = Ok (l, s2)" and 3: "call_hooks_if_set E h s2 = Ok s'"
    unfolding SlashTokensFromLockByID_def by (auto simp: go_simps)
  have b1: "books bal s1 (lock_store s) (acc_of (lock_store s)) (\<lambda>d. locked (lock_store s) (\<lambda>_. True) d + - coins_amount cs d) (last_lock_id s)"
    by (rule books_outside[OF 1 b0]) (simp add: fund)
  have "lockup_inv bal s2" using removeTokensFromLock_inv[OF assms(1) w 2 assms(3)] b1 by simp
  from inv_books_same[OF this books_hooks_if_set[OF 3 lockup_invD(2)[OF this]]] show ?thesis .
qed

lemma SlashSendUnderlying_inv:
  assumes "lockup_inv bal s" "SlashTokensFromLockByIDSendUnderlyingAndBurn E i cs assets pool s = Ok (l, s')" "coins_valid cs"
    "pool \<noteq> module_address E"
  shows "lockup_inv bal s'"
proof -
  note b0 = lockup_invD(2)[OF assms(1)]
  from assms(2) obtain w s1 s2 s3 h where w: "GetLockByID s i = Ok w" and
    1: "with_outside (\<lambda>b. FundCommunityPool E b assets pool) s = Ok s1" and
    2: "with_outside (\<lambda>b. BurnCoins E b cs) s1 = Ok s2" and
    3: "removeTokensFromLock E w cs s2 = Ok (l, s3)" and 4: "call_hooks_if_set E h s3 = Ok s'"
    unfolding SlashTokensFromLockByIDSendUnderlyingAndBurn_def by (auto simp: go_simps)
  have "books bal s1 (lock_store s) (acc_of (lock_store s)) (\<lambda>d. locked (lock_store s) (\<lambda>_. True) d + 0) (last_lock_id s)"
    by (rule books_outside[OF 1 b0]) (simp add: fund assms(4))
  from books_outside[OF 2 this, of "\<lambda>d. - coins_amount cs d"]
  have "books bal s2 (lock_store s) (acc_of (lock_store s)) (\<lambda>d. locked (lock_store s) (\<lambda>_. True) d - coins_amount cs d) (last_lock_id s)"
    by (simp add: burn)
  then have "lockup_inv bal s3" by (rule removeTokensFromLock_inv[OF assms(1) w 3 assms(3)])
  from inv_books_same[OF this books_hooks_if_set[OF 4 lockup_invD(2)[OF this]]] show ?thesis .
qed

text \<open>The loops of the end blocker and of an account.\<close>

lemma WithdrawAllMaturedLocks_inv:
  assumes "lockup_inv bal s" "WithdrawAllMaturedLocks E now s = Ok s'"
  shows "lockup_inv bal s'"
proof -
  from assms(2) obtain locks :: "PeriodLock list" and coins where
    "ofold (\<lambda>lock (coins, s). obind (panic_on_err (UnlockMaturedLock E now (ID lock) s)) (\<lambda>s'.
       obind (Coins_Add E coins (Coins lock)) (\<lambda>coins'. Ok (coins', s')))) locks ([], s) = Ok (coins, s')"
    unfolding WithdrawAllMaturedLocks_def unlockFromIterator_def by (auto simp: go_simps)
  then have "lockup_inv bal (snd (coins, s'))"
    by (rule ofold_invariant[where I = "\<lambda>p. lockup_inv bal (snd p)"]) (use assms(1) UnlockMaturedLock_inv in \<open>auto simp: go_simps\<close>)
  then show ?thesis by simp
qed

lemma DeleteAllMaturedSyntheticLocks_inv:
  assumes "lockup_inv bal s" "DeleteAllMaturedSyntheticLocks E now s = Ok s'"
  shows "lockup_inv bal s'"
  using assms(2) unfolding DeleteAllMaturedSyntheticLocks_def
  by (rule ofold_invariant[where I = "lockup_inv bal"]) (use assms(1) DeleteSyntheticLockup_inv in auto)

lemma BeginUnlock_keeps_id: "BeginUnlock E now i [] s = Ok (j, s') \<Longrightarrow> lockup_inv bal s \<Longrightarrow> last_lock_id s' = last_lock_id s"
proof -
  assume a: "BeginUnlock E now i [] s = Ok (j, s')" "lockup_inv bal s"
  then obtain w l s1 s2 where 1: "deleteLockRefs E KeyPrefixNotUnlocking w s = Ok s1"
    "addLockRefs E l (setLock l s1) = Ok s2" "s' = s2 \<or> (\<exists>h. call_hooks E h s2 = Ok s')"
    by (fastforce simp: BeginUnlock_def beginUnlock_def start_unlocking_def Let_def go_simps split: if_splits)
  note b = books_addLockRefs[OF 1(2) books_setLock[OF books_deleteLockRefs[OF 1(1) lockup_invD(2)[OF a(2)]]]]
  show ?thesis using 1(3) b books_hooks[OF _ b] by (auto simp: books_def)
qed

lemma BeginUnlockAllNotUnlockings_inv:
  assumes "lockup_inv bal s" "BeginUnlockAllNotUnlockings E now owner s = Ok (ls, s')" "last_lock_id s + 1 \<noteq> 0"
  shows "lockup_inv bal s'"
proof -
  have e: "coins_valid []" by (simp add: coins_valid_def)
  from assms(2) obtain locks :: "PeriodLock list" where
    "ofold (\<lambda>lock s. obind (BeginUnlock E now (ID lock) [] s) (\<lambda>(_, s'). Ok s')) locks s = Ok s'"
    unfolding BeginUnlockAllNotUnlockings_def beginUnlockFromIterator_def by (auto simp: go_simps)
  then have "lockup_inv bal s' \<and> last_lock_id s' = last_lock_id s"
    by (rule ofold_invariant[where I = "\<lambda>t. lockup_inv bal t \<and> last_lock_id t = last_lock_id s"])
       (use assms(1,3) BeginUnlock_inv[OF _ _ e] BeginUnlock_keeps_id in \<open>auto simp: go_simps\<close>)
  then show ?thesis by simp
qed

end

end
