(* ===== verification/Lockup_Spec.thy ===== *)
theory Lockup_Spec
  imports Lockup_Steps
begin

text \<open>
  Runs of the lockup keeper as a step relation, what holds in every reachable state, an environment that
  satisfies the laws, and what the keeper does when synthetic locks are deleted and locks are broken.
\<close>

section \<open>Runs\<close>

text \<open>Identifiers are 64-bit numbers; a step that needs new ones has two of them left.\<close>

definition ids_left :: "'b lockup_state \<Rightarrow> bool" where
  "ids_left s \<longleftrightarrow> last_lock_id s + 1 \<noteq> 0 \<and> last_lock_id s + 1 + 1 \<noteq> 0"

inductive lockup_step :: "'b lockup_env \<Rightarrow> 'b lockup_state \<Rightarrow> 'b lockup_state \<Rightarrow> bool" for E where
  create: "CreateLock E owner cs dur s = Ok (l, s') \<Longrightarrow> coins_valid cs \<Longrightarrow> ids_left s \<Longrightarrow> lockup_step E s s'"
| add: "AddTokensToLockByID E i owner tok s = Ok (l, s') \<Longrightarrow> 0 < Amount tok \<Longrightarrow> lockup_step E s s'"
| begin_unlock: "BeginUnlock E now i cs s = Ok (j, s') \<Longrightarrow> coins_valid cs \<Longrightarrow> ids_left s \<Longrightarrow> lockup_step E s s'"
| begin_force: "BeginForceUnlock E now i cs s = Ok (j, s') \<Longrightarrow> coins_valid cs \<Longrightarrow> ids_left s \<Longrightarrow> lockup_step E s s'"
| begin_end_time: "BeginForceUnlockWithEndTime E i t s = Ok s' \<Longrightarrow> lockup_step E s s'"
| begin_all: "BeginUnlockAllNotUnlockings E now owner s = Ok (ls, s') \<Longrightarrow> ids_left s \<Longrightarrow> lockup_step E s s'"
| unlock: "UnlockMaturedLock E now i s = Ok s' \<Longrightarrow> lockup_step E s s'"
| withdraw: "WithdrawAllMaturedLocks E now s = Ok s' \<Longrightarrow> lockup_step E s s'"
| force: "GetLockByID s i = Ok w \<Longrightarrow> PartialForceUnlock E now w cs s = Ok s' \<Longrightarrow> coins_valid cs \<Longrightarrow> ids_left s \<Longrightarrow> lockup_step E s s'"
| receiver: "SetLockRewardReceiverAddress E i owner r s = Ok s' \<Longrightarrow> lockup_step E s s'"
| extend: "ExtendLockup E i owner dur s = Ok s' \<Longrightarrow> lockup_step E s s'"
| slash: "SlashTokensFromLockByID E i cs s = Ok (l, s') \<Longrightarrow> coins_valid cs \<Longrightarrow> lockup_step E s s'"
| slash_burn: "SlashTokensFromLockByIDSendUnderlyingAndBurn E i cs assets pool s = Ok (l, s') \<Longrightarrow> coins_valid cs \<Longrightarrow>
    pool \<noteq> module_address E \<Longrightarrow> lockup_step E s s'"
| create_synth: "CreateSyntheticLockup E now i y dur u s = Ok s' \<Longrightarrow> IsSyntheticDenom y \<Longrightarrow> lockup_step E s s'"
| delete_synth: "DeleteSyntheticLockup E i y s = Ok s' \<Longrightarrow> lockup_step E s s'"
| delete_matured_synth: "DeleteAllMaturedSyntheticLocks E now s = Ok s' \<Longrightarrow> lockup_step E s s'"

inductive_cases lockup_stepE: "lockup_step E s s'"

definition empty_lockup :: "'b \<Rightarrow> 'b lockup_state" where
  "empty_lockup b = \<lparr>last_lock_id = 0, lock_store = [], ref_store = [], synth_store = [], synth_time_store = [],
     acc_store = (\<lambda>_. []), force_unlock_allowed = [], outside = b\<rparr>"

inductive lockup_reach :: "'b lockup_env \<Rightarrow> 'b \<Rightarrow> 'b lockup_state \<Rightarrow> bool" for E b where
  start: "lockup_reach E b (empty_lockup b)"
| run: "lockup_reach E b s \<Longrightarrow> lockup_step E s s' \<Longrightarrow> lockup_reach E b s'"

context lockup_laws
begin

lemma step_inv: "lockup_step E s s' \<Longrightarrow> lockup_inv bal s \<Longrightarrow> lockup_inv bal s'"
proof (induction rule: lockup_step.induct)
  case (force s i w now cs s')
  then show ?case using PartialForceUnlock_inv GetLockByID_self[OF force.prems force.hyps(1)] by (auto simp: ids_left_def)
qed (auto simp: ids_left_def intro: CreateLock_inv AddTokensToLockByID_inv BeginUnlock_inv BeginForceUnlock_inv
      BeginForceUnlockWithEndTime_inv BeginUnlockAllNotUnlockings_inv UnlockMaturedLock_inv WithdrawAllMaturedLocks_inv
      SetLockRewardReceiverAddress_inv ExtendLockup_inv SlashTokensFromLockByID_inv SlashSendUnderlying_inv
      CreateSyntheticLockup_inv DeleteSyntheticLockup_inv DeleteAllMaturedSyntheticLocks_inv)

lemma reach_inv: "lockup_reach E b s \<Longrightarrow> (\<forall>d. bal b d = 0) \<Longrightarrow> lockup_inv bal s"
proof (induction rule: lockup_reach.induct)
  case start
  then show ?case
    by (auto simp: lockup_inv_def books_def locks_ok_def store_ok_def synths_ok_def empty_lockup_def acc_is_def acc_of_def locked_def fun_eq_iff)
next
  case (run s s')
  then show ?case using step_inv by blast
qed

lemma locked_acc_of:
  assumes "finite K" "\<forall>k. k \<notin> K \<longrightarrow> acc_of L d k = 0" "locks_ok L n"
  shows "(\<Sum>y | y \<in> K \<and> accumulationKey dur \<le> y. acc_of L d y) = locked L (\<lambda>l. dur \<le> Duration l) d"
proof -
  let ?key = "\<lambda>p. accumulationKey (Duration (snd p))" and ?x = "\<lambda>p. coins_amount (Coins (snd p)) d"
  have mem: "?x p = 0" if "p \<in> set L" "?key p \<notin> K" for p
  proof -
    have "acc_of L d (?key p) = 0" using assms(2) that(2) by blast
    moreover have "?x p \<le> acc_of L d (?key p)"
    proof -
      have nn: "\<forall>q \<in> set L. 0 \<le> (if ?key q = ?key p then ?x q else 0)"
        using assms(3) by (auto simp: locks_ok_def coins_amount_nonneg)
      have "(if ?key p = ?key p then ?x p else 0) \<le> (\<Sum>q\<leftarrow>L. if ?key q = ?key p then ?x q else 0)"
        using nn that(1) by (intro member_le_sum_list) (auto simp: image_iff)
      then show ?thesis by (simp add: acc_of_def locked_def)
    qed
    moreover have "0 \<le> ?x p" using assms(3) that(1) by (auto simp: locks_ok_def coins_amount_nonneg)
    ultimately show ?thesis by simp
  qed
  have fin: "finite {y. y \<in> K \<and> accumulationKey dur \<le> y}" using assms(1) by simp
  have "(\<Sum>y | y \<in> K \<and> accumulationKey dur \<le> y. acc_of L d y) =
      (\<Sum>p\<leftarrow>L. \<Sum>y | y \<in> K \<and> accumulationKey dur \<le> y. if ?key p = y then ?x p else 0)"
    unfolding acc_of_def locked_def by (induction L) (simp_all add: sum.distrib)
  also have "\<dots> = (\<Sum>p\<leftarrow>L. if dur \<le> Duration (snd p) then ?x p else 0)"
    using fin mem by (intro arg_cong[of _ _ sum_list] map_cong) (auto simp: sum.delta' accumulationKey_le)
  finally show ?thesis by (simp add: locked_def)
qed

lemma accumulation_sum:
  assumes "lockup_inv bal s" "\<not> side_denom d"
  shows "\<exists>s'. GetPeriodLocksAccumulation E d dur s = Ok (locked (lock_store s) (\<lambda>l. dur \<le> Duration l) d, s') \<and> lockup_inv bal s'"
proof -
  note L = lockup_invD(1)[OF assms(1)] and b = lockup_invD(2)[OF assms(1)]
  have a: "acc_is (acc_store s d) (acc_of (lock_store s) d)" using b assms(2) by (simp add: books_def)
  have r: "room 256 (acc_of (lock_store s) d) 0" by (rule inv_room[OF assms(1)]) simp
  obtain t K where t: "NewTree (int_lib E) 10 (acc_store s d) = Ok t" "acc_is t (acc_of (lock_store s) d)" "finite K"
    "\<forall>k. k \<notin> K \<longrightarrow> acc_of (lock_store s) d k = 0"
    "SubsetAccumulation (int_lib E) t (Some (accumulationKey dur)) None =
       Ok (\<Sum>y | y \<in> K \<and> accumulationKey dur \<le> y. acc_of (lock_store s) d y)"
    using sum_amounts.acc_is_Subset[OF amounts_ok a r, of "accumulationKey dur"] by blast
  have "lockup_inv bal (s\<lparr>acc_store := (acc_store s)(d := t)\<rparr>)"
    using assms(1) t(2) by (auto simp: lockup_inv_def books_def synths_ok_def)
  then show ?thesis
    using t locked_acc_of[OF t(3,4) L, of dur] by (simp add: GetPeriodLocksAccumulation_def accumulationStore_def)
qed

lemma unlock_waits:
  assumes "lockup_inv bal s" "BeginUnlock E now i cs s = Ok (j, s')" "coins_valid cs" "ids_left s"
  shows "\<exists>w l. GetLockByID s i = Ok w \<and> GetLockByID s' j = Ok l \<and> Duration l = Duration w \<and> EndTime l = now + sint (Duration w)"
proof -
  from assms(2) obtain w l s1 l' where w: "GetLockByID s i = Ok w" and
    1: "(if cs \<noteq> [] \<and> \<not> Coins_IsEqual E cs (Coins w) then SplitLock E w cs False s else Ok (w, s)) = Ok (l, s1)" and
    2: "start_unlocking E l (now + sint (Duration l)) s1 = Ok (l', s')" and j: "j = ID l'"
    unfolding BeginUnlock_def beginUnlock_def by (auto simp: go_simps split: if_splits)
  have self: "GetLockByID s (ID w) = Ok w" using w GetLockByID_self[OF assms(1) w] by simp
  have left: "last_lock_id s + 1 \<noteq> 0" using assms(4) by (simp add: ids_left_def)
  note s1 = split_part_inv[OF assms(1) self assms(3) left 1] and s' = start_unlocking_inv[OF s1(1) 2 s1(2)]
  have "Duration l = Duration w" using 1 by (auto simp: SplitLock_def Let_def go_simps NewPeriodLock_def split: if_splits)
  then show ?thesis using w s' j by (intro exI[of _ w] exI[of _ l']) auto
qed

end

section \<open>Synthetic locks in the accumulation stores\<close>

lemma addSyntheticLockRefs_frame:
  assumes "addSyntheticLockRefs E l w s = Ok s'"
  shows "\<exists>r. s' = s\<lparr>ref_store := r\<rparr>"
proof -
  from assms obtain ks where "ofold (\<lambda>k. addLockRefByKey (combineKeys [unlockingPrefix (Synth_IsUnlocking w), k]) (UnderlyingLockId w)) ks s = Ok s'"
    by (auto simp: addSyntheticLockRefs_def go_simps)
  then show ?thesis
    by (rule ofold_invariant[where I = "\<lambda>t. \<exists>r. t = s\<lparr>ref_store := r\<rparr>"])
      (auto simp: addLockRefByKey_def Let_def split: if_splits intro: exI[of _ "ref_store s"])
qed

lemma deleteSyntheticLockRefs_frame:
  assumes "deleteSyntheticLockRefs E l w s = Ok s'"
  shows "\<exists>r. s' = s\<lparr>ref_store := r\<rparr>"
proof -
  have "\<exists>r. fold (\<lambda>k. deleteLockRefByKey (f k) i) ks t = t\<lparr>ref_store := r\<rparr>" for f i ks t
  proof (induction ks arbitrary: t)
    case Nil
    show ?case by (rule exI[of _ "ref_store t"]) simp
  next
    case (Cons k ks)
    obtain r where "fold (\<lambda>k. deleteLockRefByKey (f k) i) ks (deleteLockRefByKey (f k) i t) = (deleteLockRefByKey (f k) i t)\<lparr>ref_store := r\<rparr>"
      using Cons.IH by blast
    then show ?case by (intro exI[of _ r]) (simp add: deleteLockRefByKey_def[where s = t])
  qed
  then show ?thesis using assms by (auto simp: deleteSyntheticLockRefs_def go_simps)
qed

lemma room_two:
  assumes "\<bar>x\<bar> \<le> 2 ^ 248"
  shows "room 256 ((\<lambda>_. 0)(k := x, k' := - x)) 0"
proof -
  have "mass K ((\<lambda>_. 0)(k := x, k' := - x)) \<le> 2 ^ 249" if "finite K" for K
  proof -
    have "mass K ((\<lambda>_. 0)(k := x, k' := - x)) \<le> (\<Sum>z\<in>K. (if z = k then \<bar>x\<bar> else 0) + (if z = k' then \<bar>x\<bar> else 0))"
      unfolding mass_def by (intro sum_mono) auto
    also have "\<dots> \<le> 2 * \<bar>x\<bar>" using that by (simp add: sum.distrib sum.delta)
    finally show ?thesis using assms by simp
  qed
  then show ?thesis by (fastforce simp: room_def)
qed

context lockup_laws
begin

lemma acc_get:
  assumes "acc_is (acc_store s d) f" "room 256 f 0"
  shows "\<exists>K s'. finite K \<and> (\<forall>k. k \<notin> K \<longrightarrow> f k = 0) \<and>
    GetPeriodLocksAccumulation E d dur s = Ok (\<Sum>y | y \<in> K \<and> accumulationKey dur \<le> y. f y, s')"
  using sum_amounts.acc_is_Subset[OF amounts_ok assms, of "accumulationKey dur"]
  by (auto simp: GetPeriodLocksAccumulation_def accumulationStore_def)

lemma acc_Increase_is:
  assumes "acc_Increase E d dur amt s = Ok s'" "acc_is (acc_store s d) f" "room 256 f amt"
  shows "acc_is (acc_store s' d) (f(accumulationKey dur := f (accumulationKey dur) + amt)) \<and> lock_store s' = lock_store s \<and> synth_store s' = synth_store s"
  using sum_amounts.acc_is_Increase[OF amounts_ok assms(2,3), of dur] assms(1)
  by (auto simp: acc_Increase_def accumulationStore_def go_simps)

lemma acc_Decrease_is:
  assumes "acc_Decrease E d dur amt s = Ok s'" "acc_is (acc_store s d) f" "room 256 f amt"
  shows "acc_is (acc_store s' d) (f(accumulationKey dur := f (accumulationKey dur) - amt)) \<and> lock_store s' = lock_store s \<and> synth_store s' = synth_store s"
  using sum_amounts.acc_is_Decrease[OF amounts_ok assms(2,3), of dur] assms(1)
  by (auto simp: acc_Decrease_def accumulationStore_def go_simps)

lemma lock_amount_bound:
  assumes "lockup_inv bal s" "GetLockByID s i = Ok l" "c \<in> set (Coins l)"
  shows "0 < Amount c" "\<bar>Amount c\<bar> \<le> 2 ^ 248"
proof -
  have v: "coins_valid (Coins l)" using lockup_invD(1)[OF assms(1)] assms(2)
    by (auto simp: locks_ok_def GetLockByID_iff store_get_iff)
  then show p: "0 < Amount c" using assms(3) by (simp add: coins_valid_def)
  have "coins_amount (Coins l) (Denom c) \<le> locked (lock_store s) (\<lambda>_. True) (Denom c)"
    using locked_mem[OF lockup_invD(1)[OF assms(1)]] assms(2) unfolding GetLockByID_iff by blast
  then show "\<bar>Amount c\<bar> \<le> 2 ^ 248"
    using books_bound[OF lockup_invD(2)[OF assms(1)], of "Denom c"] p coins_amount_mem[OF v assms(3)] by simp
qed

lemma synthetic_residue:
  assumes inv: "lockup_inv bal s" and l: "GetLockByID s i = Ok l" and empty: "acc_store s y = []"
    and create: "CreateSyntheticLockup E now i y u unl s = Ok s1" and delete: "DeleteSyntheticLockup E i y s1 = Ok s2"
    and longer: "u < Duration l"
  shows "\<exists>c s3. Coins l = [c] \<and> GetPeriodLocksAccumulation E y (Duration l) s2 = Ok (- Amount c, s3)"
proof -
  define w where "w = \<lparr>UnderlyingLockId = i, SynthDenom = y, SynthEndTime = (if unl then now + sint u else time_zero), SynthDuration = u\<rparr>"
  from create l obtain t and c :: Coin where t: "addSyntheticLockRefs E l w (setSyntheticLockupObject E w s) = Ok t"
    and c: "Coins l = [c]" and inc: "acc_Increase E y u (Amount c) t = Ok s1"
    by (auto simp: CreateSyntheticLockup_def go_simps Let_def w_def SingleCoin_def split: if_splits list.splits)
  obtain r where "t = (setSyntheticLockupObject E w s)\<lparr>ref_store := r\<rparr>" using addSyntheticLockRefs_frame[OF t] ..
  then have t1: "acc_is (acc_store t y) (\<lambda>_. 0)" "lock_store t = lock_store s"
    "synth_store t = store_set (syntheticLockStoreKey i y) w (synth_store s)"
    using empty by (simp_all add: setSyntheticLockupObject_def Let_def w_def acc_is_def)
  have x: "0 < Amount c" "\<bar>Amount c\<bar> \<le> 2 ^ 248" using lock_amount_bound[OF inv l, of c] c by auto
  have room0: "room 256 (\<lambda>_. 0) (Amount c)" using x(2) by (simp add: room_def mass_def)
  have z: "\<forall>K. finite K \<longrightarrow> mass K (\<lambda>_. 0) \<le> 2 ^ 248" by (simp add: mass_def)
  let ?f = "(\<lambda>_. 0)(accumulationKey u := Amount c)"
  have s1: "acc_is (acc_store s1 y) ?f" "lock_store s1 = lock_store s"
    "synth_store s1 = store_set (syntheticLockStoreKey i y) w (synth_store s)"
    using acc_Increase_is[OF inc t1(1) room0] t1(2,3) by simp_all
  have "store_ok (synth_store s)" using inv by (simp add: lockup_inv_def books_def synths_ok_def)
  then have "GetSyntheticLockup s1 i y = Ok w" by (simp add: GetSyntheticLockup_def s1(3) store_get_set)
  moreover have "GetLockByID s1 i = Ok l" using l s1(2) by (simp add: GetLockByID_def)
  ultimately obtain t2 where t2: "deleteSyntheticLockRefs E (l\<lparr>EndTime := SynthEndTime w\<rparr>) w (deleteSyntheticLockupObject E i y s1) = Ok t2"
    and dec: "acc_Decrease E y (Duration l) (Amount c) t2 = Ok s2"
    using delete c by (auto simp: DeleteSyntheticLockup_def Let_def go_simps SingleCoin_def w_def)
  obtain r2 where "t2 = (deleteSyntheticLockupObject E i y s1)\<lparr>ref_store := r2\<rparr>" using deleteSyntheticLockRefs_frame[OF t2] ..
  then have a2: "acc_is (acc_store t2 y) ?f"
    using s1(1) by (simp add: deleteSyntheticLockupObject_def Let_def split: outcome.splits)
  have room1: "room 256 ?f (Amount c)" using room_update[OF z x(2) x(2), of "accumulationKey u"] by simp
  let ?g = "?f(accumulationKey (Duration l) := - Amount c)"
  have ne: "accumulationKey (Duration l) \<noteq> accumulationKey u" using longer by auto
  have a3: "acc_is (acc_store s2 y) ?g" using acc_Decrease_is[OF dec a2 room1] ne by simp
  from acc_get[OF a3 room_two[OF x(2)], of "Duration l"] obtain K s3 where K: "finite K" "\<forall>k. k \<notin> K \<longrightarrow> ?g k = 0"
    and q: "GetPeriodLocksAccumulation E y (Duration l) s2 = Ok (\<Sum>z | z \<in> K \<and> accumulationKey (Duration l) \<le> z. ?g z, s3)"
    by blast
  have "accumulationKey (Duration l) \<in> K" using K(2) x(1) by (metis fun_upd_same neg_equal_0_iff_equal less_irrefl)
  moreover have "\<not> accumulationKey (Duration l) \<le> accumulationKey u" using longer by (simp add: accumulationKey_le)
  ultimately have "(\<Sum>z | z \<in> K \<and> accumulationKey (Duration l) \<le> z. ?g z) = (\<Sum>z\<in>{accumulationKey (Duration l)}. - Amount c)"
    using K(1) by (intro sum.mono_neutral_cong_right) auto
  then show ?thesis using q c by simp
qed

end

section \<open>An environment\<close>

text \<open>
  Coins as sorted lists without zero amounts, a ledger of the module account with bounded balances, 256-bit
  integers, hooks that do nothing.
\<close>

definition coins_of :: "string list \<Rightarrow> (string \<Rightarrow> int) \<Rightarrow> Coins" where
  "coins_of ds f = filter (\<lambda>c. Amount c \<noteq> 0) (map (\<lambda>d. \<lparr>Denom = d, Amount = f d\<rparr>) (sort (remdups ds)))"

definition coins_make :: "string list \<Rightarrow> (string \<Rightarrow> int) \<Rightarrow> Coins outcome" where
  "coins_make ds f = (if \<forall>d \<in> set ds. 0 \<le> f d then Ok (coins_of ds f) else Panic ''negative coin amount'')"

definition ledger_balance :: "(string \<Rightarrow> int) \<Rightarrow> string \<Rightarrow> int" where
  "ledger_balance b d = (if 0 \<le> b d \<and> b d \<le> 2 ^ 248 then b d else 0)"

definition ledger_move :: "int \<Rightarrow> (string \<Rightarrow> int) \<Rightarrow> Coins \<Rightarrow> (string \<Rightarrow> int) outcome" where
  "ledger_move sign b cs =
     (let b' = (\<lambda>d. ledger_balance b d + sign * coins_amount cs d)
      in if \<forall>c \<in> set cs. 0 \<le> b' (Denom c) \<and> b' (Denom c) \<le> 2 ^ 248 then Ok b' else Err ''insufficient funds'')"

definition ledger_env :: "(string \<Rightarrow> int) lockup_env" where
  "ledger_env = \<lparr>
     AccAddressFromBech32 = Ok, AccAddress_String = (\<lambda>a. a),
     NewCoins = (\<lambda>cs. coins_make (map Denom cs) (coins_amount cs)),
     Coins_Add = (\<lambda>x y. coins_make (map Denom x @ map Denom y) (\<lambda>d. coins_amount x d + coins_amount y d)),
     Coins_Sub = (\<lambda>x y. coins_make (map Denom x @ map Denom y) (\<lambda>d. coins_amount x d - coins_amount y d)),
     Coins_IsAllLTE = (\<lambda>x y. \<forall>d \<in> set (map Denom x). coins_amount x d \<le> coins_amount y d),
     Coins_IsEqual = (\<lambda>x y. x = y),
     FormatTimeBytes = (\<lambda>t. be_bytes 8 (nat t)), PrefixEndBytes = (\<lambda>p. Some (p @ [CHR 0xFF])),
     int_lib = int256_amounts,
     SendCoinsFromAccountToModule = (\<lambda>b _. ledger_move 1 b), SendCoinsFromModuleToAccount = (\<lambda>b _. ledger_move (- 1) b),
     BurnCoins = ledger_move (- 1),
     FundCommunityPool = (\<lambda>b cs a. if a = ''lockup'' then ledger_move (- 1) b cs else Ok b),
     module_address = ''lockup'', hooks = Some (\<lambda>_ b. b)\<rparr>"

lemma coins_of_valid: "\<forall>d \<in> set ds. 0 \<le> f d \<Longrightarrow> coins_valid (coins_of ds f)"
  by (auto simp: coins_valid_def coins_of_def filter_map comp_def order_less_le intro!: distinct_filter)

lemma coins_of_amount: "coins_amount (coins_of ds f) d = (if d \<in> set ds then f d else 0)"
proof -
  have "coins_amount (filter (\<lambda>c. Amount c \<noteq> 0) (map (\<lambda>d. \<lparr>Denom = d, Amount = f d\<rparr>) xs)) d = (if d \<in> set xs then f d else 0)"
    if "distinct xs" for xs using that by (induction xs) auto
  from this[of "sort (remdups ds)"] show ?thesis by (simp add: coins_of_def)
qed

lemma coins_make_Ok: "coins_make ds f = Ok r \<Longrightarrow> coins_valid r \<and> (\<forall>d. coins_amount r d = (if d \<in> set ds then f d else 0))"
  by (auto simp: coins_make_def coins_of_valid coins_of_amount split: if_splits)

lemma ledger_move_Ok:
  assumes "ledger_move sign b cs = Ok b'"
  shows "ledger_balance b' d = ledger_balance b d + sign * coins_amount cs d"
proof (cases "d \<in> Denom ` set cs")
  case True
  then show ?thesis using assms by (auto simp: ledger_move_def ledger_balance_def[of b'] Let_def split: if_splits)
next
  case False
  then have "b' d = ledger_balance b d" using assms by (auto simp: ledger_move_def Let_def coins_amount_absent split: if_splits)
  then show ?thesis using coins_amount_absent[OF False] by (simp add: ledger_balance_def)
qed

interpretation ledger: lockup_laws ledger_env ledger_balance
proof (rule lockup_laws.intro)
  show "checked_arith 256 (amt_Add (int_lib ledger_env)) (amt_Sub (int_lib ledger_env)) (amt_Neg (int_lib ledger_env))"
    using int256_amounts.checked_arith_axioms by (simp add: ledger_env_def)
  show "coins_valid r \<and> coins_amount r = coins_amount cs" if "NewCoins ledger_env cs = Ok r" for cs r
    using coins_make_Ok[of "map Denom cs" "coins_amount cs" r] that coins_amount_absent[of _ cs] by (auto simp: ledger_env_def fun_eq_iff)
  show "coins_valid r \<and> (\<forall>d. coins_amount r d = coins_amount x d + coins_amount y d)" if "Coins_Add ledger_env x y = Ok r" for x y r
    using coins_make_Ok[of _ _ r] that coins_amount_absent[of _ x] coins_amount_absent[of _ y] by (fastforce simp: ledger_env_def)
  show "coins_valid r \<and> (\<forall>d. coins_amount r d = coins_amount x d - coins_amount y d)" if "Coins_Sub ledger_env x y = Ok r" for x y r
    using coins_make_Ok[of _ _ r] that coins_amount_absent[of _ x] coins_amount_absent[of _ y] by (fastforce simp: ledger_env_def)
  show "0 \<le> ledger_balance b d \<and> ledger_balance b d \<le> 2 ^ 248" for b d by (simp add: ledger_balance_def)
qed (auto simp: ledger_env_def ledger_move_Ok split: if_splits)

section \<open>Properties\<close>

text \<open>
  C2 Solvency: in every state that the keeper reaches from an empty one, by any sequence of creating, adding to,
  splitting, unlocking, force unlocking, extending and slashing locks and of synthetic locks, the lockup module
  account holds of every denomination exactly the sum of the coins of the stored locks.
\<close>
theorem lockup_solvent:
  assumes "lockup_laws E bal" "lockup_reach E b s" "\<forall>d. bal b d = 0"
  shows "bal (outside s) d = locked (lock_store s) (\<lambda>_. True) d"
  using lockup_laws.reach_inv[OF assms] by (simp add: lockup_inv_def books_def)

definition example_lock :: "(PeriodLock \<times> (string \<Rightarrow> int) lockup_state) outcome" where
  "example_lock = CreateLock ledger_env ''osmo1'' [\<lparr>Denom = ''uosmo'', Amount = 7\<rparr>] 5 (empty_lockup (\<lambda>_. 0))"

lemmas lockup_eval = CreateLock_def CreateLockNoSend_def with_outside_def ledger_env_def ledger_move_def ledger_balance_def
  empty_lockup_def lock_coins_def setLock_def acc_Increase_def accumulationStore_def NewPeriodLock_def GetLastLockID_def
  call_hooks_def addLockRefs_def IsUnlocking_def time_zero_def durationLockRefKeys_def Let_def addLockRefByKey_def
  store_has_def store_get_def SetLastLockID_def unlockingPrefix_def KeyPrefixLockDuration_def KeyPrefixAccountLockDuration_def
  KeyPrefixDenomLockDuration_def KeyPrefixAccountDenomLockDuration_def KeyIndexSeparator_def KeyPrefixNotUnlocking_def less_char_def

lemma example_trees:
  "\<exists>e t u u' v. NewTree int256_amounts 10 [] = Ok e \<and> tree_Increase int256_amounts 10 (Some (accumulationKey 5)) 7 e = Ok t \<and>
     tree_Increase int256_amounts 10 (Some (accumulationKey 3)) 7 e = Ok u \<and> NewTree int256_amounts 10 u = Ok u' \<and>
     tree_Decrease int256_amounts 10 (Some (accumulationKey 5)) 7 u' = Ok v"
proof -
  note A = ledger.amounts_ok
  have a: "acc_is [] (\<lambda>_. 0)" and r: "room 256 (\<lambda>_. 0) 7" by (simp_all add: acc_is_def room_def mass_def)
  obtain e t where e: "NewTree int256_amounts 10 [] = Ok e" "tree_Increase int256_amounts 10 (Some (accumulationKey 5)) 7 e = Ok t"
    using sum_amounts.acc_is_Increase[OF A a r, of 5] by (auto simp: ledger_env_def go_simps)
  obtain u where u: "tree_Increase int256_amounts 10 (Some (accumulationKey 3)) 7 e = Ok u" "acc_is u ((\<lambda>_. 0)(accumulationKey 3 := 7))"
    using sum_amounts.acc_is_Increase[OF A a r, of 3] e by (auto simp: ledger_env_def)
  have "room 256 ((\<lambda>_. 0)(accumulationKey 3 := 7)) 7"
    using room_update[of "\<lambda>_. 0" 7 7 "accumulationKey 3"] by (simp add: mass_def)
  from sum_amounts.acc_is_Decrease[OF A u(2) this, of 5] obtain u' v where v: "NewTree int256_amounts 10 u = Ok u'"
    "tree_Decrease int256_amounts 10 (Some (accumulationKey 5)) 7 u' = Ok v"
    by (auto simp: ledger_env_def go_simps)
  show ?thesis using e u(1) v by blast
qed

lemma example_lock_Ok:
  "\<exists>l s. example_lock = Ok (l, s) \<and> lock_store s = [(lockStoreKey 1, l)] \<and> Coins l = [\<lparr>Denom = ''uosmo'', Amount = 7\<rparr>] \<and>
    Duration l = 5 \<and> EndTime l = 0 \<and> ID l = 1 \<and> last_lock_id s = 1 \<and> acc_store s ''uosmo/superbonding'' = [] \<and> outside s ''uosmo'' = 7"
proof -
  obtain e t where t: "NewTree int256_amounts 10 [] = Ok e" "tree_Increase int256_amounts 10 (Some (accumulationKey 5)) 7 e = Ok t"
    using example_trees by blast
  show ?thesis by (simp add: example_lock_def t lockup_eval)
qed

lemma example_reach:
  assumes "example_lock = Ok (l, s)"
  shows "lockup_reach ledger_env (\<lambda>_. 0) s"
proof (rule lockup_reach.run[OF lockup_reach.start])
  show "lockup_step ledger_env (empty_lockup (\<lambda>_. 0)) s"
    by (rule lockup_step.create[OF assms[unfolded example_lock_def]]) (simp_all add: coins_valid_def ids_left_def empty_lockup_def)
qed

lemma ledger_empty: "\<forall>d. ledger_balance (\<lambda>_. 0) d = 0"
  by (simp add: ledger_balance_def)

theorem lockup_solvent_witness:
  "\<exists>l s. example_lock = Ok (l, s) \<and> ledger_balance (outside s) ''uosmo'' = 7 \<and> locked (lock_store s) (\<lambda>_. True) ''uosmo'' = 7"
proof -
  obtain l s where e: "example_lock = Ok (l, s)" "lock_store s = [(lockStoreKey 1, l)]" "Coins l = [\<lparr>Denom = ''uosmo'', Amount = 7\<rparr>]"
    using example_lock_Ok by blast
  have "locked (lock_store s) (\<lambda>_. True) ''uosmo'' = 7" using e by (simp add: locked_def)
  then show ?thesis
    using e(1) lockup_solvent[OF ledger.lockup_laws_axioms example_reach[OF e(1)], OF ledger_empty, of "''uosmo''"] by auto
qed







text \<open>
  C38 A synthetic lock leaves a residue: creating one adds the amount of the lock under the duration of the
  synthetic lock, deleting it subtracts the amount under the duration of the underlying lock. When the synthetic lock is
  shorter and no other one of its denomination exists, the accumulation for the duration of the underlying lock is
  minus the amount after both.
\<close>
theorem synthetic_lock_leaves_residue:
  assumes "lockup_laws E bal" "lockup_reach E b s" "\<forall>d. bal b d = 0" "GetLockByID s i = Ok l" "acc_store s y = []"
    and "CreateSyntheticLockup E now i y u unlocking s = Ok s1" "DeleteSyntheticLockup E i y s1 = Ok s2" "u < Duration l"
  shows "\<exists>c s3. Coins l = [c] \<and> 0 < Amount c \<and> GetPeriodLocksAccumulation E y (Duration l) s2 = Ok (- Amount c, s3)"
  using lockup_laws.synthetic_residue[OF assms(1) lockup_laws.reach_inv[OF assms(1-3)] assms(4-8)]
    lockup_laws.lock_amount_bound(1)[OF assms(1) lockup_laws.reach_inv[OF assms(1-3)] assms(4)] by auto

definition example_synth :: "((string \<Rightarrow> int) lockup_state \<times> (string \<Rightarrow> int) lockup_state) outcome" where
  "example_synth = obind example_lock (\<lambda>(l, s).
     obind (CreateSyntheticLockup ledger_env 0 1 ''uosmo/superbonding'' 3 False s) (\<lambda>s1.
     obind (DeleteSyntheticLockup ledger_env 1 ''uosmo/superbonding'' s1) (\<lambda>s2. Ok (s1, s2))))"

lemma example_synth_Ok: "\<exists>s1 s2. example_synth = Ok (s1, s2)"
proof -
  obtain e t u u' v where t: "NewTree int256_amounts 10 [] = Ok e" "tree_Increase int256_amounts 10 (Some (accumulationKey 5)) 7 e = Ok t"
    "tree_Increase int256_amounts 10 (Some (accumulationKey 3)) 7 e = Ok u" "NewTree int256_amounts 10 u = Ok u'"
    "tree_Decrease int256_amounts 10 (Some (accumulationKey 5)) 7 u' = Ok v" using example_trees by blast
  show ?thesis
    by (simp add: example_synth_def example_lock_def t lockup_eval CreateSyntheticLockup_def GetSyntheticLockupByUnderlyingLockId_def
      GetLockByID_def store_prefix_def Synth_IsNil_def SyntheticLock_zero_def addSyntheticLockRefs_def setSyntheticLockupObject_def
      syntheticLockRefKeys_def SingleCoin_def DeleteSyntheticLockup_def GetSyntheticLockup_def deleteSyntheticLockRefs_def
      deleteSyntheticLockupObject_def acc_Decrease_def Synth_IsUnlocking_def KeyPrefixUnlocking_def KeyPrefixLockTimestamp_def
      KeyPrefixDenomLockTimestamp_def KeyPrefixAccountDenomLockTimestamp_def deleteLockRefByKey_def store_delete_def)
qed

theorem synthetic_lock_leaves_residue_witness:
  "\<exists>s1 s2 s3. example_synth = Ok (s1, s2) \<and> GetPeriodLocksAccumulation ledger_env ''uosmo/superbonding'' 5 s2 = Ok (- 7, s3)"
proof -
  obtain l s where e: "example_lock = Ok (l, s)" "lock_store s = [(lockStoreKey 1, l)]" "Duration l = 5" "Coins l = [\<lparr>Denom = ''uosmo'', Amount = 7\<rparr>]"
    "acc_store s ''uosmo/superbonding'' = []"
    using example_lock_Ok by auto
  obtain s1 s2 where u: "example_synth = Ok (s1, s2)" using example_synth_Ok by blast
  then have c: "CreateSyntheticLockup ledger_env 0 1 ''uosmo/superbonding'' 3 False s = Ok s1"
    "DeleteSyntheticLockup ledger_env 1 ''uosmo/superbonding'' s1 = Ok s2"
    unfolding example_synth_def e(1) by (auto simp: go_simps)
  have "GetLockByID s 1 = Ok l" using e by (simp add: GetLockByID_iff store_get_def)
  then show ?thesis
    using synthetic_lock_leaves_residue[OF ledger.lockup_laws_axioms example_reach[OF e(1)], OF ledger_empty _ e(5) c] u e(3,4)
    by auto
qed

end
