(* ===== verification/Sdk_Dec.thy ===== *)
theory Sdk_Dec
  imports Big_Dec_Log
begin

text \<open>
  The decimals of the SDK. An \<^verbatim>\<open>sdk.Dec\<close> is the integer it holds, in units of \<open>10 ^ -18\<close>; comparing, testing for
  zero and negating decimals is comparing, testing and negating these integers. The arithmetic of the SDK is not part
  of the repository: it is the record \<open>sdk_dec\<close>, an argument, and the locale \<open>sdk_dec_laws\<close> states what its
  documentation promises on results that are far from its bound of 315 bits.
\<close>

type_synonym Dec = int

record sdk_dec =
  D_Add :: "Dec \<Rightarrow> Dec \<Rightarrow> Dec outcome"
  D_Sub :: "Dec \<Rightarrow> Dec \<Rightarrow> Dec outcome"
  D_Mul :: "Dec \<Rightarrow> Dec \<Rightarrow> Dec outcome"
  D_MulTruncate :: "Dec \<Rightarrow> Dec \<Rightarrow> Dec outcome"
  D_MulRoundUp :: "Dec \<Rightarrow> Dec \<Rightarrow> Dec outcome"
  D_Quo :: "Dec \<Rightarrow> Dec \<Rightarrow> Dec outcome"
  D_QuoRoundUp :: "Dec \<Rightarrow> Dec \<Rightarrow> Dec outcome"
  D_QuoTruncate :: "Dec \<Rightarrow> Dec \<Rightarrow> Dec outcome"
  D_Power :: "Dec \<Rightarrow> nat \<Rightarrow> Dec outcome"
  D_TruncateInt64 :: "Dec \<Rightarrow> int64 outcome"
  D_NewDecFromBigIntWithPrec :: "int \<Rightarrow> nat \<Rightarrow> Dec outcome"
  D_Int_ToDec :: "int \<Rightarrow> Dec outcome"
  D_Ceil :: "Dec \<Rightarrow> Dec outcome"
  D_TruncateInt :: "Dec \<Rightarrow> int outcome"

definition sdk_OneDec :: Dec where "sdk_OneDec = 10 ^ 18"

definition sdk_NewDec :: "int \<Rightarrow> Dec" where "sdk_NewDec n = n * 10 ^ 18"

text \<open>Conversion between the two kinds of decimals, at the SDK's 18 places.\<close>

definition to_BigDec :: "Dec \<Rightarrow> BigDec outcome" where
  "to_BigDec d = BigDecFromSDKDec 18 id d"

definition to_SDKDec :: "sdk_dec \<Rightarrow> BigDec \<Rightarrow> Dec outcome" where
  "to_SDKDec S d = BigDec_SDKDec 18 (D_NewDecFromBigIntWithPrec S) d"

text \<open>\<^verbatim>\<open>SDKDecRoundUp\<close> also overwrites its receiver; where it is called the receiver is not used again.\<close>

definition to_SDKDecRoundUp :: "sdk_dec \<Rightarrow> BigDec \<Rightarrow> Dec outcome" where
  "to_SDKDecRoundUp S d = obind (BigDec_SDKDecRoundUp 18 (D_NewDecFromBigIntWithPrec S) d) (\<lambda>(r, _). Ok r)"

lemma to_BigDec_eq [simp]: "to_BigDec d = Ok (d * 10 ^ 18)"
  using precisionMultiplier_eq[of 18]
  by (simp add: to_BigDec_def BigDecFromSDKDec_def NewDecFromBigIntWithPrec_def Precision_def)

lemma to_SDKDec_eq: "to_SDKDec S d = D_NewDecFromBigIntWithPrec S (quo d (10 ^ 18)) 18"
proof -
  have "Exp 10 (int Precision - int 18) = 10 ^ 18" by (simp add: Precision_def Exp_def)
  then show ?thesis by (simp add: to_SDKDec_def BigDec_SDKDec_def Precision_def bigQuo_def)
qed

lemma to_SDKDecRoundUp_eq:
  assumes "0 \<le> d"
  shows "to_SDKDecRoundUp S d = D_NewDecFromBigIntWithPrec S (- ((- d) div 10 ^ 18)) 18"
proof -
  have p: "precisionReuseSDK 18 = 10 ^ 18" by (simp add: precisionReuseSDK_def Exp_def)
  have "fst (chopPrecisionAndRoundUpSDKDec 18 d) = - ((- d) div 10 ^ 18)"
    using assms ceil_div_nonneg[of "10 ^ 18" d]
    by (auto simp: chopPrecisionAndRoundUpSDKDec_def chopPrecisionAndRoundUp_def p quo_nonneg_eq rem_nonneg_eq Let_def sgn_if)
  then show ?thesis
    by (cases "D_NewDecFromBigIntWithPrec S (- ((- d) div 10 ^ 18)) 18")
      (auto simp: to_SDKDecRoundUp_def BigDec_SDKDecRoundUp_def split: prod.splits)
qed

locale sdk_dec_laws =
  fixes S :: sdk_dec
  assumes add_exact: "\<bar>a + b\<bar> < 2 ^ 300 \<Longrightarrow> D_Add S a b = Ok (a + b)"
    and sub_exact: "\<bar>a - b\<bar> < 2 ^ 300 \<Longrightarrow> D_Sub S a b = Ok (a - b)"
    and add_result: "D_Add S a b = Ok c \<Longrightarrow> c = a + b"
    and sub_result: "D_Sub S a b = Ok c \<Longrightarrow> c = a - b"
    and mul_exact: "\<bar>a * b\<bar> < 2 ^ 300 \<Longrightarrow> D_Mul S a (b * 10 ^ 18) = Ok (a * b)"
    and quo_exact: "b \<noteq> 0 \<Longrightarrow> \<bar>a\<bar> < 2 ^ 300 \<Longrightarrow> a * b = c * 10 ^ 18 \<Longrightarrow> \<bar>c\<bar> < 2 ^ 300 \<Longrightarrow> D_Quo S c b = Ok a"
    and power_exact: "\<bar>b ^ n * 10 ^ 18\<bar> < 2 ^ 300 \<Longrightarrow> D_Power S (b * 10 ^ 18) n = Ok (b ^ n * 10 ^ 18)"
    and truncate_exact: "- (2 ^ 63) \<le> quo a (10 ^ 18) \<Longrightarrow> quo a (10 ^ 18) < 2 ^ 63 \<Longrightarrow>
      D_TruncateInt64 S a = Ok (word_of_int (quo a (10 ^ 18)))"
    and int_to_dec: "D_Int_ToDec S c = Ok (c * 10 ^ 18)"
    and truncate_int: "D_TruncateInt S a = Ok c \<Longrightarrow> c = quo a (10 ^ 18)"
    and from_bigint: "D_NewDecFromBigIntWithPrec S a 18 = Ok a"
    and mul_round_up: "0 \<le> a \<Longrightarrow> 0 \<le> b \<Longrightarrow> D_MulRoundUp S a b = Ok c \<Longrightarrow> 0 \<le> c \<and> a * b \<le> c * 10 ^ 18 \<and> (c - 1) * 10 ^ 18 < a * b"
    and quo_round_up: "0 \<le> a \<Longrightarrow> 0 < b \<Longrightarrow> D_QuoRoundUp S a b = Ok c \<Longrightarrow>
      0 \<le> c \<and> (c - 1) * b < a * 10 ^ 18 \<and> a * 10 ^ 36 < (c * 10 ^ 18 + 1) * b"
begin

lemma to_SDKDec_Ok [simp]: "to_SDKDec S d = Ok (quo d (10 ^ 18))"
  by (simp add: to_SDKDec_eq from_bigint)

lemma to_SDKDecRoundUp_Ok: "0 \<le> d \<Longrightarrow> to_SDKDecRoundUp S d = Ok (- ((- d) div 10 ^ 18))"
  by (simp add: to_SDKDecRoundUp_eq from_bigint)

lemma power_ten: "n \<le> 72 \<Longrightarrow> D_Power S (10 * 10 ^ 18) n = Ok (10 ^ (n + 18))"
proof -
  assume "n \<le> 72"
  then have "(10::int) ^ n * 10 ^ 18 \<le> 10 ^ 72 * 10 ^ 18" by (intro mult_right_mono power_increasing) auto
  then show ?thesis using power_exact[of 10 n] by (simp add: power_add)
qed

end

text \<open>
  The laws hold of a straightforward implementation with the SDK's bound of 315 bits; the concrete evaluations of the
  development use it.
\<close>

definition half_even :: "int \<Rightarrow> int" where
  "half_even d = (let q = d div 10 ^ 18; r = d mod 10 ^ 18 in if 2 * r < 10 ^ 18 \<or> (2 * r = 10 ^ 18 \<and> even q) then q else q + 1)"

definition dec_div :: "(int \<Rightarrow> int) \<Rightarrow> Dec \<Rightarrow> Dec \<Rightarrow> Dec outcome" where
  "dec_div r a b = (if b = 0 then Panic ''division by zero'' else checked 315 ''Int overflow'' (r (quo (a * 10 ^ 36) b)))"

definition plain_dec :: sdk_dec where
  "plain_dec = \<lparr>
     D_Add = (\<lambda>a b. checked 315 ''Int overflow'' (a + b)),
     D_Sub = (\<lambda>a b. checked 315 ''Int overflow'' (a - b)),
     D_Mul = (\<lambda>a b. checked 315 ''Int overflow'' (half_even (a * b))),
     D_MulTruncate = (\<lambda>a b. checked 315 ''Int overflow'' (quo (a * b) (10 ^ 18))),
     D_MulRoundUp = (\<lambda>a b. checked 315 ''Int overflow'' (- ((- (a * b)) div 10 ^ 18))),
     D_Quo = dec_div half_even,
     D_QuoRoundUp = dec_div (\<lambda>q. - ((- q) div 10 ^ 18)),
     D_QuoTruncate = dec_div (\<lambda>q. quo q (10 ^ 18)),
     D_Power = (\<lambda>a n. Ok ((a ^ n * 10 ^ 18) div 10 ^ (18 * n))),
     D_TruncateInt64 = (\<lambda>a. let q = quo a (10 ^ 18) in
        if - (2 ^ 63) \<le> q \<and> q < 2 ^ 63 then Ok (word_of_int q) else Panic ''Int64() out of bound''),
     D_NewDecFromBigIntWithPrec = (\<lambda>a p. if p \<le> 18 then Ok (a * 10 ^ (18 - p)) else Panic ''too much precision''),
     D_Int_ToDec = (\<lambda>a. Ok (a * 10 ^ 18)),
     D_Ceil = (\<lambda>a. Ok (- ((- a) div 10 ^ 18) * 10 ^ 18)),
     D_TruncateInt = (\<lambda>a. Ok (quo a (10 ^ 18)))\<rparr>"

lemma half_even_exact: "half_even (a * 10 ^ 18) = a"
  by (simp add: half_even_def Let_def)

lemma in_bits_315: "\<bar>a\<bar> < 2 ^ 300 \<Longrightarrow> in_bits 315 a"
  by (simp add: in_bits_def)

interpretation plain_dec: sdk_dec_laws plain_dec
proof
  fix a b c :: int and n :: nat
  show "D_Add plain_dec a b = Ok (a + b)" if "\<bar>a + b\<bar> < 2 ^ 300"
    using in_bits_315[OF that] by (simp add: plain_dec_def)
  show "D_Sub plain_dec a b = Ok (a - b)" if "\<bar>a - b\<bar> < 2 ^ 300"
    using in_bits_315[OF that] by (simp add: plain_dec_def)
  show "D_Add plain_dec a b = Ok c \<Longrightarrow> c = a + b" "D_Sub plain_dec a b = Ok c \<Longrightarrow> c = a - b"
    by (simp_all add: plain_dec_def)
  show "D_Mul plain_dec a (b * 10 ^ 18) = Ok (a * b)" if "\<bar>a * b\<bar> < 2 ^ 300"
    using in_bits_315[OF that] half_even_exact[of "a * b"] by (simp add: plain_dec_def mult.assoc)
  show "D_Quo plain_dec c b = Ok a" if "b \<noteq> 0" "\<bar>a\<bar> < 2 ^ 300" "a * b = c * 10 ^ 18" "\<bar>c\<bar> < 2 ^ 300"
  proof -
    have "c * 10 ^ 36 = (a * 10 ^ 18) * b" using that(3) by simp
    then have "quo (c * 10 ^ 36) b = a * 10 ^ 18" using that(1) quo_mult_cancel[of b "a * 10 ^ 18"] by metis
    then show ?thesis using that(1) in_bits_315[OF that(2)] half_even_exact[of a] by (simp add: plain_dec_def dec_div_def)
  qed
  show "D_Power plain_dec (b * 10 ^ 18) n = Ok (b ^ n * 10 ^ 18)"
  proof -
    have "(10::int) ^ (18 * n) = (10 ^ 18) ^ n" by (rule power_mult)
    then have "(b * 10 ^ 18) ^ n * 10 ^ 18 = (b ^ n * 10 ^ 18) * 10 ^ (18 * n)" by (simp add: power_mult_distrib)
    then have "((b * 10 ^ 18) ^ n * 10 ^ 18) div 10 ^ (18 * n) = b ^ n * 10 ^ 18" by (simp only:) simp
    then show ?thesis unfolding plain_dec_def by simp
  qed
  show "D_TruncateInt64 plain_dec a = Ok (word_of_int (quo a (10 ^ 18)))"
    if "- (2 ^ 63) \<le> quo a (10 ^ 18)" "quo a (10 ^ 18) < 2 ^ 63"
    using that by (simp add: plain_dec_def Let_def)
  show "D_Int_ToDec plain_dec c = Ok (c * 10 ^ 18)" "D_TruncateInt plain_dec a = Ok c \<Longrightarrow> c = quo a (10 ^ 18)"
    by (simp_all add: plain_dec_def)
  show "D_NewDecFromBigIntWithPrec plain_dec a 18 = Ok a" by (simp add: plain_dec_def)
  show "0 \<le> c \<and> a * b \<le> c * 10 ^ 18 \<and> (c - 1) * 10 ^ 18 < a * b"
    if "0 \<le> a" "0 \<le> b" "D_MulRoundUp plain_dec a b = Ok c"
  proof -
    have "c = - ((- (a * b)) div 10 ^ 18)" using that(3) by (simp add: plain_dec_def)
    then have "a * b \<le> c * 10 ^ 18" "(c - 1) * 10 ^ 18 < a * b" using ceil_div_bounds[of "10 ^ 18" "a * b"] by simp_all
    then show ?thesis using mult_nonneg_nonneg[OF that(1,2)] by simp
  qed
  show "0 \<le> c \<and> (c - 1) * b < a * 10 ^ 18 \<and> a * 10 ^ 36 < (c * 10 ^ 18 + 1) * b" if h: "0 \<le> a" "0 < b" "D_QuoRoundUp plain_dec a b = Ok c"
  proof -
    define q where "q = quo (a * 10 ^ 36) b"
    have c: "c = - ((- q) div 10 ^ 18)" using h by (simp add: plain_dec_def dec_div_def q_def split: if_splits)
    have q: "0 \<le> q" "b * q \<le> a * 10 ^ 36" "a * 10 ^ 36 < b * q + b"
      using quo_lower[of b "a * 10 ^ 36"] h by (simp_all add: q_def quo_nonneg_eq pos_imp_zdiv_nonneg_iff)
    have b: "(c - 1) * 10 ^ 18 < q" "q \<le> c * 10 ^ 18" using ceil_div_bounds[of "10 ^ 18" q] by (simp_all add: c)
    have "b * ((c - 1) * 10 ^ 18) < b * q" using b(1) h(2) by (rule mult_strict_left_mono)
    then have "(c - 1) * b * 10 ^ 18 < a * 10 ^ 18 * 10 ^ 18" using q(2) by (simp add: algebra_simps)
    then have "(c - 1) * b < a * 10 ^ 18" by (simp only: mult_less_cancel_right) simp
    moreover have "b * q \<le> b * (c * 10 ^ 18)" using b(2) h(2) by (intro mult_left_mono) simp_all
    then have "a * 10 ^ 36 < (c * 10 ^ 18 + 1) * b" using q(3) by (simp add: algebra_simps)
    ultimately show ?thesis using b(2) q(1) by simp
  qed
qed

end
