(* ===== verification/CL_Tick.thy ===== *)
theory CL_Tick
  imports Sdk_Dec
begin

text \<open>
  Ticks and prices of concentrated liquidity: \<^verbatim>\<open>x/concentrated-liquidity/math/tick.go\<close>, \<^verbatim>\<open>precompute.go\<close> and
  \<^verbatim>\<open>osmomath/sqrt.go\<close>. Ticks are the integers that the \<^verbatim>\<open>int64\<close> hold; behind the range checks of the code no sum of
  ticks leaves that type, and the one that could is wrapped. Prices are \<^verbatim>\<open>sdk.Dec\<close>, the square roots that swaps compute
  with \<^verbatim>\<open>BigDec\<close>.
\<close>

section \<open>Constants (\<^verbatim>\<open>types/constants.go\<close>)\<close>

definition MinInitializedTick :: int where "MinInitializedTick = - 108000000"
definition MaxTick :: int where "MaxTick = 342000000"
definition MinCurrentTick :: int where "MinCurrentTick = MinInitializedTick - 1"
definition ExponentAtPriceOne :: int where "ExponentAtPriceOne = - 6"
definition MaxSpotPrice :: Dec where "MaxSpotPrice = 10 ^ 38 * 10 ^ 18"
definition MinSpotPrice :: Dec where "MinSpotPrice = 10 ^ 6"

definition TickIndexMinimumError :: string where "TickIndexMinimumError = ''tickIndex must be greater than or equal to min tick''"
definition TickIndexMaximumError :: string where "TickIndexMaximumError = ''tickIndex must be less than or equal to max tick''"
definition PriceBoundError :: string where "PriceBoundError = ''price must be between min and max spot price''"
definition TickIndexNotWithinBoundariesError :: string where
  "TickIndexNotWithinBoundariesError = ''tickIndex not within boundaries''"
definition SqrtPriceToTickError :: string where "SqrtPriceToTickError = ''sqrt price to tick could not find a satisfying tick index''"
definition InvalidLowerUpperTickError :: string where "InvalidLowerUpperTickError = ''lower tick must be lesser than upper''"

section \<open>Powers of ten (\<^verbatim>\<open>precompute.go\<close>)\<close>

text \<open>The entries of the tables that \<^verbatim>\<open>init\<close> fills; an index outside of a table panics.\<close>

definition powersOfTen :: "sdk_dec \<Rightarrow> nat \<Rightarrow> Dec outcome" where
  "powersOfTen S i = (if i \<le> 77 then D_Power S (sdk_NewDec 10) i else Panic ''index out of range'')"

definition negPowersOfTen :: "sdk_dec \<Rightarrow> nat \<Rightarrow> Dec outcome" where
  "negPowersOfTen S i = (if i \<le> 18 then obind (D_Power S (sdk_NewDec 10) i) (D_Quo S sdk_OneDec) else Panic ''index out of range'')"

definition bigPowersOfTen :: "nat \<Rightarrow> BigDec outcome" where
  "bigPowersOfTen i =
     (if i \<le> 308 then obind (NewBigDec 10) (\<lambda>ten. BigDec_PowerInteger ten (of_nat i)) else Panic ''index out of range'')"

definition bigNegPowersOfTen :: "nat \<Rightarrow> BigDec outcome" where
  "bigNegPowersOfTen i =
     (if i \<le> Precision
      then obind (NewBigDec 1) (\<lambda>one. obind (NewBigDec 10) (\<lambda>ten. obind (BigDec_PowerInteger ten (of_nat i)) (BigDec_Quo one)))
      else Panic ''index out of range'')"

definition PowTenInternal :: "sdk_dec \<Rightarrow> int \<Rightarrow> Dec outcome" where
  "PowTenInternal S exponent = (if exponent \<ge> 0 then powersOfTen S (nat exponent) else negPowersOfTen S (nat (- exponent)))"

definition powTenBigDec :: "int \<Rightarrow> BigDec outcome" where
  "powTenBigDec exponent = (if exponent \<ge> 0 then bigPowersOfTen (nat exponent) else bigNegPowersOfTen (nat (- exponent)))"

text \<open>The variable \<^verbatim>\<open>geometricExponentIncrementDistanceInTicks\<close> of the package.\<close>

definition geometricExponentIncrementDistanceInTicks :: "sdk_dec \<Rightarrow> int outcome" where
  "geometricExponentIncrementDistanceInTicks S =
     obind (D_Power S (sdk_NewDec 10) (nat (- ExponentAtPriceOne))) (\<lambda>p.
     obind (D_TruncateInt64 S p) (\<lambda>n. Ok (sint (9 * n))))"

record tickExpIndexData =
  initialPrice :: Dec
  maxPrice :: Dec
  additiveIncrementPerTick :: BigDec
  initialTick :: int

text \<open>
  \<^verbatim>\<open>buildTickExpCache\<close>: the entries for the exponents \<open>0, 1, \<dots>\<close> until the maximal price is reached, and those for
  \<open>-1, -2, \<dots>\<close> down to the minimal price. The first argument bounds the length of the table; 100 is more than both loops need.
\<close>

fun buildTickExpCache_up :: "nat \<Rightarrow> sdk_dec \<Rightarrow> Dec \<Rightarrow> int \<Rightarrow> tickExpIndexData list outcome" where
  "buildTickExpCache_up 0 S maxP curExpIndex = Panic ''table too short''"
| "buildTickExpCache_up (Suc n) S maxP curExpIndex =
     (if maxP < MaxSpotPrice
      then obind (D_Power S (sdk_NewDec 10) (nat curExpIndex)) (\<lambda>lo.
           obind (D_Power S (sdk_NewDec 10) (nat (curExpIndex + 1))) (\<lambda>hi.
           obind (powTenBigDec (ExponentAtPriceOne + curExpIndex)) (\<lambda>inc.
           obind (geometricExponentIncrementDistanceInTicks S) (\<lambda>geo.
           obind (buildTickExpCache_up n S hi (curExpIndex + 1)) (\<lambda>es.
             Ok (\<lparr>initialPrice = lo, maxPrice = hi, additiveIncrementPerTick = inc, initialTick = geo * curExpIndex\<rparr> # es))))))
      else Ok [])"

fun buildTickExpCache_down :: "nat \<Rightarrow> sdk_dec \<Rightarrow> Dec \<Rightarrow> int \<Rightarrow> tickExpIndexData list outcome" where
  "buildTickExpCache_down 0 S minP curExpIndex = Panic ''table too short''"
| "buildTickExpCache_down (Suc n) S minP curExpIndex =
     (if MinSpotPrice < minP
      then obind (obind (powTenBigDec curExpIndex) (to_SDKDec S)) (\<lambda>lo.
           obind (obind (powTenBigDec (curExpIndex + 1)) (to_SDKDec S)) (\<lambda>hi.
           obind (powTenBigDec (ExponentAtPriceOne + curExpIndex)) (\<lambda>inc.
           obind (geometricExponentIncrementDistanceInTicks S) (\<lambda>geo.
           obind (buildTickExpCache_down n S lo (curExpIndex - 1)) (\<lambda>es.
             Ok (\<lparr>initialPrice = lo, maxPrice = hi, additiveIncrementPerTick = inc, initialTick = geo * curExpIndex\<rparr> # es))))))
      else Ok [])"

section \<open>Square roots (\<^verbatim>\<open>osmomath/sqrt.go\<close>)\<close>

text \<open>\<^verbatim>\<open>big.Int.Sqrt\<close>: the integer part of the root, digit by digit in base two.\<close>

fun isqrt :: "nat \<Rightarrow> nat" where
  "isqrt n = (if n = 0 then 0 else let r = 2 * isqrt (n div 4) in if (r + 1) * (r + 1) \<le> n then r + 1 else r)"

declare isqrt.simps [simp del]

definition bigSqrt :: "int \<Rightarrow> int outcome" where
  "bigSqrt x = (if x < 0 then Panic ''square root of negative number'' else Ok (int (isqrt (nat x))))"

definition MonotonicSqrt :: "sdk_dec \<Rightarrow> Dec \<Rightarrow> Dec outcome" where
  "MonotonicSqrt S d =
     (if d < 0 then Err ''cannot take square root of negative number''
      else obind (bigSqrt (d * 10 ^ 18)) (\<lambda>r0.
           let r = (if Cmp (r0 * r0) (d * 10 ^ 18) = - 1 then r0 + 1 else r0)
           in D_NewDecFromBigIntWithPrec S r 18))"

definition MustMonotonicSqrt :: "sdk_dec \<Rightarrow> Dec \<Rightarrow> Dec outcome" where
  "MustMonotonicSqrt S d = panic_on_err (MonotonicSqrt S d)"

definition MaxSqrtPrice :: "sdk_dec \<Rightarrow> Dec outcome" where "MaxSqrtPrice S = MustMonotonicSqrt S MaxSpotPrice"
definition MinSqrtPrice :: "sdk_dec \<Rightarrow> Dec outcome" where "MinSqrtPrice S = MustMonotonicSqrt S MinSpotPrice"

section \<open>Ticks (\<^verbatim>\<open>tick.go\<close>)\<close>

definition TickToPrice :: "sdk_dec \<Rightarrow> int \<Rightarrow> Dec outcome" where
  "TickToPrice S tickIndex =
     (if tickIndex = 0 then Ok sdk_OneDec
      else obind (PowTenInternal S (- ExponentAtPriceOne)) (\<lambda>p.
           obind (D_Mul S (sdk_NewDec 9) p) (\<lambda>g.
           obind (D_TruncateInt64 S g) (\<lambda>geoW.
             let geo = sint geoW
             in if tickIndex < MinCurrentTick then Err TickIndexMinimumError
                else if tickIndex > MaxTick then Err TickIndexMaximumError
                else if geo = 0 then Panic ''integer divide by zero''
                else
                  let geometricExponentDelta = quo tickIndex geo;
                      exponentAtCurrentTick = ExponentAtPriceOne + geometricExponentDelta - (if tickIndex < 0 then 1 else 0)
                  in obind (powTenBigDec exponentAtCurrentTick) (\<lambda>currentAdditiveIncrementInTicks.
                     let numAdditiveTicks = tickIndex - geometricExponentDelta * geo
                     in obind (PowTenInternal S geometricExponentDelta) (\<lambda>base.
                        obind (NewBigDec (word_of_int numAdditiveTicks)) (\<lambda>num.
                        obind (BigDec_Mul num currentAdditiveIncrementInTicks) (\<lambda>prod.
                        obind (to_SDKDec S prod) (\<lambda>additive.
                        obind (D_Add S base additive) (\<lambda>price.
                          if price > MaxSpotPrice \<or> price < MinSpotPrice then Err PriceBoundError
                          else Ok price)))))))))) "

definition TickToSqrtPrice :: "sdk_dec \<Rightarrow> int \<Rightarrow> (Dec \<times> Dec) outcome" where
  "TickToSqrtPrice S tickIndex =
     obind (TickToPrice S tickIndex) (\<lambda>price. obind (MonotonicSqrt S price) (\<lambda>sqrtPrice. Ok (price, sqrtPrice)))"

definition TickToSqrtPriceBigDec :: "sdk_dec \<Rightarrow> int \<Rightarrow> BigDec outcome" where
  "TickToSqrtPriceBigDec S tickIndex =
     obind (TickToPrice S tickIndex) (\<lambda>price. obind (MonotonicSqrt S price) to_BigDec)"

definition TicksToSqrtPrice :: "sdk_dec \<Rightarrow> int \<Rightarrow> int \<Rightarrow> (Dec \<times> Dec \<times> Dec \<times> Dec) outcome" where
  "TicksToSqrtPrice S lowerTick upperTick =
     (if lowerTick \<ge> upperTick then Err InvalidLowerUpperTickError
      else obind (TickToSqrtPrice S upperTick) (\<lambda>(priceUpperTick, sqrtPriceUpperTick).
           obind (TickToSqrtPrice S lowerTick) (\<lambda>(priceLowerTick, sqrtPriceLowerTick).
             Ok (priceLowerTick, priceUpperTick, sqrtPriceLowerTick, sqrtPriceUpperTick))))"

definition wrap64 :: "int \<Rightarrow> int" where "wrap64 x = sint (word_of_int x :: 64 word)"

definition RoundDownTickToSpacing :: "int \<Rightarrow> int \<Rightarrow> int outcome" where
  "RoundDownTickToSpacing tickIndex tickSpacing =
     (if tickSpacing = 0 then Panic ''integer divide by zero''
      else let m0 = rem tickIndex tickSpacing; m = (if m0 < 0 then wrap64 (m0 + tickSpacing) else m0);
               t = (if m \<noteq> 0 then wrap64 (tickIndex - m) else tickIndex)
           in if t > MaxTick \<or> t < MinInitializedTick then Err TickIndexNotWithinBoundariesError else Ok t)"

text \<open>The searches for the entry of the table; running off it dereferences a missing entry.\<close>

fun search_up :: "tickExpIndexData list \<Rightarrow> Dec \<Rightarrow> tickExpIndexData outcome" where
  "search_up [] price = Panic ''nil pointer dereference''"
| "search_up (e # es) price = (if maxPrice e < price then search_up es price else Ok e)"

fun search_down :: "tickExpIndexData list \<Rightarrow> Dec \<Rightarrow> tickExpIndexData outcome" where
  "search_down [] price = Panic ''nil pointer dereference''"
| "search_down (e # es) price = (if initialPrice e > price then search_down es price else Ok e)"

definition CalculatePriceToTickDec :: "sdk_dec \<Rightarrow> Dec \<Rightarrow> Dec outcome" where
  "CalculatePriceToTickDec S price =
     (if price < 0 then Err ''price must be greater than zero''
      else if price > MaxSpotPrice \<or> price < MinSpotPrice then Err PriceBoundError
      else if price = sdk_OneDec then Ok 0
      else obind (if price > sdk_OneDec then obind (buildTickExpCache_up 100 S sdk_OneDec 0) (\<lambda>es. search_up es price)
                  else obind (buildTickExpCache_down 100 S sdk_OneDec (- 1)) (\<lambda>es. search_down es price)) (\<lambda>geoSpacing.
           obind (D_Sub S price (initialPrice geoSpacing)) (\<lambda>diff.
           obind (to_BigDec diff) (\<lambda>priceInThisExponent.
           obind (BigDec_Quo priceInThisExponent (additiveIncrementPerTick geoSpacing)) (\<lambda>ticksFilledByCurrentSpacing.
           obind (to_SDKDec S ticksFilledByCurrentSpacing) (\<lambda>tickIndex.
             D_Add S tickIndex (sdk_NewDec (initialTick geoSpacing))))))))"

text \<open>A call whose error is looked at later; a panic is not held back.\<close>

primrec tried :: "'a outcome \<Rightarrow> 'a option outcome" where
  "tried (Ok a) = Ok (Some a)"
| "tried (Err e) = Ok None"
| "tried (Panic p) = Panic p"

definition CalculateSqrtPriceToTick :: "sdk_dec \<Rightarrow> BigDec \<Rightarrow> int outcome" where
  "CalculateSqrtPriceToTick S sqrtPrice =
     obind (BigDec_Mul sqrtPrice sqrtPrice) (\<lambda>price.
     obind (to_SDKDec S price) (\<lambda>priceDec.
     obind (CalculatePriceToTickDec S priceDec) (\<lambda>tick.
     obind (D_TruncateInt64 S tick) (\<lambda>tW.
       let t0 = sint tW;
           outOfBounds = (t0 \<le> MinInitializedTick \<or> t0 \<ge> MaxTick - 1);
           t = (if t0 \<le> MinInitializedTick then MinInitializedTick + 1 else if t0 \<ge> MaxTick - 1 then MaxTick - 2 else t0)
       in obind (tried (TickToSqrtPriceBigDec S (t - 1))) (\<lambda>rM1.
          obind (tried (TickToSqrtPriceBigDec S t)) (\<lambda>rT.
          obind (tried (TickToSqrtPriceBigDec S (t + 1))) (\<lambda>rP1.
          obind (tried (TickToSqrtPriceBigDec S (t + 2))) (\<lambda>rP2.
            case (rM1, rT, rP1, rP2) of
              (Some sqrtPriceTmin1, Some sqrtPriceT, Some sqrtPriceTplus1, Some sqrtPriceTplus2) \<Rightarrow>
                if (\<not> outOfBounds \<and> BigDec_GTE sqrtPrice sqrtPriceTplus2) \<or> (outOfBounds \<and> BigDec_GT sqrtPrice sqrtPriceTplus2) \<or>
                   BigDec_LT sqrtPrice sqrtPriceTmin1
                then Err SqrtPriceToTickError
                else if BigDec_Equal sqrtPrice sqrtPriceTplus2 then Ok (t + 2)
                else if BigDec_GTE sqrtPrice sqrtPriceTplus1 then Ok (t + 1)
                else if BigDec_GTE sqrtPrice sqrtPriceT then Ok t
                else Ok (t - 1)
            | _ \<Rightarrow> Err ''internal error in computing square roots within CalculateSqrtPriceToTick''))))))))"

definition SqrtPriceToTickRoundDownSpacing :: "sdk_dec \<Rightarrow> Dec \<Rightarrow> uint64 \<Rightarrow> int outcome" where
  "SqrtPriceToTickRoundDownSpacing S sqrtPrice tickSpacing =
     obind (to_BigDec sqrtPrice) (\<lambda>b.
     obind (CalculateSqrtPriceToTick S b) (\<lambda>tickIndex.
       RoundDownTickToSpacing tickIndex (sint tickSpacing)))"

end
