(* ===== verification/CL_Price.thy ===== *)
theory CL_Price
  imports CL_Tick
begin

text \<open>
  The grid of prices: the closed form of \<^verbatim>\<open>TickToPrice\<close>, its strict growth, and the way back from prices and from
  square roots to ticks.
\<close>

section \<open>Powers of ten\<close>

lemma ten_power_bound: "n \<le> m \<Longrightarrow> (10::int) ^ n \<le> 10 ^ m"
  by (rule power_increasing) auto

lemma in_bits_ten: "n \<le> 344 \<Longrightarrow> in_bits maxDecBitLen (10 ^ n)"
proof -
  assume "n \<le> 344"
  then have "(10::int) ^ n \<le> 10 ^ 344" by (rule ten_power_bound)
  also have "\<dots> < 2 ^ 1144" by simp
  finally show ?thesis by (simp add: in_bits_def maxDecBitLen_eq)
qed

lemma NewBigDec_ten: "NewBigDec 10 = Ok (10 * precisionReuse)" "NewBigDec 1 = Ok (1 * precisionReuse)"
  by (simp_all add: NewBigDec_eq)

lemma bigPowersOfTen_eq: "n \<le> 308 \<Longrightarrow> bigPowersOfTen n = Ok (10 ^ (n + 36))"
proof -
  assume n: "n \<le> 308"
  have u: "unat (of_nat n :: 64 word) = n" using n by (simp add: unat_of_nat take_bit_nat_eq_self)
  have e: "(10::int) ^ n * precisionReuse = 10 ^ (n + 36)" by (simp add: precisionReuse_eq power_add)
  have "BigDec_PowerInteger (10 * precisionReuse) (of_nat n) = Ok (10 ^ n * precisionReuse)"
    using PowerInteger_whole[of 10 "of_nat n"] in_bits_ten[of "n + 36"] n by (simp add: u e)
  then show ?thesis using n by (simp add: bigPowersOfTen_def NewBigDec_ten e)
qed

lemma bigNegPowersOfTen_eq: "n \<le> 36 \<Longrightarrow> bigNegPowersOfTen n = Ok (10 ^ (36 - n))"
proof -
  assume n: "n \<le> 36"
  have p: "obind (NewBigDec 10) (\<lambda>ten. BigDec_PowerInteger ten (of_nat n)) = Ok (10 ^ (n + 36))"
    using bigPowersOfTen_eq[of n] n by (simp add: bigPowersOfTen_def)
  have e: "precisionReuse * precisionReuse * precisionReuse = 10 ^ (36 - n) * precisionReuse * 10 ^ (n + 36)"
    using n by (simp add: precisionReuse_eq flip: power_add)
  have "quo (precisionReuse * precisionReuse * precisionReuse) (10 ^ (n + 36)) = 10 ^ (36 - n) * precisionReuse"
    unfolding e by simp
  then have "BigDec_Quo (1 * precisionReuse) (10 ^ (n + 36)) = Ok (10 ^ (36 - n))"
    using quot.quot_Ok_iff[of "1 * precisionReuse" "10 ^ (n + 36)" "10 ^ (36 - n)"] bankers.chop_exact[of "10 ^ (36 - n)"]
      in_bits_ten[of "36 - n"] by simp
  then show ?thesis using n p by (simp add: bigNegPowersOfTen_def Precision_def NewBigDec_ten)
qed

lemma powTenBigDec_eq: "- 36 \<le> e \<Longrightarrow> e \<le> 308 \<Longrightarrow> powTenBigDec e = Ok (10 ^ nat (36 + e))"
  by (auto simp: powTenBigDec_def bigPowersOfTen_eq bigNegPowersOfTen_eq nat_add_distrib nat_diff_distrib algebra_simps
      intro!: arg_cong[where f = "\<lambda>n. 10 ^ n"])

section \<open>The grid\<close>

text \<open>The price of a tick: nine million ticks per power of ten, evenly spaced within it.\<close>

definition tick_price :: "int \<Rightarrow> Dec" where
  "tick_price t = 10 ^ nat (12 + t div 9000000) * (1000000 + t mod 9000000)"

definition tick_step :: "int \<Rightarrow> Dec" where
  "tick_step t = 10 ^ nat (12 + t div 9000000)"

lemma tick_step_pos [simp]: "0 < tick_step t" by (simp add: tick_step_def)

lemma tick_price_alt: "tick_price t = tick_step t * (1000000 + t mod 9000000)"
  by (simp add: tick_price_def tick_step_def)

lemma tick_split: "t = 9000000 * (t div 9000000) + t mod 9000000" "0 \<le> t mod 9000000" "t mod 9000000 < (9000000::int)"
  by simp_all

lemma tick_range: "- 108000000 \<le> t \<Longrightarrow> - 12 \<le> t div 9000000" "t \<le> 342000000 \<Longrightarrow> t div (9000000::int) \<le> 38"
  using zdiv_mono1[of "- 108000000" t 9000000] zdiv_mono1[of t 342000000 9000000] by simp_all

lemma tick_price_Suc: "- 108000000 \<le> t \<Longrightarrow> tick_price (t + 1) = tick_price t + tick_step t"
proof -
  assume t: "- 108000000 \<le> t"
  let ?q = "t div 9000000" and ?r = "t mod 9000000"
  show ?thesis
  proof (cases "?r = 8999999")
    case True
    then have e: "t + 1 = 9000000 * (?q + 1) + 0" using tick_split(1)[of t] by simp
    have d: "(t + 1) div 9000000 = ?q + 1" "(t + 1) mod 9000000 = 0"
      using int_div_pos_eq[OF e] int_mod_pos_eq[OF e] by simp_all
    have "nat (12 + (?q + 1)) = Suc (nat (12 + ?q))" using tick_range(1)[OF t] by simp
    then show ?thesis using True d by (simp add: tick_price_def tick_step_def)
  next
    case False
    have e: "t + 1 = 9000000 * ?q + (?r + 1)" using tick_split(1)[of t] by simp
    have "0 \<le> ?r + 1" "?r + 1 < 9000000" using False tick_split(2,3)[of t] by simp_all
    then have "(t + 1) div 9000000 = ?q" "(t + 1) mod 9000000 = ?r + 1"
      using int_div_pos_eq[OF e] int_mod_pos_eq[OF e] by simp_all
    then show ?thesis by (simp add: tick_price_def tick_step_def algebra_simps)
  qed
qed

lemma tick_price_less: "- 108000000 \<le> t \<Longrightarrow> t < u \<Longrightarrow> tick_price t + tick_step t \<le> tick_price u"
proof (induction "nat (u - t)" arbitrary: u rule: less_induct)
  case less
  show ?case
  proof (cases "u = t + 1")
    case True
    then show ?thesis using tick_price_Suc[of t] less.prems by simp
  next
    case False
    then have "tick_price t + tick_step t \<le> tick_price (u - 1)" using less.prems by (intro less.hyps) auto
    also have "\<dots> \<le> tick_price u" using tick_price_Suc[of "u - 1"] less.prems tick_step_pos[of "u - 1", THEN less_imp_le] by simp
    finally show ?thesis .
  qed
qed

lemma tick_price_mono: "- 108000000 \<le> t \<Longrightarrow> t \<le> u \<Longrightarrow> tick_price t \<le> tick_price u"
  using tick_price_less[of t u] tick_step_pos[of t, THEN less_imp_le] by (cases "t = u") auto

lemma tick_price_le_iff: "- 108000000 \<le> t \<Longrightarrow> - 108000000 \<le> u \<Longrightarrow> tick_price t \<le> tick_price u \<longleftrightarrow> t \<le> u"
  using tick_price_mono[of t u] tick_price_less[of u t] tick_step_pos[of u] by (cases "t \<le> u") (auto simp del: tick_step_pos)

lemma tick_price_ends: "tick_price (- 108000000) = 10 ^ 6" "tick_price 342000000 = 10 ^ 56" "tick_price 0 = 10 ^ 18"
  by (simp_all add: tick_price_def)

lemma quo_trunc: "quo t 9000000 = (if t < 0 then - ((- t) div 9000000) else t div 9000000)"
  using quo_minus_left[of "- t" 9000000] by (auto simp: quo_nonneg_eq)

lemma quo_scaled: "quo (n * 10 ^ (m + 18)) (10 ^ 18) = n * 10 ^ m"
proof -
  have "n * 10 ^ (m + 18) = (n * 10 ^ m) * 10 ^ 18" by (simp add: power_add)
  then show ?thesis by (simp only: quo_mult_cancel) simp
qed

context sdk_dec_laws
begin

lemma PowTenInternal_eq: "- 18 \<le> e \<Longrightarrow> e \<le> 72 \<Longrightarrow> PowTenInternal S e = Ok (10 ^ nat (18 + e))"
proof (cases "0 \<le> e")
  case True
  assume "e \<le> 72"
  then show ?thesis using True power_ten[of "nat e"]
    by (simp add: PowTenInternal_def powersOfTen_def sdk_NewDec_def nat_add_distrib add.commute)
next
  case False
  assume e: "- 18 \<le> e"
  let ?n = "nat (- e)"
  have "nat (18 + e) + (?n + 18) = 36" using False e by simp
  then have "(10::int) ^ nat (18 + e) * 10 ^ (?n + 18) = 10 ^ 36" by (metis power_add)
  then have "(10::int) ^ nat (18 + e) * 10 ^ (?n + 18) = 10 ^ 18 * 10 ^ 18" by simp
  moreover have "(10::int) ^ nat (18 + e) \<le> 10 ^ 18" by (rule ten_power_bound) (use False in simp)
  ultimately have "D_Quo S (10 ^ 18) (10 ^ (?n + 18)) = Ok (10 ^ nat (18 + e))" by (intro quo_exact) simp_all
  then show ?thesis using False e power_ten[of ?n]
    by (simp add: PowTenInternal_def negPowersOfTen_def sdk_NewDec_def sdk_OneDec_def)
qed

lemma geo_eq: "geometricExponentIncrementDistanceInTicks S = Ok 9000000"
  using power_ten[of 6] truncate_exact[of "10 ^ 24"]
  by (simp add: geometricExponentIncrementDistanceInTicks_def ExponentAtPriceOne_def sdk_NewDec_def quo_def)

lemma geo: "PowTenInternal S (- ExponentAtPriceOne) = Ok (10 ^ 24)" "D_Mul S (sdk_NewDec 9) (10 ^ 24) = Ok (9 * 10 ^ 24)"
  "D_TruncateInt64 S (9 * 10 ^ 24) = Ok 9000000"
  using PowTenInternal_eq[of 6] mul_exact[of "9 * 10 ^ 18" "10 ^ 6"] truncate_exact[of "9 * 10 ^ 24"]
  by (simp_all add: ExponentAtPriceOne_def sdk_NewDec_def quo_def)

text \<open>Outside of the range of ticks; the tick below the smallest initialized one has the price of that tick.\<close>

lemma TickToPrice_outside:
  "t < MinCurrentTick \<Longrightarrow> TickToPrice S t = Err TickIndexMinimumError"
  "MaxTick < t \<Longrightarrow> TickToPrice S t = Err TickIndexMaximumError"
  unfolding TickToPrice_def geo obind.simps Let_def by (auto simp: MinCurrentTick_def MinInitializedTick_def MaxTick_def)

lemma TickToPrice_MinCurrentTick: "TickToPrice S MinCurrentTick = Ok MinSpotPrice"
proof -
  have q: "quo (- 108000001) 9000000 = - 12" by (simp add: quo_def)
  have e: "powTenBigDec (- 19) = Ok (10 ^ 17)" "PowTenInternal S (- 12) = Ok (10 ^ 6)" "D_Add S (10 ^ 6) 0 = Ok (10 ^ 6)"
    using powTenBigDec_eq[of "- 19"] PowTenInternal_eq[of "- 12"] add_exact[of "10 ^ 6" 0] by simp_all
  have n: "NewBigDec (word_of_int (- 1)) = Ok (- 1 * precisionReuse)" by (simp add: NewBigDec_eq)
  have m: "BigDec_Mul (- 1 * precisionReuse) (10 ^ 17) = Ok (- (10 ^ 17))"
    using mul.mul_whole[of "- 1" "10 ^ 17"] by (simp add: in_bits_def maxDecBitLen_eq)
  have z: "to_SDKDec S (- (10 ^ 17)) = Ok 0" by (simp add: quo_def)
  show ?thesis
    using q e m z n unfolding TickToPrice_def geo obind.simps Let_def
    by (simp add: MinCurrentTick_def MinInitializedTick_def MaxTick_def ExponentAtPriceOne_def MinSpotPrice_def MaxSpotPrice_def)
qed

text \<open>The closed form.\<close>

lemma TickToPrice_eq:
  assumes "MinInitializedTick \<le> t" "t \<le> MaxTick"
  shows "TickToPrice S t = Ok (tick_price t)"
proof (cases "t = 0")
  case True
  then show ?thesis by (simp add: TickToPrice_def sdk_OneDec_def tick_price_def)
next
  case False
  have t: "- 108000000 \<le> t" "t \<le> 342000000" using assms by (simp_all add: MinInitializedTick_def MaxTick_def)
  define q where "q = quo t 9000000"
  define e where "e = ExponentAtPriceOne + q - (if t < 0 then 1 else 0)"
  define num where "num = t - q * 9000000"
  have split: "t = 9000000 * q + num" by (simp add: num_def)
  define k r where "k = t div 9000000" and "r = t mod 9000000"
  have dr: "t = 9000000 * k + r" "0 \<le> r" "r < 9000000" using tick_split[of t] unfolding k_def r_def by blast+
  have d: "- 12 \<le> k" "k \<le> 38" using tick_range(1)[OF t(1)] tick_range(2)[OF t(2)] unfolding k_def by blast+
  have price: "tick_price t = 10 ^ nat (12 + k) * (1000000 + r)" by (simp add: tick_price_def k_def r_def)
  have form: "- 12 \<le> q \<and> q \<le> 38 \<and> \<bar>num\<bar> < 9000000 \<and> - 19 \<le> e \<and> e \<le> 32 \<and>
      10 ^ nat (18 + q) + quo (num * 10 ^ nat (36 + e)) (10 ^ 18) = tick_price t"
  proof (cases "t < 0 \<and> r \<noteq> 0")
    case True
    have m: "- t = 9000000 * (- k - 1) + (9000000 - r)" using dr(1) by (simp add: algebra_simps)
    have "(- t) div 9000000 = - k - 1" using int_div_pos_eq[OF m] True dr(2,3) by simp
    then have q: "q = k + 1" using True by (simp add: q_def quo_trunc)
    have n: "num = r - 9000000" unfolding num_def q using dr(1) by (simp add: algebra_simps)
    have e: "e = k - 6" using True by (simp add: e_def q ExponentAtPriceOne_def)
    have w: "nat (36 + e) = nat (12 + k) + 18" "nat (18 + q) = nat (12 + k) + 7" using d by (simp_all add: e q)
    have "10 ^ nat (18 + q) + quo (num * 10 ^ nat (36 + e)) (10 ^ 18) = tick_price t"
      unfolding w price quo_scaled n by (simp add: power_add algebra_simps)
    moreover have "k < 0" "0 < r" using True dr by linarith+
    ultimately show ?thesis using d dr by (simp add: q n e)
  next
    case False
    have q: "q = k"
    proof (cases "t < 0")
      case True
      then have m: "- t = 9000000 * (- k) + 0" using False dr(1) by (simp add: algebra_simps)
      show ?thesis using True int_div_pos_eq[OF m] by (simp add: q_def quo_trunc)
    qed (simp add: q_def quo_trunc k_def)
    have n: "num = r" unfolding num_def q using dr(1) by (simp add: algebra_simps)
    have h: "nat (18 + q) = nat (12 + k) + 6" using d by (simp add: q)
    show ?thesis
    proof (cases "t < 0")
      case True
      have r: "r = 0" and "k < 0" using True False dr by auto
      moreover have "10 ^ nat (18 + q) + quo (num * 10 ^ nat (36 + e)) (10 ^ 18) = tick_price t"
        unfolding h price n r by (simp add: power_add)
      ultimately show ?thesis using True d by (simp add: q n e_def ExponentAtPriceOne_def)
    next
      case nonneg: False
      then have e: "e = k - 6" by (simp add: e_def q ExponentAtPriceOne_def)
      have w: "nat (36 + e) = nat (12 + k) + 18" using d by (simp add: e)
      have "10 ^ nat (18 + q) + quo (num * 10 ^ nat (36 + e)) (10 ^ 18) = tick_price t"
        unfolding h w price quo_scaled n by (simp add: power_add algebra_simps)
      then show ?thesis using d dr by (simp add: q n e)
    qed
  qed
  then have "\<bar>num\<bar> < 9000000" by blast
  then have "sint (word_of_int num :: 64 word) = num" by (intro sint_of_int_64) auto
  then have num: "NewBigDec (word_of_int num) = Ok (num * precisionReuse)" by (simp add: NewBigDec_eq)
  have "(10::int) ^ nat (36 + e) \<le> 10 ^ 68" using form by (intro ten_power_bound) linarith
  then have "\<bar>num * 10 ^ nat (36 + e)\<bar> \<le> 10 ^ 7 * 10 ^ 68"
    unfolding abs_mult using \<open>\<bar>num\<bar> < 9000000\<close> by (intro mult_mono) auto
  then have prod: "BigDec_Mul (num * precisionReuse) (10 ^ nat (36 + e)) = Ok (num * 10 ^ nat (36 + e))"
    by (simp add: mul.mul_whole in_bits_def maxDecBitLen_eq)
  have bounds: "10 ^ 6 \<le> tick_price t" "tick_price t \<le> 10 ^ 56"
    using tick_price_mono[of "- 108000000" t] tick_price_mono[of t 342000000] t tick_price_ends by simp_all
  then have "D_Add S (10 ^ nat (18 + q)) (quo (num * 10 ^ nat (36 + e)) (10 ^ 18)) = Ok (tick_price t)"
    using add_exact[of "10 ^ nat (18 + q)" "quo (num * 10 ^ nat (36 + e)) (10 ^ 18)"] form by simp
  moreover have "\<not> t < MinCurrentTick" "\<not> t > MaxTick" using assms by (simp_all add: MinCurrentTick_def)
  moreover have "\<not> (tick_price t > MaxSpotPrice \<or> tick_price t < MinSpotPrice)"
    using bounds by (simp add: MaxSpotPrice_def MinSpotPrice_def)
  moreover have "sint (9000000 :: 64 word) = 9000000" by simp
  moreover have "PowTenInternal S q = Ok (10 ^ nat (18 + q))" "powTenBigDec e = Ok (10 ^ nat (36 + e))"
    using PowTenInternal_eq[of q] powTenBigDec_eq[of e] form by simp_all
  ultimately show ?thesis using False
    by (simp only: TickToPrice_def geo obind.simps if_False Let_def num prod to_SDKDec_Ok
        q_def[symmetric] e_def[symmetric] num_def[symmetric]) simp
qed

end

section \<open>Square roots\<close>

lemma isqrt_bounds: "isqrt n * isqrt n \<le> n \<and> n < (isqrt n + 1) * (isqrt n + 1)"
proof (induction n rule: isqrt.induct)
  case (1 n)
  show ?case
  proof (cases "n = 0")
    case True
    then show ?thesis by (simp add: isqrt.simps)
  next
    case False
    define m where "m = isqrt (n div 4)"
    have m: "m * m \<le> n div 4" "n div 4 < (m + 1) * (m + 1)" using "1.IH"[OF False] by (simp_all add: m_def)
    have "4 * (n div 4) \<le> n" "n < 4 * (n div 4) + 4" by linarith+
    with m have "2 * m * (2 * m) \<le> n" and "n < (2 * m + 2) * (2 * m + 2)" by (auto simp: algebra_simps)
    moreover have "isqrt n = (if (2 * m + 1) * (2 * m + 1) \<le> n then 2 * m + 1 else 2 * m)"
      using False by (subst isqrt.simps) (simp add: m_def Let_def)
    ultimately show ?thesis by (auto simp: algebra_simps)
  qed
qed

text \<open>The least integer whose square is at least the given one.\<close>

definition sqrt_up :: "int \<Rightarrow> int" where
  "sqrt_up x = (let r = int (isqrt (nat x)) in if r * r < x then r + 1 else r)"

lemma sqrt_up_bounds:
  assumes "0 < x"
  shows "x \<le> sqrt_up x * sqrt_up x" "0 < sqrt_up x" "(sqrt_up x - 1) * (sqrt_up x - 1) < x"
proof -
  define r where "r = int (isqrt (nat x))"
  have "int (isqrt (nat x) * isqrt (nat x)) \<le> int (nat x)" "int (nat x) < int ((isqrt (nat x) + 1) * (isqrt (nat x) + 1))"
    using isqrt_bounds[of "nat x"] by (simp_all only: of_nat_le_iff of_nat_less_iff)
  then have r: "r * r \<le> x" "x < (r + 1) * (r + 1)" "0 \<le> r" using assms by (simp_all add: r_def algebra_simps)
  have s: "sqrt_up x = (if r * r < x then r + 1 else r)" by (simp add: sqrt_up_def r_def Let_def)
  show "x \<le> sqrt_up x * sqrt_up x" using r s by auto
  show pos: "0 < sqrt_up x"
  proof (cases "r = 0")
    case True
    then show ?thesis using s assms by simp
  qed (use r(3) s in auto)
  show "(sqrt_up x - 1) * (sqrt_up x - 1) < x"
  proof (cases "r * r < x")
    case True
    then show ?thesis by (simp add: s)
  next
    case False
    then have "(r - 1) * (r - 1) < r * r" using pos s by (simp add: algebra_simps)
    then show ?thesis using False r(1) by (simp add: s)
  qed
qed

lemma sqrt_up_mono:
  assumes "0 < x" "x \<le> y"
  shows "sqrt_up x \<le> sqrt_up y"
proof (rule ccontr)
  assume "\<not> ?thesis"
  then have "sqrt_up y * sqrt_up y \<le> (sqrt_up x - 1) * (sqrt_up x - 1)"
    using sqrt_up_bounds(2)[of y] assms by (intro mult_mono) auto
  then show False using sqrt_up_bounds(1)[of y] sqrt_up_bounds(3)[of x] assms by linarith
qed

lemma sqrt_up_square: "0 < n \<Longrightarrow> sqrt_up (n * n) = n"
proof -
  assume n: "0 < n"
  note b = sqrt_up_bounds[of "n * n"]
  have "n \<le> sqrt_up (n * n)" using b(1,2) n by (metis linorder_not_less mult_strict_mono' less_imp_le mult_pos_pos)
  moreover have "sqrt_up (n * n) - 1 < n"
    using b(3) n by (metis linorder_not_less mult_mono' less_imp_le mult_pos_pos)
  ultimately show ?thesis by simp
qed

definition tick_sqrt :: "int \<Rightarrow> Dec" where
  "tick_sqrt t = sqrt_up (tick_price t * 10 ^ 18)"

lemma tick_price_pos [simp]: "0 < tick_price t"
proof -
  have "0 < 1000000 + t mod 9000000" using tick_split(2)[of t] by linarith
  then show ?thesis unfolding tick_price_alt by simp
qed

lemma tick_sqrt_bounds:
  "tick_price t * 10 ^ 18 \<le> tick_sqrt t * tick_sqrt t" "0 < tick_sqrt t"
  "(tick_sqrt t - 1) * (tick_sqrt t - 1) < tick_price t * 10 ^ 18"
  using sqrt_up_bounds[of "tick_price t * 10 ^ 18"] by (simp_all add: tick_sqrt_def)

text \<open>A step of the grid is large against the rounding of the root.\<close>

lemma tick_sqrt_step: "100 * tick_sqrt t \<le> 10 ^ 18 * tick_step t"
proof (rule ccontr)
  define s c where "s = tick_sqrt t" and "c = tick_step t"
  assume "\<not> ?thesis"
  then have "10 ^ 18 * c < 100 * s" by (simp add: s_def c_def)
  moreover have c: "1 \<le> c" using tick_step_pos[of t] unfolding c_def by linarith
  ultimately have h: "10 ^ 18 * c \<le> 200 * (s - 1)" by simp
  have n: "0 \<le> 10 ^ 18 * c" using c by simp
  have "(10 ^ 18 * c) * (10 ^ 18 * c) \<le> (200 * (s - 1)) * (200 * (s - 1))"
    by (rule mult_mono[OF h h order_trans[OF n h] n])
  moreover define A B where "A = (s - 1) * (s - 1)" and "B = c * c"
  ultimately have "10 ^ 36 * B \<le> 40000 * A" by (simp add: algebra_simps)
  moreover have "A < tick_price t * 10 ^ 18" using tick_sqrt_bounds(3)[of t] by (simp add: s_def A_def)
  moreover have "tick_price t < c * 10 ^ 7"
    using tick_split(2,3)[of t] c by (simp add: tick_price_alt c_def)
  moreover have "c \<le> B" using c by (simp add: B_def)
  ultimately show False using c by simp
qed

lemma tick_sqrt_Suc: "- 108000000 \<le> t \<Longrightarrow> tick_sqrt t < tick_sqrt (t + 1)"
proof (rule ccontr)
  assume t: "- 108000000 \<le> t" and "\<not> ?thesis"
  then have "tick_sqrt (t + 1) * tick_sqrt (t + 1) \<le> tick_sqrt t * tick_sqrt t"
    using tick_sqrt_bounds(2)[of "t + 1"] by (intro mult_mono) auto
  then have "tick_price (t + 1) * 10 ^ 18 \<le> tick_sqrt t * tick_sqrt t" using tick_sqrt_bounds(1)[of "t + 1"] by linarith
  moreover have "tick_sqrt t * tick_sqrt t = (tick_sqrt t - 1) * (tick_sqrt t - 1) + 2 * tick_sqrt t - 1" by (simp add: algebra_simps)
  ultimately have "tick_price (t + 1) * 10 ^ 18 < tick_price t * 10 ^ 18 + 2 * tick_sqrt t" using tick_sqrt_bounds(3)[of t] by linarith
  then show False using tick_price_Suc[OF t] tick_sqrt_step[of t] tick_sqrt_bounds(2)[of t] by (simp add: algebra_simps)
qed

lemma tick_sqrt_less: "- 108000000 \<le> t \<Longrightarrow> t < u \<Longrightarrow> tick_sqrt t < tick_sqrt u"
proof (induction "nat (u - t)" arbitrary: u rule: less_induct)
  case less
  show ?case
  proof (cases "u = t + 1")
    case False
    then have "tick_sqrt t < tick_sqrt (u - 1)" using less.prems by (intro less.hyps) auto
    also have "\<dots> < tick_sqrt u" using tick_sqrt_Suc[of "u - 1"] less.prems by simp
    finally show ?thesis .
  qed (use tick_sqrt_Suc less.prems in simp)
qed

lemma tick_sqrt_mono: "- 108000000 \<le> t \<Longrightarrow> t \<le> u \<Longrightarrow> tick_sqrt t \<le> tick_sqrt u"
  using tick_sqrt_less[of t u] by (cases "t = u") (auto simp: less_imp_le)

lemma tick_sqrt_le_iff: "- 108000000 \<le> t \<Longrightarrow> - 108000000 \<le> u \<Longrightarrow> tick_sqrt t \<le> tick_sqrt u \<longleftrightarrow> t \<le> u"
  using tick_sqrt_mono[of t u] tick_sqrt_less[of u t] by (cases "t \<le> u") auto

lemma tick_sqrt_ends: "tick_sqrt (- 108000000) = 10 ^ 12" "tick_sqrt 342000000 = 10 ^ 37"
  using sqrt_up_square[of "10 ^ 12"] sqrt_up_square[of "10 ^ 37"] by (simp_all add: tick_sqrt_def tick_price_ends)

context sdk_dec_laws
begin

lemma MonotonicSqrt_eq: "0 \<le> d \<Longrightarrow> MonotonicSqrt S d = Ok (sqrt_up (d * 10 ^ 18))"
  by (simp add: MonotonicSqrt_def bigSqrt_def sqrt_up_def Let_def from_bigint Cmp_def)

lemma TickToSqrtPrice_eq:
  assumes "MinInitializedTick \<le> t" "t \<le> MaxTick"
  shows "TickToSqrtPrice S t = Ok (tick_price t, tick_sqrt t)" "TickToSqrtPriceBigDec S t = Ok (tick_sqrt t * 10 ^ 18)"
  using TickToPrice_eq[OF assms] tick_price_pos[of t, THEN less_imp_le]
  by (simp_all add: TickToSqrtPrice_def TickToSqrtPriceBigDec_def MonotonicSqrt_eq tick_sqrt_def)

end

end
