(* ===== verification/CL_Bucket.thy ===== *)
theory CL_Bucket
  imports CL_Price
begin

text \<open>
  The way back from prices and square roots to ticks: the table of \<^verbatim>\<open>buildTickExpCache\<close>, the search in it, and the
  correction that \<^verbatim>\<open>CalculateSqrtPriceToTick\<close> makes.
\<close>

section \<open>The table\<close>

definition decade :: "int \<Rightarrow> tickExpIndexData" where
  "decade k = \<lparr>initialPrice = 10 ^ nat (18 + k), maxPrice = 10 ^ nat (19 + k),
     additiveIncrementPerTick = 10 ^ nat (30 + k), initialTick = 9000000 * k\<rparr>"

text \<open>Within a decade, its upper end included, prices grow linearly.\<close>

lemma tick_price_decade:
  assumes "- 12 \<le> k" "0 \<le> r" "r \<le> 9000000"
  shows "tick_price (9000000 * k + r) = 10 ^ nat (18 + k) + r * 10 ^ nat (12 + k)"
proof -
  have h: "nat (18 + k) = nat (12 + k) + 6" using assms by simp
  show ?thesis
  proof (cases "r = 9000000")
    case True
    then have e: "9000000 * k + r = 9000000 * (k + 1) + 0" by simp
    have "(9000000 * k + r) div 9000000 = k + 1" "(9000000 * k + r) mod 9000000 = 0"
      using int_div_pos_eq[OF e] int_mod_pos_eq[OF e] by simp_all
    moreover have "nat (12 + (k + 1)) = Suc (nat (12 + k))" using assms by simp
    ultimately show ?thesis using True by (simp add: tick_price_def h power_add)
  next
    case False
    then have "r < 9000000" using assms by simp
    then have "(9000000 * k + r) div 9000000 = k" "(9000000 * k + r) mod 9000000 = r"
      using int_div_pos_eq[OF refl, of r 9000000 k] int_mod_pos_eq[OF refl, of r 9000000 k] assms by simp_all
    then show ?thesis unfolding tick_price_def h by (simp add: power_add algebra_simps)
  qed
qed

lemma tick_price_decade_ends:
  "- 12 \<le> k \<Longrightarrow> tick_price (9000000 * k) = 10 ^ nat (18 + k)"
  "- 12 \<le> k \<Longrightarrow> tick_price (9000000 * (k + 1)) = 10 ^ nat (19 + k)"
proof -
  assume k: "- 12 \<le> k"
  show "tick_price (9000000 * k) = 10 ^ nat (18 + k)" using tick_price_decade[OF k, of 0] by simp
  have "nat (18 + (k + 1)) = nat (19 + k)" by simp
  then show "tick_price (9000000 * (k + 1)) = 10 ^ nat (19 + k)" using tick_price_decade[of "k + 1" 0] k by simp
qed

context sdk_dec_laws
begin

lemma cache_up:
  "k \<le> 38 \<Longrightarrow> 39 - k \<le> n \<Longrightarrow> \<exists>es. buildTickExpCache_up n S (10 ^ (18 + k)) (int k) = Ok es \<and>
     (\<forall>p. 10 ^ (18 + k) < p \<and> p \<le> 10 ^ 56 \<longrightarrow>
       (\<exists>j. j < 38 \<and> search_up es p = Ok (decade (int j)) \<and> 10 ^ (18 + j) < p \<and> p \<le> 10 ^ (19 + j)))"
proof (induction n arbitrary: k)
  case (Suc n)
  show ?case
  proof (cases "k = 38")
    case True
    then show ?thesis by (simp add: MaxSpotPrice_def)
  next
    case False
    then have k: "Suc k \<le> 38" "39 - Suc k \<le> n" using Suc.prems by auto
    obtain es where es: "buildTickExpCache_up n S (10 ^ (18 + Suc k)) (int (Suc k)) = Ok es"
      and find: "\<And>p. 10 ^ (18 + Suc k) < p \<and> p \<le> 10 ^ 56 \<Longrightarrow>
        \<exists>j. j < 38 \<and> search_up es p = Ok (decade (int j)) \<and> 10 ^ (18 + j) < p \<and> p \<le> 10 ^ (19 + j)"
      using Suc.IH[OF k] by blast
    have "(10::int) ^ (18 + k) < 10 ^ 56" using False Suc.prems(1) by (intro power_strict_increasing) auto
    moreover have "D_Power S (sdk_NewDec 10) (nat (int k)) = Ok (10 ^ (18 + k))"
      "D_Power S (sdk_NewDec 10) (nat (int k + 1)) = Ok (10 ^ (18 + Suc k))"
      using power_ten[of k] power_ten[of "Suc k"] k by (simp_all add: sdk_NewDec_def add.commute nat_add_distrib)
    moreover have "powTenBigDec (ExponentAtPriceOne + int k) = Ok (10 ^ nat (30 + int k))"
      using powTenBigDec_eq[of "int k - 6"] k by (simp add: ExponentAtPriceOne_def)
    moreover have "buildTickExpCache_up n S (10 ^ (18 + Suc k)) (int k + 1) = Ok es" using es by (simp add: add.commute)
    moreover have w: "nat (18 + int k) = 18 + k" "nat (19 + int k) = 18 + Suc k" by simp_all
    ultimately have "buildTickExpCache_up (Suc n) S (10 ^ (18 + k)) (int k) = Ok (decade (int k) # es)"
      by (simp add: MaxSpotPrice_def geo_eq decade_def)
    moreover have "\<exists>j. j < 38 \<and> search_up (decade (int k) # es) p = Ok (decade (int j)) \<and> 10 ^ (18 + j) < p \<and> p \<le> 10 ^ (19 + j)"
      if "10 ^ (18 + k) < p \<and> p \<le> 10 ^ 56" for p
    proof (cases "p \<le> 10 ^ (18 + Suc k)")
      case True
      then show ?thesis using that k w by (intro exI[of _ k]) (simp add: decade_def)
    next
      case False
      then show ?thesis using find[of p] that w by (simp add: decade_def)
    qed
    ultimately show ?thesis by blast
  qed
qed simp

lemma cache_down:
  "k \<le> 12 \<Longrightarrow> 13 - k \<le> n \<Longrightarrow> \<exists>es. buildTickExpCache_down n S (10 ^ (18 - k)) (- 1 - int k) = Ok es \<and>
     (\<forall>p. p < 10 ^ (18 - k) \<and> 10 ^ 6 \<le> p \<longrightarrow>
       (\<exists>j. j < 12 \<and> search_down es p = Ok (decade (- 1 - int j)) \<and> 10 ^ (17 - j) \<le> p \<and> p < 10 ^ (18 - j)))"
proof (induction n arbitrary: k)
  case (Suc n)
  show ?case
  proof (cases "k = 12")
    case True
    then show ?thesis by (simp add: MinSpotPrice_def)
  next
    case False
    then have k: "Suc k \<le> 12" "13 - Suc k \<le> n" using Suc.prems by auto
    obtain es where es: "buildTickExpCache_down n S (10 ^ (18 - Suc k)) (- 1 - int (Suc k)) = Ok es"
      and find: "\<And>p. p < 10 ^ (18 - Suc k) \<and> 10 ^ 6 \<le> p \<Longrightarrow>
        \<exists>j. j < 12 \<and> search_down es p = Ok (decade (- 1 - int j)) \<and> 10 ^ (17 - j) \<le> p \<and> p < 10 ^ (18 - j)"
      using Suc.IH[OF k] by blast
    have "(10::int) ^ 6 < 10 ^ (18 - k)" using k by (intro power_strict_increasing) auto
    moreover have "obind (powTenBigDec (- 1 - int k)) (to_SDKDec S) = Ok (10 ^ (18 - Suc k))"
      "obind (powTenBigDec (- 1 - int k + 1)) (to_SDKDec S) = Ok (10 ^ (18 - k))"
    proof -
      have e: "nat (36 + (- 1 - int k)) = (18 - Suc k) + 18" "nat (36 + (- 1 - int k + 1)) = (18 - k) + 18" using k by simp_all
      show "obind (powTenBigDec (- 1 - int k)) (to_SDKDec S) = Ok (10 ^ (18 - Suc k))"
        "obind (powTenBigDec (- 1 - int k + 1)) (to_SDKDec S) = Ok (10 ^ (18 - k))"
        using powTenBigDec_eq[of "- 1 - int k"] powTenBigDec_eq[of "- 1 - int k + 1"] k quo_scaled[of 1 "18 - k"]
          quo_scaled[of 1 "18 - Suc k"] unfolding e by simp_all
    qed
    moreover have "powTenBigDec (ExponentAtPriceOne + (- 1 - int k)) = Ok (10 ^ nat (30 + (- 1 - int k)))"
      using powTenBigDec_eq[of "- 7 - int k"] k by (simp add: ExponentAtPriceOne_def)
    moreover have "buildTickExpCache_down n S (10 ^ (18 - Suc k)) (- 1 - int k - 1) = Ok es"
      using es by (simp add: algebra_simps)
    moreover have w: "nat (18 + (- 1 - int k)) = 18 - Suc k" "nat (19 + (- 1 - int k)) = 18 - k" using k by simp_all
    ultimately have "buildTickExpCache_down (Suc n) S (10 ^ (18 - k)) (- 1 - int k) = Ok (decade (- 1 - int k) # es)"
      unfolding buildTickExpCache_down.simps by (simp add: MinSpotPrice_def geo_eq decade_def del: of_nat_Suc diff_Suc_Suc)
    moreover have "\<exists>j. j < 12 \<and> search_down (decade (- 1 - int k) # es) p = Ok (decade (- 1 - int j)) \<and>
        10 ^ (17 - j) \<le> p \<and> p < 10 ^ (18 - j)" if "p < 10 ^ (18 - k) \<and> 10 ^ 6 \<le> p" for p
    proof (cases "10 ^ (18 - Suc k) \<le> p")
      case True
      then show ?thesis using that k w by (intro exI[of _ k]) (simp add: decade_def)
    next
      case False
      then show ?thesis using find[of p] that w by (simp add: decade_def)
    qed
    ultimately show ?thesis by blast
  qed
qed simp

text \<open>The entry that the search finds for a price.\<close>

lemma table_search:
  assumes "10 ^ 6 \<le> p" "p \<le> 10 ^ 56" "p \<noteq> 10 ^ 18"
  shows "\<exists>k. - 12 \<le> k \<and> k \<le> 37 \<and> 10 ^ nat (18 + k) \<le> p \<and> p \<le> 10 ^ nat (19 + k) \<and>
    (if p > sdk_OneDec then obind (buildTickExpCache_up 100 S sdk_OneDec 0) (\<lambda>es. search_up es p)
     else obind (buildTickExpCache_down 100 S sdk_OneDec (- 1)) (\<lambda>es. search_down es p)) = Ok (decade k)"
proof (cases "p > 10 ^ 18")
  case True
  obtain es j where "buildTickExpCache_up 100 S (10 ^ 18) 0 = Ok es" "j < 38" "search_up es p = Ok (decade (int j))"
    and j: "10 ^ (18 + j) < p" "p \<le> 10 ^ (19 + j)"
    using cache_up[of 0 100] assms(2) True by auto
  moreover have "nat (18 + int j) = 18 + j" "nat (19 + int j) = 19 + j" by simp_all
  ultimately show ?thesis using True by (intro exI[of _ "int j"]) (simp add: sdk_OneDec_def)
next
  case False
  then have "p < 10 ^ (18 - 0)" using assms(3) by simp
  then obtain es j where "buildTickExpCache_down 100 S (10 ^ 18) (- 1) = Ok es" "j < 12"
    "search_down es p = Ok (decade (- 1 - int j))" and "10 ^ (17 - j) \<le> p" "p < 10 ^ (18 - j)"
    using cache_down[of 0 100] assms(1) by auto
  moreover have "nat (18 + (- 1 - int j)) = 17 - j" "nat (19 + (- 1 - int j)) = 18 - j" by simp_all
  ultimately show ?thesis using False by (intro exI[of _ "- 1 - int j"]) (simp add: sdk_OneDec_def)
qed

text \<open>The ticks of a decade that are filled, as a \<^verbatim>\<open>BigDec\<close>: exact where the price is on the grid, and monotonic.\<close>

lemma ticks_filled:
  assumes "- 12 \<le> k" "10 ^ nat (18 + k) \<le> p" "p \<le> 10 ^ nat (19 + k)"
  shows "\<exists>v. BigDec_Quo ((p - 10 ^ nat (18 + k)) * 10 ^ 18) (10 ^ nat (30 + k)) = Ok v \<and> 0 \<le> v \<and> v \<le> 9000000 * 10 ^ 36 \<and>
    (\<forall>m. m * 10 ^ nat (12 + k) \<le> (p - 10 ^ nat (18 + k)) * 10 ^ 36 \<longrightarrow> m \<le> v) \<and>
    (\<forall>m. (p - 10 ^ nat (18 + k)) * 10 ^ 36 \<le> m * 10 ^ nat (12 + k) \<longrightarrow> v \<le> m)"
proof -
  define c x where "c = (10::int) ^ nat (12 + k)" and "x = p - 10 ^ nat (18 + k)"
  have "nat (18 + k) = nat (12 + k) + 6" "nat (19 + k) = nat (12 + k) + 7" "nat (30 + k) = nat (12 + k) + 18" using assms(1) by simp_all
  then have w: "10 ^ nat (18 + k) = c * 10 ^ 6" "10 ^ nat (19 + k) = c * 10 ^ 7" "(10::int) ^ nat (30 + k) = c * 10 ^ 18"
    by (simp_all only: power_add c_def)
  have c: "0 < c" by (simp add: c_def)
  have x: "0 \<le> x" "x \<le> 9000000 * c" using assms(2,3) by (simp_all add: x_def w)
  have b: "0 < c * 10 ^ 18" using c by simp
  have "\<exists>v. BigDec_Quo (x * 10 ^ 18) (c * 10 ^ 18) = Ok v \<and> 0 \<le> v \<and> v \<le> 9000000 * 10 ^ 36"
    using x c by (intro quot.quot_exists) (simp_all add: precisionReuse_eq in_bits_def maxDecBitLen_eq)
  then obtain v where v: "BigDec_Quo (x * 10 ^ 18) (c * 10 ^ 18) = Ok v" "0 \<le> v" "v \<le> 9000000 * 10 ^ 36" by blast
  moreover have "m \<le> v" if "m * c \<le> x * 10 ^ 36" for m
    using that by (intro quot.quot_ge[OF v(1) b]) (simp add: precisionReuse_eq algebra_simps)
  moreover have "v \<le> m" if "x * 10 ^ 36 \<le> m * c" for m
    using that by (intro quot.quot_le[OF v(1) b]) (simp add: precisionReuse_eq algebra_simps)
  ultimately show ?thesis unfolding w(3) c_def[symmetric] x_def[symmetric] by blast
qed

text \<open>
  The tick of a price, with its fraction: the price decides on which side of every tick it is, and of every point halfway
  between two ticks.
\<close>

lemma price_to_tick:
  assumes "10 ^ 6 \<le> p" "p \<le> 10 ^ 56"
  shows "\<exists>T. CalculatePriceToTickDec S p = Ok T \<and>
    (\<forall>t. - 108000000 \<le> t \<and> tick_price t \<le> p \<longrightarrow> t * 10 ^ 18 \<le> T) \<and>
    (\<forall>t. - 108000000 \<le> t \<and> p \<le> tick_price t \<longrightarrow> T \<le> t * 10 ^ 18) \<and>
    (\<forall>t. - 108000000 \<le> t \<and> 2 * p \<le> tick_price t + tick_price (t + 1) \<longrightarrow> T < (t + 1) * 10 ^ 18) \<and>
    (\<forall>t. - 108000000 \<le> t \<and> t < 0 \<and> tick_price t < p \<longrightarrow> t * 10 ^ 18 < T)"
proof (cases "p = 10 ^ 18")
  case True
  have "tick_price t \<le> 10 ^ 18 \<longleftrightarrow> t \<le> 0" "10 ^ 18 \<le> tick_price t \<longleftrightarrow> 0 \<le> t" if "- 108000000 \<le> t" for t
    using that tick_price_le_iff[of t 0] tick_price_le_iff[of 0 t] by (simp_all add: tick_price_ends)
  moreover have "0 < (t + 1) * 10 ^ 18" if "- 108000000 \<le> t" "2 * 10 ^ 18 \<le> tick_price t + tick_price (t + 1)" for t
  proof -
    have "0 < t + 1" using that tick_price_le_iff[of "t + 1" 0] tick_price_less[of t 0] tick_step_pos[of t] tick_price_ends
      by (cases "t + 1 \<le> 0") (auto simp del: tick_step_pos)
    then show ?thesis by simp
  qed
  ultimately show ?thesis using True
    by (intro exI[of _ 0]) (auto simp: CalculatePriceToTickDec_def MaxSpotPrice_def MinSpotPrice_def sdk_OneDec_def simp del: distrib_right)
next
  case False
  obtain k where k: "- 12 \<le> k" "k \<le> 37" "10 ^ nat (18 + k) \<le> p" "p \<le> 10 ^ nat (19 + k)"
    and found: "(if p > sdk_OneDec then obind (buildTickExpCache_up 100 S sdk_OneDec 0) (\<lambda>es. search_up es p)
     else obind (buildTickExpCache_down 100 S sdk_OneDec (- 1)) (\<lambda>es. search_down es p)) = Ok (decade k)"
    using table_search[OF assms False] by blast
  define c x where "c = (10::int) ^ nat (12 + k)" and "x = p - 10 ^ nat (18 + k)"
  have c: "0 < c" by (simp add: c_def)
  obtain v where v: "BigDec_Quo (x * 10 ^ 18) (10 ^ nat (30 + k)) = Ok v" "0 \<le> v" "v \<le> 9000000 * 10 ^ 36"
    and lo: "\<And>m. m * c \<le> x * 10 ^ 36 \<Longrightarrow> m \<le> v" and hi: "\<And>m. x * 10 ^ 36 \<le> m * c \<Longrightarrow> v \<le> m"
    using ticks_filled[OF k(1,3,4)] unfolding c_def[symmetric] x_def[symmetric] by blast
  define u where "u = v div 10 ^ 18"
  have u: "m * 10 ^ 18 \<le> v \<Longrightarrow> m \<le> u" "v \<le> m * 10 ^ 18 \<Longrightarrow> u \<le> m" for m
    using zdiv_mono1[of "m * 10 ^ 18" v "10 ^ 18"] zdiv_mono1[of v "m * 10 ^ 18" "10 ^ 18"] by (simp_all add: u_def)
  define T where "T = u + 9000000 * k * 10 ^ 18"
  have sub: "D_Sub S p (10 ^ nat (18 + k)) = Ok x"
    unfolding x_def using k(3) assms(2) zero_le_power[of "10::int" "nat (18 + k)"] by (intro sub_exact) (simp del: zero_le_power)
  have ub: "0 \<le> u" "u \<le> 9000000 * 10 ^ 18" using u(1)[of 0] u(2)[of "9000000 * 10 ^ 18"] v(2,3) by simp_all
  have add: "D_Add S u (9000000 * k * 10 ^ 18) = Ok T"
    unfolding T_def using k(1,2) ub by (intro add_exact) auto
  have run: "CalculatePriceToTickDec S p = Ok T"
    unfolding CalculatePriceToTickDec_def found
    using assms False sub v add
    by (simp add: MaxSpotPrice_def MinSpotPrice_def sdk_OneDec_def decade_def sdk_NewDec_def quo_nonneg_eq u_def)
  note ends = tick_price_decade_ends[OF k(1)]
  have pos: "tick_price t = 10 ^ nat (18 + k) + (t - 9000000 * k) * c" if "9000000 * k \<le> t" "t \<le> 9000000 * (k + 1)" for t
    using that k(1) tick_price_decade[of k "t - 9000000 * k"] by (simp add: c_def)
  have below: "t \<le> 9000000 * (k + 1)" if "- 108000000 \<le> t" "tick_price t \<le> p" for t
    using that k(1,4) ends(2) by (subst tick_price_le_iff[symmetric]) auto
  have above: "9000000 * k \<le> t" if "- 108000000 \<le> t" "p \<le> tick_price t" for t
    using that k(1,3) ends(1) by (subst tick_price_le_iff[symmetric]) auto
  have r: "r * c \<le> x \<Longrightarrow> r * 10 ^ 18 \<le> u" "x \<le> r * c \<Longrightarrow> u \<le> r * 10 ^ 18"
    "2 * x \<le> (2 * r + 1) * c \<Longrightarrow> u \<le> r * 10 ^ 18 + 5 * 10 ^ 17"
    "r * c + 1 \<le> x \<Longrightarrow> c \<le> 10 ^ 18 \<Longrightarrow> r * 10 ^ 18 + 1 \<le> u" for r
    by ((intro u(1) lo | intro u(2) hi), simp add: algebra_simps)+
  have 1: "t * 10 ^ 18 \<le> T" if t: "- 108000000 \<le> t" "tick_price t \<le> p" for t
  proof (cases "9000000 * k \<le> t")
    case True
    then have "(t - 9000000 * k) * c \<le> x" using pos[OF True below[OF t]] t(2) by (simp add: x_def)
    from r(1)[OF this] show ?thesis by (simp add: T_def algebra_simps)
  qed (use ub in \<open>simp add: T_def\<close>)
  have 2: "T \<le> t * 10 ^ 18" if t: "- 108000000 \<le> t" "p \<le> tick_price t" for t
  proof (cases "t \<le> 9000000 * (k + 1)")
    case True
    then have "x \<le> (t - 9000000 * k) * c" using pos[OF above[OF t] True] t(2) by (simp add: x_def)
    from r(2)[OF this] show ?thesis by (simp add: T_def algebra_simps)
  qed (use ub in \<open>simp add: T_def\<close>)
  have 3: "T < (t + 1) * 10 ^ 18" if t: "- 108000000 \<le> t" "2 * p \<le> tick_price t + tick_price (t + 1)" for t
  proof (cases "t + 1 \<le> 9000000 * (k + 1)")
    case True
    have lt: "tick_price t < tick_price (t + 1)" using tick_price_le_iff[of "t + 1" t] t(1) by simp
    then have "10 ^ nat (18 + k) < tick_price (t + 1)" using t(2) k(3) by linarith
    then have k': "9000000 * k < t + 1" using ends(1) tick_price_le_iff[of "t + 1" "9000000 * k"] t(1) k(1) by force
    have "2 * x \<le> (2 * (t - 9000000 * k) + 1) * c"
      using pos[of t] pos[of "t + 1"] k' True t(2) by (simp add: x_def algebra_simps)
    from r(3)[OF this] show ?thesis by (simp add: T_def algebra_simps)
  qed (use ub in \<open>simp add: T_def\<close>)
  have 4: "t * 10 ^ 18 < T" if t: "- 108000000 \<le> t" "t < 0" "tick_price t < p" for t
  proof (cases "9000000 * k \<le> t")
    case True
    then have "k \<le> - 1" using t(2) by linarith
    then have "c \<le> 10 ^ 18" unfolding c_def by (intro ten_power_bound) simp
    moreover have "(t - 9000000 * k) * c + 1 \<le> x" using pos[OF True below] t by (simp add: x_def)
    ultimately have "(t - 9000000 * k) * 10 ^ 18 + 1 \<le> u" by (intro r(4))
    then show ?thesis by (simp add: T_def algebra_simps)
  qed (use ub in \<open>simp add: T_def\<close>)
  show ?thesis using run 1 2 3 4 by blast
qed

end

end
