(* ===== verification/CL_Tick_Spec.thy ===== *)
theory CL_Tick_Spec
  imports CL_Bucket
begin

text \<open>
  \<^verbatim>\<open>CalculateSqrtPriceToTick\<close>: for every square root price between those of the smallest and the greatest tick, exactly
  when it returns and that what it returns is the bucket of the square root price.
\<close>

definition square_price :: "BigDec \<Rightarrow> Dec" where
  "square_price x = chopPrecisionAndRound (x * x) div 10 ^ 18"

lemma square_price_ge: "m * 10 ^ 54 \<le> x * x \<Longrightarrow> m \<le> square_price x"
  using zdiv_mono1[of "m * 10 ^ 18" "chopPrecisionAndRound (x * x)" "10 ^ 18"]
    bankers.chop_mono[of "m * 10 ^ 18 * precisionReuse" "x * x"] bankers.chop_exact[of "m * 10 ^ 18"]
  by (simp add: square_price_def precisionReuse_eq)

lemma square_price_le:
  assumes "x * x \<le> m * 10 ^ 36"
  shows "square_price x * 10 ^ 18 \<le> m"
proof -
  have "chopPrecisionAndRound (x * x) \<le> m"
    using bankers.chop_mono[of "x * x" "m * precisionReuse"] bankers.chop_exact[of m] assms by (simp add: precisionReuse_eq)
  moreover have "square_price x * 10 ^ 18 \<le> chopPrecisionAndRound (x * x)"
    using floor_div_bounds[of "10 ^ 18" "chopPrecisionAndRound (x * x)"] by (simp add: square_price_def)
  ultimately show ?thesis by linarith
qed

lemma square_price_range:
  assumes "10 ^ 30 \<le> x" "x \<le> 10 ^ 55"
  shows "10 ^ 6 \<le> square_price x" "square_price x \<le> 10 ^ 56" "BigDec_Mul x x = Ok (chopPrecisionAndRound (x * x))"
    "0 \<le> chopPrecisionAndRound (x * x)"
proof -
  have x: "10 ^ 30 * 10 ^ 30 \<le> x * x" "x * x \<le> 10 ^ 55 * 10 ^ 55" using assms by (intro mult_mono; simp)+
  then show "10 ^ 6 \<le> square_price x" by (intro square_price_ge) simp
  show "square_price x \<le> 10 ^ 56" using square_price_le[of x "10 ^ 74"] x by simp
  show c: "0 \<le> chopPrecisionAndRound (x * x)" by (intro bankers.chop_nonneg) simp
  obtain r where "BigDec_Mul x x = Ok r" using mul.mul_exists[of x x "10 ^ 74"] x by (auto simp: precisionReuse_eq in_bits_def maxDecBitLen_eq)
  then show "BigDec_Mul x x = Ok (chopPrecisionAndRound (x * x))" by (simp add: mul.mul_Ok_iff)
qed

text \<open>A square root price in the bucket of \<open>t\<close>: between the square roots of two neighbouring ticks.\<close>

definition in_bucket :: "int \<Rightarrow> BigDec \<Rightarrow> bool" where
  "in_bucket t x \<longleftrightarrow> - 108000000 \<le> t \<and> t < 342000000 \<and> tick_sqrt t * 10 ^ 18 \<le> x \<and> x < tick_sqrt (t + 1) * 10 ^ 18"

lemma in_bucket_le: "in_bucket t x \<Longrightarrow> - 108000000 \<le> j \<Longrightarrow> tick_sqrt j * 10 ^ 18 \<le> x \<longleftrightarrow> j \<le> t"
  using tick_sqrt_mono[of j t] tick_sqrt_mono[of "t + 1" j] by (cases "j \<le> t") (auto simp: in_bucket_def)

lemma in_bucket_range: "in_bucket t x \<Longrightarrow> 10 ^ 30 \<le> x \<and> x \<le> 10 ^ 55"
  using tick_sqrt_mono[of "- 108000000" t] tick_sqrt_mono[of "t + 1" 342000000] tick_sqrt_ends by (auto simp: in_bucket_def)

lemma in_bucket_price:
  assumes "in_bucket t x"
  shows "tick_price t \<le> square_price x" "2 * square_price x \<le> tick_price (t + 1) + tick_price (t + 2)"
proof -
  define s where "s = tick_sqrt (t + 1)"
  have b: "- 108000000 \<le> t" "tick_sqrt t * 10 ^ 18 \<le> x" "x < s * 10 ^ 18" using assms by (simp_all add: in_bucket_def s_def)
  have x: "0 \<le> x" using in_bucket_range[OF assms] by simp
  have "tick_sqrt t * 10 ^ 18 * (tick_sqrt t * 10 ^ 18) \<le> x * x"
    using b(2) tick_sqrt_bounds(2)[of t] by (intro mult_mono) auto
  then show "tick_price t \<le> square_price x" using tick_sqrt_bounds(1)[of t] by (intro square_price_ge) simp
  have "x * x \<le> s * 10 ^ 18 * (s * 10 ^ 18)" using b(3) x by (intro mult_mono) auto
  then have "x * x \<le> s * s * 10 ^ 36" by simp
  then have "square_price x * 10 ^ 18 \<le> s * s" by (rule square_price_le)
  moreover have "s * s < tick_price (t + 1) * 10 ^ 18 + 2 * s" using tick_sqrt_bounds(3)[of "t + 1"] by (simp add: s_def algebra_simps)
  moreover have "100 * s \<le> 10 ^ 18 * tick_step (t + 1)" "0 < s"
    using tick_sqrt_step[of "t + 1"] tick_sqrt_bounds(2)[of "t + 1"] by (simp_all add: s_def)
  moreover have "tick_price (t + 2) = tick_price (t + 1) + tick_step (t + 1)" using tick_price_Suc[of "t + 1"] b(1) by (simp add: add.commute)
  ultimately show "2 * square_price x \<le> tick_price (t + 1) + tick_price (t + 2)" by simp
qed

lemma quo_toward_zero:
  "0 \<le> T \<Longrightarrow> quo T (10 ^ 18) * 10 ^ 18 \<le> T \<and> T < (quo T (10 ^ 18) + 1) * 10 ^ 18"
  "T < 0 \<Longrightarrow> T \<le> quo T (10 ^ 18) * 10 ^ 18 \<and> (quo T (10 ^ 18) - 1) * 10 ^ 18 < T"
proof -
  show "quo T (10 ^ 18) * 10 ^ 18 \<le> T \<and> T < (quo T (10 ^ 18) + 1) * 10 ^ 18" if "0 \<le> T"
    using that floor_div_bounds[of "10 ^ 18" T] by (simp add: quo_nonneg_eq)
  show "T \<le> quo T (10 ^ 18) * 10 ^ 18 \<and> (quo T (10 ^ 18) - 1) * 10 ^ 18 < T" if "T < 0"
    using that floor_div_bounds[of "10 ^ 18" "- T"] quo_minus_left[of "- T" "10 ^ 18"] by (simp add: quo_nonneg_eq algebra_simps)
qed

lemma truncated_tick:
  assumes "t * 10 ^ 18 \<le> T" "T < (t + 2) * 10 ^ 18"
  shows "t + 1 < 0 \<Longrightarrow> (t + 1) * 10 ^ 18 < T \<Longrightarrow> quo T (10 ^ 18) = t + 2"
    "t + 1 < 0 \<Longrightarrow> T \<le> (t + 1) * 10 ^ 18 \<Longrightarrow> quo T (10 ^ 18) \<in> {t, t + 1}"
    "0 \<le> t + 1 \<Longrightarrow> quo T (10 ^ 18) \<in> {t, t + 1}"
  using assms quo_toward_zero[of T] by (cases "T < 0"; simp; linarith)+

context sdk_dec_laws
begin

lemma square_to_price: "10 ^ 30 \<le> x \<Longrightarrow> x \<le> 10 ^ 55 \<Longrightarrow> obind (BigDec_Mul x x) (to_SDKDec S) = Ok (square_price x)"
  using square_price_range[of x] by (simp add: square_price_def quo_nonneg_eq)

text \<open>The function behind the candidate: the candidate is moved away from the ends and corrected by one.\<close>

lemma CalculateSqrtPriceToTick_run:
  fixes x :: BigDec
  assumes x: "10 ^ 30 \<le> x" "x \<le> 10 ^ 55"
    and T: "CalculatePriceToTickDec S (square_price x) = Ok T" "quo T (10 ^ 18) = t0" "\<bar>t0\<bar> < 2 ^ 62"
  shows "CalculateSqrtPriceToTick S x =
    (let t = max (- 107999999) (min 341999998 t0); out = (t0 \<le> - 108000000 \<or> 341999999 \<le> t0);
         s = \<lambda>j. tick_sqrt (t + j) * 10 ^ 18
     in if (\<not> out \<and> s 2 \<le> x) \<or> (out \<and> s 2 < x) \<or> x < s (- 1) then Err SqrtPriceToTickError
        else if x = s 2 then Ok (t + 2) else if s 1 \<le> x then Ok (t + 1) else if s 0 \<le> x then Ok t else Ok (t - 1))"
proof -
  define t where "t = max (- 107999999) (min 341999998 t0)"
  have t: "- 107999999 \<le> t" "t \<le> 341999998" by (simp_all add: t_def)
  have s: "TickToSqrtPriceBigDec S (t - 1) = Ok (tick_sqrt (t - 1) * 10 ^ 18)" "TickToSqrtPriceBigDec S t = Ok (tick_sqrt t * 10 ^ 18)"
    "TickToSqrtPriceBigDec S (t + 1) = Ok (tick_sqrt (t + 1) * 10 ^ 18)"
    "TickToSqrtPriceBigDec S (t + 2) = Ok (tick_sqrt (t + 2) * 10 ^ 18)"
    using t by (simp_all add: TickToSqrtPrice_eq MinInitializedTick_def MaxTick_def)
  have w: "D_TruncateInt64 S T = Ok (word_of_int t0)" "sint (word_of_int t0 :: 64 word) = t0"
    using truncate_exact[of T] sint_of_int_64[of t0] T by simp_all
  have clamp: "(if t0 \<le> MinInitializedTick then MinInitializedTick + 1 else if t0 \<ge> MaxTick - 1 then MaxTick - 2 else t0) = t"
    by (simp add: t_def MinInitializedTick_def MaxTick_def)
  have p: "to_SDKDec S (chopPrecisionAndRound (x * x)) = Ok (square_price x)"
    using square_price_range(4)[OF x] by (simp add: square_price_def quo_nonneg_eq)
  show ?thesis
    unfolding CalculateSqrtPriceToTick_def Let_def square_price_range(3)[OF x] obind.simps p T(1) w clamp s tried.simps
      prod.case option.case t_def[symmetric]
    by (simp add: big_simps MinInitializedTick_def MaxTick_def)
qed

lemma tick_of_bucket:
  assumes b: "in_bucket t x"
  shows "CalculateSqrtPriceToTick S x =
    (if t + 1 < 0 \<and> tick_price (t + 1) < square_price x then Err SqrtPriceToTickError else Ok t)"
proof -
  have x: "10 ^ 30 \<le> x" "x \<le> 10 ^ 55" using in_bucket_range[OF b] by simp_all
  have t: "- 108000000 \<le> t" "t < 342000000" using b by (simp_all add: in_bucket_def)
  obtain T where T: "CalculatePriceToTickDec S (square_price x) = Ok T"
    and ge: "\<And>j. - 108000000 \<le> j \<and> tick_price j \<le> square_price x \<Longrightarrow> j * 10 ^ 18 \<le> T"
    and le: "\<And>j. - 108000000 \<le> j \<and> square_price x \<le> tick_price j \<Longrightarrow> T \<le> j * 10 ^ 18"
    and half: "\<And>j. - 108000000 \<le> j \<and> 2 * square_price x \<le> tick_price j + tick_price (j + 1) \<Longrightarrow> T < (j + 1) * 10 ^ 18"
    and gt: "\<And>j. - 108000000 \<le> j \<and> j < 0 \<and> tick_price j < square_price x \<Longrightarrow> j * 10 ^ 18 < T"
    using price_to_tick[OF square_price_range(1,2)[OF x]] by blast
  have "t * 10 ^ 18 \<le> T" using ge[of t] t in_bucket_price(1)[OF b] by simp
  moreover have "T < (t + 2) * 10 ^ 18"
    using half[of "t + 1"] t in_bucket_price(2)[OF b] by (simp only: add.assoc one_add_one) simp
  ultimately have q: "if t + 1 < 0 \<and> tick_price (t + 1) < square_price x then quo T (10 ^ 18) = t + 2 else quo T (10 ^ 18) \<in> {t, t + 1}"
    using truncated_tick[of t T] gt[of "t + 1"] le[of "t + 1"] t(1)
    by (cases "t + 1 < 0"; cases "tick_price (t + 1) < square_price x") simp_all
  define t0 where "t0 = quo T (10 ^ 18)"
  have t0: "t \<le> t0" "t0 \<le> t + 2" using q by (auto simp: t0_def split: if_splits)
  define c where "c = max (- 107999999) (min 341999998 t0)"
  have s: "tick_sqrt (c + j) * 10 ^ 18 \<le> x \<longleftrightarrow> c + j \<le> t" if "- 1 \<le> j" for j
    using in_bucket_le[OF b, of "c + j"] that by (simp add: c_def)
  have far: "t < c + 2" using t t0 by (auto simp: c_def)
  have w: "\<bar>t0\<bar> < 2 ^ 62" using t t0 by auto
  have n: "\<not> tick_sqrt (c + 2) * 10 ^ 18 \<le> x" "\<not> tick_sqrt (c + 2) * 10 ^ 18 < x" "x \<noteq> tick_sqrt (c + 2) * 10 ^ 18"
    using s[of 2] far by auto
  have l: "x < tick_sqrt (c + - 1) * 10 ^ 18 \<longleftrightarrow> \<not> c - 1 \<le> t" using s[of "- 1"] by auto
  have "CalculateSqrtPriceToTick S x =
    (if \<not> c - 1 \<le> t then Err SqrtPriceToTickError else if c + 1 \<le> t then Ok (c + 1) else if c \<le> t then Ok c else Ok (c - 1))"
    unfolding CalculateSqrtPriceToTick_run[OF x T t0_def[symmetric] w] c_def[symmetric] Let_def
    using n l s[of 0] s[of 1] by simp
  then show ?thesis using q t far unfolding t0_def[symmetric] by (auto simp: c_def split: if_splits)
qed

lemma in_bucket_start: "- 108000000 \<le> t \<Longrightarrow> t < 342000000 \<Longrightarrow> in_bucket t (tick_sqrt t * 10 ^ 18)"
  using tick_sqrt_Suc[of t] by (simp add: in_bucket_def)

lemma square_price_tick:
  assumes "- 108000000 \<le> t"
  shows "square_price (tick_sqrt t * 10 ^ 18) \<le> tick_price (t + 1)"
proof -
  define s where "s = tick_sqrt t"
  have "square_price (s * 10 ^ 18) * 10 ^ 18 \<le> s * s" by (rule square_price_le) simp
  moreover have "s * s < tick_price t * 10 ^ 18 + 2 * s" using tick_sqrt_bounds(3)[of t] by (simp add: s_def algebra_simps)
  moreover have "100 * s \<le> 10 ^ 18 * tick_step t" "0 < s" using tick_sqrt_step[of t] tick_sqrt_bounds(2)[of t] by (simp_all add: s_def)
  ultimately show ?thesis using tick_price_Suc[OF assms] by (simp add: s_def)
qed

lemma tick_of_max: "CalculateSqrtPriceToTick S (10 ^ 55) = Ok 342000000"
proof -
  have p: "square_price (10 ^ 55) = 10 ^ 56"
    using square_price_ge[of "10 ^ 56" "10 ^ 55"] square_price_le[of "10 ^ 55" "10 ^ 74"] by simp
  obtain T where T: "CalculatePriceToTickDec S (10 ^ 56) = Ok T" "342000000 * 10 ^ 18 \<le> T" "T \<le> 342000000 * 10 ^ 18"
    using price_to_tick[of "10 ^ 56"] tick_price_ends(2) by (auto dest!: spec[of _ 342000000])
  then have "T = 342000000 * 10 ^ 18" by simp
  then have "quo T (10 ^ 18) = 342000000" by (simp add: quo_def)
  moreover have "tick_sqrt 341999997 < tick_sqrt 342000000" by (rule tick_sqrt_less) simp_all
  ultimately show ?thesis using CalculateSqrtPriceToTick_run[of "10 ^ 55" T 342000000] T(1) p tick_sqrt_ends(2) by simp
qed

lemma tick_roundtrip:
  assumes "- 108000000 \<le> t" "t \<le> 342000000"
  shows "CalculateSqrtPriceToTick S (tick_sqrt t * 10 ^ 18) = Ok t"
proof (cases "t = 342000000")
  case True
  then show ?thesis using tick_of_max tick_sqrt_ends(2) by simp
next
  case False
  then show ?thesis using tick_of_bucket[OF in_bucket_start, of t] square_price_tick[of t] assms by simp
qed

lemma spaced_roundtrip:
  assumes t: "- 108000000 \<le> t" "t \<le> 342000000" and k: "0 < sint k" "- 108000000 \<le> t - t mod sint k"
  shows "SqrtPriceToTickRoundDownSpacing S (tick_sqrt t) k = Ok (t - t mod sint k)"
proof -
  define d m where "d = sint k" and "m = t mod d"
  have d: "0 < d" "d < 2 ^ 63" using k sint_lt[of k] by (simp_all add: d_def)
  have m: "0 \<le> m" "m < d" "t - m \<le> t" using d by (simp_all add: m_def)
  have wrap: "wrap64 x = x" if "- (2 ^ 63) \<le> x" "x < 2 ^ 63" for x using that by (simp add: wrap64_def sint_of_int_64)
  have "t - m \<le> 342000000" "- 108000000 \<le> t - m" using m(3) t k(2) unfolding m_def d_def by linarith+
  moreover have "(if rem t d < 0 then wrap64 (rem t d + d) else rem t d) = m"
  proof (cases "0 \<le> t")
    case True
    then have "rem t d = m" using d by (simp add: rem_nonneg_eq m_def)
    then show ?thesis using m by simp
  next
    case False
    then have r: "rem t d = - ((- t) mod d)" using rem_minus_left[of "- t" d] d by (simp add: rem_nonneg_eq)
    show ?thesis
    proof (cases "t mod d = 0")
      case True
      then have "(- t) mod d = 0" by (simp add: mod_minus_eq dvd_eq_mod_eq_0 [symmetric])
      then show ?thesis using True r by (simp add: m_def)
    next
      case nz: False
      then have "(- t) mod d = d - m" by (simp add: zmod_zminus1_eq_if m_def)
      moreover have "wrap64 m = m" using m d by (intro wrap) linarith+
      ultimately show ?thesis using r m(2) by simp
    qed
  qed
  moreover have "wrap64 (t - m) = t - m" using calculation(1,2) t by (intro wrap) simp_all
  ultimately have "RoundDownTickToSpacing t d = Ok (t - m)"
    using d t unfolding RoundDownTickToSpacing_def Let_def by (simp add: MaxTick_def MinInitializedTick_def)
  then show ?thesis using tick_roundtrip[OF t] by (simp add: SqrtPriceToTickRoundDownSpacing_def d_def m_def)
qed

end

section \<open>Properties\<close>

lemma sqrt_up_unique: "0 < n \<Longrightarrow> (n - 1) * (n - 1) < x \<Longrightarrow> x \<le> n * n \<Longrightarrow> sqrt_up x = n"
proof -
  assume n: "0 < n" "(n - 1) * (n - 1) < x" "x \<le> n * n"
  then have x: "0 < x" using zero_le_square[of "n - 1"] by linarith
  note b = sqrt_up_bounds[OF x]
  have "\<not> sqrt_up x < n" using mult_mono[of "sqrt_up x" "n - 1" "sqrt_up x" "n - 1"] b n by auto
  moreover have "\<not> n < sqrt_up x" using mult_mono[of n "sqrt_up x - 1" n "sqrt_up x - 1"] b n by auto
  ultimately show ?thesis by simp
qed

text \<open>
  C11 The price of a tick, on every tick that a position may have: nine million ticks per power of ten, evenly spaced within
  it; its square root is rounded up at the eighteenth place; prices and square roots both grow strictly with the tick, so
  no two ticks share a price or a square root price.
\<close>

theorem TickToSqrtPrice_grid:
  assumes "sdk_dec_laws S" "MinInitializedTick \<le> t" "t < u" "u \<le> MaxTick"
  shows "\<exists>p s q r. TickToSqrtPrice S t = Ok (p, s) \<and> TickToSqrtPrice S u = Ok (q, r) \<and>
    p = 10 ^ nat (12 + t div 9000000) * (1000000 + t mod 9000000) \<and>
    (s - 1) * (s - 1) < p * 10 ^ 18 \<and> p * 10 ^ 18 \<le> s * s \<and> p < q \<and> s < r"
proof -
  have t: "- 108000000 \<le> t" using assms(2) by (simp add: MinInitializedTick_def)
  have "\<not> tick_price u \<le> tick_price t" using tick_price_le_iff[of u t] t assms(3) by simp
  moreover have "tick_sqrt t < tick_sqrt u" using t assms(3) by (rule tick_sqrt_less)
  ultimately show ?thesis
    using sdk_dec_laws.TickToSqrtPrice_eq(1)[OF assms(1)] assms(2-4) tick_sqrt_bounds[of t]
    by (auto simp: tick_price_def[symmetric] not_le)
qed

theorem TickToSqrtPrice_grid_witness:
  "\<exists>p s q r. TickToSqrtPrice plain_dec (- 1) = Ok (p, s) \<and> TickToSqrtPrice plain_dec 0 = Ok (q, r) \<and>
    p = 999999900000000000 \<and> p < q \<and> s < r"
  using TickToSqrtPrice_grid[OF plain_dec.sdk_dec_laws_axioms, of "- 1" 0]
  by (fastforce simp: MinInitializedTick_def MaxTick_def)

text \<open>
  C39 Where \<^verbatim>\<open>TickToPrice\<close> returns a price: exactly on the ticks between \<^verbatim>\<open>MinCurrentTick\<close> and \<^verbatim>\<open>MaxTick\<close>, and the price is
  within the bounds of spot prices; below and above it returns the error of that side.
\<close>

theorem TickToPrice_domain:
  assumes "sdk_dec_laws S"
  shows "(t < MinCurrentTick \<longrightarrow> TickToPrice S t = Err TickIndexMinimumError) \<and>
    (MaxTick < t \<longrightarrow> TickToPrice S t = Err TickIndexMaximumError) \<and>
    (MinCurrentTick \<le> t \<and> t \<le> MaxTick \<longrightarrow> (\<exists>p. TickToPrice S t = Ok p \<and> MinSpotPrice \<le> p \<and> p \<le> MaxSpotPrice)) \<and>
    TickToPrice S MinCurrentTick = TickToPrice S MinInitializedTick"
proof -
  note outside = sdk_dec_laws.TickToPrice_outside[OF assms] sdk_dec_laws.TickToPrice_MinCurrentTick[OF assms]
  note inside = sdk_dec_laws.TickToPrice_eq[OF assms]
  have "TickToPrice S MinInitializedTick = Ok MinSpotPrice"
    using inside[of MinInitializedTick] tick_price_ends(1) by (simp add: MinInitializedTick_def MaxTick_def MinSpotPrice_def)
  moreover have "\<exists>p. TickToPrice S t = Ok p \<and> MinSpotPrice \<le> p \<and> p \<le> MaxSpotPrice" if "MinCurrentTick \<le> t" "t \<le> MaxTick"
  proof (cases "t = MinCurrentTick")
    case True
    then show ?thesis using outside(3) by (simp add: MinSpotPrice_def MaxSpotPrice_def)
  next
    case False
    then have "MinInitializedTick \<le> t" using that(1) by (simp add: MinCurrentTick_def)
    then show ?thesis using inside[of t] that(2) tick_price_mono[of "- 108000000" t] tick_price_mono[of t 342000000] tick_price_ends
      by (simp add: MinInitializedTick_def MaxTick_def MinSpotPrice_def MaxSpotPrice_def)
  qed
  ultimately show ?thesis using outside by simp
qed

theorem TickToPrice_domain_witness:
  "TickToPrice plain_dec (- 108000002) = Err TickIndexMinimumError \<and> TickToPrice plain_dec 342000001 = Err TickIndexMaximumError"
  using TickToPrice_domain[OF plain_dec.sdk_dec_laws_axioms, of "- 108000002"]
    TickToPrice_domain[OF plain_dec.sdk_dec_laws_axioms, of 342000001]
  by (simp add: MinCurrentTick_def MinInitializedTick_def MaxTick_def)

text \<open>
  C19 From a tick to its square root price and back: \<^verbatim>\<open>CalculateSqrtPriceToTick\<close> returns the tick, and
  \<^verbatim>\<open>SqrtPriceToTickRoundDownSpacing\<close> the greatest multiple of the tick spacing that is not above it, for negative ticks as
  well.
\<close>

theorem tick_sqrt_price_roundtrip:
  assumes "sdk_dec_laws S" "MinInitializedTick \<le> t" "t \<le> MaxTick" "0 < sint k" "MinInitializedTick \<le> t - t mod sint k"
  shows "obind (TickToSqrtPriceBigDec S t) (CalculateSqrtPriceToTick S) = Ok t \<and>
    obind (TickToSqrtPrice S t) (\<lambda>(price, sqrtPrice). SqrtPriceToTickRoundDownSpacing S sqrtPrice k) = Ok (t - t mod sint k)"
  using sdk_dec_laws.TickToSqrtPrice_eq[OF assms(1-3)] sdk_dec_laws.tick_roundtrip[OF assms(1)]
    sdk_dec_laws.spaced_roundtrip[OF assms(1)] assms(2-5)
  by (simp add: MinInitializedTick_def MaxTick_def)

theorem tick_sqrt_price_roundtrip_witness:
  "obind (TickToSqrtPriceBigDec plain_dec (- 17)) (CalculateSqrtPriceToTick plain_dec) = Ok (- 17) \<and>
   obind (TickToSqrtPrice plain_dec (- 17)) (\<lambda>(price, sqrtPrice). SqrtPriceToTickRoundDownSpacing plain_dec sqrtPrice 10) = Ok (- 20)"
  using tick_sqrt_price_roundtrip[OF plain_dec.sdk_dec_laws_axioms, of "- 17" 10]
  by (simp add: MinInitializedTick_def MaxTick_def)

text \<open>
  C4 The tick of any square root price between those of two neighbouring ticks is the lower one. The search fails in one
  case only, and always in it: below price one, where the candidate is truncated towards zero, when the square of the
  square root price, in eighteen places, is already above the price of the upper tick, whose own square root was rounded
  up.
\<close>

theorem CalculateSqrtPriceToTick_bucket:
  assumes "sdk_dec_laws S" "MinInitializedTick \<le> t" "t < MaxTick"
    and "TickToSqrtPriceBigDec S t = Ok lo" "TickToSqrtPriceBigDec S (t + 1) = Ok hi" "lo \<le> x" "x < hi"
    and "obind (BigDec_Mul x x) (to_SDKDec S) = Ok p" "TickToPrice S (t + 1) = Ok q"
  shows "CalculateSqrtPriceToTick S x = (if t + 1 < 0 \<and> q < p then Err SqrtPriceToTickError else Ok t)"
proof -
  note eqs = sdk_dec_laws.TickToSqrtPrice_eq(2)[OF assms(1)] sdk_dec_laws.TickToPrice_eq[OF assms(1)]
  have b: "in_bucket t x" and q: "q = tick_price (t + 1)"
    using assms(2-7,9) eqs[of t] eqs[of "t + 1"] by (simp_all add: in_bucket_def MinInitializedTick_def MaxTick_def)
  have "p = square_price x"
    using assms(8) sdk_dec_laws.square_to_price[OF assms(1), of x] in_bucket_range[OF b] by simp
  then show ?thesis using sdk_dec_laws.tick_of_bucket[OF assms(1) b] q by simp
qed

text \<open>The failing case occurs: the square root price just below that of the tick \<open>-200000\<close>, whose price is 0.98.\<close>

theorem CalculateSqrtPriceToTick_bucket_witness:
  "TickToSqrtPriceBigDec plain_dec (- 200001) = Ok (989949443153538019 * 10 ^ 18) \<and>
   TickToSqrtPriceBigDec plain_dec (- 200000) = Ok (989949493661166535 * 10 ^ 18) \<and>
   CalculateSqrtPriceToTick plain_dec (989949493661166535 * 10 ^ 18 - 1) = Err SqrtPriceToTickError"
proof -
  have p: "tick_price (- 200001) = 979999900000000000" "tick_price (- 200000) = 980000000000000000"
    by (simp_all add: tick_price_def)
  have "tick_sqrt (- 200001) = 989949443153538019" "tick_sqrt (- 200000) = 989949493661166535"
    unfolding tick_sqrt_def p by (rule sqrt_up_unique; simp)+
  then have s: "TickToSqrtPriceBigDec plain_dec (- 200001) = Ok (989949443153538019 * 10 ^ 18)"
    "TickToSqrtPriceBigDec plain_dec (- 200000) = Ok (989949493661166535 * 10 ^ 18)"
    "TickToPrice plain_dec (- 200000) = Ok 980000000000000000"
    using plain_dec.TickToSqrtPrice_eq(2)[of "- 200001"] plain_dec.TickToSqrtPrice_eq(2)[of "- 200000"]
      plain_dec.TickToPrice_eq[of "- 200000"] p by (simp_all add: MinInitializedTick_def MaxTick_def)
  define x :: int where "x = 989949493661166535 * 10 ^ 18 - 1"
  have sq: "obind (BigDec_Mul x x) (to_SDKDec plain_dec) = Ok (square_price x)"
    by (rule plain_dec.square_to_price) (simp_all add: x_def)
  have "980000000000000001 \<le> square_price x" by (rule square_price_ge) (simp add: x_def)
  then show ?thesis
    using CalculateSqrtPriceToTick_bucket[OF plain_dec.sdk_dec_laws_axioms, of "- 200001", OF _ _ s(1) _ _ _ sq, of _ 980000000000000000] s
    by (simp add: x_def MinInitializedTick_def MaxTick_def)
qed

end
