(* ===== verification/CL_Math.thy ===== *)
theory CL_Math
  imports CL_Tick_Spec
begin

text \<open>
  Amounts, liquidity and square root prices of concentrated liquidity: \<^verbatim>\<open>x/concentrated-liquidity/math/math.go\<close>. The
  quantities are \<^verbatim>\<open>BigDec\<close> but for the amounts that a caller holds and the liquidity that it gets back.
\<close>

section \<open>The functions\<close>

text \<open>The reordering that begins each function: the smaller square root price first.\<close>

definition ordered :: "BigDec \<Rightarrow> BigDec \<Rightarrow> BigDec \<times> BigDec" where
  "ordered sqrtPriceA sqrtPriceB = (if BigDec_GT sqrtPriceA sqrtPriceB then (sqrtPriceB, sqrtPriceA) else (sqrtPriceA, sqrtPriceB))"

definition Liquidity0 :: "sdk_dec \<Rightarrow> int \<Rightarrow> BigDec \<Rightarrow> BigDec \<Rightarrow> Dec outcome" where
  "Liquidity0 S amount a b =
     (let (sqrtPriceA, sqrtPriceB) = ordered a b
      in obind (obind (D_Int_ToDec S amount) to_BigDec) (\<lambda>amountBigDec.
         obind (BigDec_Mul sqrtPriceA sqrtPriceB) (\<lambda>product.
         obind (BigDec_Sub sqrtPriceB sqrtPriceA) (\<lambda>diff.
           if BigDec_IsZero diff then Panic ''liquidity0 diff is zero''
           else obind (BigDec_MulMut amountBigDec product) (\<lambda>p. obind (BigDec_QuoMut p diff) (to_SDKDec S))))))"

definition Liquidity1 :: "sdk_dec \<Rightarrow> int \<Rightarrow> BigDec \<Rightarrow> BigDec \<Rightarrow> Dec outcome" where
  "Liquidity1 S amount a b =
     (let (sqrtPriceA, sqrtPriceB) = ordered a b
      in obind (obind (D_Int_ToDec S amount) to_BigDec) (\<lambda>amountBigDec.
         obind (BigDec_Sub sqrtPriceB sqrtPriceA) (\<lambda>diff.
           if BigDec_IsZero diff then Panic ''liquidity1 diff is zero''
           else obind (BigDec_QuoMut amountBigDec diff) (to_SDKDec S))))"

definition CalcAmount0Delta :: "BigDec \<Rightarrow> BigDec \<Rightarrow> BigDec \<Rightarrow> bool \<Rightarrow> BigDec outcome" where
  "CalcAmount0Delta liq a b roundUp =
     (let (sqrtPriceA, sqrtPriceB) = ordered a b
      in obind (BigDec_Sub sqrtPriceB sqrtPriceA) (\<lambda>diff.
         if roundUp
         then obind (BigDec_MulTruncate sqrtPriceA sqrtPriceB) (\<lambda>denom.
              obind (BigDec_Mul liq diff) (\<lambda>p. obind (BigDec_QuoMut p denom) BigDec_Ceil))
         else obind (BigDec_MulRoundUp sqrtPriceA sqrtPriceB) (\<lambda>denom.
              obind (BigDec_MulTruncate liq diff) (\<lambda>p. BigDec_QuoTruncate p denom))))"

definition CalcAmount1Delta :: "BigDec \<Rightarrow> BigDec \<Rightarrow> BigDec \<Rightarrow> bool \<Rightarrow> BigDec outcome" where
  "CalcAmount1Delta liq a b roundUp =
     (let (sqrtPriceA, sqrtPriceB) = ordered a b
      in obind (BigDec_Sub sqrtPriceB sqrtPriceA) (\<lambda>diff.
         if roundUp then obind (BigDec_Mul liq diff) BigDec_Ceil else BigDec_MulTruncate liq diff))"

definition GetNextSqrtPriceFromAmount0InRoundingUp :: "BigDec \<Rightarrow> BigDec \<Rightarrow> BigDec \<Rightarrow> BigDec outcome" where
  "GetNextSqrtPriceFromAmount0InRoundingUp sqrtPriceCurrent liquidity amountZeroRemainingIn =
     (if BigDec_IsZero amountZeroRemainingIn then Ok sqrtPriceCurrent
      else obind (BigDec_Mul amountZeroRemainingIn sqrtPriceCurrent) (\<lambda>product.
           obind (BigDec_AddMut product liquidity) (\<lambda>denominator.
           obind (BigDec_Mul liquidity sqrtPriceCurrent) (\<lambda>p. BigDec_QuoRoundUp p denominator))))"

definition GetNextSqrtPriceFromAmount0OutRoundingUp :: "BigDec \<Rightarrow> BigDec \<Rightarrow> BigDec \<Rightarrow> BigDec outcome" where
  "GetNextSqrtPriceFromAmount0OutRoundingUp sqrtPriceCurrent liquidity amountZeroRemainingOut =
     (if BigDec_IsZero amountZeroRemainingOut then Ok sqrtPriceCurrent
      else obind (BigDec_MulRoundUp amountZeroRemainingOut sqrtPriceCurrent) (\<lambda>product.
           obind (BigDec_Sub liquidity product) (\<lambda>denominator.
           obind (BigDec_MulRoundUp liquidity sqrtPriceCurrent) (\<lambda>p. BigDec_QuoRoundUp p denominator))))"

definition GetNextSqrtPriceFromAmount1InRoundingDown :: "BigDec \<Rightarrow> BigDec \<Rightarrow> BigDec \<Rightarrow> BigDec outcome" where
  "GetNextSqrtPriceFromAmount1InRoundingDown sqrtPriceCurrent liquidity amountOneRemainingIn =
     obind (BigDec_QuoTruncate amountOneRemainingIn liquidity) (BigDec_Add sqrtPriceCurrent)"

definition GetNextSqrtPriceFromAmount1OutRoundingDown :: "BigDec \<Rightarrow> BigDec \<Rightarrow> BigDec \<Rightarrow> BigDec outcome" where
  "GetNextSqrtPriceFromAmount1OutRoundingDown sqrtPriceCurrent liquidity amountOneRemainingOut =
     obind (BigDec_QuoRoundUp amountOneRemainingOut liquidity) (BigDec_Sub sqrtPriceCurrent)"

definition GetLiquidityFromAmounts :: "sdk_dec \<Rightarrow> BigDec \<Rightarrow> Dec \<Rightarrow> Dec \<Rightarrow> int \<Rightarrow> int \<Rightarrow> Dec outcome" where
  "GetLiquidityFromAmounts S sqrtPrice sqrtPriceA sqrtPriceB amount0 amount1 =
     obind (to_BigDec sqrtPriceA) (\<lambda>a. obind (to_BigDec sqrtPriceB) (\<lambda>b.
       let (sqrtPriceABigDec, sqrtPriceBBigDec) = ordered a b
       in if BigDec_LTE sqrtPrice sqrtPriceABigDec then Liquidity0 S amount0 sqrtPriceABigDec sqrtPriceBBigDec
          else if BigDec_LT sqrtPrice sqrtPriceBBigDec
          then obind (Liquidity0 S amount0 sqrtPrice sqrtPriceBBigDec) (\<lambda>liquidity0.
               obind (Liquidity1 S amount1 sqrtPrice sqrtPriceABigDec) (\<lambda>liquidity1. Ok (min liquidity0 liquidity1)))
          else Liquidity1 S amount1 sqrtPriceBBigDec sqrtPriceABigDec))"

definition SquareRoundUp :: "sdk_dec \<Rightarrow> Dec \<Rightarrow> Dec outcome" where
  "SquareRoundUp S sqrtPrice = D_MulRoundUp S sqrtPrice sqrtPrice"

definition SquareTruncate :: "sdk_dec \<Rightarrow> Dec \<Rightarrow> Dec outcome" where
  "SquareTruncate S sqrtPrice = D_MulTruncate S sqrtPrice sqrtPrice"

section \<open>Amounts\<close>

lemma ordered_eq: "ordered a b = (min a b, max a b)"
  by (auto simp: ordered_def big_simps)

lemma QuoMut_eq: "BigDec_QuoMut = BigDec_Quo" and MulMut_eq: "BigDec_MulMut = BigDec_Mul" and AddMut_eq: "BigDec_AddMut = BigDec_Add"
  by (intro ext; simp add: BigDec_Quo_def BigDec_Mul_def BigDec_Add_def BigDec_Clone_def)+

lemmas amount_simps = ordered_eq QuoMut_eq MulMut_eq AddMut_eq big_dec.sub_Ok_iff big_dec.add_Ok_iff Let_def

lemma Ceil_ge: "BigDec_Ceil d = Ok c \<Longrightarrow> d \<le> c \<and> c < d + precisionReuse \<and> c mod precisionReuse = 0"
  using ceil_div_bounds[OF precisionReuse_pos, of d] by (auto simp: BigDec_Ceil_eq algebra_simps)

lemma Ceil_at: "(k - 1) * 10 ^ 36 < d \<Longrightarrow> d \<le> k * 10 ^ 36 \<Longrightarrow> BigDec_Ceil d = Ok (k * 10 ^ 36)"
proof -
  assume d: "(k - 1) * 10 ^ 36 < d" "d \<le> k * 10 ^ 36"
  have "(- d) div precisionReuse = - k"
    by (rule int_div_pos_eq[where r = "k * 10 ^ 36 - d"]) (use d in \<open>simp_all add: precisionReuse_eq\<close>)
  then show ?thesis by (simp add: BigDec_Ceil_eq precisionReuse_eq)
qed

text \<open>What the two roundings of the amounts compute.\<close>

lemma amount0_down:
  assumes "CalcAmount0Delta liq a b False = Ok d"
  obtains den p where "BigDec_MulRoundUp (min a b) (max a b) = Ok den" "BigDec_MulTruncate liq (max a b - min a b) = Ok p"
    "BigDec_QuoTruncate p den = Ok d"
  using assms by (auto simp: CalcAmount0Delta_def amount_simps go_simps)

lemma amount0_up:
  assumes "CalcAmount0Delta liq a b True = Ok u"
  obtains den p q where "BigDec_MulTruncate (min a b) (max a b) = Ok den" "BigDec_Mul liq (max a b - min a b) = Ok p"
    "BigDec_Quo p den = Ok q" "BigDec_Ceil q = Ok u"
  using assms by (auto simp: CalcAmount0Delta_def amount_simps go_simps)

lemma amount1_down: "CalcAmount1Delta liq a b False = Ok d \<Longrightarrow> BigDec_MulTruncate liq (max a b - min a b) = Ok d"
  by (auto simp: CalcAmount1Delta_def amount_simps go_simps)

lemma amount1_up:
  assumes "CalcAmount1Delta liq a b True = Ok u"
  obtains p where "BigDec_Mul liq (max a b - min a b) = Ok p" "BigDec_Ceil p = Ok u"
  using assms by (auto simp: CalcAmount1Delta_def amount_simps go_simps)

text \<open>Truncation is symmetric, so removing liquidity is adding it with the sign changed.\<close>

lemma MulTruncate_minus: "BigDec_MulTruncate (- a) b = Ok (- c) \<longleftrightarrow> BigDec_MulTruncate a b = Ok c"
  by (auto simp: mulTruncate.mul_Ok_iff chopPrecisionAndTruncate_def quo_minus_left)

lemma QuoTruncate_minus: "BigDec_QuoTruncate (- a) b = Ok (- c) \<longleftrightarrow> BigDec_QuoTruncate a b = Ok c"
  by (auto simp: quoTruncate.quot_Ok_iff chopPrecisionAndTruncate_def quo_minus_left)

lemma amount_down_minus:
  "CalcAmount0Delta (- liq) a b False = Ok d \<Longrightarrow> CalcAmount0Delta liq a b False = Ok (- d)"
  "CalcAmount1Delta (- liq) a b False = Ok d \<Longrightarrow> CalcAmount1Delta liq a b False = Ok (- d)"
proof -
  assume "CalcAmount0Delta (- liq) a b False = Ok d"
  then obtain den p where p: "BigDec_MulRoundUp (min a b) (max a b) = Ok den" "in_bits maxDecBitLen (max a b - min a b)"
    "BigDec_MulTruncate (- liq) (max a b - min a b) = Ok p" "BigDec_QuoTruncate p den = Ok d"
    by (auto simp: CalcAmount0Delta_def amount_simps go_simps)
  have "BigDec_MulTruncate liq (max a b - min a b) = Ok (- p)" using p(3) MulTruncate_minus[of liq _ "- p"] by simp
  moreover have "BigDec_QuoTruncate (- p) den = Ok (- d)" using p(4) QuoTruncate_minus[of "- p" den "- d"] by simp
  ultimately show "CalcAmount0Delta liq a b False = Ok (- d)"
    using p(1,2) by (simp add: CalcAmount0Delta_def amount_simps go_simps)
next
  assume "CalcAmount1Delta (- liq) a b False = Ok d"
  then show "CalcAmount1Delta liq a b False = Ok (- d)"
    using MulTruncate_minus[of liq "max a b - min a b" "- d"] by (auto simp: CalcAmount1Delta_def amount_simps go_simps)
qed

text \<open>Of a product of non-negative factors: the truncated one, the rounded one and the one rounded up.\<close>

lemma products:
  assumes "0 \<le> a" "0 \<le> b"
  shows "BigDec_MulTruncate a b = Ok t \<Longrightarrow> 0 \<le> t \<and> t * precisionReuse \<le> a * b"
    "BigDec_MulRoundUp a b = Ok u \<Longrightarrow> 0 \<le> u \<and> a * b \<le> u * precisionReuse"
    "BigDec_MulTruncate a b = Ok t \<Longrightarrow> BigDec_Mul a b = Ok m \<Longrightarrow> t \<le> m"
    "BigDec_MulTruncate a b = Ok t \<Longrightarrow> BigDec_MulRoundUp a b = Ok u \<Longrightarrow> t \<le> u"
proof -
  have n: "0 \<le> a * b" using assms by simp
  have lo: "t * precisionReuse \<le> a * b" if "BigDec_MulTruncate a b = Ok t" for t
  proof -
    have "t = a * b div precisionReuse" using that n by (simp add: mulTruncate.mul_Ok_iff chopPrecisionAndTruncate_def quo_nonneg_eq)
    then show ?thesis using floor_div_bounds(1)[OF precisionReuse_pos, of "a * b"] by simp
  qed
  have hi: "a * b \<le> u * precisionReuse" if "BigDec_MulRoundUp a b = Ok u" for u
  proof -
    have "u = - ((- (a * b)) div precisionReuse)" using that by (simp add: mulRoundUp.mul_Ok_iff roundUp_ceiling)
    then show ?thesis using ceil_div_bounds(2)[OF precisionReuse_pos, of "a * b"] by simp
  qed
  show "BigDec_MulTruncate a b = Ok t \<Longrightarrow> 0 \<le> t \<and> t * precisionReuse \<le> a * b"
    using lo mulTruncate.mul_nonneg[OF assms] by blast
  show "BigDec_MulRoundUp a b = Ok u \<Longrightarrow> 0 \<le> u \<and> a * b \<le> u * precisionReuse"
    using hi mulRoundUp.mul_nonneg[OF assms] by blast
  show "BigDec_MulTruncate a b = Ok t \<Longrightarrow> BigDec_Mul a b = Ok m \<Longrightarrow> t \<le> m"
    using lo mul.mul_ge by blast
  show "BigDec_MulTruncate a b = Ok t \<Longrightarrow> BigDec_MulRoundUp a b = Ok u \<Longrightarrow> t \<le> u"
    using lo mulRoundUp.mul_ge by blast
qed

lemma quoTruncate_le:
  assumes "BigDec_QuoTruncate a b = Ok c" "0 \<le> a" "0 < b"
  shows "0 \<le> c" "c * b \<le> a * precisionReuse"
proof -
  let ?P = "precisionReuse" and ?q = "quo (a * precisionReuse * precisionReuse) b"
  have n: "0 \<le> a * ?P * ?P" using assms(2) by simp
  have q: "0 \<le> ?q" "b * ?q \<le> a * ?P * ?P"
    using quo_lower[OF assms(3) n] n assms(3) by (simp_all add: quo_nonneg_eq pos_imp_zdiv_nonneg_iff)
  have c: "c = ?q div ?P" using assms(1) q(1) by (simp add: quoTruncate.quot_Ok_iff chopPrecisionAndTruncate_def quo_nonneg_eq)
  show "0 \<le> c" using q(1) by (simp add: c pos_imp_zdiv_nonneg_iff)
  have "c * ?P \<le> ?q" using floor_div_bounds(1)[OF precisionReuse_pos, of ?q] unfolding c .
  then have "b * (c * ?P) \<le> b * ?q" using assms(3) by (intro mult_left_mono) auto
  also note q(2)
  finally have "(c * b) * ?P \<le> (a * ?P) * ?P" by (simp only: ac_simps)
  then show "c * b \<le> a * ?P" by (simp only: mult_le_cancel_right) simp
qed

text \<open>
  The amounts of both tokens: rounded down they are not above what the liquidity is worth between the two square root
  prices, and never above the amounts rounded up.
\<close>

lemma amount1_order:
  assumes "0 \<le> liq" "CalcAmount1Delta liq a b False = Ok d"
  shows "0 \<le> d" "d * precisionReuse \<le> liq * \<bar>b - a\<bar>" "CalcAmount1Delta liq a b True = Ok u \<Longrightarrow> d \<le> u"
proof -
  let ?D = "max a b - min a b"
  have D: "?D = \<bar>b - a\<bar>" "0 \<le> ?D" by auto
  have d: "BigDec_MulTruncate liq ?D = Ok d" using assms(2) by (rule amount1_down)
  show "0 \<le> d" "d * precisionReuse \<le> liq * \<bar>b - a\<bar>" using products(1)[OF assms(1) D(2) d] D(1) by simp_all
  show "d \<le> u" if "CalcAmount1Delta liq a b True = Ok u"
    using that
  proof (rule amount1_up)
    fix p assume "BigDec_Mul liq ?D = Ok p" "BigDec_Ceil p = Ok u"
    then show "d \<le> u" using products(3)[OF assms(1) D(2) d, of p] Ceil_ge[of p u] by simp
  qed
qed

lemma amount0_order:
  assumes "0 \<le> liq" "0 < a" "0 < b" "CalcAmount0Delta liq a b False = Ok d"
  shows "0 \<le> d" "d * (a * b) \<le> liq * \<bar>b - a\<bar> * precisionReuse" "CalcAmount0Delta liq a b True = Ok u \<Longrightarrow> d \<le> u"
proof -
  let ?P = precisionReuse and ?D = "max a b - min a b"
  have D: "?D = \<bar>b - a\<bar>" "0 \<le> ?D" "min a b * max a b = a * b" "0 \<le> min a b" "0 \<le> max a b"
    using assms(2,3) by (cases "a \<le> b"; simp add: min_def max_def mult.commute)+
  obtain den p where d: "BigDec_MulRoundUp (min a b) (max a b) = Ok den" "BigDec_MulTruncate liq ?D = Ok p"
    "BigDec_QuoTruncate p den = Ok d" using assms(4) by (rule amount0_down)
  have p: "0 \<le> p" "p * ?P \<le> liq * \<bar>b - a\<bar>" using products(1)[OF assms(1) D(2) d(2)] unfolding D(1) by blast+
  have den: "0 \<le> den" "a * b \<le> den * ?P" using products(2)[OF D(4,5) d(1)] unfolding D(3) by blast+
  have "0 < den * ?P" using den(2) mult_pos_pos[OF assms(2,3)] by linarith
  then have "den \<noteq> 0" by (intro notI) simp
  then have den0: "0 < den" using den(1) by simp
  note q = quoTruncate_le[OF d(3) p(1) den0]
  show "0 \<le> d" by (rule q(1))
  have "d * (a * b) \<le> d * (den * ?P)" using den(2) q(1) by (rule mult_left_mono)
  also have "\<dots> \<le> p * ?P * ?P" using mult_right_mono[OF q(2), of ?P] by (simp add: ac_simps)
  also have "\<dots> \<le> liq * \<bar>b - a\<bar> * ?P" using p(2) by (intro mult_right_mono) auto
  finally show "d * (a * b) \<le> liq * \<bar>b - a\<bar> * ?P" .
  show "d \<le> u" if "CalcAmount0Delta liq a b True = Ok u"
    using that
  proof (rule amount0_up)
    fix den' p' q'
    assume u: "BigDec_MulTruncate (min a b) (max a b) = Ok den'" "BigDec_Mul liq ?D = Ok p'" "BigDec_Quo p' den' = Ok q'"
      "BigDec_Ceil q' = Ok u"
    have "0 \<le> den'" using products(1)[OF D(4,5) u(1)] by blast
    moreover have "den' \<noteq> 0" using u(3) unfolding quot.quot_Ok_iff by blast
    moreover have "den' \<le> den" using products(4)[OF D(4,5) u(1) d(1)] .
    ultimately have den': "0 < den'" "den' \<le> den" by simp_all
    have "d * den' \<le> d * den" using den'(2) q(1) by (rule mult_left_mono)
    also have "\<dots> \<le> p' * ?P"
      using order_trans[OF q(2) mult_right_mono[OF products(3)[OF assms(1) D(2) d(2) u(2)], of ?P]] by simp
    finally have "d \<le> q'" by (rule quot.quot_ge[OF u(3) den'(1)])
    then show "d \<le> u" using Ceil_ge[OF u(4)] by simp
  qed
qed

text \<open>
  What changes hands between two square root prices \<open>a\<close> and \<open>b\<close>: the token that goes in, rounded up, pays for the one
  that comes out, rounded down, at the price \<open>a * b\<close>, the geometric mean of the prices at both ends. Where token zero goes
  in, one unit in the last place is missing at most.
\<close>

definition fair_zero_in :: "BigDec \<Rightarrow> BigDec \<Rightarrow> BigDec \<Rightarrow> BigDec \<Rightarrow> bool" where
  "fair_zero_in a b amountIn amountOut \<longleftrightarrow> amountOut * 10 ^ 72 \<le> (amountIn + 1) * (a * b)"

definition fair_one_in :: "BigDec \<Rightarrow> BigDec \<Rightarrow> BigDec \<Rightarrow> BigDec \<Rightarrow> bool" where
  "fair_one_in a b amountIn amountOut \<longleftrightarrow> amountOut * (a * b) \<le> amountIn * 10 ^ 72"

lemma fair_zero_in_amounts:
  assumes "0 \<le> liq" "0 < a" "0 < b" "CalcAmount0Delta liq a b True = Ok i" "CalcAmount1Delta liq a b False = Ok d"
  shows "fair_zero_in a b i d"
  using assms(4)
proof (rule amount0_up)
  let ?P = precisionReuse and ?D = "max a b - min a b"
  fix den p q
  assume u: "BigDec_MulTruncate (min a b) (max a b) = Ok den" "BigDec_Mul liq ?D = Ok p" "BigDec_Quo p den = Ok q"
    "BigDec_Ceil q = Ok i"
  have D: "0 \<le> ?D" "min a b * max a b = a * b" "0 \<le> min a b" "0 \<le> max a b"
    using assms(2,3) by (cases "a \<le> b"; simp add: min_def max_def mult.commute)+
  have den: "0 \<le> den" "den * ?P \<le> a * b" using products(1)[OF D(3,4) u(1)] unfolding D(2) by blast+
  moreover have "den \<noteq> 0" using u(3) unfolding quot.quot_Ok_iff by blast
  ultimately have den0: "0 < den" by simp
  have d: "0 \<le> d" "d \<le> p" using products(1,3)[OF assms(1) D(1) amount1_down[OF assms(5)]] u(2) by blast+
  have "p * ?P * ?P \<le> (q + 1) * ?P * den" using quot.quot_error(2)[OF _ den0 u(3)] d by simp
  then have "(p * ?P) * ?P \<le> ((q + 1) * den) * ?P" by (simp only: ac_simps)
  then have "p * ?P \<le> (q + 1) * den" by (simp only: mult_le_cancel_right) simp
  also have "\<dots> \<le> (i + 1) * den" using Ceil_ge[OF u(4)] den0 by (intro mult_right_mono) simp_all
  finally have "p * ?P * ?P \<le> (i + 1) * den * ?P" by (rule mult_right_mono) simp
  moreover have "d * ?P * ?P \<le> p * ?P * ?P" using d(2) by (intro mult_right_mono) simp_all
  moreover have "0 \<le> q" using quot.quot_ge[OF u(3) den0, of 0] d by simp
  then have "(i + 1) * (den * ?P) \<le> (i + 1) * (a * b)" using den(2) Ceil_ge[OF u(4)] by (intro mult_left_mono) simp_all
  ultimately have "d * ?P * ?P \<le> (i + 1) * (a * b)" by (simp only: mult.assoc)
  then show "fair_zero_in a b i d" by (simp add: fair_zero_in_def precisionReuse_eq)
qed

lemma fair_one_in_amounts:
  assumes "0 \<le> liq" "0 < a" "0 < b" "CalcAmount1Delta liq a b True = Ok i" "CalcAmount0Delta liq a b False = Ok d"
  shows "fair_one_in a b i d"
proof -
  let ?P = precisionReuse
  have D: "0 \<le> max a b - min a b" "min a b * max a b = a * b" "0 \<le> min a b" "0 \<le> max a b"
    using assms(2,3) by (cases "a \<le> b"; simp add: min_def max_def mult.commute)+
  obtain den p where d: "BigDec_MulRoundUp (min a b) (max a b) = Ok den" "BigDec_MulTruncate liq (max a b - min a b) = Ok p"
    "BigDec_QuoTruncate p den = Ok d" using assms(5) by (rule amount0_down)
  have den: "0 \<le> den" "a * b \<le> den * ?P" using products(2)[OF D(3,4) d(1)] unfolding D(2) by blast+
  have "0 < den * ?P" using den(2) mult_pos_pos[OF assms(2,3)] by linarith
  then have "den \<noteq> 0" by (intro notI) simp
  then have den0: "0 < den" using den(1) by simp
  have p: "0 \<le> p" using products(1)[OF assms(1) D(1) d(2)] by blast
  note q = quoTruncate_le[OF d(3) p den0]
  have pi: "p \<le> i" using assms(4)
  proof (rule amount1_up)
    fix m assume "BigDec_Mul liq (max a b - min a b) = Ok m" "BigDec_Ceil m = Ok i"
    then show ?thesis using products(3)[OF assms(1) D(1) d(2), of m] Ceil_ge[of m i] by simp
  qed
  have "d * (a * b) \<le> d * (den * ?P)" using den(2) q(1) by (rule mult_left_mono)
  also have "\<dots> \<le> p * ?P * ?P" using mult_right_mono[OF q(2), of ?P] by (simp add: ac_simps)
  also have "\<dots> \<le> i * ?P * ?P" using pi by (intro mult_right_mono) simp_all
  finally show ?thesis by (simp add: fair_one_in_def precisionReuse_eq)
qed

end
