(* ===== verification/CL_Swap.thy ===== *)
theory CL_Swap
  imports CL_Math
begin

text \<open>
  The steps of a swap within one bucket: \<^verbatim>\<open>x/concentrated-liquidity/swapstrategy\<close>. The two implementations of the interface
  \<^verbatim>\<open>SwapStrategy\<close> are the two constructors of a datatype; the interface's methods select by them. A step returns the next
  square root price, the two amounts and the charge for the spread.
\<close>

section \<open>Charging the spread (\<^verbatim>\<open>spread_rewards.go\<close>)\<close>

definition computeSpreadRewardChargeFromAmountIn :: "sdk_dec \<Rightarrow> Dec \<Rightarrow> Dec \<Rightarrow> Dec outcome" where
  "computeSpreadRewardChargeFromAmountIn S amountIn spreadFactor =
     obind (D_MulRoundUp S amountIn spreadFactor) (\<lambda>p.
     obind (D_Sub S sdk_OneDec spreadFactor) (\<lambda>d. D_QuoRoundUp S p d))"

definition computeSpreadRewardChargePerSwapStepOutGivenIn :: "sdk_dec \<Rightarrow> bool \<Rightarrow> Dec \<Rightarrow> Dec \<Rightarrow> Dec \<Rightarrow> Dec outcome" where
  "computeSpreadRewardChargePerSwapStepOutGivenIn S hasReachedTarget amountIn amountSpecifiedRemaining spreadFactor =
     (if spreadFactor < 0 then Panic ''spread factor must be non-negative''
      else if spreadFactor = 0 then Ok 0
      else obind (if hasReachedTarget then computeSpreadRewardChargeFromAmountIn S amountIn spreadFactor
                  else D_Sub S amountSpecifiedRemaining amountIn) (\<lambda>spreadRewardChargeTotal.
           if spreadRewardChargeTotal < 0 then Panic ''spread factor charge must be non-negative''
           else Ok spreadRewardChargeTotal))"

section \<open>Token zero for token one (\<^verbatim>\<open>zero_for_one.go\<close>)\<close>

record strategy =
  sqrtPriceLimit :: Dec
  spreadFactor :: Dec

definition SqrtPriceValidationError :: string where "SqrtPriceValidationError = ''invalid sqrt price limit''"

definition zeroForOne_GetSqrtTargetPrice :: "strategy \<Rightarrow> Dec \<Rightarrow> Dec" where
  "zeroForOne_GetSqrtTargetPrice s nextTickSqrtPrice =
     (if nextTickSqrtPrice < sqrtPriceLimit s then sqrtPriceLimit s else nextTickSqrtPrice)"

definition zeroForOne_ComputeSwapWithinBucketOutGivenIn ::
  "sdk_dec \<Rightarrow> strategy \<Rightarrow> BigDec \<Rightarrow> Dec \<Rightarrow> Dec \<Rightarrow> Dec \<Rightarrow> (BigDec \<times> Dec \<times> Dec \<times> Dec) outcome" where
  "zeroForOne_ComputeSwapWithinBucketOutGivenIn S s sqrtPriceCurrent sqrtPriceTarget liquidity amountZeroInRemaining =
     obind (to_BigDec liquidity) (\<lambda>liquidityBigDec.
     obind (to_BigDec sqrtPriceTarget) (\<lambda>sqrtPriceTargetBigDec.
     obind (to_BigDec amountZeroInRemaining) (\<lambda>amountZeroInRemainingBigDec.
     obind (CalcAmount0Delta liquidityBigDec sqrtPriceTargetBigDec sqrtPriceCurrent True) (\<lambda>estimate.
     obind (obind (obind (to_BigDec (spreadFactor s)) (BigDec_Sub OneDec)) (BigDec_Mul amountZeroInRemainingBigDec))
       (\<lambda>amountZeroInRemainingLessSpreadReward.
     obind (if BigDec_GTE amountZeroInRemainingLessSpreadReward estimate then Ok sqrtPriceTargetBigDec
            else GetNextSqrtPriceFromAmount0InRoundingUp sqrtPriceCurrent liquidityBigDec amountZeroInRemainingLessSpreadReward)
       (\<lambda>sqrtPriceNext.
       let hasReachedTarget = BigDec_Equal sqrtPriceTargetBigDec sqrtPriceNext
       in obind (if \<not> hasReachedTarget then CalcAmount0Delta liquidityBigDec sqrtPriceNext sqrtPriceCurrent True else Ok estimate)
            (\<lambda>amountZeroIn.
          obind (CalcAmount1Delta liquidityBigDec sqrtPriceNext sqrtPriceCurrent False) (\<lambda>amountOneOut.
          obind (to_SDKDecRoundUp S amountZeroIn) (\<lambda>amountZeroInFinal.
          obind (computeSpreadRewardChargePerSwapStepOutGivenIn S hasReachedTarget amountZeroInFinal amountZeroInRemaining
                   (spreadFactor s)) (\<lambda>spreadRewardChargeTotal.
          obind (to_SDKDec S amountOneOut) (\<lambda>amountOut.
            Ok (sqrtPriceNext, amountZeroInFinal, amountOut, spreadRewardChargeTotal)))))))))))) "

definition zeroForOne_ComputeSwapWithinBucketInGivenOut ::
  "sdk_dec \<Rightarrow> strategy \<Rightarrow> BigDec \<Rightarrow> Dec \<Rightarrow> Dec \<Rightarrow> Dec \<Rightarrow> (BigDec \<times> Dec \<times> Dec \<times> Dec) outcome" where
  "zeroForOne_ComputeSwapWithinBucketInGivenOut S s sqrtPriceCurrent sqrtPriceTarget liquidity amountOneRemainingOut =
     obind (to_BigDec liquidity) (\<lambda>liquidityBigDec.
     obind (to_BigDec sqrtPriceTarget) (\<lambda>sqrtPriceTargetBigDec.
     obind (to_BigDec amountOneRemainingOut) (\<lambda>amountOneRemainingOutBigDec.
     obind (CalcAmount1Delta liquidityBigDec sqrtPriceTargetBigDec sqrtPriceCurrent False) (\<lambda>estimate.
     obind (if BigDec_GTE amountOneRemainingOutBigDec estimate then Ok sqrtPriceTargetBigDec
            else GetNextSqrtPriceFromAmount1OutRoundingDown sqrtPriceCurrent liquidityBigDec amountOneRemainingOutBigDec)
       (\<lambda>sqrtPriceNext.
       let hasReachedTarget = BigDec_Equal sqrtPriceTargetBigDec sqrtPriceNext
       in obind (if \<not> hasReachedTarget then CalcAmount1Delta liquidityBigDec sqrtPriceNext sqrtPriceCurrent False else Ok estimate)
            (\<lambda>consumed.
          obind (CalcAmount0Delta liquidityBigDec sqrtPriceNext sqrtPriceCurrent True) (\<lambda>amountZeroIn.
          obind (to_SDKDecRoundUp S amountZeroIn) (\<lambda>amountZeroInFinal.
          obind (computeSpreadRewardChargeFromAmountIn S amountZeroInFinal (spreadFactor s)) (\<lambda>spreadRewardChargeTotal.
          let amountOneOut = (if BigDec_GT consumed amountOneRemainingOutBigDec then amountOneRemainingOutBigDec else consumed)
          in obind (to_SDKDec S amountOneOut) (\<lambda>amountOut.
               Ok (sqrtPriceNext, amountOut, amountZeroInFinal, spreadRewardChargeTotal))))))))))) "

definition zeroForOne_SetLiquidityDeltaSign :: "Dec \<Rightarrow> Dec" where
  "zeroForOne_SetLiquidityDeltaSign deltaLiquidity = - deltaLiquidity"

definition zeroForOne_UpdateTickAfterCrossing :: "int \<Rightarrow> int" where
  "zeroForOne_UpdateTickAfterCrossing nextTick = wrap64 (nextTick - 1)"

definition zeroForOne_ValidateSqrtPrice :: "sdk_dec \<Rightarrow> Dec \<Rightarrow> BigDec \<Rightarrow> unit outcome" where
  "zeroForOne_ValidateSqrtPrice S sqrtPrice currentSqrtPrice =
     obind (to_BigDec sqrtPrice) (\<lambda>sqrtPriceBigDec.
     obind (MinSqrtPrice S) (\<lambda>minSqrtPrice.
       if BigDec_GT sqrtPriceBigDec currentSqrtPrice \<or> sqrtPrice < minSqrtPrice then Err SqrtPriceValidationError else Ok ()))"

section \<open>Token one for token zero (\<^verbatim>\<open>one_for_zero.go\<close>)\<close>

definition oneForZero_GetSqrtTargetPrice :: "strategy \<Rightarrow> Dec \<Rightarrow> Dec" where
  "oneForZero_GetSqrtTargetPrice s nextTickSqrtPrice =
     (if nextTickSqrtPrice > sqrtPriceLimit s then sqrtPriceLimit s else nextTickSqrtPrice)"

definition oneForZero_ComputeSwapWithinBucketOutGivenIn ::
  "sdk_dec \<Rightarrow> strategy \<Rightarrow> BigDec \<Rightarrow> Dec \<Rightarrow> Dec \<Rightarrow> Dec \<Rightarrow> (BigDec \<times> Dec \<times> Dec \<times> Dec) outcome" where
  "oneForZero_ComputeSwapWithinBucketOutGivenIn S s sqrtPriceCurrent sqrtPriceTarget liquidity amountOneInRemaining =
     obind (to_BigDec sqrtPriceTarget) (\<lambda>sqrtPriceTargetBigDec.
     obind (to_BigDec liquidity) (\<lambda>liquidityBigDec.
     obind (to_BigDec amountOneInRemaining) (\<lambda>amountOneInRemainingBigDec.
     obind (CalcAmount1Delta liquidityBigDec sqrtPriceTargetBigDec sqrtPriceCurrent True) (\<lambda>estimate.
     obind (obind (obind (to_BigDec (spreadFactor s)) (BigDec_Sub OneDec)) (BigDec_MulTruncate amountOneInRemainingBigDec))
       (\<lambda>amountOneInRemainingLessSpreadReward.
     obind (if BigDec_GTE amountOneInRemainingLessSpreadReward estimate then Ok sqrtPriceTargetBigDec
            else GetNextSqrtPriceFromAmount1InRoundingDown sqrtPriceCurrent liquidityBigDec amountOneInRemainingLessSpreadReward)
       (\<lambda>sqrtPriceNext.
       let hasReachedTarget = BigDec_Equal sqrtPriceTargetBigDec sqrtPriceNext
       in obind (if \<not> hasReachedTarget then CalcAmount1Delta liquidityBigDec sqrtPriceNext sqrtPriceCurrent True else Ok estimate)
            (\<lambda>amountOneIn.
          obind (CalcAmount0Delta liquidityBigDec sqrtPriceNext sqrtPriceCurrent False) (\<lambda>amountZeroOut.
          obind (to_SDKDecRoundUp S amountOneIn) (\<lambda>amountInDecFinal.
          obind (computeSpreadRewardChargePerSwapStepOutGivenIn S hasReachedTarget amountInDecFinal amountOneInRemaining
                   (spreadFactor s)) (\<lambda>spreadRewardChargeTotal.
          obind (to_SDKDec S amountZeroOut) (\<lambda>amountOut.
            Ok (sqrtPriceNext, amountInDecFinal, amountOut, spreadRewardChargeTotal)))))))))))) "

definition oneForZero_ComputeSwapWithinBucketInGivenOut ::
  "sdk_dec \<Rightarrow> strategy \<Rightarrow> BigDec \<Rightarrow> Dec \<Rightarrow> Dec \<Rightarrow> Dec \<Rightarrow> (BigDec \<times> Dec \<times> Dec \<times> Dec) outcome" where
  "oneForZero_ComputeSwapWithinBucketInGivenOut S s sqrtPriceCurrent sqrtPriceTarget liquidity amountZeroRemainingOut =
     obind (to_BigDec liquidity) (\<lambda>liquidityBigDec.
     obind (to_BigDec sqrtPriceTarget) (\<lambda>sqrtPriceTargetBigDec.
     obind (to_BigDec amountZeroRemainingOut) (\<lambda>amountZeroRemainingOutBigDec.
     obind (CalcAmount0Delta liquidityBigDec sqrtPriceTargetBigDec sqrtPriceCurrent False) (\<lambda>estimate.
     obind (if BigDec_GTE amountZeroRemainingOutBigDec estimate then Ok sqrtPriceTargetBigDec
            else GetNextSqrtPriceFromAmount0OutRoundingUp sqrtPriceCurrent liquidityBigDec amountZeroRemainingOutBigDec)
       (\<lambda>sqrtPriceNext.
       let hasReachedTarget = BigDec_Equal sqrtPriceTargetBigDec sqrtPriceNext
       in obind (if \<not> hasReachedTarget then CalcAmount0Delta liquidityBigDec sqrtPriceNext sqrtPriceCurrent False else Ok estimate)
            (\<lambda>consumed.
          obind (CalcAmount1Delta liquidityBigDec sqrtPriceNext sqrtPriceCurrent True) (\<lambda>amountOneIn.
          obind (to_SDKDecRoundUp S amountOneIn) (\<lambda>amountOneInFinal.
          obind (computeSpreadRewardChargeFromAmountIn S amountOneInFinal (spreadFactor s)) (\<lambda>spreadRewardChargeTotal.
          let amountZeroOut = (if BigDec_GT consumed amountZeroRemainingOutBigDec then amountZeroRemainingOutBigDec else consumed)
          in obind (to_SDKDec S amountZeroOut) (\<lambda>amountOut.
               Ok (sqrtPriceNext, amountOut, amountOneInFinal, spreadRewardChargeTotal))))))))))) "

definition oneForZero_SetLiquidityDeltaSign :: "Dec \<Rightarrow> Dec" where
  "oneForZero_SetLiquidityDeltaSign deltaLiquidity = deltaLiquidity"

definition oneForZero_UpdateTickAfterCrossing :: "int \<Rightarrow> int" where
  "oneForZero_UpdateTickAfterCrossing nextTick = nextTick"

definition oneForZero_ValidateSqrtPrice :: "sdk_dec \<Rightarrow> Dec \<Rightarrow> BigDec \<Rightarrow> unit outcome" where
  "oneForZero_ValidateSqrtPrice S sqrtPrice currentSqrtPrice =
     obind (to_BigDec sqrtPrice) (\<lambda>sqrtPriceBigDec.
     obind (obind (MaxSqrtPrice S) to_BigDec) (\<lambda>maxSqrtPriceBigDec.
       if BigDec_LT sqrtPriceBigDec currentSqrtPrice \<or> BigDec_GT sqrtPriceBigDec maxSqrtPriceBigDec
       then Err SqrtPriceValidationError else Ok ()))"

section \<open>The interface (\<^verbatim>\<open>swap_strategy.go\<close>)\<close>

datatype SwapStrategy = zeroForOneStrategy strategy | oneForZeroStrategy strategy

fun ZeroForOne :: "SwapStrategy \<Rightarrow> bool" where
  "ZeroForOne (zeroForOneStrategy s) = True"
| "ZeroForOne (oneForZeroStrategy s) = False"

fun GetSqrtTargetPrice :: "SwapStrategy \<Rightarrow> Dec \<Rightarrow> Dec" where
  "GetSqrtTargetPrice (zeroForOneStrategy s) = zeroForOne_GetSqrtTargetPrice s"
| "GetSqrtTargetPrice (oneForZeroStrategy s) = oneForZero_GetSqrtTargetPrice s"

fun ComputeSwapWithinBucketOutGivenIn ::
  "sdk_dec \<Rightarrow> SwapStrategy \<Rightarrow> BigDec \<Rightarrow> Dec \<Rightarrow> Dec \<Rightarrow> Dec \<Rightarrow> (BigDec \<times> Dec \<times> Dec \<times> Dec) outcome" where
  "ComputeSwapWithinBucketOutGivenIn S (zeroForOneStrategy s) = zeroForOne_ComputeSwapWithinBucketOutGivenIn S s"
| "ComputeSwapWithinBucketOutGivenIn S (oneForZeroStrategy s) = oneForZero_ComputeSwapWithinBucketOutGivenIn S s"

fun ComputeSwapWithinBucketInGivenOut ::
  "sdk_dec \<Rightarrow> SwapStrategy \<Rightarrow> BigDec \<Rightarrow> Dec \<Rightarrow> Dec \<Rightarrow> Dec \<Rightarrow> (BigDec \<times> Dec \<times> Dec \<times> Dec) outcome" where
  "ComputeSwapWithinBucketInGivenOut S (zeroForOneStrategy s) = zeroForOne_ComputeSwapWithinBucketInGivenOut S s"
| "ComputeSwapWithinBucketInGivenOut S (oneForZeroStrategy s) = oneForZero_ComputeSwapWithinBucketInGivenOut S s"

fun SetLiquidityDeltaSign :: "SwapStrategy \<Rightarrow> Dec \<Rightarrow> Dec" where
  "SetLiquidityDeltaSign (zeroForOneStrategy s) = zeroForOne_SetLiquidityDeltaSign"
| "SetLiquidityDeltaSign (oneForZeroStrategy s) = oneForZero_SetLiquidityDeltaSign"

fun UpdateTickAfterCrossing :: "SwapStrategy \<Rightarrow> int \<Rightarrow> int" where
  "UpdateTickAfterCrossing (zeroForOneStrategy s) = zeroForOne_UpdateTickAfterCrossing"
| "UpdateTickAfterCrossing (oneForZeroStrategy s) = oneForZero_UpdateTickAfterCrossing"

fun ValidateSqrtPrice :: "sdk_dec \<Rightarrow> SwapStrategy \<Rightarrow> Dec \<Rightarrow> BigDec \<Rightarrow> unit outcome" where
  "ValidateSqrtPrice S (zeroForOneStrategy s) = zeroForOne_ValidateSqrtPrice S"
| "ValidateSqrtPrice S (oneForZeroStrategy s) = oneForZero_ValidateSqrtPrice S"

definition New :: "bool \<Rightarrow> Dec \<Rightarrow> Dec \<Rightarrow> SwapStrategy" where
  "New zeroForOne limit factor =
     (let s = \<lparr>sqrtPriceLimit = limit, spreadFactor = factor\<rparr>
      in if zeroForOne then zeroForOneStrategy s else oneForZeroStrategy s)"

definition GetPriceLimit :: "bool \<Rightarrow> Dec" where
  "GetPriceLimit zeroForOne = (if zeroForOne then MinSpotPrice else MaxSpotPrice)"

definition GetSqrtPriceLimit :: "sdk_dec \<Rightarrow> Dec \<Rightarrow> bool \<Rightarrow> Dec outcome" where
  "GetSqrtPriceLimit S priceLimit zeroForOne =
     (if priceLimit = 0 then if zeroForOne then MinSqrtPrice S else MaxSqrtPrice S else MonotonicSqrt S priceLimit)"

end
