(* ===== verification/CL_Swap_Spec.thy ===== *)
theory CL_Swap_Spec
  imports CL_Swap
begin

text \<open>
  What a step of a swap guarantees. The contract of a direction is the locale \<open>bucket_side\<close>: the amounts of the token
  that goes in and of the one that comes out, and the price relation between them. Both directions are instances.
\<close>

locale bucket_side =
  fixes amountIn amountOut :: "BigDec \<Rightarrow> BigDec \<Rightarrow> BigDec \<Rightarrow> BigDec outcome"
    and fair :: "BigDec \<Rightarrow> BigDec \<Rightarrow> BigDec \<Rightarrow> BigDec \<Rightarrow> bool"
  assumes in_nonneg: "0 \<le> liq \<Longrightarrow> 0 < a \<Longrightarrow> 0 < b \<Longrightarrow> amountIn liq a b = Ok i \<Longrightarrow> 0 \<le> i"
    and out_nonneg: "0 \<le> liq \<Longrightarrow> 0 < a \<Longrightarrow> 0 < b \<Longrightarrow> amountOut liq a b = Ok d \<Longrightarrow> 0 \<le> d"
    and fair_amounts: "0 \<le> liq \<Longrightarrow> 0 < a \<Longrightarrow> 0 < b \<Longrightarrow> amountIn liq a b = Ok i \<Longrightarrow> amountOut liq a b = Ok d \<Longrightarrow> fair a b i d"
    and fair_mono: "0 < a \<Longrightarrow> 0 < b \<Longrightarrow> fair a b i d \<Longrightarrow> i \<le> i' \<Longrightarrow> d' \<le> d \<Longrightarrow> fair a b i' d'"
begin

text \<open>The final amounts: the one in rounded up to eighteen places, the one out capped and rounded down.\<close>

lemma final_amounts:
  assumes "0 \<le> liq" "0 < a" "0 < b" "amountIn liq a b = Ok i" "amountOut liq a b = Ok d"
    and cap: "0 \<le> c" "c \<le> d"
  shows "0 \<le> - ((- i) div 10 ^ 18)" "0 \<le> quo c (10 ^ 18)" "quo c (10 ^ 18) * 10 ^ 18 \<le> c"
    "fair a b (- ((- i) div 10 ^ 18) * 10 ^ 18) (quo c (10 ^ 18) * 10 ^ 18)"
proof -
  have i: "0 \<le> i" "i \<le> - ((- i) div 10 ^ 18) * 10 ^ 18"
    using in_nonneg[OF assms(1-4)] ceil_div_bounds(2)[of "10 ^ 18" i] by simp_all
  have c: "quo c (10 ^ 18) * 10 ^ 18 \<le> c" using floor_div_bounds(1)[of "10 ^ 18" c] cap by (simp add: quo_nonneg_eq)
  show "quo c (10 ^ 18) * 10 ^ 18 \<le> c" by (rule c)
  have "0 \<le> - ((- i) div 10 ^ 18) * 10 ^ 18" using i by linarith
  then show "0 \<le> - ((- i) div 10 ^ 18)" by simp
  show "0 \<le> quo c (10 ^ 18)" using cap by (simp add: quo_nonneg_eq pos_imp_zdiv_nonneg_iff)
  show "fair a b (- ((- i) div 10 ^ 18) * 10 ^ 18) (quo c (10 ^ 18) * 10 ^ 18)"
    using fair_mono[OF assms(2,3) fair_amounts[OF assms(1-5)] i(2)] c cap by simp
qed

end

lemma amount0_up_nonneg:
  assumes "0 \<le> liq" "0 < a" "0 < b" "CalcAmount0Delta liq a b True = Ok i"
  shows "0 \<le> i"
  using assms(4)
proof (rule amount0_up)
  fix den p q
  assume u: "BigDec_MulTruncate (min a b) (max a b) = Ok den" "BigDec_Mul liq (max a b - min a b) = Ok p" "BigDec_Quo p den = Ok q"
    "BigDec_Ceil q = Ok i"
  have D: "0 \<le> max a b - min a b" "0 \<le> min a b" "0 \<le> max a b" using assms(2,3) by simp_all
  have "0 \<le> den" using products(1)[OF D(2,3) u(1)] by blast
  moreover have "den \<noteq> 0" using u(3) unfolding quot.quot_Ok_iff by blast
  moreover have "0 \<le> p" using mul.mul_nonneg[OF assms(1) D(1) u(2)] .
  ultimately have "0 \<le> q" using quot.quot_ge[OF u(3), of 0] by simp
  then show "0 \<le> i" using Ceil_ge[OF u(4)] by simp
qed

lemma amount1_up_nonneg:
  assumes "0 \<le> liq" "CalcAmount1Delta liq a b True = Ok i"
  shows "0 \<le> i"
  using assms(2)
proof (rule amount1_up)
  fix p assume u: "BigDec_Mul liq (max a b - min a b) = Ok p" "BigDec_Ceil p = Ok i"
  have "0 \<le> max a b - min a b" by simp
  then have "0 \<le> p" using mul.mul_nonneg[OF assms(1) _ u(1)] by blast
  then show "0 \<le> i" using Ceil_ge[OF u(2)] by simp
qed

interpretation zero_in: bucket_side "\<lambda>liq a b. CalcAmount0Delta liq a b True" "\<lambda>liq a b. CalcAmount1Delta liq a b False" fair_zero_in
proof
  fix liq a b i d i' d' :: int
  assume ab: "0 < a" "0 < b"
  show "0 \<le> liq \<Longrightarrow> CalcAmount0Delta liq a b True = Ok i \<Longrightarrow> 0 \<le> i" by (rule amount0_up_nonneg[OF _ ab])
  show "0 \<le> liq \<Longrightarrow> CalcAmount1Delta liq a b False = Ok d \<Longrightarrow> 0 \<le> d" by (rule amount1_order(1))
  show "0 \<le> liq \<Longrightarrow> CalcAmount0Delta liq a b True = Ok i \<Longrightarrow> CalcAmount1Delta liq a b False = Ok d \<Longrightarrow> fair_zero_in a b i d"
    by (rule fair_zero_in_amounts[OF _ ab])
  assume f: "fair_zero_in a b i d" "i \<le> i'" "d' \<le> d"
  have "d' * 10 ^ 72 \<le> d * 10 ^ 72" using f(3) by simp
  also have "\<dots> \<le> (i + 1) * (a * b)" using f(1) unfolding fair_zero_in_def .
  also have "\<dots> \<le> (i' + 1) * (a * b)" by (rule mult_right_mono) (use f(2) ab in simp_all)
  finally show "fair_zero_in a b i' d'" unfolding fair_zero_in_def .
qed

interpretation one_in: bucket_side "\<lambda>liq a b. CalcAmount1Delta liq a b True" "\<lambda>liq a b. CalcAmount0Delta liq a b False" fair_one_in
proof
  fix liq a b i d i' d' :: int
  assume ab: "0 < a" "0 < b"
  show "0 \<le> liq \<Longrightarrow> CalcAmount1Delta liq a b True = Ok i \<Longrightarrow> 0 \<le> i" by (rule amount1_up_nonneg)
  show "0 \<le> liq \<Longrightarrow> CalcAmount0Delta liq a b False = Ok d \<Longrightarrow> 0 \<le> d" by (rule amount0_order(1)[OF _ ab])
  show "0 \<le> liq \<Longrightarrow> CalcAmount1Delta liq a b True = Ok i \<Longrightarrow> CalcAmount0Delta liq a b False = Ok d \<Longrightarrow> fair_one_in a b i d"
    by (rule fair_one_in_amounts[OF _ ab])
  assume f: "fair_one_in a b i d" "i \<le> i'" "d' \<le> d"
  have "d' * (a * b) \<le> d * (a * b)" by (rule mult_right_mono) (use f(3) ab in simp_all)
  also have "\<dots> \<le> i * 10 ^ 72" using f(1) unfolding fair_one_in_def .
  also have "\<dots> \<le> i' * 10 ^ 72" using f(2) by simp
  finally show "fair_one_in a b i' d'" unfolding fair_one_in_def .
qed

section \<open>The steps, taken apart\<close>

lemma if_Ok: "(if c then Ok x else m) = Ok y \<longleftrightarrow> (if c then x = y else m = Ok y)"
  "(if c then m else Ok x) = Ok y \<longleftrightarrow> (if c then m = Ok y else x = y)"
  by simp_all

lemmas step_simps = go_simps BigDec_comparisons big_dec.sub_Ok_iff OneDec_eq precisionReuse_eq

lemma zfo_out_parts:
  assumes "zeroForOne_ComputeSwapWithinBucketOutGivenIn S s cur tgt liq amt = Ok (nxt, ain, aout, charge)"
  obtains est net i d where "CalcAmount0Delta (liq * 10 ^ 18) (tgt * 10 ^ 18) cur True = Ok est"
    "BigDec_Mul (amt * 10 ^ 18) (10 ^ 36 - spreadFactor s * 10 ^ 18) = Ok net"
    "if est \<le> net then nxt = tgt * 10 ^ 18 else GetNextSqrtPriceFromAmount0InRoundingUp cur (liq * 10 ^ 18) net = Ok nxt"
    "CalcAmount0Delta (liq * 10 ^ 18) nxt cur True = Ok i" "CalcAmount1Delta (liq * 10 ^ 18) nxt cur False = Ok d"
    "to_SDKDecRoundUp S i = Ok ain" "to_SDKDec S d = Ok aout"
    "computeSpreadRewardChargePerSwapStepOutGivenIn S (tgt * 10 ^ 18 = nxt) ain amt (spreadFactor s) = Ok charge"
  using assms unfolding zeroForOne_ComputeSwapWithinBucketOutGivenIn_def to_BigDec_eq obind.simps Let_def
  by (cases "tgt * 10 ^ 18 = nxt") (auto simp: step_simps split: if_splits)

lemma ofz_out_parts:
  assumes "oneForZero_ComputeSwapWithinBucketOutGivenIn S s cur tgt liq amt = Ok (nxt, ain, aout, charge)"
  obtains est net i d where "CalcAmount1Delta (liq * 10 ^ 18) (tgt * 10 ^ 18) cur True = Ok est"
    "BigDec_MulTruncate (amt * 10 ^ 18) (10 ^ 36 - spreadFactor s * 10 ^ 18) = Ok net"
    "if est \<le> net then nxt = tgt * 10 ^ 18 else GetNextSqrtPriceFromAmount1InRoundingDown cur (liq * 10 ^ 18) net = Ok nxt"
    "CalcAmount1Delta (liq * 10 ^ 18) nxt cur True = Ok i" "CalcAmount0Delta (liq * 10 ^ 18) nxt cur False = Ok d"
    "to_SDKDecRoundUp S i = Ok ain" "to_SDKDec S d = Ok aout"
    "computeSpreadRewardChargePerSwapStepOutGivenIn S (tgt * 10 ^ 18 = nxt) ain amt (spreadFactor s) = Ok charge"
  using assms unfolding oneForZero_ComputeSwapWithinBucketOutGivenIn_def to_BigDec_eq obind.simps Let_def
  by (cases "tgt * 10 ^ 18 = nxt") (auto simp: step_simps split: if_splits)

lemma zfo_in_parts:
  assumes "zeroForOne_ComputeSwapWithinBucketInGivenOut S s cur tgt liq amt = Ok (nxt, aout, ain, charge)"
  obtains est i d where "CalcAmount1Delta (liq * 10 ^ 18) (tgt * 10 ^ 18) cur False = Ok est"
    "if est \<le> amt * 10 ^ 18 then nxt = tgt * 10 ^ 18 else GetNextSqrtPriceFromAmount1OutRoundingDown cur (liq * 10 ^ 18) (amt * 10 ^ 18) = Ok nxt"
    "CalcAmount1Delta (liq * 10 ^ 18) nxt cur False = Ok d" "CalcAmount0Delta (liq * 10 ^ 18) nxt cur True = Ok i"
    "to_SDKDecRoundUp S i = Ok ain" "to_SDKDec S (if amt * 10 ^ 18 < d then amt * 10 ^ 18 else d) = Ok aout"
    "computeSpreadRewardChargeFromAmountIn S ain (spreadFactor s) = Ok charge"
proof -
  from assms obtain est d i where parts: "CalcAmount1Delta (liq * 10 ^ 18) (tgt * 10 ^ 18) cur False = Ok est"
    "if est \<le> amt * 10 ^ 18 then tgt * 10 ^ 18 = nxt else GetNextSqrtPriceFromAmount1OutRoundingDown cur (liq * 10 ^ 18) (amt * 10 ^ 18) = Ok nxt"
    "if tgt * 10 ^ 18 \<noteq> nxt then CalcAmount1Delta (liq * 10 ^ 18) nxt cur False = Ok d else est = d"
    "CalcAmount0Delta (liq * 10 ^ 18) nxt cur True = Ok i" "to_SDKDecRoundUp S i = Ok ain"
    "to_SDKDec S (if amt * 10 ^ 18 < d then amt * 10 ^ 18 else d) = Ok aout"
    "computeSpreadRewardChargeFromAmountIn S ain (spreadFactor s) = Ok charge"
    unfolding zeroForOne_ComputeSwapWithinBucketInGivenOut_def to_BigDec_eq obind.simps Let_def obind_eq_Ok BigDec_comparisons
      if_Ok outcome.inject prod.inject
    by metis
  show thesis by (rule that[OF parts(1) _ _ parts(4-7)]) (use parts(1-3) in \<open>auto split: if_split_asm\<close>)
qed

lemma ofz_in_parts:
  assumes "oneForZero_ComputeSwapWithinBucketInGivenOut S s cur tgt liq amt = Ok (nxt, aout, ain, charge)"
  obtains est i d where "CalcAmount0Delta (liq * 10 ^ 18) (tgt * 10 ^ 18) cur False = Ok est"
    "if est \<le> amt * 10 ^ 18 then nxt = tgt * 10 ^ 18 else GetNextSqrtPriceFromAmount0OutRoundingUp cur (liq * 10 ^ 18) (amt * 10 ^ 18) = Ok nxt"
    "CalcAmount0Delta (liq * 10 ^ 18) nxt cur False = Ok d" "CalcAmount1Delta (liq * 10 ^ 18) nxt cur True = Ok i"
    "to_SDKDecRoundUp S i = Ok ain" "to_SDKDec S (if amt * 10 ^ 18 < d then amt * 10 ^ 18 else d) = Ok aout"
    "computeSpreadRewardChargeFromAmountIn S ain (spreadFactor s) = Ok charge"
proof -
  from assms obtain est d i where parts: "CalcAmount0Delta (liq * 10 ^ 18) (tgt * 10 ^ 18) cur False = Ok est"
    "if est \<le> amt * 10 ^ 18 then tgt * 10 ^ 18 = nxt else GetNextSqrtPriceFromAmount0OutRoundingUp cur (liq * 10 ^ 18) (amt * 10 ^ 18) = Ok nxt"
    "if tgt * 10 ^ 18 \<noteq> nxt then CalcAmount0Delta (liq * 10 ^ 18) nxt cur False = Ok d else est = d"
    "CalcAmount1Delta (liq * 10 ^ 18) nxt cur True = Ok i" "to_SDKDecRoundUp S i = Ok ain"
    "to_SDKDec S (if amt * 10 ^ 18 < d then amt * 10 ^ 18 else d) = Ok aout"
    "computeSpreadRewardChargeFromAmountIn S ain (spreadFactor s) = Ok charge"
    unfolding oneForZero_ComputeSwapWithinBucketInGivenOut_def to_BigDec_eq obind.simps Let_def obind_eq_Ok BigDec_comparisons
      if_Ok outcome.inject prod.inject
    by metis
  show thesis by (rule that[OF parts(1) _ _ parts(4-7)]) (use parts(1-3) in \<open>auto split: if_split_asm\<close>)
qed

section \<open>The next square root price\<close>

lemma net_nonneg:
  "0 \<le> amt \<Longrightarrow> f \<le> 10 ^ 18 \<Longrightarrow> BigDec_Mul (amt * 10 ^ 18) (10 ^ 36 - f * 10 ^ 18) = Ok net \<Longrightarrow> 0 \<le> net"
  "0 \<le> amt \<Longrightarrow> f \<le> 10 ^ 18 \<Longrightarrow> BigDec_MulTruncate (amt * 10 ^ 18) (10 ^ 36 - f * 10 ^ 18) = Ok net \<Longrightarrow> 0 \<le> net"
  by (erule mul.mul_nonneg[rotated 2] mulTruncate.mul_nonneg[rotated 2]; simp)+

text \<open>Token zero in: the next square root price is not negative, and an amount for it shows that it is not zero.\<close>

lemma next0In_nonneg:
  assumes "GetNextSqrtPriceFromAmount0InRoundingUp cur liq net = Ok nxt" "0 < cur" "0 \<le> liq" "0 \<le> net"
  shows "0 \<le> nxt"
proof (cases "net = 0")
  case True
  then show ?thesis using assms(1,2) by (simp add: GetNextSqrtPriceFromAmount0InRoundingUp_def big_simps)
next
  case False
  then obtain m p where m: "BigDec_Mul net cur = Ok m" "BigDec_Mul liq cur = Ok p" "BigDec_QuoRoundUp p (m + liq) = Ok nxt"
    using assms(1) by (auto simp: GetNextSqrtPriceFromAmount0InRoundingUp_def amount_simps go_simps big_simps)
  have "0 \<le> m" "0 \<le> p" using mul.mul_nonneg[OF assms(4) _ m(1)] mul.mul_nonneg[OF assms(3) _ m(2)] assms(2) by simp_all
  moreover have "m + liq \<noteq> 0" using m(3) unfolding quoRoundUp.quot_Ok_iff by blast
  ultimately show ?thesis using quoRoundUp.quot_ge[OF m(3), of 0] assms(3) by simp
qed

lemma amount0_up_nonzero: "CalcAmount0Delta liq a b True = Ok i \<Longrightarrow> a \<noteq> 0"
proof (rule notI)
  assume u: "CalcAmount0Delta liq a b True = Ok i" and "a = 0"
  then obtain den p q where "BigDec_MulTruncate (min 0 b) (max 0 b) = Ok den" "BigDec_Quo p den = Ok q" by (auto elim: amount0_up)
  moreover have "min 0 b * max 0 b = 0" by (cases "0 \<le> b") simp_all
  ultimately show False by (simp add: mulTruncate.mul_Ok_iff quot.quot_Ok_iff)
qed

text \<open>Token one out: the next square root price does not pass the target.\<close>

lemma next1Out_target:
  assumes "GetNextSqrtPriceFromAmount1OutRoundingDown cur liq amt = Ok nxt" "0 \<le> liq" "0 \<le> amt" "tgt \<le> cur"
    and "CalcAmount1Delta liq tgt cur False = Ok est" "amt < est"
  shows "tgt \<le> nxt" "nxt \<le> cur"
proof -
  obtain c where c: "BigDec_QuoRoundUp amt liq = Ok c" "nxt = cur - c"
    using assms(1) by (auto simp: GetNextSqrtPriceFromAmount1OutRoundingDown_def go_simps big_dec.sub_Ok_iff)
  have liq: "0 < liq" using assms(2) c(1) by (cases "liq = 0") (auto simp: quoRoundUp.quot_zero)
  show "nxt \<le> cur" using quoRoundUp.quot_ge[OF c(1) liq, of 0] assms(3) c(2) by simp
  have "est * precisionReuse \<le> liq * (cur - tgt)" using amount1_order(2)[OF assms(2,5)] assms(4) by simp
  moreover have "amt * precisionReuse \<le> est * precisionReuse" using assms(6) by (intro mult_right_mono) simp_all
  ultimately have "amt * precisionReuse \<le> (cur - tgt) * liq" unfolding mult.commute[of liq] by linarith
  then have "c \<le> cur - tgt" by (rule quoRoundUp.quot_le[OF c(1) liq])
  then show "tgt \<le> nxt" using c(2) by simp
qed

text \<open>Token one in, and token zero out: the square root price does not fall.\<close>

lemma next1In_up:
  assumes "GetNextSqrtPriceFromAmount1InRoundingDown cur liq net = Ok nxt" "0 \<le> liq" "0 \<le> net"
  shows "cur \<le> nxt"
proof -
  obtain c where c: "BigDec_QuoTruncate net liq = Ok c" "nxt = cur + c"
    using assms(1) by (auto simp: GetNextSqrtPriceFromAmount1InRoundingDown_def go_simps big_dec.add_Ok_iff)
  have liq: "0 < liq" using assms(2) c(1) by (cases "liq = 0") (auto simp: quoTruncate.quot_zero)
  show ?thesis using quoTruncate_le(1)[OF c(1) assms(3) liq] c(2) by simp
qed

lemma next0Out_up:
  assumes "GetNextSqrtPriceFromAmount0OutRoundingUp cur liq amt = Ok nxt" "0 \<le> liq" "0 \<le> amt" "0 < cur" "cur \<le> tgt"
    and "CalcAmount0Delta liq tgt cur False = Ok est" "amt < est"
  shows "cur \<le> nxt"
proof (cases "amt = 0")
  case True
  then show ?thesis using assms(1) by (simp add: GetNextSqrtPriceFromAmount0OutRoundingUp_def big_simps)
next
  case False
  let ?P = precisionReuse
  obtain m p where m: "BigDec_MulRoundUp amt cur = Ok m" "BigDec_MulRoundUp liq cur = Ok p" "BigDec_QuoRoundUp p (liq - m) = Ok nxt"
    using assms(1) False by (auto simp: GetNextSqrtPriceFromAmount0OutRoundingUp_def amount_simps go_simps big_simps)
  have tgt: "0 < tgt" using assms(4,5) by simp
  have "amt * (tgt * cur) \<le> est * (tgt * cur)" by (rule mult_right_mono) (use assms(4,7) tgt in simp_all)
  also have "\<dots> \<le> liq * \<bar>cur - tgt\<bar> * ?P" using amount0_order(2)[OF assms(2) tgt assms(4,6)] .
  also have "\<dots> \<le> liq * tgt * ?P" by (intro mult_right_mono mult_left_mono) (use assms(2,4,5) in simp_all)
  finally have "(amt * cur) * tgt \<le> (liq * ?P) * tgt" by (simp only: ac_simps)
  then have "amt * cur \<le> liq * ?P" using tgt by (simp only: mult_le_cancel_right)
  then have "m \<le> liq" by (rule mulRoundUp.mul_le[OF m(1)])
  moreover have "liq - m \<noteq> 0" using m(3) unfolding quoRoundUp.quot_Ok_iff by blast
  ultimately have den: "0 < liq - m" by simp
  have c0: "0 \<le> cur" using assms(4) by simp
  have "0 \<le> m" using mulRoundUp.mul_nonneg[OF assms(3) c0 m(1)] .
  then have "cur * (liq - m) \<le> cur * liq" by (intro mult_left_mono) (use c0 in simp_all)
  also have "\<dots> \<le> p * ?P" using products(2)[OF assms(2) c0 m(2)] by (simp add: mult.commute)
  finally show "cur \<le> nxt" by (rule quoRoundUp.quot_ge[OF m(3) den])
qed

section \<open>Properties\<close>

definition valid_step :: "bool \<Rightarrow> Dec \<Rightarrow> BigDec \<Rightarrow> Dec \<Rightarrow> Dec \<Rightarrow> Dec \<Rightarrow> bool" where
  "valid_step zeroForOne factor cur tgt liq amt \<longleftrightarrow> 0 \<le> factor \<and> factor \<le> sdk_OneDec \<and> 0 < cur \<and> 0 < tgt \<and> 0 \<le> liq \<and> 0 \<le> amt \<and>
     (if zeroForOne then tgt * 10 ^ 18 \<le> cur else cur \<le> tgt * 10 ^ 18)"

context sdk_dec_laws
begin

lemma zfo_out_fair:
  assumes "zeroForOne_ComputeSwapWithinBucketOutGivenIn S s cur tgt liq amt = Ok (nxt, ain, aout, charge)"
    and v: "valid_step True (spreadFactor s) cur tgt liq amt"
  shows "0 < nxt \<and> 0 \<le> ain \<and> 0 \<le> aout \<and> fair_zero_in nxt cur (ain * 10 ^ 18) (aout * 10 ^ 18)"
  using assms(1)
proof (rule zfo_out_parts)
  fix est net i d
  assume a: "BigDec_Mul (amt * 10 ^ 18) (10 ^ 36 - spreadFactor s * 10 ^ 18) = Ok net"
    "if est \<le> net then nxt = tgt * 10 ^ 18 else GetNextSqrtPriceFromAmount0InRoundingUp cur (liq * 10 ^ 18) net = Ok nxt"
    "CalcAmount0Delta (liq * 10 ^ 18) nxt cur True = Ok i" "CalcAmount1Delta (liq * 10 ^ 18) nxt cur False = Ok d"
    "to_SDKDecRoundUp S i = Ok ain" "to_SDKDec S d = Ok aout"
  have v': "0 \<le> amt" "spreadFactor s \<le> 10 ^ 18" "0 < cur" "0 < tgt" "0 \<le> liq * 10 ^ 18" using v by (simp_all add: valid_step_def sdk_OneDec_def)
  have "0 \<le> nxt" using a(2) next0In_nonneg[of cur "liq * 10 ^ 18" net nxt] net_nonneg(1)[OF v'(1,2) a(1)] v' by (auto split: if_splits)
  then have nxt: "0 < nxt" using amount0_up_nonzero[OF a(3)] by simp
  note final = zero_in.final_amounts[OF v'(5) nxt v'(3) a(3,4) zero_in.out_nonneg[OF v'(5) nxt v'(3) a(4)] order_refl]
  have "ain = - ((- i) div 10 ^ 18)" "aout = quo d (10 ^ 18)"
    using a(5,6) to_SDKDecRoundUp_Ok[of i] zero_in.in_nonneg[OF v'(5) nxt v'(3) a(3)] by simp_all
  then show ?thesis using final nxt by simp
qed

lemma ofz_out_fair:
  assumes "oneForZero_ComputeSwapWithinBucketOutGivenIn S s cur tgt liq amt = Ok (nxt, ain, aout, charge)"
    and v: "valid_step False (spreadFactor s) cur tgt liq amt"
  shows "0 < nxt \<and> 0 \<le> ain \<and> 0 \<le> aout \<and> fair_one_in nxt cur (ain * 10 ^ 18) (aout * 10 ^ 18)"
  using assms(1)
proof (rule ofz_out_parts)
  fix est net i d
  assume a: "BigDec_MulTruncate (amt * 10 ^ 18) (10 ^ 36 - spreadFactor s * 10 ^ 18) = Ok net"
    "if est \<le> net then nxt = tgt * 10 ^ 18 else GetNextSqrtPriceFromAmount1InRoundingDown cur (liq * 10 ^ 18) net = Ok nxt"
    "CalcAmount1Delta (liq * 10 ^ 18) nxt cur True = Ok i" "CalcAmount0Delta (liq * 10 ^ 18) nxt cur False = Ok d"
    "to_SDKDecRoundUp S i = Ok ain" "to_SDKDec S d = Ok aout"
  have v': "0 \<le> amt" "spreadFactor s \<le> 10 ^ 18" "0 < cur" "0 < tgt" "0 \<le> liq * 10 ^ 18" using v by (simp_all add: valid_step_def sdk_OneDec_def)
  have nxt: "0 < nxt" using a(2) next1In_up[of cur "liq * 10 ^ 18" net nxt] net_nonneg(2)[OF v'(1,2) a(1)] v' by (auto split: if_splits)
  note final = one_in.final_amounts[OF v'(5) nxt v'(3) a(3,4) one_in.out_nonneg[OF v'(5) nxt v'(3) a(4)] order_refl]
  have "ain = - ((- i) div 10 ^ 18)" "aout = quo d (10 ^ 18)"
    using a(5,6) to_SDKDecRoundUp_Ok[of i] one_in.in_nonneg[OF v'(5) nxt v'(3) a(3)] by simp_all
  then show ?thesis using final nxt by simp
qed

lemma zfo_in_direction:
  assumes "zeroForOne_ComputeSwapWithinBucketInGivenOut S s cur tgt liq amt = Ok (nxt, aout, ain, charge)"
    and v: "valid_step True (spreadFactor s) cur tgt liq amt"
  shows "tgt * 10 ^ 18 \<le> nxt \<and> nxt \<le> cur"
  using assms(1)
proof (rule zfo_in_parts)
  fix est
  assume a: "CalcAmount1Delta (liq * 10 ^ 18) (tgt * 10 ^ 18) cur False = Ok est"
    "if est \<le> amt * 10 ^ 18 then nxt = tgt * 10 ^ 18
     else GetNextSqrtPriceFromAmount1OutRoundingDown cur (liq * 10 ^ 18) (amt * 10 ^ 18) = Ok nxt"
  have v': "0 \<le> amt * 10 ^ 18" "0 \<le> liq * 10 ^ 18" "tgt * 10 ^ 18 \<le> cur" using v by (simp_all add: valid_step_def)
  then show ?thesis using a(2) next1Out_target[OF _ v'(2,1,3) a(1), of nxt] by (auto split: if_splits)
qed

lemma ofz_in_direction:
  assumes "oneForZero_ComputeSwapWithinBucketInGivenOut S s cur tgt liq amt = Ok (nxt, aout, ain, charge)"
    and v: "valid_step False (spreadFactor s) cur tgt liq amt"
  shows "cur \<le> nxt"
  using assms(1)
proof (rule ofz_in_parts)
  fix est
  assume a: "CalcAmount0Delta (liq * 10 ^ 18) (tgt * 10 ^ 18) cur False = Ok est"
    "if est \<le> amt * 10 ^ 18 then nxt = tgt * 10 ^ 18
     else GetNextSqrtPriceFromAmount0OutRoundingUp cur (liq * 10 ^ 18) (amt * 10 ^ 18) = Ok nxt"
  have v': "0 \<le> amt * 10 ^ 18" "0 \<le> liq * 10 ^ 18" "0 < cur" "cur \<le> tgt * 10 ^ 18" using v by (simp_all add: valid_step_def)
  then show ?thesis using a(2) next0Out_up[OF _ v'(2,1,3,4) a(1), of nxt] by (auto split: if_splits)
qed

lemma zfo_in_fair:
  assumes "zeroForOne_ComputeSwapWithinBucketInGivenOut S s cur tgt liq amt = Ok (nxt, aout, ain, charge)"
    and v: "valid_step True (spreadFactor s) cur tgt liq amt"
  shows "0 < nxt \<and> 0 \<le> ain \<and> 0 \<le> aout \<and> aout \<le> amt \<and> fair_zero_in nxt cur (ain * 10 ^ 18) (aout * 10 ^ 18)"
  using assms(1)
proof (rule zfo_in_parts)
  fix est i d
  assume a: "CalcAmount1Delta (liq * 10 ^ 18) (tgt * 10 ^ 18) cur False = Ok est"
    "if est \<le> amt * 10 ^ 18 then nxt = tgt * 10 ^ 18
     else GetNextSqrtPriceFromAmount1OutRoundingDown cur (liq * 10 ^ 18) (amt * 10 ^ 18) = Ok nxt"
    "CalcAmount1Delta (liq * 10 ^ 18) nxt cur False = Ok d" "CalcAmount0Delta (liq * 10 ^ 18) nxt cur True = Ok i"
    "to_SDKDecRoundUp S i = Ok ain" "to_SDKDec S (if amt * 10 ^ 18 < d then amt * 10 ^ 18 else d) = Ok aout"
  have v': "0 \<le> amt * 10 ^ 18" "0 < cur" "0 < tgt" "0 \<le> liq * 10 ^ 18" "tgt * 10 ^ 18 \<le> cur" using v by (simp_all add: valid_step_def)
  have "tgt * 10 ^ 18 \<le> nxt" using zfo_in_direction[OF assms] by blast
  then have nxt: "0 < nxt" using v'(3) by simp
  define c where "c = (if amt * 10 ^ 18 < d then amt * 10 ^ 18 else d)"
  have c: "0 \<le> c" "c \<le> d" "c \<le> amt * 10 ^ 18" using zero_in.out_nonneg[OF v'(4) nxt v'(2) a(3)] v'(1) by (simp_all add: c_def)
  note final = zero_in.final_amounts[OF v'(4) nxt v'(2) a(4,3) c(1,2)]
  have "ain = - ((- i) div 10 ^ 18)" "aout = quo c (10 ^ 18)"
    using a(5,6) to_SDKDecRoundUp_Ok[of i] zero_in.in_nonneg[OF v'(4) nxt v'(2) a(4)] by (simp_all add: c_def)
  then show ?thesis using final nxt c(3) by simp
qed

lemma ofz_in_fair:
  assumes "oneForZero_ComputeSwapWithinBucketInGivenOut S s cur tgt liq amt = Ok (nxt, aout, ain, charge)"
    and v: "valid_step False (spreadFactor s) cur tgt liq amt"
  shows "0 < nxt \<and> 0 \<le> ain \<and> 0 \<le> aout \<and> aout \<le> amt \<and> fair_one_in nxt cur (ain * 10 ^ 18) (aout * 10 ^ 18)"
  using assms(1)
proof (rule ofz_in_parts)
  fix est i d
  assume a: "CalcAmount0Delta (liq * 10 ^ 18) (tgt * 10 ^ 18) cur False = Ok est"
    "if est \<le> amt * 10 ^ 18 then nxt = tgt * 10 ^ 18
     else GetNextSqrtPriceFromAmount0OutRoundingUp cur (liq * 10 ^ 18) (amt * 10 ^ 18) = Ok nxt"
    "CalcAmount0Delta (liq * 10 ^ 18) nxt cur False = Ok d" "CalcAmount1Delta (liq * 10 ^ 18) nxt cur True = Ok i"
    "to_SDKDecRoundUp S i = Ok ain" "to_SDKDec S (if amt * 10 ^ 18 < d then amt * 10 ^ 18 else d) = Ok aout"
  have v': "0 \<le> amt * 10 ^ 18" "0 < cur" "0 < tgt" "0 \<le> liq * 10 ^ 18" "cur \<le> tgt * 10 ^ 18" using v by (simp_all add: valid_step_def)
  have nxt: "0 < nxt" using ofz_in_direction[OF assms] v'(2) by simp
  define c where "c = (if amt * 10 ^ 18 < d then amt * 10 ^ 18 else d)"
  have c: "0 \<le> c" "c \<le> d" "c \<le> amt * 10 ^ 18" using one_in.out_nonneg[OF v'(4) nxt v'(2) a(3)] v'(1) by (simp_all add: c_def)
  note final = one_in.final_amounts[OF v'(4) nxt v'(2) a(4,3) c(1,2)]
  have "ain = - ((- i) div 10 ^ 18)" "aout = quo c (10 ^ 18)"
    using a(5,6) to_SDKDecRoundUp_Ok[of i] one_in.in_nonneg[OF v'(4) nxt v'(2) a(4)] by (simp_all add: c_def)
  then show ?thesis using final nxt c(3) by simp
qed

lemma charge_on_target:
  assumes "computeSpreadRewardChargeFromAmountIn S ain f = Ok charge" "0 \<le> ain" "0 \<le> f" "f < 10 ^ 18"
  shows "0 \<le> charge" "ain * f * 10 ^ 18 < (charge * 10 ^ 18 + 1) * (10 ^ 18 - f)" "(charge - 1) * (10 ^ 18 - f) < ain * f + 10 ^ 18"
proof -
  obtain x d where x: "D_MulRoundUp S ain f = Ok x" "D_Sub S (10 ^ 18) f = Ok d" "D_QuoRoundUp S x d = Ok charge"
    using assms(1) by (auto simp: computeSpreadRewardChargeFromAmountIn_def go_simps sdk_OneDec_def)
  have d: "d = 10 ^ 18 - f" "0 < d" using sub_result[OF x(2)] assms(4) by simp_all
  have m: "0 \<le> x" "ain * f \<le> x * 10 ^ 18" "(x - 1) * 10 ^ 18 < ain * f" using mul_round_up[OF assms(2,3) x(1)] by simp_all
  have q: "0 \<le> charge" "(charge - 1) * d < x * 10 ^ 18" "x * 10 ^ 36 < (charge * 10 ^ 18 + 1) * d"
    using quo_round_up[OF m(1) d(2) x(3)] by simp_all
  show "0 \<le> charge" by (rule q(1))
  show "ain * f * 10 ^ 18 < (charge * 10 ^ 18 + 1) * (10 ^ 18 - f)" using m(2) q(3) unfolding d(1) by simp
  show "(charge - 1) * (10 ^ 18 - f) < ain * f + 10 ^ 18" using m(3) q(2) unfolding d(1) by simp
qed

lemma charge_of_step:
  assumes "computeSpreadRewardChargePerSwapStepOutGivenIn S reached ain amt f = Ok charge" "0 \<le> ain" "0 \<le> f" "f < 10 ^ 18"
  shows "0 \<le> charge \<and> (f = 0 \<longrightarrow> charge = 0) \<and> (0 < f \<and> \<not> reached \<longrightarrow> ain + charge = amt) \<and>
    (0 < f \<and> reached \<longrightarrow> ain * f * 10 ^ 18 < (charge * 10 ^ 18 + 1) * (10 ^ 18 - f) \<and> (charge - 1) * (10 ^ 18 - f) < ain * f + 10 ^ 18)"
proof (cases "f = 0")
  case True
  then show ?thesis using assms(1) by (simp add: computeSpreadRewardChargePerSwapStepOutGivenIn_def)
next
  case False
  then have "(if reached then computeSpreadRewardChargeFromAmountIn S ain f else D_Sub S amt ain) = Ok charge" "0 \<le> charge"
    using assms(1,3) by (auto simp: computeSpreadRewardChargePerSwapStepOutGivenIn_def go_simps split: if_splits)
  then show ?thesis using False assms(3) charge_on_target[OF _ assms(2-4), of charge] sub_result[of amt ain charge]
    by (cases reached) auto
qed

text \<open>Token one out: short of the target, what is consumed is what was asked for, but for the smallest decimal.\<close>

lemma zfo_in_consumes:
  assumes "zeroForOne_ComputeSwapWithinBucketInGivenOut S s cur tgt liq amt = Ok (nxt, aout, ain, charge)"
    and v: "valid_step True (spreadFactor s) cur tgt liq amt" and "nxt \<noteq> tgt * 10 ^ 18" "liq \<le> 10 ^ 70"
  shows "amt - 1 \<le> aout"
  using assms(1)
proof (rule zfo_in_parts)
  fix est i d
  assume a: "if est \<le> amt * 10 ^ 18 then nxt = tgt * 10 ^ 18
     else GetNextSqrtPriceFromAmount1OutRoundingDown cur (liq * 10 ^ 18) (amt * 10 ^ 18) = Ok nxt"
    "CalcAmount1Delta (liq * 10 ^ 18) nxt cur False = Ok d"
    "to_SDKDec S (if amt * 10 ^ 18 < d then amt * 10 ^ 18 else d) = Ok aout"
  define L A where "L = liq * 10 ^ 18" and "A = amt * 10 ^ 18"
  have v': "0 \<le> A" "0 \<le> L" "L \<le> 10 ^ 88" using v assms(4) by (simp_all add: valid_step_def L_def A_def)
  have "GetNextSqrtPriceFromAmount1OutRoundingDown cur L A = Ok nxt" using a(1) assms(3) by (auto simp: L_def A_def split: if_splits)
  then obtain c where c: "BigDec_QuoRoundUp A L = Ok c" "nxt = cur - c"
    by (auto simp: GetNextSqrtPriceFromAmount1OutRoundingDown_def go_simps big_dec.sub_Ok_iff)
  have L: "0 < L" using v'(2) c(1) by (cases "L = 0") (auto simp: quoRoundUp.quot_zero)
  have c0: "0 \<le> c" using quoRoundUp.quot_ge[OF c(1) L, of 0] v'(1) by simp
  have low: "A * 10 ^ 72 < (c * 10 ^ 36 + 1) * L" using quoRoundUp_lower[OF v'(1) L c(1)] by (simp add: precisionReuse_eq)
  have "BigDec_MulTruncate L c = Ok d" using amount1_down[OF a(2)] c(2) c0 by (simp add: L_def)
  then have "d = L * c div 10 ^ 36"
    using c0 L by (simp add: mulTruncate.mul_Ok_iff chopPrecisionAndTruncate_def quo_nonneg_eq precisionReuse_eq)
  then have "L * c < (d + 1) * 10 ^ 36" using floor_div_bounds(2)[of "10 ^ 36" "L * c"] by simp
  then have "A * 10 ^ 72 < (d + 1) * 10 ^ 72 + L" using low by (simp add: algebra_simps)
  then have "A - 10 ^ 18 \<le> d" using v'(3) by simp
  then have "(amt - 1) * 10 ^ 18 \<le> (if A < d then A else d)" by (simp add: A_def)
  moreover have "aout = quo (if A < d then A else d) (10 ^ 18)" using a(3) unfolding A_def to_SDKDec_Ok by simp
  moreover have "0 \<le> d" using amount1_order(1)[OF _ a(2)] v'(2) by (simp add: L_def)
  ultimately show "amt - 1 \<le> aout"
    using zdiv_mono1[of "(amt - 1) * 10 ^ 18" "if A < d then A else d" "10 ^ 18"] v'(1) by (simp add: quo_nonneg_eq)
qed

end

text \<open>
  A step that is evaluated in full: liquidity one, from the square root price two towards one, with one token zero and a
  spread factor of a quarter.
\<close>

lemma sample_step:
  "ComputeSwapWithinBucketOutGivenIn plain_dec (New True 0 (25 * 10 ^ 16)) (2 * 10 ^ 36) (10 ^ 18) (10 ^ 18) (10 ^ 18) =
     Ok (8 * 10 ^ 35, 10 ^ 18, 12 * 10 ^ 17, 0)"
proof -
  note bits = in_bits_def maxDecBitLen_eq precisionReuse_eq
  have sub: "BigDec_Sub (2 * 10 ^ 36) (10 ^ 36) = Ok (10 ^ 36)" "BigDec_Sub (2 * 10 ^ 36) (8 * 10 ^ 35) = Ok (12 * 10 ^ 35)"
    "BigDec_Sub OneDec (25 * 10 ^ 34) = Ok (75 * 10 ^ 34)" "BigDec_Add (150 * 10 ^ 34) (10 ^ 36) = Ok (25 * 10 ^ 35)"
    by (simp_all add: big_dec.sub_Ok_iff big_dec.add_Ok_iff OneDec_eq bits)
  have mul: "BigDec_Mul (10 ^ 36) (10 ^ 36) = Ok (10 ^ 36)" "BigDec_Mul (10 ^ 36) (75 * 10 ^ 34) = Ok (75 * 10 ^ 34)"
    "BigDec_Mul (75 * 10 ^ 34) (2 * 10 ^ 36) = Ok (150 * 10 ^ 34)" "BigDec_Mul (10 ^ 36) (2 * 10 ^ 36) = Ok (2 * 10 ^ 36)"
    "BigDec_Mul (10 ^ 36) (12 * 10 ^ 35) = Ok (12 * 10 ^ 35)"
    by (rule mul.mul_at; simp add: bits)+
  have trunc: "BigDec_MulTruncate (10 ^ 36) (2 * 10 ^ 36) = Ok (2 * 10 ^ 36)" "BigDec_MulTruncate (8 * 10 ^ 35) (2 * 10 ^ 36) = Ok (16 * 10 ^ 35)"
    "BigDec_MulTruncate (10 ^ 36) (12 * 10 ^ 35) = Ok (12 * 10 ^ 35)"
    by (rule mulTruncate.mul_at; simp add: bits)+
  have quo: "BigDec_Quo (10 ^ 36) (2 * 10 ^ 36) = Ok (5 * 10 ^ 35)" "BigDec_Quo (12 * 10 ^ 35) (16 * 10 ^ 35) = Ok (75 * 10 ^ 34)"
    by (rule quot.quot_at; simp add: bits)+
  have up: "BigDec_QuoRoundUp (2 * 10 ^ 36) (25 * 10 ^ 35) = Ok (8 * 10 ^ 35)"
    by (rule quoRoundUp.quot_at; simp add: bits)
  have ceil: "BigDec_Ceil (5 * 10 ^ 35) = Ok (1 * 10 ^ 36)" "BigDec_Ceil (75 * 10 ^ 34) = Ok (1 * 10 ^ 36)" by (rule Ceil_at; simp)+
  have est: "CalcAmount0Delta (10 ^ 36) (10 ^ 36) (2 * 10 ^ 36) True = Ok (10 ^ 36)"
    unfolding CalcAmount0Delta_def ordered_eq using sub(1) mul(1) trunc(1) quo(1) ceil(1) by (simp add: QuoMut_eq)
  have amt0: "CalcAmount0Delta (10 ^ 36) (8 * 10 ^ 35) (2 * 10 ^ 36) True = Ok (10 ^ 36)"
    unfolding CalcAmount0Delta_def ordered_eq using sub(2) mul(5) trunc(2) quo(2) ceil(2) by (simp add: QuoMut_eq)
  have amt1: "CalcAmount1Delta (10 ^ 36) (8 * 10 ^ 35) (2 * 10 ^ 36) False = Ok (12 * 10 ^ 35)"
    unfolding CalcAmount1Delta_def ordered_eq using sub(2) trunc(3) by simp
  have nxt: "GetNextSqrtPriceFromAmount0InRoundingUp (2 * 10 ^ 36) (10 ^ 36) (75 * 10 ^ 34) = Ok (8 * 10 ^ 35)"
    unfolding GetNextSqrtPriceFromAmount0InRoundingUp_def using mul(3,4) sub(4) up by (simp add: AddMut_eq big_simps)
  have r: "to_SDKDecRoundUp plain_dec (10 ^ 36) = Ok (10 ^ 18)" by (simp add: plain_dec.to_SDKDecRoundUp_Ok)
  have d: "to_SDKDec plain_dec (12 * 10 ^ 35) = Ok (12 * 10 ^ 17)" by (simp add: quo_def)
  have charge: "computeSpreadRewardChargePerSwapStepOutGivenIn plain_dec False (10 ^ 18) (10 ^ 18) (25 * 10 ^ 16) = Ok 0"
    using plain_dec.sub_exact[of "10 ^ 18" "10 ^ 18"] by (simp add: computeSpreadRewardChargePerSwapStepOutGivenIn_def)
  show ?thesis
    using est mul(2) sub(3) nxt amt0 amt1 r d charge
    by (simp add: New_def zeroForOne_ComputeSwapWithinBucketOutGivenIn_def BigDec_comparisons)
qed

text \<open>
  C3 No step of a swap pays out more than the price allows: in both directions, and whether the amount in or the amount out
  is given, the amounts are not negative and the token that goes in is worth the token that comes out at the product of the
  square root prices before and after the step, the geometric mean of the two prices (where token zero goes in, up to one
  unit in the thirty-sixth decimal place of it). No rounding favours the trader.
\<close>

theorem swap_step_fair_price:
  assumes "sdk_dec_laws S" "valid_step zeroForOne factor cur tgt liq amt"
    and "ComputeSwapWithinBucketOutGivenIn S (New zeroForOne limit factor) cur tgt liq amt = Ok (nxt, ain, aout, charge) \<or>
      ComputeSwapWithinBucketInGivenOut S (New zeroForOne limit factor) cur tgt liq amt = Ok (nxt, aout, ain, charge)"
  shows "0 < nxt \<and> 0 \<le> ain \<and> 0 \<le> aout \<and>
    (if zeroForOne then aout * 10 ^ 18 * 10 ^ 72 \<le> (ain * 10 ^ 18 + 1) * (nxt * cur)
     else aout * 10 ^ 18 * (nxt * cur) \<le> ain * 10 ^ 18 * 10 ^ 72)"
proof (cases zeroForOne)
  case True
  let ?s = "\<lparr>sqrtPriceLimit = limit, spreadFactor = factor\<rparr>"
  have v: "valid_step True (spreadFactor ?s) cur tgt liq amt" using assms(2) True by simp
  show ?thesis
    using assms(3) True sdk_dec_laws.zfo_out_fair[OF assms(1) _ v] sdk_dec_laws.zfo_in_fair[OF assms(1) _ v]
    unfolding fair_zero_in_def[symmetric] fair_one_in_def[symmetric] by (auto simp: New_def)
next
  case False
  let ?s = "\<lparr>sqrtPriceLimit = limit, spreadFactor = factor\<rparr>"
  have v: "valid_step False (spreadFactor ?s) cur tgt liq amt" using assms(2) False by simp
  show ?thesis
    using assms(3) False sdk_dec_laws.ofz_out_fair[OF assms(1) _ v] sdk_dec_laws.ofz_in_fair[OF assms(1) _ v]
    unfolding fair_zero_in_def[symmetric] fair_one_in_def[symmetric] by (auto simp: New_def)
qed

theorem swap_step_fair_price_witness:
  "ComputeSwapWithinBucketOutGivenIn plain_dec (New True 0 (25 * 10 ^ 16)) (2 * 10 ^ 36) (10 ^ 18) (10 ^ 18) (10 ^ 18) =
     Ok (8 * 10 ^ 35, 10 ^ 18, 12 * 10 ^ 17, 0) \<and>
   12 * 10 ^ 17 * 10 ^ 18 * 10 ^ 72 \<le> (10 ^ 18 * 10 ^ 18 + 1) * (8 * 10 ^ 35 * (2 * 10 ^ 36) :: int)"
  using swap_step_fair_price[OF plain_dec.sdk_dec_laws_axioms _ disjI1[OF sample_step]] sample_step
  by (simp add: valid_step_def sdk_OneDec_def)

text \<open>
  C15 What a step with a given amount in takes from it: without a spread factor nothing beside the amount in; with one, and
  short of the target, exactly the whole remaining amount, the spread being the rest; on the target, the factor's share of
  the amount in, rounded up, with its lower and upper bound. The charge is never negative.
\<close>

theorem swap_step_consumes_amount_in:
  assumes "sdk_dec_laws S" "valid_step zeroForOne factor cur tgt liq amt" "factor < sdk_OneDec"
    and "ComputeSwapWithinBucketOutGivenIn S (New zeroForOne limit factor) cur tgt liq amt = Ok (nxt, ain, aout, charge)"
  shows "0 \<le> charge \<and> (factor = 0 \<longrightarrow> charge = 0) \<and> (0 < factor \<and> nxt \<noteq> tgt * 10 ^ 18 \<longrightarrow> ain + charge = amt) \<and>
    (0 < factor \<and> nxt = tgt * 10 ^ 18 \<longrightarrow>
      ain * factor * 10 ^ 18 < (charge * 10 ^ 18 + 1) * (10 ^ 18 - factor) \<and> (charge - 1) * (10 ^ 18 - factor) < ain * factor + 10 ^ 18)"
proof -
  let ?s = "\<lparr>sqrtPriceLimit = limit, spreadFactor = factor\<rparr>"
  have f: "0 \<le> factor" "factor < 10 ^ 18" using assms(2,3) by (simp_all add: valid_step_def sdk_OneDec_def)
  have "0 \<le> ain \<and> computeSpreadRewardChargePerSwapStepOutGivenIn S (tgt * 10 ^ 18 = nxt) ain amt factor = Ok charge"
  proof (cases zeroForOne)
    case True
    then have r: "zeroForOne_ComputeSwapWithinBucketOutGivenIn S ?s cur tgt liq amt = Ok (nxt, ain, aout, charge)"
      and v: "valid_step True (spreadFactor ?s) cur tgt liq amt" using assms(2,4) by (simp_all add: New_def)
    show ?thesis using sdk_dec_laws.zfo_out_fair[OF assms(1) r v] zfo_out_parts[OF r] by fastforce
  next
    case False
    then have r: "oneForZero_ComputeSwapWithinBucketOutGivenIn S ?s cur tgt liq amt = Ok (nxt, ain, aout, charge)"
      and v: "valid_step False (spreadFactor ?s) cur tgt liq amt" using assms(2,4) by (simp_all add: New_def)
    show ?thesis using sdk_dec_laws.ofz_out_fair[OF assms(1) r v] ofz_out_parts[OF r] by fastforce
  qed
  then show ?thesis using sdk_dec_laws.charge_of_step[OF assms(1) _ _ f] by fastforce
qed

theorem swap_step_consumes_amount_in_witness:
  "ComputeSwapWithinBucketOutGivenIn plain_dec (New True 0 (25 * 10 ^ 16)) (2 * 10 ^ 36) (10 ^ 18) (10 ^ 18) (10 ^ 18) =
     Ok (8 * 10 ^ 35, 10 ^ 18, 12 * 10 ^ 17, 0) \<and> 10 ^ 18 + 0 = (10 ^ 18 :: int)"
  using swap_step_consumes_amount_in[OF plain_dec.sdk_dec_laws_axioms _ _ sample_step] sample_step
  by (simp add: valid_step_def sdk_OneDec_def)

text \<open>
  C14 A step with a given amount out never pays out more than that amount, and moves the square root price in the direction
  of the swap: to the left it stays at or above the target, to the right it does not fall. When token one goes out and the
  target is not reached, the amount is paid out in full but for the smallest decimal, for every liquidity up to \<open>10 ^ 52\<close>.
\<close>

theorem swap_step_amount_out:
  assumes "sdk_dec_laws S" "valid_step zeroForOne factor cur tgt liq amt"
    and "ComputeSwapWithinBucketInGivenOut S (New zeroForOne limit factor) cur tgt liq amt = Ok (nxt, aout, ain, charge)"
  shows "0 \<le> aout \<and> aout \<le> amt \<and> (if zeroForOne then tgt * 10 ^ 18 \<le> nxt \<and> nxt \<le> cur else cur \<le> nxt) \<and>
    (zeroForOne \<and> nxt \<noteq> tgt * 10 ^ 18 \<and> liq \<le> 10 ^ 70 \<longrightarrow> amt - 1 \<le> aout)"
proof -
  let ?s = "\<lparr>sqrtPriceLimit = limit, spreadFactor = factor\<rparr>"
  show ?thesis
  proof (cases zeroForOne)
    case True
    then have r: "zeroForOne_ComputeSwapWithinBucketInGivenOut S ?s cur tgt liq amt = Ok (nxt, aout, ain, charge)"
      and v: "valid_step True (spreadFactor ?s) cur tgt liq amt" using assms(2,3) by (simp_all add: New_def)
    show ?thesis
      using True sdk_dec_laws.zfo_in_fair[OF assms(1) r v] sdk_dec_laws.zfo_in_direction[OF assms(1) r v]
        sdk_dec_laws.zfo_in_consumes[OF assms(1) r v] by simp
  next
    case False
    then have r: "oneForZero_ComputeSwapWithinBucketInGivenOut S ?s cur tgt liq amt = Ok (nxt, aout, ain, charge)"
      and v: "valid_step False (spreadFactor ?s) cur tgt liq amt" using assms(2,3) by (simp_all add: New_def)
    show ?thesis
      using False sdk_dec_laws.ofz_in_fair[OF assms(1) r v] sdk_dec_laws.ofz_in_direction[OF assms(1) r v] by simp
  qed
qed

lemma sample_step_out:
  "ComputeSwapWithinBucketInGivenOut plain_dec (New True 0 0) (2 * 10 ^ 36) (10 ^ 18) (10 ^ 18) (4 * 10 ^ 17) =
     Ok (16 * 10 ^ 35, 4 * 10 ^ 17, 10 ^ 18, 0)"
proof -
  note bits = in_bits_def maxDecBitLen_eq precisionReuse_eq
  have sub: "BigDec_Sub (2 * 10 ^ 36) (10 ^ 36) = Ok (10 ^ 36)" "BigDec_Sub (2 * 10 ^ 36) (4 * 10 ^ 35) = Ok (16 * 10 ^ 35)"
    "BigDec_Sub (2 * 10 ^ 36) (16 * 10 ^ 35) = Ok (4 * 10 ^ 35)"
    by (simp_all add: big_dec.sub_Ok_iff bits)
  have trunc: "BigDec_MulTruncate (10 ^ 36) (10 ^ 36) = Ok (10 ^ 36)" "BigDec_MulTruncate (10 ^ 36) (4 * 10 ^ 35) = Ok (4 * 10 ^ 35)"
    "BigDec_MulTruncate (16 * 10 ^ 35) (2 * 10 ^ 36) = Ok (32 * 10 ^ 35)"
    by (rule mulTruncate.mul_at; simp add: bits)+
  have mul: "BigDec_Mul (10 ^ 36) (4 * 10 ^ 35) = Ok (4 * 10 ^ 35)" by (rule mul.mul_at; simp add: bits)
  have quo: "BigDec_Quo (4 * 10 ^ 35) (32 * 10 ^ 35) = Ok (125 * 10 ^ 33)" by (rule quot.quot_at; simp add: bits)
  have up: "BigDec_QuoRoundUp (4 * 10 ^ 35) (10 ^ 36) = Ok (4 * 10 ^ 35)" by (rule quoRoundUp.quot_at; simp add: bits)
  have ceil: "BigDec_Ceil (125 * 10 ^ 33) = Ok (1 * 10 ^ 36)" by (rule Ceil_at; simp)
  have est: "CalcAmount1Delta (10 ^ 36) (10 ^ 36) (2 * 10 ^ 36) False = Ok (10 ^ 36)"
    unfolding CalcAmount1Delta_def ordered_eq using sub(1) trunc(1) by simp
  have amt1: "CalcAmount1Delta (10 ^ 36) (16 * 10 ^ 35) (2 * 10 ^ 36) False = Ok (4 * 10 ^ 35)"
    unfolding CalcAmount1Delta_def ordered_eq using sub(3) trunc(2) by simp
  have amt0: "CalcAmount0Delta (10 ^ 36) (16 * 10 ^ 35) (2 * 10 ^ 36) True = Ok (10 ^ 36)"
    unfolding CalcAmount0Delta_def ordered_eq using sub(3) mul trunc(3) quo ceil by (simp add: QuoMut_eq)
  have nxt: "GetNextSqrtPriceFromAmount1OutRoundingDown (2 * 10 ^ 36) (10 ^ 36) (4 * 10 ^ 35) = Ok (16 * 10 ^ 35)"
    unfolding GetNextSqrtPriceFromAmount1OutRoundingDown_def using sub(2) up by simp
  have r: "to_SDKDecRoundUp plain_dec (10 ^ 36) = Ok (10 ^ 18)" by (simp add: plain_dec.to_SDKDecRoundUp_Ok)
  have d: "to_SDKDec plain_dec (4 * 10 ^ 35) = Ok (4 * 10 ^ 17)" by (simp add: quo_def)
  have charge: "computeSpreadRewardChargeFromAmountIn plain_dec (10 ^ 18) 0 = Ok 0"
    by (simp add: computeSpreadRewardChargeFromAmountIn_def plain_dec_def sdk_OneDec_def dec_div_def in_bits_def checked_in_bits)
  show ?thesis
    using est nxt amt0 amt1 r d charge
    by (simp add: New_def zeroForOne_ComputeSwapWithinBucketInGivenOut_def BigDec_comparisons)
qed

theorem swap_step_amount_out_witness:
  "ComputeSwapWithinBucketInGivenOut plain_dec (New True 0 0) (2 * 10 ^ 36) (10 ^ 18) (10 ^ 18) (4 * 10 ^ 17) =
     Ok (16 * 10 ^ 35, 4 * 10 ^ 17, 10 ^ 18, 0) \<and> 4 * 10 ^ 17 - 1 \<le> (4 * 10 ^ 17 :: int) \<and> (10 ^ 18 * 10 ^ 18 :: int) \<le> 16 * 10 ^ 35"
  using swap_step_amount_out[OF plain_dec.sdk_dec_laws_axioms _ sample_step_out] sample_step_out
  by (simp add: valid_step_def sdk_OneDec_def)

text \<open>
  The next square root price of a step with a given amount in can lie beyond the target: the amount that is needed to reach
  the target is rounded up to a whole token, so an amount between the exact and the rounded one passes it. The step
  evaluated above goes to 0.8 with the target at one.
\<close>

theorem swap_step_passes_target:
  "ComputeSwapWithinBucketOutGivenIn plain_dec (New True 0 (25 * 10 ^ 16)) (2 * 10 ^ 36) (10 ^ 18) (10 ^ 18) (10 ^ 18) =
     Ok (8 * 10 ^ 35, 10 ^ 18, 12 * 10 ^ 17, 0) \<and> 8 * 10 ^ 35 < (10 ^ 18 * 10 ^ 18 :: int)"
  using sample_step by simp

text \<open>
  An amount of token one that is rounded up can be below the exact one: the product is rounded to the nearest decimal, where
  the comment of the code names the multiplication that rounds up, and only then to the next whole token.
\<close>

theorem amount1_rounded_up_below_exact:
  "CalcAmount1Delta (10 ^ 18) 0 (10 ^ 54 + 10 ^ 17) True = Ok (10 ^ 36) \<and> 10 ^ 36 * 10 ^ 36 < 10 ^ 18 * (10 ^ 54 + 10 ^ 17 :: int)"
proof
  have "BigDec_Mul (10 ^ 18) (10 ^ 54 + 10 ^ 17) = Ok (10 ^ 36)"
  proof -
    have "10 ^ 18 * (10 ^ 54 + 10 ^ 17) = 10 ^ 36 * precisionReuse + (10 ^ 35 :: int)" by (simp add: precisionReuse_eq)
    moreover have "(10 ^ 36 * precisionReuse + 10 ^ 35) div precisionReuse = 10 ^ 36" "(10 ^ 36 * precisionReuse + 10 ^ 35) mod precisionReuse = 10 ^ 35"
      by (rule int_div_pos_eq[where r = "10 ^ 35"] int_mod_pos_eq[where q = "10 ^ 36"]; simp add: precisionReuse_eq)+
    ultimately have "chopPrecisionAndRound (10 ^ 18 * (10 ^ 54 + 10 ^ 17)) = 10 ^ 36"
      by (simp only: chopPrecisionAndRound_nonneg Let_def) (simp add: chopPrecisionAndRound_nonneg Let_def precisionReuse_eq)
    then show ?thesis by (simp only: mul.mul_Ok_iff) (simp add: in_bits_def maxDecBitLen_eq)
  qed
  moreover have "BigDec_Sub (10 ^ 54 + 10 ^ 17) 0 = Ok (10 ^ 54 + 10 ^ 17)" by (simp add: big_dec.sub_Ok_iff in_bits_def maxDecBitLen_eq)
  moreover have "BigDec_Ceil (10 ^ 36) = Ok (1 * 10 ^ 36)" by (rule Ceil_at) simp_all
  ultimately show "CalcAmount1Delta (10 ^ 18) 0 (10 ^ 54 + 10 ^ 17) True = Ok (10 ^ 36)"
    unfolding CalcAmount1Delta_def ordered_eq by simp
qed simp

end
