(* ===== verification/CL_Pool.thy ===== *)
theory CL_Pool
  imports CL_Swap_Spec Byte_Keys
begin

text \<open>
  The pool of concentrated liquidity: \<^verbatim>\<open>x/concentrated-liquidity/model/pool.go\<close>, the checks on tick ranges of \<^verbatim>\<open>tick.go\<close> and
  the setup of a swap of \<^verbatim>\<open>swaps.go\<close>. Times are nanoseconds; what derives, writes and reads addresses belongs to the SDK
  and is an argument.
\<close>

section \<open>The pool\<close>

record Pool =
  Address :: string
  IncentivesAddress :: string
  SpreadRewardsAddress :: string
  Id :: uint64
  CurrentTickLiquidity :: Dec
  Token0 :: string
  Token1 :: string
  CurrentSqrtPrice :: BigDec
  CurrentTick :: int
  TickSpacing :: uint64
  Pool_ExponentAtPriceOne :: int
  SpreadFactor :: Dec
  LastLiquidityUpdate :: int

text \<open>
  Addresses of modules (\<^verbatim>\<open>osmoutils/address.go\<close>, \<^verbatim>\<open>x/poolmanager/types/pool.go\<close>): the SDK derives an address from the name
  of a module and a key, and writes it as text.
\<close>

record 'a address_book =
  address_Module :: "string \<Rightarrow> string \<Rightarrow> 'a"
  AccAddress_String :: "'a \<Rightarrow> string"
  AccAddressFromBech32 :: "string \<Rightarrow> 'a outcome"

definition NewModuleAddressWithPrefix :: "'a address_book \<Rightarrow> string \<Rightarrow> string \<Rightarrow> string \<Rightarrow> 'a" where
  "NewModuleAddressWithPrefix A moduleName keyPrefix identifier = address_Module A moduleName (keyPrefix @ identifier)"

definition NewPoolAddress :: "'a address_book \<Rightarrow> uint64 \<Rightarrow> 'a" where
  "NewPoolAddress A poolId = NewModuleAddressWithPrefix A ''poolmanager'' ''pool'' (Uint64ToBigEndian poolId)"

definition MatchingDenomError :: string where "MatchingDenomError = ''received matching denoms''"
definition InvalidSpreadFactorError :: string where "InvalidSpreadFactorError = ''invalid spread factor''"
definition ErrZeroLiquidity :: string where "ErrZeroLiquidity = ''liquidity cannot be 0''"
definition NegativeLiquidityError :: string where "NegativeLiquidityError = ''liquidity cannot be negative''"
definition SqrtPriceNegativeError :: string where "SqrtPriceNegativeError = ''sqrt price cannot be negative''"

definition NewConcentratedLiquidityPool :: "'a address_book \<Rightarrow> int \<Rightarrow> uint64 \<Rightarrow> string \<Rightarrow> string \<Rightarrow> uint64 \<Rightarrow> Dec \<Rightarrow> Pool outcome" where
  "NewConcentratedLiquidityPool A zeroTime poolId denom0 denom1 tickSpacing factor =
     (if denom0 = denom1 then Err MatchingDenomError
      else if factor < 0 \<or> factor \<ge> sdk_OneDec then Err InvalidSpreadFactorError
      else Ok \<lparr>Address = AccAddress_String A (NewPoolAddress A poolId),
                IncentivesAddress = AccAddress_String A
                  (NewModuleAddressWithPrefix A ''concentratedliquidity'' ''incentives'' (Uint64ToBigEndian poolId)),
                SpreadRewardsAddress = AccAddress_String A
                  (NewModuleAddressWithPrefix A ''concentratedliquidity'' ''spreadRewards'' (Uint64ToBigEndian poolId)),
                Id = poolId, CurrentTickLiquidity = 0, Token0 = denom0, Token1 = denom1, CurrentSqrtPrice = ZeroDec,
                CurrentTick = 0, TickSpacing = tickSpacing, Pool_ExponentAtPriceOne = ExponentAtPriceOne,
                SpreadFactor = factor, LastLiquidityUpdate = zeroTime\<rparr>)"

definition GetAddress :: "'a address_book \<Rightarrow> Pool \<Rightarrow> 'a outcome" where
  "GetAddress A p = panic_on_err (AccAddressFromBech32 A (Address p))"

definition GetIncentivesAddress :: "'a address_book \<Rightarrow> Pool \<Rightarrow> 'a outcome" where
  "GetIncentivesAddress A p = panic_on_err (AccAddressFromBech32 A (IncentivesAddress p))"

definition GetSpreadRewardsAddress :: "'a address_book \<Rightarrow> Pool \<Rightarrow> 'a outcome" where
  "GetSpreadRewardsAddress A p = panic_on_err (AccAddressFromBech32 A (SpreadRewardsAddress p))"

definition SpotPrice :: "sdk_dec \<Rightarrow> Pool \<Rightarrow> string \<Rightarrow> string \<Rightarrow> Dec outcome" where
  "SpotPrice S p quoteAssetDenom baseAssetDenom =
     (if baseAssetDenom \<noteq> Token0 p \<and> baseAssetDenom \<noteq> Token1 p then Err ''base asset denom is not in pool''
      else if quoteAssetDenom \<noteq> Token0 p \<and> quoteAssetDenom \<noteq> Token1 p then Err ''quote asset denom is not in pool''
      else if baseAssetDenom = Token0 p then obind (BigDec_PowerInteger (CurrentSqrtPrice p) 2) (to_SDKDec S)
      else obind (obind (BigDec_PowerInteger (CurrentSqrtPrice p) 2) (BigDec_Quo OneDec)) (to_SDKDec S))"

definition UpdateLiquidity :: "sdk_dec \<Rightarrow> Dec \<Rightarrow> Pool \<Rightarrow> Pool outcome" where
  "UpdateLiquidity S newLiquidity p =
     obind (D_Add S (CurrentTickLiquidity p) newLiquidity) (\<lambda>l. Ok (p\<lparr>CurrentTickLiquidity := l\<rparr>))"

definition SetCurrentSqrtPrice :: "BigDec \<Rightarrow> Pool \<Rightarrow> Pool" where
  "SetCurrentSqrtPrice newSqrtPrice p = p\<lparr>CurrentSqrtPrice := newSqrtPrice\<rparr>"

definition SetCurrentTick :: "int \<Rightarrow> Pool \<Rightarrow> Pool" where
  "SetCurrentTick newTick p = p\<lparr>CurrentTick := newTick\<rparr>"

definition SetTickSpacing :: "uint64 \<Rightarrow> Pool \<Rightarrow> Pool" where
  "SetTickSpacing tickSpacing p = p\<lparr>TickSpacing := tickSpacing\<rparr>"

definition SetLastLiquidityUpdate :: "int \<Rightarrow> Pool \<Rightarrow> Pool" where
  "SetLastLiquidityUpdate newTime p = p\<lparr>LastLiquidityUpdate := newTime\<rparr>"

definition IsCurrentTickInRange :: "Pool \<Rightarrow> int \<Rightarrow> int \<Rightarrow> bool" where
  "IsCurrentTickInRange p lowerTick upperTick \<longleftrightarrow> CurrentTick p \<ge> lowerTick \<and> CurrentTick p < upperTick"

definition UpdateLiquidityIfActivePosition :: "sdk_dec \<Rightarrow> int \<Rightarrow> int \<Rightarrow> Dec \<Rightarrow> Pool \<Rightarrow> (Pool \<times> bool) outcome" where
  "UpdateLiquidityIfActivePosition S lowerTick upperTick liquidityDelta p =
     (if IsCurrentTickInRange p lowerTick upperTick
      then obind (D_Add S (CurrentTickLiquidity p) liquidityDelta) (\<lambda>l. Ok (p\<lparr>CurrentTickLiquidity := l\<rparr>, True))
      else Ok (p, False))"

definition CalcActualAmounts :: "sdk_dec \<Rightarrow> Pool \<Rightarrow> int \<Rightarrow> int \<Rightarrow> Dec \<Rightarrow> (Dec \<times> Dec) outcome" where
  "CalcActualAmounts S p lowerTick upperTick liquidityDelta =
     (if liquidityDelta = 0 then Err ErrZeroLiquidity
      else obind (TicksToSqrtPrice S lowerTick upperTick) (\<lambda>(_, _, sqrtPriceLowerTick, sqrtPriceUpperTick).
        let roundUp = liquidityDelta > 0
        in obind (to_BigDec liquidityDelta) (\<lambda>liquidityDeltaBigDec.
           obind (to_BigDec sqrtPriceLowerTick) (\<lambda>lower.
           obind (to_BigDec sqrtPriceUpperTick) (\<lambda>upper.
           obind (if IsCurrentTickInRange p lowerTick upperTick
                  then obind (CalcAmount0Delta liquidityDeltaBigDec (CurrentSqrtPrice p) upper roundUp) (\<lambda>a0.
                       obind (CalcAmount1Delta liquidityDeltaBigDec (CurrentSqrtPrice p) lower roundUp) (\<lambda>a1. Ok (a0, a1)))
                  else if CurrentTick p < lowerTick
                  then obind (CalcAmount0Delta liquidityDeltaBigDec lower upper roundUp) (\<lambda>a0. Ok (a0, ZeroDec))
                  else obind (CalcAmount1Delta liquidityDeltaBigDec lower upper roundUp) (\<lambda>a1. Ok (ZeroDec, a1)))
             (\<lambda>(actualAmountDenom0, actualAmountDenom1).
             if roundUp
             then obind (to_SDKDecRoundUp S actualAmountDenom0) (\<lambda>r0.
                  obind (to_SDKDecRoundUp S actualAmountDenom1) (\<lambda>r1. Ok (r0, r1)))
             else obind (to_SDKDec S actualAmountDenom0) (\<lambda>r0.
                  obind (to_SDKDec S actualAmountDenom1) (\<lambda>r1. Ok (r0, r1)))))))))"

definition ApplySwap :: "Dec \<Rightarrow> int \<Rightarrow> BigDec \<Rightarrow> Pool \<Rightarrow> Pool outcome" where
  "ApplySwap newLiquidity newCurrentTick newCurrentSqrtPrice p =
     (if newLiquidity < 0 then Err NegativeLiquidityError
      else if BigDec_IsNegative newCurrentSqrtPrice then Err SqrtPriceNegativeError
      else if newCurrentTick < MinCurrentTick \<or> newCurrentTick > MaxTick then Err TickIndexNotWithinBoundariesError
      else Ok (p\<lparr>CurrentTickLiquidity := newLiquidity, CurrentTick := newCurrentTick, CurrentSqrtPrice := newCurrentSqrtPrice\<rparr>))"

section \<open>Tick ranges (\<^verbatim>\<open>tick.go\<close>)\<close>

definition TickSpacingError :: string where "TickSpacingError = ''tick index must be divisible by tick spacing''"
definition InvalidTickError :: string where "InvalidTickError = ''tick must be within the range of min and max tick''"

definition validateTickRangeIsValid :: "uint64 \<Rightarrow> int \<Rightarrow> int \<Rightarrow> unit outcome" where
  "validateTickRangeIsValid tickSpacing lowerTick upperTick =
     (if sint tickSpacing = 0 then Panic ''integer divide by zero''
      else if rem lowerTick (sint tickSpacing) \<noteq> 0 \<or> rem upperTick (sint tickSpacing) \<noteq> 0 then Err TickSpacingError
      else if lowerTick < MinInitializedTick \<or> lowerTick \<ge> MaxTick then Err InvalidTickError
      else if upperTick > MaxTick \<or> upperTick \<le> MinInitializedTick then Err InvalidTickError
      else if lowerTick \<ge> upperTick then Err InvalidLowerUpperTickError
      else Ok ())"

definition roundTickToCanonicalPriceTick :: "sdk_dec \<Rightarrow> int \<Rightarrow> int \<Rightarrow> Dec \<Rightarrow> Dec \<Rightarrow> uint64 \<Rightarrow> (int \<times> int) outcome" where
  "roundTickToCanonicalPriceTick S lowerTick upperTick sqrtPriceTickLower sqrtPriceTickUpper tickSpacing =
     obind (SqrtPriceToTickRoundDownSpacing S sqrtPriceTickLower tickSpacing) (\<lambda>newLowerTick.
     obind (SqrtPriceToTickRoundDownSpacing S sqrtPriceTickUpper tickSpacing) (\<lambda>newUpperTick.
     obind (if lowerTick \<noteq> newLowerTick \<or> upperTick \<noteq> newUpperTick
            then validateTickRangeIsValid tickSpacing newLowerTick newUpperTick else Ok ()) (\<lambda>_.
       Ok (newLowerTick, newUpperTick))))"

section \<open>The setup of a swap (\<^verbatim>\<open>swaps.go\<close>)\<close>

definition TokenOutDenomNotInPoolError :: string where "TokenOutDenomNotInPoolError = ''tokenOutDenom does not match any asset in the pool''"
definition TokenInDenomNotInPoolError :: string where "TokenInDenomNotInPoolError = ''tokenInDenom does not match any asset in the pool''"
definition DenomDuplicatedError :: string where "DenomDuplicatedError = ''tokenIn and tokenOut must be different denoms''"
definition SqrtRootCalculationError :: string where "SqrtRootCalculationError = ''issue calculating square root of price limit''"
definition SwapNoProgressWithConsumptionError :: string where
  "SwapNoProgressWithConsumptionError = ''did not advance sqrt price after swap step, with amounts consumed''"

definition getZeroForOne :: "string \<Rightarrow> string \<Rightarrow> bool" where
  "getZeroForOne inDenom asset0 \<longleftrightarrow> inDenom = asset0"

definition checkDenomValidity :: "string \<Rightarrow> string \<Rightarrow> string \<Rightarrow> string \<Rightarrow> unit outcome" where
  "checkDenomValidity inDenom outDenom asset0 asset1 =
     (if outDenom \<noteq> asset0 \<and> outDenom \<noteq> asset1 then Err TokenOutDenomNotInPoolError
      else if inDenom \<noteq> asset0 \<and> inDenom \<noteq> asset1 then Err TokenInDenomNotInPoolError
      else if outDenom = inDenom then Err DenomDuplicatedError
      else Ok ())"

text \<open>A call whose error is replaced by another.\<close>

primrec replace_err :: "string \<Rightarrow> 'a outcome \<Rightarrow> 'a outcome" where
  "replace_err e' (Ok a) = Ok a"
| "replace_err e' (Err e) = Err e'"
| "replace_err e' (Panic p) = Panic p"

definition setupSwapStrategy :: "sdk_dec \<Rightarrow> Pool \<Rightarrow> Dec \<Rightarrow> string \<Rightarrow> Dec \<Rightarrow> (SwapStrategy \<times> Dec) outcome" where
  "setupSwapStrategy S p factor tokenInDenom priceLimit =
     (let zeroForOne = getZeroForOne tokenInDenom (Token0 p)
      in obind (replace_err SqrtRootCalculationError (GetSqrtPriceLimit S priceLimit zeroForOne)) (\<lambda>limit.
         let swapStrategy = New zeroForOne limit factor
         in obind (ValidateSqrtPrice S swapStrategy limit (CurrentSqrtPrice p)) (\<lambda>_. Ok (swapStrategy, limit))))"

definition validateSwapProgressAndAmountConsumption :: "BigDec \<Rightarrow> BigDec \<Rightarrow> Dec \<Rightarrow> Dec \<Rightarrow> unit outcome" where
  "validateSwapProgressAndAmountConsumption computedSqrtPrice sqrtPriceStart amountIn amountOut =
     (if BigDec_Equal computedSqrtPrice sqrtPriceStart \<and> \<not> (amountIn = 0 \<and> amountOut = 0)
      then Err SwapNoProgressWithConsumptionError else Ok ())"

definition edgeCaseInequalityBasedOnSwapStrategy :: "bool \<Rightarrow> BigDec \<Rightarrow> BigDec \<Rightarrow> bool" where
  "edgeCaseInequalityBasedOnSwapStrategy isZeroForOne nextInitializedTickSqrtPrice computedSqrtPrice =
     (if isZeroForOne then BigDec_GT nextInitializedTickSqrtPrice computedSqrtPrice
      else BigDec_LT nextInitializedTickSqrtPrice computedSqrtPrice)"

section \<open>Properties\<close>

lemma TickToPrice_pos: "TickToPrice S t = Ok p \<Longrightarrow> 0 < p"
  by (auto simp: TickToPrice_def go_simps Let_def sdk_OneDec_def MinSpotPrice_def split: if_split_asm)

context sdk_dec_laws
begin

lemma TickToSqrtPrice_pos: "TickToSqrtPrice S t = Ok (p, s) \<Longrightarrow> 0 < s"
  using TickToPrice_pos[of S t p] MonotonicSqrt_eq[of p] sqrt_up_bounds(2)[of "p * 10 ^ 18"]
  by (auto simp: TickToSqrtPrice_def go_simps)

lemma TicksToSqrtPrice_pos: "TicksToSqrtPrice S l u = Ok (pl, pu, sl, su) \<Longrightarrow> 0 < sl \<and> 0 < su"
  by (auto simp: TicksToSqrtPrice_def go_simps TickToSqrtPrice_pos split: if_split_asm)

text \<open>An amount of one token that is added with rounding up and the one that is taken out with truncation.\<close>

lemma settle_amount:
  assumes "0 \<le> d" "d \<le> u" "to_SDKDecRoundUp S u = Ok a" "to_SDKDec S (- d) = Ok r"
  shows "0 \<le> - r \<and> - r \<le> a"
proof -
  have "r = - (d div 10 ^ 18)" using assms(1,4) quo_minus_left[of d "10 ^ 18"] by (simp add: quo_nonneg_eq)
  moreover have "a = - ((- u) div 10 ^ 18)" using assms(1-3) to_SDKDecRoundUp_Ok[of u] by simp
  moreover have "d div 10 ^ 18 \<le> u div 10 ^ 18" using assms(2) by (rule zdiv_mono1) simp
  moreover have "u div 10 ^ 18 \<le> - ((- u) div 10 ^ 18)" "0 \<le> d div 10 ^ 18"
    using floor_div_bounds(1)[of "10 ^ 18" u] ceil_div_bounds(2)[of "10 ^ 18" u] assms(1) by (simp_all add: pos_imp_zdiv_nonneg_iff)
  ultimately show ?thesis by simp
qed

end

text \<open>The amounts before they are rounded to eighteen places.\<close>

definition raw_amounts :: "Pool \<Rightarrow> int \<Rightarrow> int \<Rightarrow> BigDec \<Rightarrow> BigDec \<Rightarrow> BigDec \<Rightarrow> bool \<Rightarrow> (BigDec \<times> BigDec) outcome" where
  "raw_amounts p lowerTick upperTick liq lower upper roundUp =
     (if IsCurrentTickInRange p lowerTick upperTick
      then obind (CalcAmount0Delta liq (CurrentSqrtPrice p) upper roundUp) (\<lambda>a0.
           obind (CalcAmount1Delta liq (CurrentSqrtPrice p) lower roundUp) (\<lambda>a1. Ok (a0, a1)))
      else if CurrentTick p < lowerTick
      then obind (CalcAmount0Delta liq lower upper roundUp) (\<lambda>a0. Ok (a0, ZeroDec))
      else obind (CalcAmount1Delta liq lower upper roundUp) (\<lambda>a1. Ok (ZeroDec, a1)))"

lemma CalcActualAmounts_parts:
  assumes "CalcActualAmounts S p lowerTick upperTick liq = Ok (a0, a1)"
  obtains pl pu sl su x0 x1 where "TicksToSqrtPrice S lowerTick upperTick = Ok (pl, pu, sl, su)"
    "raw_amounts p lowerTick upperTick (liq * 10 ^ 18) (sl * 10 ^ 18) (su * 10 ^ 18) (0 < liq) = Ok (x0, x1)"
    "if 0 < liq then to_SDKDecRoundUp S x0 = Ok a0 \<and> to_SDKDecRoundUp S x1 = Ok a1 else to_SDKDec S x0 = Ok a0 \<and> to_SDKDec S x1 = Ok a1"
  using assms unfolding CalcActualAmounts_def Let_def to_BigDec_eq obind.simps raw_amounts_def[symmetric]
  by (auto simp: go_simps split: if_split_asm prod.splits)

text \<open>Raw amounts of liquidity that is added, and of the same liquidity removed.\<close>

lemma raw_amounts_order:
  assumes "0 < liq" "0 < CurrentSqrtPrice p" "0 < lower" "0 < upper"
    and "raw_amounts p lowerTick upperTick liq lower upper True = Ok (u0, u1)"
    and "raw_amounts p lowerTick upperTick (- liq) lower upper False = Ok (d0, d1)"
  shows "0 \<le> - d0 \<and> - d0 \<le> u0 \<and> 0 \<le> - d1 \<and> - d1 \<le> u1"
proof -
  have l: "0 \<le> liq" using assms(1) by simp
  have 0: "0 \<le> - d \<and> - d \<le> u" if "0 < a" "0 < b" "CalcAmount0Delta liq a b True = Ok u" "CalcAmount0Delta (- liq) a b False = Ok d" for a b u d
    using amount0_order(1,3)[OF l that(1,2) amount_down_minus(1)[OF that(4)]] that(3) by simp
  have 1: "0 \<le> - d \<and> - d \<le> u" if "CalcAmount1Delta liq a b True = Ok u" "CalcAmount1Delta (- liq) a b False = Ok d" for a b u d
    using amount1_order(1,3)[OF l amount_down_minus(2)[OF that(2)]] that(1) by simp
  show ?thesis
    using assms(5,6) 0[OF assms(2,4)] 0[OF assms(3,4)] 1
    unfolding raw_amounts_def by (auto simp: go_simps ZeroDec_def split: if_split_asm)
qed

text \<open>
  C12 Adding liquidity to a position and taking the same liquidity out again at an unchanged pool never gains: whatever the
  place of the current tick relative to the position, what comes out of either token is not negative and not more than
  what went in.
\<close>

theorem add_remove_liquidity_no_profit:
  assumes "sdk_dec_laws S" "0 < liq" "0 < CurrentSqrtPrice p"
    and "CalcActualAmounts S p lowerTick upperTick liq = Ok (in0, in1)"
    and "CalcActualAmounts S p lowerTick upperTick (- liq) = Ok (out0, out1)"
  shows "0 \<le> - out0 \<and> - out0 \<le> in0 \<and> 0 \<le> - out1 \<and> - out1 \<le> in1"
proof -
  note settle = sdk_dec_laws.settle_amount[OF assms(1)]
  obtain pl pu sl su u0 u1 where up: "TicksToSqrtPrice S lowerTick upperTick = Ok (pl, pu, sl, su)"
    "raw_amounts p lowerTick upperTick (liq * 10 ^ 18) (sl * 10 ^ 18) (su * 10 ^ 18) True = Ok (u0, u1)"
    "to_SDKDecRoundUp S u0 = Ok in0" "to_SDKDecRoundUp S u1 = Ok in1"
    using assms(2) by (rule_tac CalcActualAmounts_parts[OF assms(4)]) auto
  obtain d0 d1 where down: "raw_amounts p lowerTick upperTick (- (liq * 10 ^ 18)) (sl * 10 ^ 18) (su * 10 ^ 18) False = Ok (d0, d1)"
    "to_SDKDec S d0 = Ok out0" "to_SDKDec S d1 = Ok out1"
    using assms(2) up(1) by (rule_tac CalcActualAmounts_parts[OF assms(5)]) auto
  have s: "0 < sl * 10 ^ 18" "0 < su * 10 ^ 18" "0 < liq * 10 ^ 18"
    using sdk_dec_laws.TicksToSqrtPrice_pos[OF assms(1) up(1)] assms(2) by simp_all
  have "0 \<le> - d0 \<and> - d0 \<le> u0 \<and> 0 \<le> - d1 \<and> - d1 \<le> u1" by (rule raw_amounts_order[OF s(3) assms(3) s(1,2) up(2) down(1)])
  then show ?thesis using settle[of "- d0" u0 in0 out0] settle[of "- d1" u1 in1 out1] up(3,4) down(2,3) by simp
qed

lemma sample_amounts:
  fixes p :: Pool
  assumes "CurrentTick p < 0"
  shows "CalcActualAmounts plain_dec p 0 18000000 (10 ^ 19) = Ok (9 * 10 ^ 18, 0)"
    "CalcActualAmounts plain_dec p 0 18000000 (- (10 ^ 19)) = Ok (- (9 * 10 ^ 18), 0)"
proof -
  note bits = in_bits_def maxDecBitLen_eq precisionReuse_eq
  have "tick_price 18000000 = 10 ^ 20" "tick_price 0 = 10 ^ 18" by (simp_all add: tick_price_def)
  then have "tick_sqrt 18000000 = 10 ^ 19" "tick_sqrt 0 = 10 ^ 18"
    using sqrt_up_square[of "10 ^ 19"] sqrt_up_square[of "10 ^ 18"] by (simp_all add: tick_sqrt_def)
  then have t: "TicksToSqrtPrice plain_dec 0 18000000 = Ok (tick_price 0, tick_price 18000000, 10 ^ 18, 10 ^ 19)"
    using plain_dec.TickToSqrtPrice_eq(1)[of 0] plain_dec.TickToSqrtPrice_eq(1)[of 18000000]
    by (simp add: TicksToSqrtPrice_def MinInitializedTick_def MaxTick_def)
  have sub: "BigDec_Sub (10 ^ 37) (10 ^ 36) = Ok (9 * 10 ^ 36)" by (simp add: big_dec.sub_Ok_iff bits)
  have mul: "BigDec_Mul (10 ^ 37) (9 * 10 ^ 36) = Ok (90 * 10 ^ 36)" by (rule mul.mul_at; simp add: bits)
  have trunc: "BigDec_MulTruncate (10 ^ 36) (10 ^ 37) = Ok (10 ^ 37)" "BigDec_MulTruncate (- (10 ^ 37)) (9 * 10 ^ 36) = Ok (- (90 * 10 ^ 36))"
    by (rule mulTruncate.mul_at; simp add: bits)+
  have up: "BigDec_MulRoundUp (10 ^ 36) (10 ^ 37) = Ok (10 ^ 37)" by (rule mulRoundUp.mul_at; simp add: bits)
  have quo: "BigDec_Quo (90 * 10 ^ 36) (10 ^ 37) = Ok (9 * 10 ^ 36)" by (rule quot.quot_at; simp add: bits)
  have quoT: "BigDec_QuoTruncate (- (90 * 10 ^ 36)) (10 ^ 37) = Ok (- (9 * 10 ^ 36))" by (rule quoTruncate.quot_at; simp add: bits)
  have ceil: "BigDec_Ceil (9 * 10 ^ 36) = Ok (9 * 10 ^ 36)" by (rule Ceil_at; simp)
  have add: "CalcAmount0Delta (10 ^ 37) (10 ^ 36) (10 ^ 37) True = Ok (9 * 10 ^ 36)"
    unfolding CalcAmount0Delta_def ordered_eq using sub mul trunc(1) quo ceil by (simp add: QuoMut_eq)
  have remove: "CalcAmount0Delta (- (10 ^ 37)) (10 ^ 36) (10 ^ 37) False = Ok (- (9 * 10 ^ 36))"
    unfolding CalcAmount0Delta_def ordered_eq using sub trunc(2) up quoT by simp
  have r: "to_SDKDecRoundUp plain_dec (9 * 10 ^ 36) = Ok (9 * 10 ^ 18)" "to_SDKDecRoundUp plain_dec 0 = Ok 0"
    "to_SDKDec plain_dec (- (9 * 10 ^ 36)) = Ok (- (9 * 10 ^ 18))" "to_SDKDec plain_dec 0 = Ok 0"
    by (simp_all add: plain_dec.to_SDKDecRoundUp_Ok quo_def)
  show "CalcActualAmounts plain_dec p 0 18000000 (10 ^ 19) = Ok (9 * 10 ^ 18, 0)"
    "CalcActualAmounts plain_dec p 0 18000000 (- (10 ^ 19)) = Ok (- (9 * 10 ^ 18), 0)"
    using t add remove r assms by (simp_all add: CalcActualAmounts_def IsCurrentTickInRange_def ZeroDec_def)
qed

definition sample_pool :: Pool where
  "sample_pool = \<lparr>Address = ''pool'', IncentivesAddress = ''incentives'', SpreadRewardsAddress = ''rewards'', Id = 1,
     CurrentTickLiquidity = 10 ^ 18, Token0 = ''uion'', Token1 = ''uosmo'', CurrentSqrtPrice = 5 * 10 ^ 35, CurrentTick = - 6750000,
     TickSpacing = 100, Pool_ExponentAtPriceOne = - 6, SpreadFactor = 0, LastLiquidityUpdate = 0\<rparr>"

theorem add_remove_liquidity_no_profit_witness:
  "CalcActualAmounts plain_dec sample_pool 0 18000000 (10 ^ 19) = Ok (9 * 10 ^ 18, 0) \<and>
   CalcActualAmounts plain_dec sample_pool 0 18000000 (- (10 ^ 19)) = Ok (- (9 * 10 ^ 18), 0) \<and> - (- (9 * 10 ^ 18)) \<le> (9 * 10 ^ 18 :: int)"
proof -
  have "CurrentTick sample_pool < 0" by (simp add: sample_pool_def)
  note s = sample_amounts[OF this]
  show ?thesis
    using s add_remove_liquidity_no_profit[OF plain_dec.sdk_dec_laws_axioms _ _ s] by (simp add: sample_pool_def)
qed

text \<open>
  C40 A range of ticks that passes the validation has a price at both ends, in order; turning its square root prices back
  into ticks and rounding them to the spacing changes nothing.
\<close>

theorem valid_tick_range_is_canonical:
  assumes "sdk_dec_laws S" "0 < sint tickSpacing" "validateTickRangeIsValid tickSpacing lowerTick upperTick = Ok ()"
  shows "\<exists>pl pu sl su. TicksToSqrtPrice S lowerTick upperTick = Ok (pl, pu, sl, su) \<and> pl < pu \<and> sl < su \<and>
    roundTickToCanonicalPriceTick S lowerTick upperTick sl su tickSpacing = Ok (lowerTick, upperTick)"
proof -
  have z: "rem t d = 0 \<Longrightarrow> 0 < d \<Longrightarrow> t mod d = 0" for t d :: int
    using rem_minus_left[of "- t" d] rem_nonneg_eq[of t d] rem_nonneg_eq[of "- t" d]
    by (cases "0 \<le> t") (auto simp: mod_eq_0_iff_dvd)
  have v: "lowerTick mod sint tickSpacing = 0" "upperTick mod sint tickSpacing = 0" "MinInitializedTick \<le> lowerTick"
    "lowerTick < upperTick" "upperTick \<le> MaxTick"
    using assms(2,3) z by (auto simp: validateTickRangeIsValid_def split: if_split_asm)
  have t: "- 108000000 \<le> lowerTick" "lowerTick \<le> 342000000" "- 108000000 \<le> upperTick" "upperTick \<le> 342000000"
    using v(3-5) by (simp_all add: MinInitializedTick_def MaxTick_def)
  note eqs = sdk_dec_laws.TickToSqrtPrice_eq(1)[OF assms(1)] sdk_dec_laws.spaced_roundtrip[OF assms(1)]
  have "TicksToSqrtPrice S lowerTick upperTick = Ok (tick_price lowerTick, tick_price upperTick, tick_sqrt lowerTick, tick_sqrt upperTick)"
    using eqs(1)[of lowerTick] eqs(1)[of upperTick] v(3-5) by (simp add: TicksToSqrtPrice_def)
  moreover have "\<not> tick_price upperTick \<le> tick_price lowerTick" using tick_price_le_iff[OF t(3,1)] v(4) by simp
  moreover have "tick_sqrt lowerTick < tick_sqrt upperTick" using t(1) v(4) by (rule tick_sqrt_less)
  moreover have "roundTickToCanonicalPriceTick S lowerTick upperTick (tick_sqrt lowerTick) (tick_sqrt upperTick) tickSpacing = Ok (lowerTick, upperTick)"
    using eqs(2)[OF t(1,2) assms(2)] eqs(2)[OF t(3,4) assms(2)] v(1,2) t by (simp add: roundTickToCanonicalPriceTick_def)
  ultimately show ?thesis by fastforce
qed

theorem valid_tick_range_is_canonical_witness:
  "validateTickRangeIsValid 100 (- 6750000) 18000000 = Ok () \<and>
   (\<exists>pl pu sl su. TicksToSqrtPrice plain_dec (- 6750000) 18000000 = Ok (pl, pu, sl, su) \<and> pl < pu \<and> sl < su \<and>
     roundTickToCanonicalPriceTick plain_dec (- 6750000) 18000000 sl su 100 = Ok (- 6750000, 18000000))"
proof -
  have v: "validateTickRangeIsValid 100 (- 6750000) 18000000 = Ok ()"
    by (simp add: validateTickRangeIsValid_def MinInitializedTick_def MaxTick_def rem_def quo_def sgn_if)
  then show ?thesis using valid_tick_range_is_canonical[OF plain_dec.sdk_dec_laws_axioms _ v] by simp
qed

definition sample_book :: "string address_book" where
  "sample_book = \<lparr>address_Module = (\<lambda>m k. m @ k), AccAddress_String = id, AccAddressFromBech32 = Ok\<rparr>"

end
