(* ===== verification/CL_Ticks.thy ===== *)
theory CL_Ticks
  imports CL_Pool Go_Text
begin

text \<open>
  Initialized ticks in the store and the walk over them: the keys of \<^verbatim>\<open>x/concentrated-liquidity/types/keys.go\<close>, the iterators
  of both swap strategies and \<^verbatim>\<open>ComputeMaxInAmtGivenMaxTicksCrossed\<close> of \<^verbatim>\<open>swaps.go\<close>. The store maps bytes to bytes; the codecs
  of protocol buffers are arguments.
\<close>

section \<open>Keys (\<^verbatim>\<open>types/keys.go\<close>)\<close>

definition TickPrefix :: bytes where "TickPrefix = [CHR 0x01]"
definition PoolPrefix :: bytes where "PoolPrefix = [CHR 0x03]"
definition TickNegativePrefix :: bytes where "TickNegativePrefix = [CHR 0x05]"
definition TickPositivePrefix :: bytes where "TickPositivePrefix = [CHR 0x06]"
definition PoolPositionPrefix :: bytes where "PoolPositionPrefix = [CHR 0x09]"

definition InvalidTickIndexEncodingError :: string where "InvalidTickIndexEncodingError = ''invalid encoded tick index''"

definition TickIndexToBytes :: "int \<Rightarrow> bytes" where
  "TickIndexToBytes tickIndex =
     (if tickIndex < 0 then TickNegativePrefix @ Uint64ToBigEndian (word_of_int tickIndex)
      else TickPositivePrefix @ Uint64ToBigEndian (word_of_int tickIndex))"

definition TickIndexFromBytes :: "bytes \<Rightarrow> int outcome" where
  "TickIndexFromBytes bz =
     (if length bz \<noteq> 9 then Err InvalidTickIndexEncodingError
      else obind (BigEndianToUint64 (tl bz)) (\<lambda>w.
        let i = sint w
        in if hd bz = hd TickNegativePrefix \<and> i \<ge> 0 then Err InvalidTickIndexEncodingError
           else if hd bz = hd TickPositivePrefix \<and> i < 0 then Err InvalidTickIndexEncodingError
           else Ok i))"

definition keyTickPrefixByPoolIdPrealloc :: "uint64 \<Rightarrow> bytes" where
  "keyTickPrefixByPoolIdPrealloc poolId = TickPrefix @ Uint64ToBigEndian poolId"

definition KeyTickPrefixByPoolId :: "uint64 \<Rightarrow> bytes" where
  "KeyTickPrefixByPoolId poolId = keyTickPrefixByPoolIdPrealloc poolId"

definition KeyTick :: "uint64 \<Rightarrow> int \<Rightarrow> bytes" where
  "KeyTick poolId tickIndex = keyTickPrefixByPoolIdPrealloc poolId @ TickIndexToBytes tickIndex"

definition KeyPoolPosition :: "uint64 \<Rightarrow> bytes" where
  "KeyPoolPosition poolId = PoolPositionPrefix @ Uint64ToBigEndian poolId"

definition KeyPool :: "uint64 \<Rightarrow> bytes" where
  "KeyPool poolId = PoolPrefix @ nat_text (unat poolId)"

section \<open>Iterators\<close>

text \<open>\<^verbatim>\<open>prefix.NewStore\<close>: the entries under a prefix, without it.\<close>

definition prefix_store :: "'v store \<Rightarrow> bytes \<Rightarrow> 'v store" where
  "prefix_store s pre = map (\<lambda>(k, v). (drop (length pre) k, v)) (store_prefix s pre)"

text \<open>The loop that both strategies end with: skip entries until a tick satisfies the condition.\<close>

fun skip_ticks :: "(int \<Rightarrow> bool) \<Rightarrow> 'v store \<Rightarrow> 'v store outcome" where
  "skip_ticks stop [] = Ok []"
| "skip_ticks stop ((k, v) # iter) =
     obind (panic_on_err (TickIndexFromBytes k)) (\<lambda>tick. if stop tick then Ok ((k, v) # iter) else skip_ticks stop iter)"

definition zeroForOne_InitializeNextTickIterator :: "'v store \<Rightarrow> uint64 \<Rightarrow> int \<Rightarrow> 'v store outcome" where
  "zeroForOne_InitializeNextTickIterator store poolId currentTickIndex =
     (let prefixStore = prefix_store store (KeyTickPrefixByPoolId poolId);
          startKey = TickIndexToBytes (wrap64 (currentTickIndex + 1))
      in skip_ticks (\<lambda>tick. tick \<le> currentTickIndex) (rev (store_range prefixStore [] (Some startKey))))"

definition oneForZero_InitializeNextTickIterator :: "'v store \<Rightarrow> uint64 \<Rightarrow> int \<Rightarrow> 'v store outcome" where
  "oneForZero_InitializeNextTickIterator store poolId currentTickIndex =
     (let prefixStore = prefix_store store (KeyTickPrefixByPoolId poolId);
          startKey = TickIndexToBytes currentTickIndex
      in skip_ticks (\<lambda>tick. tick > currentTickIndex) (store_range prefixStore startKey None))"

fun InitializeNextTickIterator :: "SwapStrategy \<Rightarrow> 'v store \<Rightarrow> uint64 \<Rightarrow> int \<Rightarrow> 'v store outcome" where
  "InitializeNextTickIterator (zeroForOneStrategy s) = zeroForOne_InitializeNextTickIterator"
| "InitializeNextTickIterator (oneForZeroStrategy s) = oneForZero_InitializeNextTickIterator"

section \<open>Keys keep the order of ticks\<close>

definition is_tick :: "int \<Rightarrow> bool" where "is_tick t \<longleftrightarrow> - (2 ^ 63) \<le> t \<and> t < 2 ^ 63"

lemma uint_tick: "is_tick t \<Longrightarrow> uint (word_of_int t :: 64 word) = (if t < 0 then t + 2 ^ 64 else t)"
proof (cases "t < 0")
  case True
  assume "is_tick t"
  then have "(t + 2 ^ 64) mod 2 ^ 64 = t + 2 ^ 64" using True by (intro mod_pos_pos_trivial) (simp_all add: is_tick_def)
  then show ?thesis using True by (simp add: uint_word_of_int)
qed (simp add: is_tick_def uint_word_of_int)

lemma tick_key_parts: "TickIndexToBytes t = (if t < 0 then CHR 0x05 else CHR 0x06) # Uint64ToBigEndian (word_of_int t)"
  by (simp add: TickIndexToBytes_def TickNegativePrefix_def TickPositivePrefix_def)

lemma tick_key_less:
  assumes "is_tick t" "is_tick u"
  shows "TickIndexToBytes t < TickIndexToBytes u \<longleftrightarrow> t < u"
proof -
  have "(word_of_int t :: 64 word) < word_of_int u \<longleftrightarrow> t < u" if "t < 0 \<longleftrightarrow> u < 0"
    using that uint_tick[OF assms(1)] uint_tick[OF assms(2)] by (simp add: word_less_def)
  moreover have "CHR 0x05 < (CHR 0x06 :: char)" "\<not> CHR 0x06 < (CHR 0x05 :: char)" by (simp_all add: less_char_def)
  ultimately show ?thesis
    unfolding tick_key_parts by (cases "t < 0"; cases "u < 0") (simp_all add: Uint64ToBigEndian_less)
qed

lemma tick_key_le: "is_tick t \<Longrightarrow> is_tick u \<Longrightarrow> TickIndexToBytes t \<le> TickIndexToBytes u \<longleftrightarrow> t \<le> u"
  using tick_key_less[of u t] by (simp add: linorder_not_less[symmetric])

lemma tick_key_roundtrip: "is_tick t \<Longrightarrow> TickIndexFromBytes (TickIndexToBytes t) = Ok t"
  using sint_of_int_64[of t]
  by (auto simp: TickIndexFromBytes_def tick_key_parts TickNegativePrefix_def TickPositivePrefix_def is_tick_def Let_def)

section \<open>Properties of the iterators\<close>

text \<open>The initialized ticks of a pool in the store, with their values, in the order of the store.\<close>

definition pool_ticks :: "'v store \<Rightarrow> uint64 \<Rightarrow> (int \<times> 'v) list \<Rightarrow> bool" where
  "pool_ticks s poolId ts \<longleftrightarrow> prefix_store s (KeyTickPrefixByPoolId poolId) = map (\<lambda>(t, v). (TickIndexToBytes t, v)) ts \<and>
     (\<forall>t \<in> fst ` set ts. is_tick t)"

lemma append_less: "pre @ r < pre @ r' \<longleftrightarrow> r < (r' :: string)"
  by (induction pre) auto

lemma prefix_append_eq_length: "length a = length b \<Longrightarrow> prefix a (b @ c) \<longleftrightarrow> a = b"
  by (auto simp: prefix_def append_eq_append_conv2)

lemma append_less_same_length:
  fixes a b r r' :: string
  shows "length a = length b \<Longrightarrow> a @ r < b @ r' \<longleftrightarrow> a < b \<or> a = b \<and> r < r'"
  by (induction a b rule: list_induct2) auto

lemma KeyTick_less:
  "is_tick t \<Longrightarrow> is_tick u \<Longrightarrow> KeyTick p t < KeyTick q u \<longleftrightarrow> p < q \<or> p = q \<and> t < u"
  by (simp add: KeyTick_def keyTickPrefixByPoolIdPrealloc_def append_less append_less_same_length tick_key_less Uint64ToBigEndian_less)

lemma KeyTick_prefix: "prefix (KeyTickPrefixByPoolId p) (KeyTick q t) \<longleftrightarrow> p = q"
  by (simp add: KeyTick_def KeyTickPrefixByPoolId_def keyTickPrefixByPoolIdPrealloc_def prefix_append_eq_length)

lemma KeyTick_drop: "drop (length (KeyTickPrefixByPoolId p)) (KeyTick q t) = TickIndexToBytes t"
  by (simp add: KeyTick_def KeyTickPrefixByPoolId_def keyTickPrefixByPoolIdPrealloc_def)

lemma prefix_store_sorted:
  assumes "store_ok s"
  shows "store_ok (prefix_store s pre)"
proof -
  have "store_ok (store_prefix s pre)" using assms by (simp add: store_prefix_def store_ok_filter)
  moreover have "drop (length pre) k < drop (length pre) k'" if "prefix pre k" "prefix pre k'" "k < k'" for k k' :: string
    using that by (auto simp: prefix_def append_less)
  moreover have "prefix pre (fst p)" if "p \<in> set (store_prefix s pre)" for p using that by (simp add: store_prefix_def)
  ultimately show ?thesis
    unfolding store_ok_def prefix_store_def by (auto simp: sorted_wrt_map case_prod_beta intro: sorted_wrt_mono_rel[rotated])
qed

lemma pool_ticks_sorted:
  assumes "store_ok s" "pool_ticks s poolId ts"
  shows "sorted_wrt (<) (map fst ts)"
proof -
  have "sorted_wrt (<) (map (\<lambda>p. TickIndexToBytes (fst p)) ts)"
    using prefix_store_sorted[OF assms(1), of "KeyTickPrefixByPoolId poolId"] assms(2)
    by (simp add: store_ok_def pool_ticks_def case_prod_beta comp_def)
  then show ?thesis
    unfolding sorted_wrt_map
    by (rule sorted_wrt_mono_rel[rotated]) (use assms(2) in \<open>auto simp: pool_ticks_def tick_key_less\<close>)
qed

lemma skip_ticks_filter:
  assumes "\<forall>t \<in> fst ` set ts. is_tick t" "sorted_wrt R (map fst ts)" "\<And>t u. R t u \<Longrightarrow> stop t \<Longrightarrow> stop u"
  shows "skip_ticks stop (map (\<lambda>(t, v). (TickIndexToBytes t, v)) ts) =
    Ok (map (\<lambda>(t, v). (TickIndexToBytes t, v)) (filter (\<lambda>(t, v). stop t) ts))"
  using assms(1,2)
proof (induction ts)
  case (Cons p ts)
  obtain t v where p: "p = (t, v)" by (cases p)
  have k: "TickIndexFromBytes (TickIndexToBytes t) = Ok t" using Cons.prems(1) p by (simp add: tick_key_roundtrip)
  show ?case
  proof (cases "stop t")
    case True
    then have "filter (\<lambda>(t, v). stop t) ts = ts" using Cons.prems(2) p assms(3) by (intro filter_True) auto
    then show ?thesis using True k p by simp
  next
    case False
    then show ?thesis using Cons k p by simp
  qed
qed simp

text \<open>
  C13 The next initialized ticks. The keys keep the order of ticks, across the sign, so for every set of initialized ticks of
  a pool the iterator of a swap to the left visits exactly the ticks at or below the current one, from the nearest
  downwards, and that of a swap to the right exactly those above it, from the nearest upwards.
\<close>

theorem InitializeNextTickIterator_visits:
  assumes "store_ok s" "pool_ticks s poolId ts" "is_tick (cur + 1)" "is_tick cur"
  shows "InitializeNextTickIterator (New True limit factor) s poolId cur =
      Ok (map (\<lambda>(t, v). (TickIndexToBytes t, v)) (rev (filter (\<lambda>(t, v). t \<le> cur) ts))) \<and>
    InitializeNextTickIterator (New False limit factor) s poolId cur =
      Ok (map (\<lambda>(t, v). (TickIndexToBytes t, v)) (filter (\<lambda>(t, v). cur < t) ts)) \<and>
    sorted_wrt (<) (map fst ts)"
proof (intro conjI)
  let ?enc = "\<lambda>(t, v). (TickIndexToBytes t, v)"
  have ps: "prefix_store s (KeyTickPrefixByPoolId poolId) = map ?enc ts" and it: "\<forall>t \<in> fst ` set ts. is_tick t"
    using assms(2) by (simp_all add: pool_ticks_def)
  have so: "sorted_wrt (<) (map fst ts)" by (rule pool_ticks_sorted[OF assms(1,2)])
  then show "sorted_wrt (<) (map fst ts)" .
  have w: "wrap64 (cur + 1) = cur + 1" using sint_of_int_64[of "cur + 1"] assms(3) unfolding wrap64_def is_tick_def by blast
  have l: "store_range (map ?enc ts) [] (Some (TickIndexToBytes (cur + 1))) = map ?enc (filter (\<lambda>(t, v). t \<le> cur) ts)"
    unfolding store_range_def filter_map using it tick_key_less[OF _ assms(3)]
    by (intro arg_cong[where f = "map ?enc"] filter_cong) auto
  have r: "store_range (map ?enc ts) (TickIndexToBytes cur) None = map ?enc (filter (\<lambda>(t, v). cur \<le> t) ts)"
    unfolding store_range_def filter_map using it tick_key_le[OF assms(4)]
    by (intro arg_cong[where f = "map ?enc"] filter_cong) auto
  have "skip_ticks (\<lambda>t. t \<le> cur) (map ?enc (rev (filter (\<lambda>(t, v). t \<le> cur) ts))) =
      Ok (map ?enc (filter (\<lambda>(t, v). t \<le> cur) (rev (filter (\<lambda>(t, v). t \<le> cur) ts))))"
    using it so by (intro skip_ticks_filter[where R = "(>)"]) (auto simp: rev_map[symmetric] sorted_wrt_rev sorted_wrt_map sorted_wrt_filter)
  then show "InitializeNextTickIterator (New True limit factor) s poolId cur = Ok (map ?enc (rev (filter (\<lambda>(t, v). t \<le> cur) ts)))"
    by (simp add: New_def zeroForOne_InitializeNextTickIterator_def ps w l rev_map rev_filter)
  have "skip_ticks (\<lambda>t. cur < t) (map ?enc (filter (\<lambda>(t, v). cur \<le> t) ts)) =
      Ok (map ?enc (filter (\<lambda>(t, v). cur < t) (filter (\<lambda>(t, v). cur \<le> t) ts)))"
    using it so by (intro skip_ticks_filter[where R = "(<)"]) (auto simp: sorted_wrt_map sorted_wrt_filter)
  moreover have "filter (\<lambda>(t, v). cur < t) (filter (\<lambda>(t, v). cur \<le> t) ts) = filter (\<lambda>(t, v). cur < t) ts"
    by (simp add: filter_filter case_prod_beta) (rule filter_cong, auto)
  ultimately show "InitializeNextTickIterator (New False limit factor) s poolId cur = Ok (map ?enc (filter (\<lambda>(t, v). cur < t) ts))"
    by (simp add: New_def oneForZero_InitializeNextTickIterator_def ps r)
qed

definition sample_ticks :: "unit store" where
  "sample_ticks = [(KeyTick 1 (- 5), ()), (KeyTick 1 0, ()), (KeyTick 1 7, ()), (KeyTick 2 3, ())]"

theorem InitializeNextTickIterator_visits_witness:
  "store_ok sample_ticks \<and> pool_ticks sample_ticks 1 [(- 5, ()), (0, ()), (7, ())] \<and>
   InitializeNextTickIterator (New True 1 0) sample_ticks 1 0 = Ok [(TickIndexToBytes 0, ()), (TickIndexToBytes (- 5), ())] \<and>
   InitializeNextTickIterator (New False 1 0) sample_ticks 1 0 = Ok [(TickIndexToBytes 7, ())]"
proof -
  have s: "store_ok sample_ticks" "pool_ticks sample_ticks 1 [(- 5, ()), (0, ()), (7, ())]"
    by (simp_all add: sample_ticks_def store_ok_def pool_ticks_def prefix_store_def store_prefix_def KeyTick_less KeyTick_prefix KeyTick_drop is_tick_def)
  then show ?thesis using InitializeNextTickIterator_visits[OF s, of 0 1 0] by (simp add: is_tick_def)
qed

end
