(* ===== verification/CL_Max_In.thy ===== *)
theory CL_Max_In
  imports CL_Ticks
begin

text \<open>
  The largest amount that can be swapped in before a number of ticks is crossed: \<^verbatim>\<open>ComputeMaxInAmtGivenMaxTicksCrossed\<close> of
  \<^verbatim>\<open>x/concentrated-liquidity/swaps.go\<close>, with the reads of the store that it makes. The keeper's store maps bytes to bytes;
  the codecs of protocol buffers, the bank and the coins of the SDK are the fields of a record.
\<close>

section \<open>The state of a swap\<close>

record SwapState =
  amountSpecifiedRemaining :: Dec
  amountCalculated :: Dec
  sqrtPrice :: BigDec
  tick :: int
  liquidity :: Dec
  globalSpreadRewardGrowthPerUnitLiquidity :: Dec
  globalSpreadRewardGrowth :: Dec
  swapStrategy :: SwapStrategy

definition newSwapState :: "sdk_dec \<Rightarrow> int \<Rightarrow> Pool \<Rightarrow> SwapStrategy \<Rightarrow> SwapState outcome" where
  "newSwapState S specifiedAmount p strat =
     obind (D_Int_ToDec S specifiedAmount) (\<lambda>amount.
       Ok \<lparr>amountSpecifiedRemaining = amount, amountCalculated = 0, sqrtPrice = CurrentSqrtPrice p, tick = CurrentTick p,
           liquidity = CurrentTickLiquidity p, globalSpreadRewardGrowthPerUnitLiquidity = 0, globalSpreadRewardGrowth = 0,
           swapStrategy = strat\<rparr>)"

section \<open>Reading the store\<close>

type_synonym DecCoins = "(string \<times> Dec) list"

record TickInfo =
  LiquidityGross :: Dec
  LiquidityNet :: Dec
  SpreadRewardGrowthOppositeDirectionOfLastTraversal :: DecCoins
  UptimeTrackers :: "DecCoins list"

record 'a cl_env =
  unmarshal_Pool :: "bytes \<Rightarrow> Pool outcome"
  unmarshal_TickInfo :: "bytes \<Rightarrow> TickInfo outcome"
  PrefixEndBytes :: "bytes \<Rightarrow> bytes option"
  addresses :: "'a address_book"
  balance_AmountOf :: "'a \<Rightarrow> string \<Rightarrow> int outcome"
  NewCoin :: "string \<Rightarrow> int \<Rightarrow> (string \<times> int) outcome"

definition PoolNotFoundError :: string where "PoolNotFoundError = ''pool not found''"
definition NoSpotPriceWhenNoLiquidityError :: string where
  "NoSpotPriceWhenNoLiquidityError = ''error getting spot price for pool, no liquidity in pool''"
definition RanOutOfTicksForPoolError :: string where "RanOutOfTicksForPoolError = ''ran out of ticks for pool during swap''"
definition ComputedSqrtPriceInequalityError :: string where
  "ComputedSqrtPriceInequalityError = ''edge case has occurred when swapping at tick boundaries''"

definition getPoolById :: "'a cl_env \<Rightarrow> bytes store \<Rightarrow> uint64 \<Rightarrow> Pool outcome" where
  "getPoolById E store poolId =
     obind (panic_on_err (Get (unmarshal_Pool E) store (KeyPool poolId))) (\<lambda>found.
       case found of None \<Rightarrow> Err PoolNotFoundError | Some pool \<Rightarrow> Ok pool)"

definition HasAnyPositionForPool :: "'a cl_env \<Rightarrow> bytes store \<Rightarrow> uint64 \<Rightarrow> bool outcome" where
  "HasAnyPositionForPool E store poolId =
     HasAnyAtPrefix (PrefixEndBytes E) store (KeyPoolPosition poolId)
       (\<lambda>bz. if length bz < 1 then Err ''insufficient data for parsing boolean'' else Ok (hd bz \<noteq> CHR 0x00))"

definition getPoolForSwap :: "'a cl_env \<Rightarrow> bytes store \<Rightarrow> uint64 \<Rightarrow> Pool outcome" where
  "getPoolForSwap E store poolId =
     obind (getPoolById E store poolId) (\<lambda>p.
     obind (HasAnyPositionForPool E store poolId) (\<lambda>hasPositionInPool.
       if \<not> hasPositionInPool then Err NoSpotPriceWhenNoLiquidityError else Ok p))"

definition ParseTickFromBz :: "'a cl_env \<Rightarrow> bytes \<Rightarrow> TickInfo outcome" where
  "ParseTickFromBz E bz = (if length bz = 0 then Err ''tick not found'' else unmarshal_TickInfo E bz)"

fun iteratorToNextInitializedTickSqrtPriceTarget :: "sdk_dec \<Rightarrow> 'v store \<Rightarrow> SwapStrategy \<Rightarrow> (int \<times> Dec \<times> Dec) outcome" where
  "iteratorToNextInitializedTickSqrtPriceTarget S [] swapstrat = Err RanOutOfTicksForPoolError"
| "iteratorToNextInitializedTickSqrtPriceTarget S ((k, v) # iter) swapstrat =
     obind (TickIndexFromBytes k) (\<lambda>nextInitializedTick.
     obind (replace_err ''could not convert next tick to nextSqrtPrice'' (TickToSqrtPrice S nextInitializedTick))
       (\<lambda>(_, nextInitializedTickSqrtPrice).
       Ok (nextInitializedTick, nextInitializedTickSqrtPrice, GetSqrtTargetPrice swapstrat nextInitializedTickSqrtPrice)))"

section \<open>The computation\<close>

text \<open>The part of the loop's body behind the computed step: whether the next tick is crossed.\<close>

definition cross_or_stay ::
  "sdk_dec \<Rightarrow> 'a cl_env \<Rightarrow> bytes store \<Rightarrow> int \<Rightarrow> BigDec \<Rightarrow> BigDec \<Rightarrow> SwapState \<Rightarrow> (bytes store \<times> SwapState) outcome" where
  "cross_or_stay S E iter nextInitializedTick nextInitializedTickSqrtPriceBigDec computedSqrtPrice ss =
     (if BigDec_Equal nextInitializedTickSqrtPriceBigDec computedSqrtPrice
      then obind (ParseTickFromBz E (snd (hd iter))) (\<lambda>info.
           obind (D_Add S (liquidity ss) (SetLiquidityDeltaSign (swapStrategy ss) (LiquidityNet info))) (\<lambda>l.
             Ok (tl iter, ss\<lparr>liquidity := l, tick := UpdateTickAfterCrossing (swapStrategy ss) nextInitializedTick\<rparr>)))
      else if edgeCaseInequalityBasedOnSwapStrategy (ZeroForOne (swapStrategy ss)) nextInitializedTickSqrtPriceBigDec computedSqrtPrice
      then Err ComputedSqrtPriceInequalityError
      else if \<not> BigDec_Equal (sqrtPrice ss) computedSqrtPrice
      then obind (CalculateSqrtPriceToTick S computedSqrtPrice) (\<lambda>newTick. Ok (iter, ss\<lparr>tick := newTick\<rparr>))
      else Ok (iter, ss))"

fun maxTicksCrossed_loop ::
  "nat \<Rightarrow> sdk_dec \<Rightarrow> 'a cl_env \<Rightarrow> bytes store \<Rightarrow> SwapState \<Rightarrow> Dec \<Rightarrow> (SwapState \<times> Dec) outcome" where
  "maxTicksCrossed_loop 0 S E iter ss totalTokenOut = Ok (ss, totalTokenOut)"
| "maxTicksCrossed_loop (Suc n) S E iter ss totalTokenOut =
     (if iter = [] then Ok (ss, totalTokenOut)
      else obind (iteratorToNextInitializedTickSqrtPriceTarget S iter (swapStrategy ss))
        (\<lambda>(nextInitializedTick, nextInitializedTickSqrtPrice, sqrtPriceTarget).
        obind (ComputeSwapWithinBucketInGivenOut S (swapStrategy ss) (sqrtPrice ss) sqrtPriceTarget (liquidity ss) (amountSpecifiedRemaining ss))
          (\<lambda>(computedSqrtPrice, amountOut, amountIn, spreadRewardChargeTotal).
        obind (D_Sub S (amountSpecifiedRemaining ss) amountOut) (\<lambda>remaining.
        obind (D_Add S amountIn spreadRewardChargeTotal) (\<lambda>charged.
        obind (D_Add S (amountCalculated ss) charged) (\<lambda>calculated.
        obind (D_Add S totalTokenOut amountOut) (\<lambda>totalTokenOut'.
        obind (to_BigDec nextInitializedTickSqrtPrice) (\<lambda>nextInitializedTickSqrtPriceBigDec.
        obind (cross_or_stay S E iter nextInitializedTick nextInitializedTickSqrtPriceBigDec computedSqrtPrice
                 (ss\<lparr>sqrtPrice := computedSqrtPrice, amountSpecifiedRemaining := remaining, amountCalculated := calculated\<rparr>))
          (\<lambda>(iter', ss').
          if amountOut = 0 then Ok (ss', totalTokenOut') else maxTicksCrossed_loop n S E iter' ss' totalTokenOut')))))))))"

definition ComputeMaxInAmtGivenMaxTicksCrossed ::
  "sdk_dec \<Rightarrow> 'a cl_env \<Rightarrow> bytes store \<Rightarrow> uint64 \<Rightarrow> string \<Rightarrow> uint64 \<Rightarrow> ((string \<times> int) \<times> (string \<times> int)) outcome" where
  "ComputeMaxInAmtGivenMaxTicksCrossed S E store poolId tokenInDenom maxTicksCrossed =
     obind (getPoolForSwap E store poolId) (\<lambda>p.
       if tokenInDenom \<noteq> Token0 p \<and> tokenInDenom \<noteq> Token1 p then Err TokenInDenomNotInPoolError
       else let tokenOutDenom = (if tokenInDenom = Token0 p then Token1 p else Token0 p)
       in obind (setupSwapStrategy S p (SpreadFactor p) tokenInDenom 0) (\<lambda>(strat, _).
          obind (GetAddress (addresses E) p) (\<lambda>poolAddress.
          obind (balance_AmountOf E poolAddress tokenOutDenom) (\<lambda>balance.
          obind (newSwapState S balance p strat) (\<lambda>ss.
          obind (InitializeNextTickIterator strat store poolId (tick ss)) (\<lambda>nextInitTickIter.
          obind (maxTicksCrossed_loop (unat maxTicksCrossed) S E nextInitTickIter ss 0) (\<lambda>(ss', totalTokenOut).
          obind (obind (D_Ceil S (amountCalculated ss')) (D_TruncateInt S)) (\<lambda>maxAmt.
          obind (NewCoin E tokenInDenom maxAmt) (\<lambda>maxTokenIn.
          obind (obind (D_TruncateInt S totalTokenOut) (NewCoin E tokenOutDenom)) (\<lambda>resultingTokenOut.
            Ok (maxTokenIn, resultingTokenOut)))))))))))"

section \<open>Properties\<close>

text \<open>
  The branch that computes the tick of a square root price within a bucket is never taken: the loop stores the computed
  price before it compares with it.
\<close>

lemma cross_or_stay_stale_tick:
  "\<not> BigDec_Equal b c \<Longrightarrow> cross_or_stay S E iter t b c (ss\<lparr>sqrtPrice := c\<rparr>) \<in> {Err ComputedSqrtPriceInequalityError, Ok (iter, ss\<lparr>sqrtPrice := c\<rparr>)}"
  by (simp add: cross_or_stay_def BigDec_comparisons)

lemma quo_le_whole: "x \<le> a * 10 ^ 18 \<Longrightarrow> 0 \<le> a \<Longrightarrow> quo x (10 ^ 18) \<le> a"
  using zdiv_mono1[of x "a * 10 ^ 18" "10 ^ 18"] quo_minus_left[of "- x" "10 ^ 18"]
  by (cases "0 \<le> x") (simp_all add: quo_nonneg_eq pos_imp_zdiv_nonneg_iff)

context sdk_dec_laws
begin

text \<open>Whatever the pool holds, a step with a given amount out does not pay out more than is left.\<close>

lemma step_out_le_remaining:
  assumes "ComputeSwapWithinBucketInGivenOut S strat cur tgt liq amt = Ok (nxt, aout, ain, charge)" "0 \<le> amt"
  shows "aout \<le> amt"
proof -
  have c: "quo x (10 ^ 18) \<le> amt" if "\<not> BigDec_GT x (amt * 10 ^ 18)" for x
    using that assms(2) by (intro quo_le_whole) (simp_all add: BigDec_comparisons)
  show ?thesis
    using assms(1) c
    by (cases strat)
      (auto simp: zeroForOne_ComputeSwapWithinBucketInGivenOut_def oneForZero_ComputeSwapWithinBucketInGivenOut_def go_simps Let_def)
qed

lemma cross_or_stay_keeps:
  "cross_or_stay S E iter t b c ss = Ok (iter', ss') \<Longrightarrow>
     amountSpecifiedRemaining ss' = amountSpecifiedRemaining ss \<and> amountCalculated ss' = amountCalculated ss \<and>
     swapStrategy ss' = swapStrategy ss"
  by (auto simp: cross_or_stay_def go_simps split: if_split_asm)

lemma maxTicksCrossed_loop_out:
  "maxTicksCrossed_loop n S E iter ss acc = Ok (ss', acc') \<Longrightarrow> 0 \<le> amountSpecifiedRemaining ss \<Longrightarrow>
     0 \<le> amountSpecifiedRemaining ss' \<and> acc' + amountSpecifiedRemaining ss' = acc + amountSpecifiedRemaining ss"
proof (induction n arbitrary: iter ss acc)
  case (Suc n)
  show ?case
  proof (cases "iter = []")
    case False
    then obtain t ns tgt c aout ain charge r ch calc tot iter1 ss1 where
      step: "ComputeSwapWithinBucketInGivenOut S (swapStrategy ss) (sqrtPrice ss) tgt (liquidity ss) (amountSpecifiedRemaining ss) =
          Ok (c, aout, ain, charge)" and
      r: "D_Sub S (amountSpecifiedRemaining ss) aout = Ok r" "D_Add S acc aout = Ok tot" and
      cross: "cross_or_stay S E iter t (ns * 10 ^ 18) c
          (ss\<lparr>sqrtPrice := c, amountSpecifiedRemaining := r, amountCalculated := calc\<rparr>) = Ok (iter1, ss1)" and
      rest: "(if aout = 0 then Ok (ss1, tot) else maxTicksCrossed_loop n S E iter1 ss1 tot) = Ok (ss', acc')"
      using Suc.prems(1) by (auto simp: go_simps)
    have "r = amountSpecifiedRemaining ss - aout" "tot = acc + aout" using r sub_result add_result by blast+
    moreover have "aout \<le> amountSpecifiedRemaining ss" by (rule step_out_le_remaining[OF step Suc.prems(2)])
    moreover have "amountSpecifiedRemaining ss1 = r" using cross_or_stay_keeps[OF cross] by simp
    ultimately show ?thesis using rest Suc.IH[of iter1 ss1 tot] by (auto split: if_split_asm)
  qed (use Suc.prems in simp)
qed simp

end

text \<open>
  C18 The estimate of the largest amount that can be swapped in before a number of ticks is crossed: for every number of
  ticks, whatever the ticks of the store hold, a successful call returns amounts of the two tokens of the pool that are not
  negative, and the amount out is at most the balance of the pool.
\<close>

theorem ComputeMaxIn_within_balance:
  assumes "sdk_dec_laws S" and coins: "\<And>d a c. NewCoin E d a = Ok c \<Longrightarrow> c = (d, a) \<and> 0 \<le> a"
    and "getPoolForSwap E store poolId = Ok p" "GetAddress (addresses E) p = Ok addr"
    and "balance_AmountOf E addr (if denom = Token0 p then Token1 p else Token0 p) = Ok balance" "0 \<le> balance"
    and "ComputeMaxInAmtGivenMaxTicksCrossed S E store poolId denom maxTicks = Ok ((inDenom, inAmt), (outDenom, outAmt))"
  shows "inDenom = denom \<and> {inDenom, outDenom} = {Token0 p, Token1 p} \<and> 0 \<le> inAmt \<and> 0 \<le> outAmt \<and> outAmt \<le> balance"
proof -
  let ?out = "if denom = Token0 p then Token1 p else Token0 p"
  obtain strat ss iter ss' total_out x y where d: "denom = Token0 p \<or> denom = Token1 p"
    and ss: "newSwapState S balance p strat = Ok ss" and loop: "maxTicksCrossed_loop (unat maxTicks) S E iter ss 0 = Ok (ss', total_out)"
    and inC: "NewCoin E denom x = Ok (inDenom, inAmt)"
    and out: "D_TruncateInt S total_out = Ok y" "NewCoin E ?out y = Ok (outDenom, outAmt)"
    using assms(3-7) unfolding ComputeMaxInAmtGivenMaxTicksCrossed_def Let_def
    by (simp add: go_simps split: if_split_asm prod.splits) blast+
  have "amountSpecifiedRemaining ss = balance * 10 ^ 18"
    using ss sdk_dec_laws.int_to_dec[OF assms(1)] by (auto simp: newSwapState_def)
  then have "total_out \<le> balance * 10 ^ 18" using sdk_dec_laws.maxTicksCrossed_loop_out[OF assms(1) loop] assms(6) by simp
  then have "quo total_out (10 ^ 18) \<le> balance" using assms(6) by (rule quo_le_whole)
  moreover have "y = quo total_out (10 ^ 18)" by (rule sdk_dec_laws.truncate_int[OF assms(1) out(1)])
  moreover have "inDenom = denom" "0 \<le> inAmt" "outDenom = ?out" "outAmt = y" "0 \<le> outAmt" using coins[OF inC] coins[OF out(2)] by auto
  ultimately show ?thesis using d by auto
qed

text \<open>
  A pool at the price 4 with a liquidity of 10 that ends at tick 0: crossing it takes 5 of token zero for 10 of token one.
\<close>

definition max_in_pool :: Pool where
  "max_in_pool = sample_pool\<lparr>CurrentTickLiquidity := 10 ^ 19, CurrentSqrtPrice := 2 * 10 ^ 36, CurrentTick := 3000000\<rparr>"

definition max_in_env :: "string cl_env" where
  "max_in_env = \<lparr>unmarshal_Pool = (\<lambda>_. Ok max_in_pool),
     unmarshal_TickInfo = (\<lambda>_. Ok \<lparr>LiquidityGross = 10 ^ 19, LiquidityNet = 10 ^ 19,
        SpreadRewardGrowthOppositeDirectionOfLastTraversal = [], UptimeTrackers = []\<rparr>),
     PrefixEndBytes = (\<lambda>pre. Some (butlast pre @ [char_of (of_char (last pre) + 1 :: nat)])),
     addresses = \<lparr>address_Module = (\<lambda>m k. m @ k), AccAddress_String = id, AccAddressFromBech32 = Ok\<rparr>,
     balance_AmountOf = (\<lambda>a d. Ok 10), NewCoin = (\<lambda>d a. if a < 0 then Panic ''negative coin amount'' else Ok (d, a))\<rparr>"

definition max_in_store :: "bytes store" where
  "max_in_store = [(KeyTick 1 0, ''tick''), (KeyPool 1, ''pool''), (KeyPoolPosition 1 @ Uint64ToBigEndian 1, [CHR 0x01])]"

lemma max_in_getPool: "getPoolForSwap max_in_env max_in_store 1 = Ok max_in_pool"
proof -
  have "(8::nat) = Suc (Suc (Suc (Suc (Suc (Suc (Suc (Suc 0)))))))" by simp
  then have one: "Uint64ToBigEndian 1 = [CHR 0x00, CHR 0x00, CHR 0x00, CHR 0x00, CHR 0x00, CHR 0x00, CHR 0x00, CHR 0x01]"
    by (simp only: Uint64ToBigEndian_def) (simp add: char_of_def bit_Suc_0_iff)
  have "HasAnyPositionForPool max_in_env max_in_store 1 = Ok True"
    by (simp add: HasAnyPositionForPool_def HasAnyAtPrefix_def GetFirstValueInRange_def makeIterator_def store_range_def max_in_store_def
        max_in_env_def KeyTick_def keyTickPrefixByPoolIdPrealloc_def TickPrefix_def KeyPool_def PoolPrefix_def KeyPoolPosition_def
        PoolPositionPrefix_def one less_char_def)
  moreover have "getPoolById max_in_env max_in_store 1 = Ok max_in_pool"
    by (simp add: getPoolById_def Get_def store_get_def max_in_store_def max_in_env_def KeyTick_def keyTickPrefixByPoolIdPrealloc_def
        TickPrefix_def KeyPool_def PoolPrefix_def)
  ultimately show ?thesis by (simp add: getPoolForSwap_def)
qed

lemma max_in_iterator: "InitializeNextTickIterator (New True l f) max_in_store 1 3000000 = Ok [(TickIndexToBytes 0, ''tick'')]"
proof -
  have k: "KeyPool 1 = CHR 0x03 # nat_text 1" "KeyPoolPosition 1 = CHR 0x09 # Uint64ToBigEndian 1"
    "KeyTickPrefixByPoolId 1 = CHR 0x01 # Uint64ToBigEndian 1"
    by (simp_all add: KeyPool_def PoolPrefix_def KeyPoolPosition_def PoolPositionPrefix_def KeyTickPrefixByPoolId_def
        keyTickPrefixByPoolIdPrealloc_def TickPrefix_def)
  have "prefix_store max_in_store (KeyTickPrefixByPoolId 1) = [(TickIndexToBytes 0, ''tick'')]"
    unfolding prefix_store_def store_prefix_def max_in_store_def
    by (simp add: KeyTick_prefix KeyTick_drop del: length_Cons) (simp add: k)
  moreover have "wrap64 3000001 = 3000001" by (simp add: wrap64_def)
  moreover have "TickIndexToBytes 0 < TickIndexToBytes 3000001" by (simp add: tick_key_less is_tick_def)
  moreover have "TickIndexFromBytes (TickIndexToBytes 0) = Ok 0" by (simp add: tick_key_roundtrip is_tick_def)
  ultimately show ?thesis by (simp add: New_def zeroForOne_InitializeNextTickIterator_def store_range_def)
qed

lemma max_in_setup: "setupSwapStrategy plain_dec max_in_pool 0 ''uion'' 0 = Ok (New True (10 ^ 12) 0, 10 ^ 12)"
proof -
  have "MinSqrtPrice plain_dec = Ok (10 ^ 12)"
    using plain_dec.MonotonicSqrt_eq[of MinSpotPrice] sqrt_up_square[of "10 ^ 12"]
    by (simp add: MinSqrtPrice_def MustMonotonicSqrt_def MinSpotPrice_def)
  then show ?thesis
    by (simp add: setupSwapStrategy_def getZeroForOne_def GetSqrtPriceLimit_def New_def zeroForOne_ValidateSqrtPrice_def max_in_pool_def
        sample_pool_def BigDec_comparisons)
qed

lemma max_in_step:
  "ComputeSwapWithinBucketInGivenOut plain_dec (New True l 0) (2 * 10 ^ 36) (10 ^ 18) (10 ^ 19) (10 ^ 19) = Ok (10 ^ 36, 10 ^ 19, 5 * 10 ^ 18, 0)"
proof -
  note bits = in_bits_def maxDecBitLen_eq precisionReuse_eq
  have sub: "BigDec_Sub (2 * 10 ^ 36) (10 ^ 36) = Ok (10 ^ 36)" by (simp add: big_dec.sub_Ok_iff bits)
  have trunc: "BigDec_MulTruncate (10 ^ 37) (10 ^ 36) = Ok (10 ^ 37)" "BigDec_MulTruncate (10 ^ 36) (2 * 10 ^ 36) = Ok (2 * 10 ^ 36)"
    by (rule mulTruncate.mul_at; simp add: bits)+
  have mul: "BigDec_Mul (10 ^ 37) (10 ^ 36) = Ok (10 ^ 37)" by (rule mul.mul_at; simp add: bits)
  have quo: "BigDec_Quo (10 ^ 37) (2 * 10 ^ 36) = Ok (5 * 10 ^ 36)" by (rule quot.quot_at; simp add: bits)
  have ceil: "BigDec_Ceil (5 * 10 ^ 36) = Ok (5 * 10 ^ 36)" by (rule Ceil_at; simp)
  have est: "CalcAmount1Delta (10 ^ 37) (10 ^ 36) (2 * 10 ^ 36) False = Ok (10 ^ 37)"
    unfolding CalcAmount1Delta_def ordered_eq using sub trunc(1) by simp
  have amt0: "CalcAmount0Delta (10 ^ 37) (10 ^ 36) (2 * 10 ^ 36) True = Ok (5 * 10 ^ 36)"
    unfolding CalcAmount0Delta_def ordered_eq using sub mul trunc(2) quo ceil by (simp add: QuoMut_eq)
  have r: "to_SDKDecRoundUp plain_dec (5 * 10 ^ 36) = Ok (5 * 10 ^ 18)" "to_SDKDec plain_dec (10 ^ 37) = Ok (10 ^ 19)"
    by (simp_all add: plain_dec.to_SDKDecRoundUp_Ok quo_def)
  have charge: "computeSpreadRewardChargeFromAmountIn plain_dec (5 * 10 ^ 18) 0 = Ok 0"
    by (simp add: computeSpreadRewardChargeFromAmountIn_def plain_dec_def sdk_OneDec_def dec_div_def in_bits_def checked_in_bits)
  show ?thesis
    using est amt0 r charge
    by (simp add: New_def zeroForOne_ComputeSwapWithinBucketInGivenOut_def BigDec_comparisons)
qed

lemma max_in_result:
  "ComputeMaxInAmtGivenMaxTicksCrossed plain_dec max_in_env max_in_store 1 ''uion'' 1 = Ok ((''uion'', 5), (''uosmo'', 10))"
proof -
  have pool: "Token0 max_in_pool = ''uion''" "Token1 max_in_pool = ''uosmo''" "CurrentTick max_in_pool = 3000000"
    "CurrentSqrtPrice max_in_pool = 2 * 10 ^ 36" "CurrentTickLiquidity max_in_pool = 10 ^ 19" "SpreadFactor max_in_pool = 0"
    by (simp_all add: max_in_pool_def sample_pool_def)
  have "tick_sqrt 0 = 10 ^ 18" using sqrt_up_square[of "10 ^ 18"] by (simp add: tick_sqrt_def tick_price_def)
  then have t: "TickToSqrtPrice plain_dec 0 = Ok (tick_price 0, 10 ^ 18)"
    using plain_dec.TickToSqrtPrice_eq(1)[of 0] by (simp add: MinInitializedTick_def MaxTick_def)
  have nxt: "iteratorToNextInitializedTickSqrtPriceTarget plain_dec [(TickIndexToBytes 0, ''tick'')] (New True (10 ^ 12) 0) =
      Ok (0, 10 ^ 18, 10 ^ 18)"
    using t by (simp add: tick_key_roundtrip is_tick_def New_def zeroForOne_GetSqrtTargetPrice_def)
  have add: "D_Sub plain_dec (10 ^ 19) (10 ^ 19) = Ok 0" "D_Add plain_dec (5 * 10 ^ 18) 0 = Ok (5 * 10 ^ 18)"
    "D_Add plain_dec 0 (5 * 10 ^ 18) = Ok (5 * 10 ^ 18)" "D_Add plain_dec 0 (10 ^ 19) = Ok (10 ^ 19)"
    "D_Add plain_dec (10 ^ 19) (- (10 ^ 19)) = Ok 0"
    by (simp_all add: plain_dec.add_exact plain_dec.sub_exact)
  have fin: "D_Ceil plain_dec (5 * 10 ^ 18) = Ok (5 * 10 ^ 18)" "D_TruncateInt plain_dec (5 * 10 ^ 18) = Ok 5"
    "D_TruncateInt plain_dec (10 ^ 19) = Ok 10" "D_Int_ToDec plain_dec 10 = Ok (10 ^ 19)"
    by (simp_all add: plain_dec_def quo_def)
  let ?ss = "\<lparr>amountSpecifiedRemaining = 10 ^ 19, amountCalculated = 0, sqrtPrice = 2 * 10 ^ 36, tick = 3000000, liquidity = 10 ^ 19,
     globalSpreadRewardGrowthPerUnitLiquidity = 0, globalSpreadRewardGrowth = 0, swapStrategy = New True (10 ^ 12) 0\<rparr>"
  have loop: "maxTicksCrossed_loop (Suc 0) plain_dec max_in_env [(TickIndexToBytes 0, ''tick'')] ?ss 0 =
      Ok (?ss\<lparr>amountSpecifiedRemaining := 0, amountCalculated := 5 * 10 ^ 18, sqrtPrice := 10 ^ 36, tick := - 1, liquidity := 0\<rparr>, 10 ^ 19)"
    using nxt max_in_step[of "10 ^ 12"] add
    by (simp add: cross_or_stay_def BigDec_comparisons ParseTickFromBz_def max_in_env_def New_def zeroForOne_SetLiquidityDeltaSign_def
        zeroForOne_UpdateTickAfterCrossing_def wrap64_def)
  have "newSwapState plain_dec 10 max_in_pool (New True (10 ^ 12) 0) = Ok ?ss" using fin(4) by (simp add: newSwapState_def pool)
  then show ?thesis
    using max_in_getPool max_in_setup max_in_iterator[of "10 ^ 12" 0] loop fin(1-3)
    by (simp add: ComputeMaxInAmtGivenMaxTicksCrossed_def pool GetAddress_def) (simp add: max_in_env_def)
qed

theorem ComputeMaxIn_within_balance_witness:
  "ComputeMaxInAmtGivenMaxTicksCrossed plain_dec max_in_env max_in_store 1 ''uion'' 1 = Ok ((''uion'', 5), (''uosmo'', 10)) \<and>
   (0::int) \<le> 5 \<and> (10::int) \<le> 10"
proof -
  have "NewCoin max_in_env d a = Ok c \<Longrightarrow> c = (d, a) \<and> 0 \<le> a" for d a c by (auto simp: max_in_env_def split: if_split_asm)
  from ComputeMaxIn_within_balance[OF plain_dec.sdk_dec_laws_axioms this max_in_getPool _ _ _ max_in_result, of _ 10]
  show ?thesis using max_in_result by (simp add: GetAddress_def max_in_env_def)
qed

end
