(* ===== verification/CL_Pool_Life.thy ===== *)
theory CL_Pool_Life
  imports CL_Max_In
begin

text \<open>
  The life of a stored pool of concentrated liquidity: how it is written (\<^verbatim>\<open>pool.go\<close>), how the first position gives it a
  price and a tick and the removal of the last one takes them away again (\<^verbatim>\<open>lp.go\<close>), and what every pool that is read from
  the store satisfies from its creation on.
\<close>

section \<open>Definitions\<close>

definition InitialLiquidityZeroError :: string where
  "InitialLiquidityZeroError = ''first position must contain non-zero value of both assets to determine spot price''"
definition UninitializedPoolWithLiquidityError :: string where
  "UninitializedPoolWithLiquidityError = ''attempted to uninitialize pool with liquidity still existing''"

definition setPool :: "(Pool \<Rightarrow> bytes outcome) \<Rightarrow> Pool \<Rightarrow> bytes store \<Rightarrow> bytes store outcome" where
  "setPool marshal pool store = MustSet marshal store (KeyPool (Id pool)) pool"

text \<open>The caller goes on with the pool object, which the function changes.\<close>

definition initializeInitialPositionForPool ::
  "sdk_dec \<Rightarrow> (Pool \<Rightarrow> bytes outcome) \<Rightarrow> Pool \<Rightarrow> int \<Rightarrow> int \<Rightarrow> bytes store \<Rightarrow> (Pool \<times> bytes store) outcome" where
  "initializeInitialPositionForPool S marshal pool amount0Desired amount1Desired store =
     (if \<not> amount0Desired > 0 \<or> \<not> amount1Desired > 0 then Err InitialLiquidityZeroError
      else obind (D_Int_ToDec S amount1Desired) (\<lambda>amount1.
           obind (D_Int_ToDec S amount0Desired) (\<lambda>amount0.
           obind (D_Quo S amount1 amount0) (\<lambda>initialSpotPrice.
           obind (MonotonicSqrt S initialSpotPrice) (\<lambda>initialCurSqrtPrice.
           obind (SqrtPriceToTickRoundDownSpacing S initialCurSqrtPrice (TickSpacing pool)) (\<lambda>startTick.
           obind (to_BigDec initialCurSqrtPrice) (\<lambda>b.
             let pool1 = SetCurrentTick startTick (SetCurrentSqrtPrice b pool)
             in obind (setPool marshal pool1 store) (\<lambda>store1. Ok (pool1, store1)))))))))"

definition uninitializePool :: "'a cl_env \<Rightarrow> (Pool \<Rightarrow> bytes outcome) \<Rightarrow> uint64 \<Rightarrow> bytes store \<Rightarrow> bytes store outcome" where
  "uninitializePool E marshal poolId store =
     obind (getPoolById E store poolId) (\<lambda>pool.
     obind (HasAnyPositionForPool E store poolId) (\<lambda>hasAnyPosition.
       if hasAnyPosition then Err UninitializedPoolWithLiquidityError
       else setPool marshal (SetCurrentTick 0 (SetCurrentSqrtPrice ZeroDec pool)) store))"

section \<open>The tick of a square root price\<close>

text \<open>Every square root price of the supported range lies in a bucket, or is that of the last tick.\<close>

lemma bucket_exists:
  assumes "10 ^ 12 \<le> s" "s \<le> 10 ^ 37"
  shows "\<exists>t. - 108000000 \<le> t \<and> t \<le> 342000000 \<and> tick_sqrt t \<le> s \<and> (if t = 342000000 then s = 10 ^ 37 else s < tick_sqrt (t + 1))"
proof -
  let ?A = "{j \<in> {- 108000000..342000000}. tick_sqrt j \<le> s}"
  define t where "t = Max ?A"
  have fin: "finite ?A" by (rule finite_subset[of _ "{- 108000000..342000000}"]) auto
  have "- 108000000 \<in> ?A" using assms tick_sqrt_ends(1) by simp
  then have t: "t \<in> ?A" unfolding t_def by (intro Max_in[OF fin]) blast
  have up: "j \<le> t" if "j \<in> ?A" for j using Max_ge[OF fin that] by (simp add: t_def)
  have "if t = 342000000 then s = 10 ^ 37 else s < tick_sqrt (t + 1)"
    using t up[of "t + 1"] assms(2) tick_sqrt_ends(2) by (auto simp: not_le[symmetric])
  moreover have "- 108000000 \<le> t" "t \<le> 342000000" "tick_sqrt t \<le> s" using t by simp_all
  ultimately show ?thesis by blast
qed

context sdk_dec_laws
begin

lemma RoundDown_tick:
  fixes k :: uint64
  assumes "- 108000000 \<le> t" "t \<le> 342000000" "0 < sint k" "- 108000000 \<le> t - t mod sint k"
  shows "RoundDownTickToSpacing t (sint k) = Ok (t - t mod sint k)"
  using spaced_roundtrip[OF assms] tick_roundtrip[OF assms(1,2)] by (simp add: SqrtPriceToTickRoundDownSpacing_def)

text \<open>At 18 places the tick is always found: the square of a root below the next tick's stays below its price.\<close>

lemma tick_of_sqrt:
  assumes "10 ^ 12 \<le> s" "s \<le> 10 ^ 37"
  shows "\<exists>t. CalculateSqrtPriceToTick S (s * 10 ^ 18) = Ok t \<and> - 108000000 \<le> t \<and> t \<le> 342000000 \<and> tick_sqrt t \<le> s \<and>
    (\<forall>u. t < u \<longrightarrow> u \<le> 342000000 \<longrightarrow> s < tick_sqrt u)"
proof -
  obtain t where t: "- 108000000 \<le> t" "t \<le> 342000000" "tick_sqrt t \<le> s" "if t = 342000000 then s = 10 ^ 37 else s < tick_sqrt (t + 1)"
    using bucket_exists[OF assms] by blast
  have above: "s < tick_sqrt u" if "t < u" "u \<le> 342000000" for u
    using t that tick_sqrt_mono[of "t + 1" u] by (auto split: if_splits)
  have "CalculateSqrtPriceToTick S (s * 10 ^ 18) = Ok t"
  proof (cases "t = 342000000")
    case True
    then show ?thesis using t(4) tick_of_max by simp
  next
    case False
    then have lt: "s < tick_sqrt (t + 1)" using t(4) by simp
    then have b: "in_bucket t (s * 10 ^ 18)" using t False by (simp add: in_bucket_def)
    have "square_price (s * 10 ^ 18) * 10 ^ 18 \<le> s * s" by (rule square_price_le) simp
    also have "s * s \<le> (tick_sqrt (t + 1) - 1) * (tick_sqrt (t + 1) - 1)" using lt assms by (intro mult_mono) auto
    also have "\<dots> < tick_price (t + 1) * 10 ^ 18" by (rule tick_sqrt_bounds(3))
    finally have "square_price (s * 10 ^ 18) < tick_price (t + 1)" by simp
    then show ?thesis using tick_of_bucket[OF b] by simp
  qed
  with t above show ?thesis by blast
qed

lemma initial_price:
  assumes amounts: "0 < a0" "0 < a1" and q: "D_Quo S (a1 * 10 ^ 18) (a0 * 10 ^ 18) = Ok q" "10 ^ 6 \<le> q" "q \<le> 10 ^ 56"
    and k: "0 < sint (TickSpacing p)" "sint (TickSpacing p) dvd 108000000" and m: "\<And>p. is_Ok (marshal p)"
  shows "\<exists>t r b. initializeInitialPositionForPool S marshal p a0 a1 st =
      Ok (p\<lparr>CurrentSqrtPrice := r * 10 ^ 18, CurrentTick := t\<rparr>, store_set (KeyPool (Id p)) b st) \<and>
    marshal (p\<lparr>CurrentSqrtPrice := r * 10 ^ 18, CurrentTick := t\<rparr>) = Ok b \<and>
    q * 10 ^ 18 \<le> r * r \<and> (r - 1) * (r - 1) < q * 10 ^ 18 \<and> 0 < r \<and>
    - 108000000 \<le> t \<and> t \<le> 342000000 \<and> t mod sint (TickSpacing p) = 0 \<and> tick_sqrt t \<le> r \<and>
    (t + sint (TickSpacing p) \<le> 342000000 \<longrightarrow> r < tick_sqrt (t + sint (TickSpacing p)))"
proof -
  let ?k = "sint (TickSpacing p)"
  define r where "r = sqrt_up (q * 10 ^ 18)"
  have q0: "0 < q * 10 ^ 18" using q(2) by simp
  have "10 ^ 12 \<le> r" "r \<le> 10 ^ 37"
    using sqrt_up_mono[of "10 ^ 12 * 10 ^ 12" "q * 10 ^ 18"] sqrt_up_mono[OF q0, of "10 ^ 37 * 10 ^ 37"] q(2,3)
      sqrt_up_square[of "10 ^ 12"] sqrt_up_square[of "10 ^ 37"] by (simp_all add: r_def)
  then obtain u where u: "CalculateSqrtPriceToTick S (r * 10 ^ 18) = Ok u" "- 108000000 \<le> u" "u \<le> 342000000" "tick_sqrt u \<le> r"
    "\<And>v. u < v \<Longrightarrow> v \<le> 342000000 \<Longrightarrow> r < tick_sqrt v"
    using tick_of_sqrt by blast
  define t where "t = u - u mod ?k"
  have um: "0 \<le> u mod ?k" "u mod ?k < ?k" using k(1) by simp_all
  have tk: "?k dvd t" unfolding t_def by (rule dvd_minus_mod)
  have low: "- 108000000 \<le> t"
  proof (rule ccontr)
    assume "\<not> - 108000000 \<le> t"
    then have "0 < - 108000000 - t" "- 108000000 - t < ?k" using u(2) um by (simp_all add: t_def)
    moreover have "?k dvd - 108000000 - t" using k(2) tk by (intro dvd_diff) simp_all
    ultimately show False using zdvd_imp_le by fastforce
  qed
  have "RoundDownTickToSpacing u ?k = Ok t" using RoundDown_tick[OF u(2,3) k(1)] low by (simp add: t_def)
  then have tick: "SqrtPriceToTickRoundDownSpacing S r (TickSpacing p) = Ok t" using u(1) by (simp add: SqrtPriceToTickRoundDownSpacing_def)
  have sqrt: "MonotonicSqrt S q = Ok r" using MonotonicSqrt_eq[of q] q(2) by (simp add: r_def)
  let ?p = "p\<lparr>CurrentSqrtPrice := r * 10 ^ 18, CurrentTick := t\<rparr>"
  obtain b where b: "marshal ?p = Ok b" using m by (auto simp: is_Ok_iff)
  have "initializeInitialPositionForPool S marshal p a0 a1 st = Ok (?p, store_set (KeyPool (Id p)) b st)"
    using amounts q(1) tick b sqrt
    by (simp add: initializeInitialPositionForPool_def int_to_dec Let_def SetCurrentTick_def SetCurrentSqrtPrice_def setPool_def MustSet_def)
  moreover have "tick_sqrt t \<le> r" using tick_sqrt_mono[OF low, of u] u(4) um(1) by (simp add: t_def)
  moreover have "t mod ?k = 0" "t \<le> 342000000" "u < t + ?k" using tk u(3) um by (auto simp: t_def)
  moreover have "t + ?k \<le> 342000000 \<longrightarrow> r < tick_sqrt (t + ?k)" using calculation(5) u(5)[of "t + ?k"] by blast
  ultimately show ?thesis using b low sqrt_up_bounds[OF q0, folded r_def] by (intro exI[of _ t] exI[of _ r] exI[of _ b] conjI)
qed

end

text \<open>
  C17 The first position sets the price of a pool: for positive amounts whose quotient \<open>q\<close> lies in the supported range
  of prices, and a spacing that divides the number of ticks below price one, the pool is written back with the square root
  of \<open>q\<close>, rounded up at 18 places, as its price, and with the greatest multiple of the spacing whose square root price is
  not above it as its tick; it does not fail, and nothing else of the pool or the store changes. When an amount is not
  positive, the initialisation is refused.
\<close>

theorem first_position_sets_price:
  assumes "sdk_dec_laws S" "\<And>p. is_Ok (marshal p)" "0 < sint (TickSpacing p)" "sint (TickSpacing p) dvd 108000000"
  shows "if a0 \<le> 0 \<or> a1 \<le> 0
    then initializeInitialPositionForPool S marshal p a0 a1 st = Err InitialLiquidityZeroError
    else \<forall>q. D_Quo S (a1 * 10 ^ 18) (a0 * 10 ^ 18) = Ok q \<and> MinSpotPrice \<le> q \<and> q \<le> MaxSpotPrice \<longrightarrow>
      (\<exists>t r b. initializeInitialPositionForPool S marshal p a0 a1 st =
          Ok (p\<lparr>CurrentSqrtPrice := r * 10 ^ 18, CurrentTick := t\<rparr>, store_set (KeyPool (Id p)) b st) \<and>
        marshal (p\<lparr>CurrentSqrtPrice := r * 10 ^ 18, CurrentTick := t\<rparr>) = Ok b \<and>
        q * 10 ^ 18 \<le> r * r \<and> (r - 1) * (r - 1) < q * 10 ^ 18 \<and> 0 < r \<and>
        MinInitializedTick \<le> t \<and> t \<le> MaxTick \<and> t mod sint (TickSpacing p) = 0 \<and> tick_sqrt t \<le> r \<and>
        (t + sint (TickSpacing p) \<le> MaxTick \<longrightarrow> r < tick_sqrt (t + sint (TickSpacing p))))"
proof (cases "a0 \<le> 0 \<or> a1 \<le> 0")
  case True
  then show ?thesis by (auto simp: initializeInitialPositionForPool_def)
next
  case False
  then have a: "0 < a0" "0 < a1" by simp_all
  note range = MinSpotPrice_def MaxSpotPrice_def MinInitializedTick_def MaxTick_def
  show ?thesis
    unfolding if_not_P[OF False] range
    by (intro allI impI, elim conjE) (rule sdk_dec_laws.initial_price[OF assms(1) a _ _ _ assms(3,4,2)]; simp)
qed

theorem first_position_sets_price_witness:
  "\<exists>t r b. initializeInitialPositionForPool plain_dec (\<lambda>_. Ok ''pool'') sample_pool 10 40 [] =
      Ok (sample_pool\<lparr>CurrentSqrtPrice := r * 10 ^ 18, CurrentTick := t\<rparr>, store_set (KeyPool 1) b []) \<and>
    4 * 10 ^ 36 \<le> r * r \<and> (r - 1) * (r - 1) < 4 * 10 ^ 36 \<and> t mod 100 = 0 \<and> tick_sqrt t \<le> r"
proof -
  have k: "0 < sint (TickSpacing sample_pool)" "sint (TickSpacing sample_pool) dvd 108000000" "sint (TickSpacing sample_pool) = 100"
    "Id sample_pool = 1" by (simp_all add: sample_pool_def)
  have q: "D_Quo plain_dec (40 * 10 ^ 18) (10 * 10 ^ 18) = Ok (4 * 10 ^ 18)" by (rule plain_dec.quo_exact) simp_all
  have r: "MinSpotPrice \<le> 4 * 10 ^ 18" "4 * 10 ^ 18 \<le> MaxSpotPrice" by (simp_all add: MinSpotPrice_def MaxSpotPrice_def)
  have "is_Ok ((\<lambda>_. Ok ''pool'') p)" for p :: Pool by simp
  note first = first_position_sets_price[OF plain_dec.sdk_dec_laws_axioms this k(1,2), of 10 40 "[]"]
  show ?thesis
    using first q r k(3,4) by (simp only: not_le zero_less_numeral if_False simp_thms) fastforce
qed

section \<open>Every stored pool\<close>

text \<open>
  What a pool satisfies from its creation on: two different tokens, a spread factor below one, a square root price that is
  not negative and a current tick within the range.
\<close>

definition pool_ok :: "Pool \<Rightarrow> bool" where
  "pool_ok p \<longleftrightarrow> Token0 p \<noteq> Token1 p \<and> 0 \<le> SpreadFactor p \<and> SpreadFactor p < sdk_OneDec \<and> 0 \<le> CurrentSqrtPrice p \<and>
     MinCurrentTick \<le> CurrentTick p \<and> CurrentTick p \<le> MaxTick"

text \<open>The fields that identify a pool.\<close>

definition pool_identity :: "Pool \<Rightarrow> uint64 \<times> string \<times> string \<times> Dec \<times> string \<times> string \<times> string" where
  "pool_identity p = (Id p, Token0 p, Token1 p, SpreadFactor p, Address p, IncentivesAddress p, SpreadRewardsAddress p)"

text \<open>
  The writes of the module to its store that concern a pool: after a swap, after a change of a position, when the
  first position is made and when the last one is gone, when the spacing is lowered and when uptime is accounted for; every
  other write leaves the key of the pool alone. No code calls \<^verbatim>\<open>UpdateLiquidity\<close>.
\<close>

inductive pool_step :: "sdk_dec \<Rightarrow> 'a cl_env \<Rightarrow> (Pool \<Rightarrow> bytes outcome) \<Rightarrow> uint64 \<Rightarrow> bytes store \<Rightarrow> bytes store \<Rightarrow> bool"
  for S E marshal poolId where
  swapped: "getPoolById E s poolId = Ok p \<Longrightarrow> ApplySwap l t sq p = Ok p' \<Longrightarrow> setPool marshal p' s = Ok s' \<Longrightarrow> pool_step S E marshal poolId s s'"
| position_changed: "getPoolById E s poolId = Ok p \<Longrightarrow> UpdateLiquidityIfActivePosition S lo up d p = Ok (p', active) \<Longrightarrow>
    setPool marshal p' s = Ok s' \<Longrightarrow> pool_step S E marshal poolId s s'"
| first_position: "getPoolById E s poolId = Ok p \<Longrightarrow> HasAnyPositionForPool E s poolId = Ok False \<Longrightarrow>
    initializeInitialPositionForPool S marshal p a0 a1 s = Ok (p', s') \<Longrightarrow> pool_step S E marshal poolId s s'"
| last_position_gone: "uninitializePool E marshal poolId s = Ok s' \<Longrightarrow> pool_step S E marshal poolId s s'"
| spacing_set: "getPoolById E s poolId = Ok p \<Longrightarrow> setPool marshal (SetTickSpacing sp p) s = Ok s' \<Longrightarrow> pool_step S E marshal poolId s s'"
| update_time_set: "getPoolById E s poolId = Ok p \<Longrightarrow> setPool marshal (SetLastLiquidityUpdate time p) s = Ok s' \<Longrightarrow> pool_step S E marshal poolId s s'"
| elsewhere: "store_ok s' \<Longrightarrow> store_get s' (KeyPool poolId) = store_get s (KeyPool poolId) \<Longrightarrow> pool_step S E marshal poolId s s'"

text \<open>Every change keeps a pool well formed and its identity.\<close>

lemma ApplySwap_keeps:
  "ApplySwap l t sq p = Ok p' \<Longrightarrow> pool_ok p \<Longrightarrow> pool_ok p' \<and> pool_identity p' = pool_identity p"
  by (auto simp: ApplySwap_def pool_ok_def pool_identity_def BigDec_IsNegative_def sgn_if split: if_split_asm)

lemma UpdateLiquidity_keeps:
  "UpdateLiquidityIfActivePosition S lo up d p = Ok (p', active) \<Longrightarrow> pool_ok p \<Longrightarrow> pool_ok p' \<and> pool_identity p' = pool_identity p"
  by (auto simp: UpdateLiquidityIfActivePosition_def pool_ok_def pool_identity_def go_simps split: if_split_asm)

lemma setters_keep:
  "pool_ok p \<Longrightarrow> pool_ok (SetTickSpacing sp p) \<and> pool_identity (SetTickSpacing sp p) = pool_identity p"
  "pool_ok p \<Longrightarrow> pool_ok (SetLastLiquidityUpdate time p) \<and> pool_identity (SetLastLiquidityUpdate time p) = pool_identity p"
  "pool_ok p \<Longrightarrow> pool_ok (SetCurrentTick 0 (SetCurrentSqrtPrice ZeroDec p)) \<and>
     pool_identity (SetCurrentTick 0 (SetCurrentSqrtPrice ZeroDec p)) = pool_identity p"
  by (simp_all add: SetTickSpacing_def SetLastLiquidityUpdate_def SetCurrentTick_def SetCurrentSqrtPrice_def pool_ok_def pool_identity_def
      ZeroDec_def MinCurrentTick_def MinInitializedTick_def MaxTick_def)

lemma RoundDown_range: "RoundDownTickToSpacing t k = Ok u \<Longrightarrow> MinInitializedTick \<le> u \<and> u \<le> MaxTick"
  by (auto simp: RoundDownTickToSpacing_def Let_def split: if_split_asm)

lemma MonotonicSqrt_nonneg:
  assumes "sdk_dec_laws S" "MonotonicSqrt S q = Ok r"
  shows "0 \<le> r"
proof -
  have "0 \<le> q" using assms(2) by (auto simp: MonotonicSqrt_def split: if_split_asm)
  then have "r = sqrt_up (q * 10 ^ 18)" using assms sdk_dec_laws.MonotonicSqrt_eq[OF assms(1)] by simp
  then show ?thesis using sqrt_up_bounds(2)[of "q * 10 ^ 18"] \<open>0 \<le> q\<close> by (cases "q = 0") (auto simp: sqrt_up_def)
qed

lemma initialize_keeps:
  assumes "sdk_dec_laws S" "initializeInitialPositionForPool S marshal p a0 a1 s = Ok (p', s')"
  shows "setPool marshal p' s = Ok s'" "pool_ok p \<Longrightarrow> pool_ok p' \<and> pool_identity p' = pool_identity p"
proof -
  obtain q r t where r: "MonotonicSqrt S q = Ok r" "SqrtPriceToTickRoundDownSpacing S r (TickSpacing p) = Ok t"
    "p' = SetCurrentTick t (SetCurrentSqrtPrice (r * 10 ^ 18) p)" "setPool marshal p' s = Ok s'"
    using assms(2) by (auto simp: initializeInitialPositionForPool_def Let_def go_simps split: if_split_asm)
  then show "setPool marshal p' s = Ok s'" by simp
  obtain u where "RoundDownTickToSpacing u (sint (TickSpacing p)) = Ok t"
    using r(2) by (auto simp: SqrtPriceToTickRoundDownSpacing_def go_simps)
  then have "MinCurrentTick \<le> t" "t \<le> MaxTick" using RoundDown_range by (fastforce simp: MinCurrentTick_def)+
  then show "pool_ok p \<Longrightarrow> pool_ok p' \<and> pool_identity p' = pool_identity p"
    using MonotonicSqrt_nonneg[OF assms(1) r(1)] r(3)
    by (simp add: SetCurrentTick_def SetCurrentSqrtPrice_def pool_ok_def pool_identity_def)
qed

text \<open>The interface to the codec: a pool that is written is read back.\<close>

locale pool_codec =
  fixes E :: "'a cl_env" and marshal :: "Pool \<Rightarrow> bytes outcome"
  assumes read_back: "marshal p = Ok b \<Longrightarrow> unmarshal_Pool E b = Ok p"
begin

definition pool_stored :: "uint64 \<times> string \<times> string \<times> Dec \<times> string \<times> string \<times> string \<Rightarrow> bytes store \<Rightarrow> bool" where
  "pool_stored i s \<longleftrightarrow> store_ok s \<and> (\<exists>p. getPoolById E s (fst i) = Ok p \<and> pool_ok p \<and> pool_identity p = i)"

lemma setPool_stored:
  assumes "store_ok s" "pool_ok p" "setPool marshal p s = Ok s'"
  shows "pool_stored (pool_identity p) s'"
proof -
  obtain b where b: "marshal p = Ok b" "s' = store_set (KeyPool (Id p)) b s"
    using assms(3) by (auto simp: setPool_def MustSet_def go_simps)
  then show ?thesis using assms(1,2) read_back[OF b(1)]
    by (simp add: pool_stored_def pool_identity_def getPoolById_def Get_def store_get_set store_set_ok)
qed

lemma changed_stored:
  assumes "pool_stored i s" "getPoolById E s (fst i) = Ok p"
    and "pool_ok p \<Longrightarrow> pool_ok p' \<and> pool_identity p' = pool_identity p" "setPool marshal p' s = Ok s'"
  shows "pool_stored i s'"
proof -
  have "store_ok s" "pool_ok p" "pool_identity p = i" using assms(1,2) by (auto simp: pool_stored_def)
  then show ?thesis using setPool_stored[of s p' s'] assms(3,4) by auto
qed

lemma step_stored:
  assumes "sdk_dec_laws S" "pool_step S E marshal poolId s s'" "pool_stored i s" "fst i = poolId"
  shows "pool_stored i s'"
  using assms(2)
proof cases
  case (swapped p l t sq p')
  then show ?thesis using changed_stored[OF assms(3) _ ApplySwap_keeps] assms(4) by blast
next
  case (position_changed p lo up d p' active)
  then show ?thesis using changed_stored[OF assms(3) _ UpdateLiquidity_keeps] assms(4) by blast
next
  case (first_position p a0 a1 p')
  then have "setPool marshal p' s = Ok s'" by (simp add: initialize_keeps(1)[OF assms(1)])
  then show ?thesis using first_position changed_stored[OF assms(3) _ initialize_keeps(2)[OF assms(1)]] assms(4) by blast
next
  case last_position_gone
  then obtain p where "getPoolById E s poolId = Ok p" "setPool marshal (SetCurrentTick 0 (SetCurrentSqrtPrice ZeroDec p)) s = Ok s'"
    by (auto simp: uninitializePool_def go_simps split: if_split_asm)
  then show ?thesis using changed_stored[OF assms(3) _ setters_keep(3)] assms(4) by blast
next
  case (spacing_set p sp)
  then show ?thesis using changed_stored[OF assms(3) _ setters_keep(1)] assms(4) by blast
next
  case (update_time_set p time)
  then show ?thesis using changed_stored[OF assms(3) _ setters_keep(2)] assms(4) by blast
next
  case elsewhere
  then show ?thesis using assms(3,4) by (simp add: pool_stored_def getPoolById_def Get_def)
qed

end

text \<open>
  C16 A stored pool stays well formed. From its creation on, through every sequence of swaps, changes of positions, the
  initialisation by its first position and the reset after its last, changes of the spacing and the update time, and writes to
  the rest of the store, the pool can be read, its two tokens differ, its spread factor lies in \<open>[0, 1)\<close>, its square root
  price is not negative and its tick is within the range; its id, tokens, spread factor and addresses never change.
\<close>

theorem pool_well_formed:
  assumes "sdk_dec_laws S" "pool_codec E marshal"
    and "NewConcentratedLiquidityPool A zeroTime poolId denom0 denom1 spacing factor = Ok p0"
    and "store_ok s" "setPool marshal p0 s = Ok s0" "(pool_step S E marshal poolId)\<^sup>*\<^sup>* s0 s1"
  shows "\<exists>p. getPoolById E s1 poolId = Ok p \<and> Token0 p \<noteq> Token1 p \<and> 0 \<le> SpreadFactor p \<and> SpreadFactor p < sdk_OneDec \<and>
    0 \<le> CurrentSqrtPrice p \<and> MinCurrentTick \<le> CurrentTick p \<and> CurrentTick p \<le> MaxTick \<and> pool_identity p = pool_identity p0"
proof -
  have p0: "pool_ok p0" "fst (pool_identity p0) = poolId"
    using assms(3) by (auto simp: NewConcentratedLiquidityPool_def pool_ok_def pool_identity_def ZeroDec_def MinCurrentTick_def
        MinInitializedTick_def MaxTick_def split: if_split_asm)
  note stored = pool_codec.pool_stored_def[OF assms(2)]
  have start: "pool_codec.pool_stored E (pool_identity p0) s0" by (rule pool_codec.setPool_stored[OF assms(2,4) p0(1) assms(5)])
  from assms(6) have "pool_codec.pool_stored E (pool_identity p0) s1"
  proof (induction rule: rtranclp_induct)
    case (step s s')
    then show ?case using pool_codec.step_stored[OF assms(2,1)] p0(2) by blast
  qed (rule start)
  then show ?thesis using p0(2) by (auto simp: stored pool_ok_def)
qed

text \<open>A new pool, and what a swap makes of it.\<close>

definition life_pool :: Pool where
  "life_pool = \<lparr>Address = NewPoolAddress sample_book 1,
     IncentivesAddress = NewModuleAddressWithPrefix sample_book ''concentratedliquidity'' ''incentives'' (Uint64ToBigEndian 1),
     SpreadRewardsAddress = NewModuleAddressWithPrefix sample_book ''concentratedliquidity'' ''spreadRewards'' (Uint64ToBigEndian 1),
     Id = 1, CurrentTickLiquidity = 0, Token0 = ''uion'', Token1 = ''uosmo'', CurrentSqrtPrice = ZeroDec, CurrentTick = 0,
     TickSpacing = 100, Pool_ExponentAtPriceOne = ExponentAtPriceOne, SpreadFactor = 0, LastLiquidityUpdate = 0\<rparr>"

definition life_swapped :: Pool where
  "life_swapped = life_pool\<lparr>CurrentTickLiquidity := 10 ^ 18, CurrentTick := 3000000, CurrentSqrtPrice := 2 * 10 ^ 36\<rparr>"

definition life_marshal :: "Pool \<Rightarrow> bytes outcome" where
  "life_marshal p = (if p = life_pool then Ok ''new'' else if p = life_swapped then Ok ''swapped'' else Err ''too long'')"

definition life_env :: "string cl_env" where
  "life_env = max_in_env\<lparr>unmarshal_Pool := (\<lambda>b. if b = ''new'' then Ok life_pool else if b = ''swapped'' then Ok life_swapped else Err ''unknown'')\<rparr>"

interpretation life: pool_codec life_env life_marshal
  by unfold_locales (auto simp: life_marshal_def life_env_def split: if_split_asm)

theorem pool_well_formed_witness:
  "\<exists>s0 s1 p. setPool life_marshal life_pool [] = Ok s0 \<and> pool_step plain_dec life_env life_marshal 1 s0 s1 \<and>
     getPoolById life_env s1 1 = Ok p \<and> CurrentTick p = 3000000 \<and> pool_identity p = pool_identity life_pool \<and> CurrentTick p \<le> MaxTick"
proof -
  have new: "NewConcentratedLiquidityPool sample_book 0 1 ''uion'' ''uosmo'' 100 0 = Ok life_pool"
    by (simp add: NewConcentratedLiquidityPool_def sdk_OneDec_def life_pool_def sample_book_def)
  have ids: "Id life_pool = 1" "Id life_swapped = 1" "life_swapped \<noteq> life_pool" by (simp_all add: life_swapped_def life_pool_def)
  let ?s0 = "[(KeyPool 1, ''new'')]" and ?s1 = "[(KeyPool 1, ''swapped'')]"
  have s: "setPool life_marshal life_pool [] = Ok ?s0" "setPool life_marshal life_swapped ?s0 = Ok ?s1"
    using ids by (simp_all add: setPool_def MustSet_def life_marshal_def)
  have g: "getPoolById life_env ?s0 1 = Ok life_pool" "getPoolById life_env ?s1 1 = Ok life_swapped"
    by (simp_all add: getPoolById_def Get_def store_get_def life_env_def)
  have "ApplySwap (10 ^ 18) 3000000 (2 * 10 ^ 36) life_pool = Ok life_swapped"
    by (simp add: ApplySwap_def BigDec_IsNegative_def MinCurrentTick_def MinInitializedTick_def MaxTick_def life_swapped_def)
  then have step: "pool_step plain_dec life_env life_marshal 1 ?s0 ?s1" using pool_step.swapped[OF g(1) _ s(2)] by blast
  have "store_ok ([] :: bytes store)" by (simp add: store_ok_def)
  moreover have "(pool_step plain_dec life_env life_marshal 1)\<^sup>*\<^sup>* ?s0 ?s1" using step by (rule r_into_rtranclp)
  ultimately have "\<exists>p. getPoolById life_env ?s1 1 = Ok p \<and> pool_identity p = pool_identity life_pool \<and> CurrentTick p \<le> MaxTick"
    using pool_well_formed[OF plain_dec.sdk_dec_laws_axioms life.pool_codec_axioms new _ s(1)] by blast
  with g(2)
  have "pool_identity life_swapped = pool_identity life_pool" "CurrentTick life_swapped \<le> MaxTick" by auto
  moreover have "CurrentTick life_swapped = 3000000" by (simp add: life_swapped_def)
  ultimately show ?thesis using s(1) step g(2) by blast
qed

end
