(* ===== verification/Spec2Isabelle.thy ===== *)
theory Spec2Isabelle
  imports Log_Accuracy Partial_Order Downtime_Detector Accum IBC_Rate_Limit Binary_Search Lockup_Spec CL_Pool_Life
begin

text \<open>
  A verification of the core of an Osmosis chain (\<^verbatim>\<open>src/\<close>, Go, with one CosmWasm contract in Rust): the
  arithmetic that every module computes with, the libraries that modules are built from, and the
  modules whose own logic does not rest on the pools, and of the pools the concentrated liquidity: its
  mathematics, the steps of a swap, the pool object and the walk over ticks.

  \<^bold>\<open>Parts of the program and their theories.\<close>

  \<^item> \<open>Prelude\<close>: results of Go functions (\<open>outcome\<close>: a value, an error or a panic), loops over slices
    (\<open>ofold\<close>, \<open>omap\<close>), \<^verbatim>\<open>math/big\<close> division and bit length, 64-bit words. \<open>Go_Text\<close>: decimal texts.
  \<^item> \<open>Checked_Arith\<close>, \<open>Fixed_Point\<close>: the interfaces of checked integers and of fixed-point rounding, as
    locales; \<open>Big_Int\<close> (\<^verbatim>\<open>osmomath/int.go\<close>) and \<open>Big_Dec\<close> (\<^verbatim>\<open>osmomath/decimal.go\<close>) interpret them on the
    model's operations and take their lemmas from there.
  \<^item> \<open>Big_Dec_Text\<close>: parsing, printing, encoding and sortable bytes. \<open>Big_Dec_Log\<close>: powers, roots,
    logarithms and \<^verbatim>\<open>exp2.go\<close>. \<open>Binary_Search\<close>: \<^verbatim>\<open>binary_search.go\<close> and \<^verbatim>\<open>rounding_direction.go\<close>, with
    bisection as a locale that both searches interpret.
  \<^item> \<open>Dag\<close>, \<open>Partial_Order\<close>: \<^verbatim>\<open>osmoutils/partialord\<close>, the order in which modules' blockers run.
  \<^item> \<open>KV_Store\<close>: the persistent store as an ordered table, \<^verbatim>\<open>osmoutils/store_helper.go\<close> and
    \<^verbatim>\<open>cache_ctx.go\<close>; its laws are the locale \<open>kv_table\<close>.
  \<^item> \<open>Epochs\<close> (\<^verbatim>\<open>x/epochs\<close>) and \<open>Downtime_Detector\<close> (\<^verbatim>\<open>x/downtime-detector\<close>): begin blockers over the
    store, hooks, queries and genesis.
  \<^item> \<open>Accum\<close> (\<^verbatim>\<open>osmoutils/accum\<close>): accumulators of rewards per share and the positions on them.
  \<^item> \<open>Rate_Limiter\<close> (the contract under \<^verbatim>\<open>x/ibc-rate-limit/contracts/rate-limiter\<close>) and \<open>IBC_Rate_Limit\<close>
    (\<^verbatim>\<open>x/ibc-rate-limit\<close>, \<^verbatim>\<open>osmoutils/ibc.go\<close>): the middleware and the contract it asks; the locale
    \<open>contract_host\<close> is the interface between them.

  \<^item> \<open>Sumtree\<close> (\<^verbatim>\<open>osmoutils/sumtree\<close>): the B+ tree of sums over the store. \<open>Sumtree_Nodes\<close> and \<open>Sumtree_Tower\<close>
    describe the nodes of a level and the levels above each other as the abstraction of a finite function, \<open>Sumtree_Queries\<close>
    the queries on it, \<open>Sumtree_Spec\<close> states the refinement over sequences of operations.
  \<^item> \<open>Lockup\<close> (\<^verbatim>\<open>x/lockup\<close>): locks, the queues of references to them, synthetic locks, accumulation per denomination
    and duration (a sum tree each), iterators and administration. \<open>Lockup_Books\<close> and \<open>Lockup_Inv\<close> state what the stores
    hold together, \<open>Lockup_Steps\<close> that each operation keeps it, \<open>Lockup_Spec\<close> the runs of the module. The locale
    \<open>lockup_laws\<close> is what the module relies on from the bank, the coins and the hooks.

  \<^item> \<open>Sdk_Dec\<close>: the SDK's decimals as a parameter, with their laws as the locale \<open>sdk_dec_laws\<close>, interpreted on the plain
    implementation \<open>plain_dec\<close>. \<open>CL_Tick\<close> (\<^verbatim>\<open>x/concentrated-liquidity/math/tick.go\<close>, \<^verbatim>\<open>precompute.go\<close>,
    \<^verbatim>\<open>osmomath/sqrt.go\<close>): ticks, prices, square roots; \<open>CL_Price\<close>, \<open>CL_Bucket\<close> and \<open>CL_Tick_Spec\<close> relate them to the
    geometric grid of prices. \<open>CL_Math\<close> (\<^verbatim>\<open>math.go\<close>) and \<open>CL_Swap\<close> (\<^verbatim>\<open>swapstrategy\<close>): amounts, next prices, the
    swap within a bucket in both directions and modes; \<open>CL_Swap_Spec\<close> proves what a step pays, once for both directions
    in the locale \<open>bucket_side\<close>. \<open>CL_Pool\<close> (\<^verbatim>\<open>model/pool.go\<close>, parts of \<^verbatim>\<open>tick.go\<close> and \<^verbatim>\<open>swaps.go\<close>): the pool
    object, tick ranges and the setup of a swap. \<open>Byte_Keys\<close> and \<open>CL_Ticks\<close> (\<^verbatim>\<open>types/keys.go\<close>): the keys of ticks and
    the iterators over them. \<open>CL_Max_In\<close>: \<^verbatim>\<open>ComputeMaxInAmtGivenMaxTicksCrossed\<close>, a walk over buckets on the store.

  \<^bold>\<open>How the model corresponds to the code.\<close> A struct is a record, a method a definition with the
  receiver as an argument that returns the changed receiver, an enumeration a datatype, an \<^verbatim>\<open>int64\<close> or
  \<^verbatim>\<open>uint64\<close> a 64-bit word, a \<^verbatim>\<open>big.Int\<close> an integer. A store is passed in and out. An error and a panic
  are different values, since the code recovers from panics in places (epoch hooks) and ignores errors
  in others (reverting a packet). Names are those of the source, with the type in front where two
  types have a method of the same name. Code of the SDK, of ibc-go and of wasmd is not part of the
  repository: the operations used are fields of a record that the definitions take (\<open>sdk_lib\<close>,
  \<open>sdk_num\<close>, \<open>host\<close>, \<open>denom_lib\<close>, \<open>amounts\<close>, \<open>lockup_env\<close>, \<open>sdk_dec\<close>, \<open>address_book\<close>, \<open>cl_env\<close>) or plain arguments, and a theorem that needs a law of theirs names it as
  a hypothesis.

  \<^bold>\<open>What is shown.\<close> Multiplication is the nearest representable decimal, rounded variants bracket the
  exact result, and every operation panics exactly on overflow; texts and encodings round-trip;
  logarithms end with the right integer part; bisection converges in logarithmically many steps. A
  total order of modules exists exactly if the constraints are acyclic and respects them. The epoch
  blocker refines a specification of ticks, epochs do not drift, a failing hook leaves no trace. The
  downtime query answers exactly from the block times. Shares of an accumulator are conserved over
  every sequence of calls, and a claim pays what was earned. In every reachable state of the rate
  limiter the net outflow respects the quotas, no packet passes the middleware without the contract's
  consent, and a timed-out transfer is taken off again. The sum tree refines a map from keys to amounts
  together with its range sums. In every reachable state of the lockup module its account holds
  exactly the locked coins, the accumulation of a denomination is the sum over the locks of at least the given
  duration, and a lock is not paid out before its duration has passed since unlocking began. Ticks and square root prices
  form a strictly increasing grid and convert into each other, a step of a swap never trades at a better price than the
  curve, adding and removing liquidity gives no profit, the iterators visit the initialized ticks of their side in order, a
  pool stays well formed, and an estimate never exceeds the pool's balance. Where the code does not do what it means to,
  the theorem shows what it does.

  \<^bold>\<open>Bounds.\<close> Loops are recursions on the slice or on the counter of the code. The topological sort has a
  fuel of one more than the number of nodes, which \<open>kahn_enough\<close> shows to suffice; the two loops that
  normalise the argument of a logarithm have no bound in the source and are functions with a termination
  measure. The recursion over the levels of a sum tree has the 65535 levels of its key format as fuel, which
  suffice for fewer than \<open>2 ^ 60\<close> operations, since the tree is then at most 61 levels high; the sums fit into 256
  bits if the amounts of all operations together, times 64, do. The accumulation stores of the lockup module have at most
  one key per duration and hold at most \<open>2 ^ 248\<close> of a denomination. The loops that fill the table of
  exponents have a fuel of 100, more than the 38 and 12 entries they make. Laws of the SDK's decimals are assumed for results
  below 300 bits, of which 315 are available. Ticks are integers; the sums that can leave an \<^verbatim>\<open>int64\<close> are wrapped. The
  other loops carry the iteration bounds of the source.

  \<^bold>\<open>Not modelled.\<close> JSON, YAML and protobuf code, the text form of times, events and logging where no result
  depends on them, gas, the message server and queries of the lockup module, denominations that contain another one followed
  by \<^verbatim>\<open>/node/\<close> (whose sum trees would overlap), of concentrated liquidity the swaps that settle balances, positions, spread rewards and
  incentives (crossing a tick there moves uptime accumulators, incentive records and linked balancer pools as well), and the
  modules that rest on pools (gamm, poolmanager, twap, incentives, superfluid, protorev, mint and others), which use the
  SDK's decimals and keepers throughout. Application wiring, upgrades, command line and generated code are glue.
\<close>

end
